(* ===== verification/Mile_Prelude.thy ===== *)
theory Mile_Prelude
  imports Main "HOL-Library.Word" "HOL-Library.Monad_Syntax" "HOL-Library.Sublist"
begin

text \<open>
  Shared vocabulary of the development: the C integer types, the result codes of
  \<^verbatim>\<open>common/def.h\<close>, and checked memory accesses.  A mapped or allocated region is the
  list of its cells; an access outside it is undefined behaviour in C and is the value
  \<^term>\<open>None\<close> here, so a theorem that an operation returns \<^term>\<open>Some\<close> is also a
  theorem that it stays inside the region.
\<close>

unbundle bit_operations_syntax

named_theorems mem_simps \<open>facts about checked memory accesses\<close>

section \<open>Machine integers\<close>

type_synonym u8 = "8 word"
type_synonym u16 = "16 word"
type_synonym u32 = "32 word"
type_synonym u64 = "64 word"

section \<open>Result codes\<close>

abbreviation (input) MILE_RETURN_SUCCESS :: int where
  "MILE_RETURN_SUCCESS \<equiv> 0"

abbreviation (input) ERROR_INSERT_REPEAT :: int where
  "ERROR_INSERT_REPEAT \<equiv> - 4002"

abbreviation (input) ERROR_HASH_CONFLICT :: int where
  "ERROR_HASH_CONFLICT \<equiv> - 4003"

abbreviation (input) ERROR_MMAP_SWITCH :: int where
  "ERROR_MMAP_SWITCH \<equiv> - 4007"

abbreviation (input) ERROR_EXCEED_LIMIT :: int where
  "ERROR_EXCEED_LIMIT \<equiv> - 3899"

abbreviation (input) ERROR_TIMEOUT :: int where
  "ERROR_TIMEOUT \<equiv> - 999"

section \<open>File names\<close>

text \<open>Names are built with \<^verbatim>\<open>sprintf\<close> in buffers of \<^verbatim>\<open>FILENAME_MAX_LENGTH\<close> bytes,
  terminator included; a longer name overruns the buffer.\<close>

abbreviation (input) FILENAME_MAX_LENGTH :: nat where
  "FILENAME_MAX_LENGTH \<equiv> 256"

definition sprintf_name :: "string \<Rightarrow> string option" where
  "sprintf_name s = (if length s < FILENAME_MAX_LENGTH then Some s else None)"

text \<open>The directory of a path: what comes before the last slash.\<close>

definition work_space_of :: "string \<Rightarrow> string option" where
  "work_space_of name =
     (if CHR ''/'' \<in> set name then Some (rev (tl (dropWhile (\<lambda>c. c \<noteq> CHR ''/'') (rev name)))) else None)"

section \<open>Checked memory\<close>

definition rd :: "'a list \<Rightarrow> nat \<Rightarrow> 'a option" where
  "rd xs i = (if i < length xs then Some (xs ! i) else None)"

definition wr :: "'a list \<Rightarrow> nat \<Rightarrow> 'a \<Rightarrow> 'a list option" where
  "wr xs i v = (if i < length xs then Some (xs[i := v]) else None)"

definition rd_range :: "'a list \<Rightarrow> nat \<Rightarrow> nat \<Rightarrow> 'a list option" where
  "rd_range xs a n = (if a + n \<le> length xs then Some (take n (drop a xs)) else None)"

definition wr_range :: "'a list \<Rightarrow> nat \<Rightarrow> 'a list \<Rightarrow> 'a list option" where
  "wr_range xs a ys =
     (if a + length ys \<le> length xs then Some (take a xs @ ys @ drop (a + length ys) xs) else None)"

lemma rd_Some_iff [mem_simps]: "rd xs i = Some v \<longleftrightarrow> i < length xs \<and> xs ! i = v"
  by (auto simp: rd_def)

lemma rd_in_range [mem_simps]: "i < length xs \<Longrightarrow> rd xs i = Some (xs ! i)"
  by (simp add: rd_def)

lemma wr_in_range [mem_simps]: "i < length xs \<Longrightarrow> wr xs i v = Some (xs[i := v])"
  by (simp add: wr_def)

lemma rd_range_in_range [mem_simps]:
  "a + n \<le> length xs \<Longrightarrow> rd_range xs a n = Some (take n (drop a xs))"
  by (simp add: rd_range_def)

lemma wr_range_in_range [mem_simps]:
  "a + length ys \<le> length xs \<Longrightarrow>
    wr_range xs a ys = Some (take a xs @ ys @ drop (a + length ys) xs)"
  by (simp add: wr_range_def)

lemma wr_range_length: "wr_range xs a ys = Some zs \<Longrightarrow> length zs = length xs"
  by (auto simp: wr_range_def split: if_splits)

text \<open>Reading a range back after a write: the range written, and every disjoint range.\<close>

lemma rd_wr_range_same:
  "wr_range xs a ys = Some zs \<Longrightarrow> n = length ys \<Longrightarrow> rd_range zs a n = Some ys"
  by (auto simp: wr_range_def rd_range_def split: if_splits)

lemma nth_wr_range:
  assumes "wr_range xs a ys = Some zs" and "i < length xs"
  shows "zs ! i = (if a \<le> i \<and> i < a + length ys then ys ! (i - a) else xs ! i)"
  using assms by (auto simp: wr_range_def nth_append min_def split: if_splits)

lemma rd_wr_range_disjoint:
  assumes "wr_range xs a ys = Some zs" and "b + n \<le> a \<or> a + length ys \<le> b"
  shows "rd_range zs b n = rd_range xs b n"
proof (cases "b + n \<le> length xs")
  case True
  have len: "length zs = length xs"
    using assms(1) by (rule wr_range_length)
  have "take n (drop b zs) = take n (drop b xs)"
    using True assms(2) len nth_wr_range [OF assms(1)] by (intro nth_equalityI) auto
  with True len show ?thesis by (simp add: rd_range_def)
next
  case False
  then show ?thesis using wr_range_length [OF assms(1)] by (simp add: rd_range_def)
qed

section \<open>Words as bounded naturals\<close>

lemma unat_less_iff: "(a :: 'a::len word) < b \<longleftrightarrow> unat a < unat b"
  by (simp add: word_less_nat_alt)

lemma unat_le_iff: "(a :: 'a::len word) \<le> b \<longleftrightarrow> unat a \<le> unat b"
  by (simp add: word_le_nat_alt)

lemma unat_div_8 [simp]: "unat ((x :: u32) div 8) = unat x div 8"
  by (simp add: unat_div)

lemma unat_mod_8 [simp]: "unat ((x :: u32) mod 8) = unat x mod 8"
  by (simp add: unat_mod)

lemma u32_bound [simp]: "unat (x :: u32) < 4294967296"
  using unsigned_less [where ?'a = nat, of x] by simp

lemma unat_plus_one_u32:
  "unat (x :: u32) + 1 < 4294967296 \<Longrightarrow> unat (x + 1) = unat x + 1"
  by (simp add: unat_word_ariths)

lemma uint_unat: "uint (x :: 'a::len word) = int (unat x)"
  by (simp)

lemma sint_small_u32:
  assumes "unat (x :: u32) < 2147483648"
  shows "sint x = int (unat x)"
proof -
  have "0 \<le> uint x" "uint x < 2147483648" using assms unfolding uint_unat by linarith+
  moreover have "- (2 ^ 31) \<le> (0 :: int)" by simp
  ultimately have "signed_take_bit 31 (uint x) = uint x"
    by (intro signed_take_bit_int_eq_self) (linarith | simp)+
  then show ?thesis unfolding sint_uint uint_unat by simp
qed

lemma sint_big_u32:
  assumes "2147483648 \<le> unat (x :: u32)"
  shows "sint x < 0"
proof -
  have u: "uint x < 4294967296" "2147483648 \<le> uint x"
    using assms u32_bound [of x] unfolding uint_unat by linarith+
  then have "uint x div 2147483648 = 1" by linarith
  then have "bit (uint x) 31" by (simp add: bit_iff_odd)
  then show ?thesis
    unfolding sint_uint by (simp add: signed_take_bit_negative_iff)
qed

lemma int_less_uint_iff [simp]: "int n < uint x \<longleftrightarrow> n < unat x"
  unfolding uint_unat by (rule of_nat_less_iff)

lemma unat_ucast_u16 [simp]: "unat (ucast (x :: u16) :: u32) = unat x"
proof -
  have "unat x < 2 ^ 16" using unsigned_less [where ?'a = nat, of x] by simp
  then have "take_bit 32 (unat x) = unat x" by (intro take_bit_nat_eq_self) simp
  then show ?thesis by (simp add: unsigned_ucast_eq)
qed

lemma unat_word_of_nat_u32: "n < 4294967296 \<Longrightarrow> unat (word_of_nat n :: u32) = n"
  by (simp add: unat_of_nat take_bit_nat_eq_self)

lemma u16_small: "unat (x :: u16) < 65536"
  using unsigned_less [where ?'a = nat, of x] by simp

section \<open>Little-endian bytes\<close>

definition le_bytes :: "nat \<Rightarrow> 'a::len word \<Rightarrow> u8 list" where
  "le_bytes n w = map (\<lambda>i. ucast (drop_bit (8 * i) w)) [0..<n]"

primrec le_word :: "u8 list \<Rightarrow> 'a::len word" where
  "le_word [] = 0"
| "le_word (b # bs) = ucast b OR push_bit 8 (le_word bs)"

lemma length_le_bytes [simp]: "length (le_bytes n w) = n"
  by (simp add: le_bytes_def)

lemma bit_le_word:
  "bit (le_word bs :: 'a::len word) k \<longleftrightarrow>
    k < LENGTH('a) \<and> k div 8 < length bs \<and> bit (bs ! (k div 8)) (k mod 8)"
proof (induction bs arbitrary: k)
  case Nil
  then show ?case by simp
next
  case (Cons b bs)
  show ?case
  proof (cases "k < 8")
    case True
    then show ?thesis by (auto simp: bit_simps)
  next
    case False
    then have "k div 8 = Suc ((k - 8) div 8)" "(k - 8) mod 8 = k mod 8"
      by (auto simp: le_div_geq le_mod_geq)
    moreover have "\<not> bit b k" using False by (auto dest: bit_imp_le_length)
    ultimately show ?thesis using False Cons.IH [of "k - 8"] by (auto simp: bit_simps)
  qed
qed

lemma le_word_le_bytes [simp]:
  assumes "LENGTH('a) = 8 * n"
  shows "le_word (le_bytes n (w :: 'a::len word)) = w"
proof (rule bit_word_eqI)
  fix k
  assume k: "k < LENGTH('a)"
  then have "k div 8 < n" using assms by (simp add: less_mult_imp_div_less mult.commute)
  moreover have "8 * (k div 8) + k mod 8 = k" by simp
  ultimately show "bit (le_word (le_bytes n w) :: 'a word) k = bit w k"
    using k by (simp add: bit_le_word le_bytes_def bit_simps)
qed

lemma le_bytes_le_word:
  assumes "LENGTH('a) = 8 * length bs"
  shows "le_bytes (length bs) (le_word bs :: 'a::len word) = bs"
proof (rule nth_equalityI)
  fix i assume i: "i < length (le_bytes (length bs) (le_word bs :: 'a word))"
  show "le_bytes (length bs) (le_word bs :: 'a word) ! i = bs ! i"
  proof (rule bit_word_eqI)
    fix k assume "k < LENGTH(8)"
    then have k: "k < 8" by simp
    have "8 * i + k < LENGTH('a)" using i k assms by simp
    with i k show "bit (le_bytes (length bs) (le_word bs :: 'a word) ! i) k = bit (bs ! i) k"
      by (simp add: le_bytes_def bit_simps bit_le_word)
  qed
qed simp

lemma concat_nth_blocks:
  assumes "list_all (\<lambda>xs. length xs = n) xss" and "i < n * length xss"
  shows "concat xss ! i = xss ! (i div n) ! (i mod n)"
  using assms
proof (induction xss arbitrary: i)
  case Nil
  then show ?case by simp
next
  case (Cons xs xss)
  show ?case
  proof (cases "i < n")
    case True
    with Cons.prems show ?thesis by (simp add: nth_append)
  next
    case False
    then obtain k where k: "i = n + k" by (auto simp: not_less dest: le_Suc_ex)
    have "0 < n" using Cons.prems(2) by (cases n) simp_all
    with k have "i div n = Suc (k div n)" "i mod n = k mod n"
      by (simp_all add: div_add_self1)
    with k Cons show ?thesis by (simp add: nth_append)
  qed
qed

section \<open>Signed integers\<close>

text \<open>The sum of two values of type \<^verbatim>\<open>int\<close>: one past the range of the type is undefined.\<close>

definition add_int :: "int \<Rightarrow> int \<Rightarrow> int option" where
  "add_int a b = (if - (2 ^ 31) \<le> a + b \<and> a + b < 2 ^ 31 then Some (a + b) else None)"

lemma add_int_eq: "add_int a b = Some c \<Longrightarrow> c = a + b"
  by (simp add: add_int_def split: if_splits)

section \<open>Decimal text\<close>

fun show_nat :: "nat \<Rightarrow> string" where
  "show_nat n =
     (if n < 10 then [char_of (48 + n)] else show_nat (n div 10) @ [char_of (48 + n mod 10)])"

declare show_nat.simps [simp del]

definition show_int :: "int \<Rightarrow> string" where
  "show_int v = (if v < 0 then CHR ''-'' # show_nat (nat (- v)) else show_nat (nat v))"

end
