(* ===== verification/File_Op.thy ===== *)
theory File_Op
  imports Mile_Prelude
begin

text \<open>
  \<^verbatim>\<open>common/file_op.c\<close>: opening, growing and mapping files, and the read and write loops.
  The operating system is a parameter: \<open>os\<close> says which calls succeed, and a \<^emph>\<open>script\<close>
  lists what successive \<^verbatim>\<open>read\<close> or \<^verbatim>\<open>write\<close> calls answer (a transfer of at most so many
  bytes, an interrupt, a failure).  A loop that still has work when its script is used up is
  \<open>Blocked\<close>; a division by zero is \<open>Trap\<close>.
\<close>

section \<open>Files and the operating system\<close>

type_synonym file_system = "string \<Rightarrow> u8 list option"

record os =
  os_open :: "string \<Rightarrow> bool"
  os_truncate :: "string \<Rightarrow> nat \<Rightarrow> bool"
  os_mmap :: "string \<Rightarrow> bool"

datatype io = Xfer nat | Eintr | Fail

datatype 'a outcome = Ret 'a | Trap | Blocked

record fd =
  fd_content :: "u8 list"
  fd_pos :: nat

text \<open>POSIX \<^verbatim>\<open>write\<close> at the file position: a gap past the end is filled with zeros, and
  writing nothing changes nothing.\<close>

definition fd_write :: "fd \<Rightarrow> u8 list \<Rightarrow> fd" where
  "fd_write f bs =
     (if bs = [] then f else
      let c = fd_content f @ replicate (fd_pos f - length (fd_content f)) 0
      in f\<lparr>fd_content := take (fd_pos f) c @ bs @ drop (fd_pos f + length bs) c,
           fd_pos := fd_pos f + length bs\<rparr>)"

definition fd_read :: "fd \<Rightarrow> nat \<Rightarrow> u8 list \<times> fd" where
  "fd_read f n = (let bs = take n (drop (fd_pos f) (fd_content f))
                  in (bs, f\<lparr>fd_pos := fd_pos f + length bs\<rparr>))"

section \<open>Opening and growing\<close>

text \<open>\<^verbatim>\<open>open_file\<close> with \<^verbatim>\<open>O_CREAT\<close>: a missing file is created empty.\<close>

definition open_file :: "os \<Rightarrow> file_system \<Rightarrow> string \<Rightarrow> (fd \<times> file_system) option" where
  "open_file os fs name =
     (if os_open os name
      then (case fs name of
              Some c \<Rightarrow> Some (\<lparr>fd_content = c, fd_pos = 0\<rparr>, fs)
            | None \<Rightarrow> Some (\<lparr>fd_content = [], fd_pos = 0\<rparr>, fs(name \<mapsto> [])))
      else None)"

text \<open>The size parameter is \<^verbatim>\<open>int32_t\<close> while every caller passes a \<^verbatim>\<open>uint32_t\<close>.\<close>

definition ensure_file_size ::
    "os \<Rightarrow> file_system \<Rightarrow> string \<Rightarrow> u8 list \<Rightarrow> u32 \<Rightarrow> int \<times> file_system" where
  "ensure_file_size os fs name c sz =
     (if int (length c) < sint sz
      then if os_truncate os name (nat (sint sz))
           then (0, fs(name \<mapsto> c @ replicate (nat (sint sz) - length c) 0))
           else (- 1, fs)
      else (0, fs))"

text \<open>The mapped region is the part of the file inside the requested size: touching a page
  past the end of the file raises a bus error, which the checked accesses report.
  \<^verbatim>\<open>mmap\<close> refuses an empty region.\<close>

definition get_mmap_memory ::
    "os \<Rightarrow> file_system \<Rightarrow> string \<Rightarrow> u32 \<Rightarrow> u8 list option \<times> file_system" where
  "get_mmap_memory os fs name sz =
     (case open_file os fs name of
        None \<Rightarrow> (None, fs)
      | Some (f, fs1) \<Rightarrow>
          (case ensure_file_size os fs1 name (fd_content f) sz of
             (r, fs2) \<Rightarrow>
               if r < 0 then (None, fs2)
               else if sz \<noteq> 0 \<and> os_mmap os name
                    then (map_option (take (unat sz)) (fs2 name), fs2)
                    else (None, fs2)))"

section \<open>Read and write loops\<close>

text \<open>\<^verbatim>\<open>(size_t)done\<close> for a \<^verbatim>\<open>ssize_t\<close>.\<close>

definition size_t :: "int \<Rightarrow> int" where
  "size_t n = n mod 2 ^ 64"

fun while_write ::
    "io list \<Rightarrow> u8 list \<Rightarrow> int \<Rightarrow> fd \<Rightarrow> (int \<times> fd \<times> io list) outcome" where
  "while_write [] buf done f =
     (if size_t done < int (length buf) then Blocked else Ret (done, f, []))"
| "while_write (r # s) buf done f =
     (if size_t done < int (length buf)
      then (case r of
              Fail \<Rightarrow> Ret (- 1, f, s)
            | Eintr \<Rightarrow> while_write s buf (done - 1) f
            | Xfer k \<Rightarrow>
                (let bs = take k (drop (nat done) buf)
                 in while_write s buf (done + int (length bs)) (fd_write f bs)))
      else Ret (done, f, r # s))"

fun unintr_write ::
    "io list \<Rightarrow> u8 list \<Rightarrow> nat \<Rightarrow> fd \<Rightarrow> (int \<times> fd \<times> io list) outcome" where
  "unintr_write [] buf done f =
     (if done < length buf then Blocked else Ret (int done, f, []))"
| "unintr_write (r # s) buf done f =
     (if done < length buf
      then (case r of
              Fail \<Rightarrow> Ret (- 1, f, s)
            | Eintr \<Rightarrow> unintr_write s buf done f
            | Xfer k \<Rightarrow>
                (let bs = take k (drop done buf)
                 in unintr_write s buf (done + length bs) (fd_write f bs)))
      else Ret (int done, f, r # s))"

fun unintr_read ::
    "io list \<Rightarrow> nat \<Rightarrow> u8 list \<Rightarrow> fd \<Rightarrow> (int \<times> u8 list \<times> fd \<times> io list) outcome" where
  "unintr_read [] count buf f =
     (if length buf < count then Blocked else Ret (int (length buf), buf, f, []))"
| "unintr_read (r # s) count buf f =
     (if length buf < count
      then (case r of
              Fail \<Rightarrow> Ret (- 1, buf, f, s)
            | Eintr \<Rightarrow> unintr_read s count buf f
            | Xfer k \<Rightarrow>
                (case fd_read f (min k (count - length buf)) of
                   (bs, f') \<Rightarrow>
                     if bs = [] then Ret (int (length buf), buf, f', s)
                     else unintr_read s count (buf @ bs) f'))
      else Ret (int (length buf), buf, f, r # s))"

fun unintr_pread ::
    "io list \<Rightarrow> u8 list \<Rightarrow> nat \<Rightarrow> nat \<Rightarrow> u8 list \<Rightarrow> (int \<times> u8 list \<times> io list) outcome" where
  "unintr_pread [] content count offset buf =
     (if length buf < count then Blocked else Ret (int (length buf), buf, []))"
| "unintr_pread (r # s) content count offset buf =
     (if length buf < count
      then (case r of
              Fail \<Rightarrow> Ret (- 1, buf, s)
            | Eintr \<Rightarrow> unintr_pread s content count offset buf
            | Xfer k \<Rightarrow>
                (let bs = take (min k (count - length buf)) (drop (offset + length buf) content)
                 in if bs = [] then Ret (int (length buf), buf, s)
                    else unintr_pread s content count offset (buf @ bs)))
      else Ret (int (length buf), buf, r # s))"

fun unintr_pwrite ::
    "io list \<Rightarrow> u8 list \<Rightarrow> nat \<Rightarrow> nat \<Rightarrow> u8 list \<Rightarrow> (int \<times> u8 list \<times> io list) outcome" where
  "unintr_pwrite [] buf done offset content =
     (if done < length buf then Blocked else Ret (int done, content, []))"
| "unintr_pwrite (r # s) buf done offset content =
     (if done < length buf
      then (case r of
              Fail \<Rightarrow> Ret (- 1, content, s)
            | Eintr \<Rightarrow> unintr_pwrite s buf done offset content
            | Xfer k \<Rightarrow>
                (let bs = take k (drop done buf);
                     f = fd_write \<lparr>fd_content = content, fd_pos = offset + done\<rparr> bs
                 in unintr_pwrite s buf (done + length bs) offset (fd_content f)))
      else Ret (int done, content, r # s))"

section \<open>Throttled writing\<close>

text \<open>The clock is the list of the millisecond readings that successive calls return.  The
  guard of the inner loop divides by the time elapsed since the start.\<close>

fun throttle :: "nat list \<Rightarrow> nat \<Rightarrow> nat \<Rightarrow> nat \<Rightarrow> nat \<Rightarrow> nat list outcome" where
  "throttle [] done start limit now =
     (if done > 0 \<and> now \<ge> start
      then if now = start then Trap
           else if done div (now - start) > limit div 1000 then Blocked else Ret []
      else Ret [])"
| "throttle (t # clock) done start limit now =
     (if done > 0 \<and> now \<ge> start
      then if now = start then Trap
           else if done div (now - start) > limit div 1000
                then throttle clock done start limit t else Ret (t # clock)
      else Ret (t # clock))"

lemma throttle_clock_shorter: "throttle clock d st limit now = Ret c \<Longrightarrow> length c \<le> length clock"
  by (induction clock d st limit now rule: throttle.induct) (auto split: if_splits)

function limited_write_loop ::
    "nat list \<Rightarrow> io list \<Rightarrow> u8 list \<Rightarrow> nat \<Rightarrow> nat \<Rightarrow> nat \<Rightarrow> nat \<Rightarrow> fd \<Rightarrow> (int \<times> fd) outcome" where
  "limited_write_loop clock s buf limit step_size start done f =
     (if done < length buf
      then (case clock of
              [] \<Rightarrow> Blocked
            | now # c \<Rightarrow>
                (case throttle c done start limit now of
                   Trap \<Rightarrow> Trap | Blocked \<Rightarrow> Blocked
                 | Ret c' \<Rightarrow>
                     (let step = min step_size (length buf - done)
                      in case while_write s (take step (drop done buf)) 0 f of
                           Trap \<Rightarrow> Trap | Blocked \<Rightarrow> Blocked
                         | Ret (r, f', s') \<Rightarrow>
                             if r < 0 then Ret (- 1, f')
                             else limited_write_loop c' s' buf limit step_size start (done + step) f')))
      else Ret (int done, f))"
  by pat_completeness auto
termination
  by (relation "measure (\<lambda>(clock, s, buf, limit, step_size, start, done, f). length clock)")
    (auto dest!: throttle_clock_shorter)

definition limited_write ::
    "nat list \<Rightarrow> io list \<Rightarrow> nat \<Rightarrow> u8 list \<Rightarrow> nat \<Rightarrow> fd \<Rightarrow> (int \<times> fd) outcome" where
  "limited_write clock s page_size buf limit f =
     (if limit = 0
      then (case while_write s buf 0 f of Ret (r, f', s') \<Rightarrow> Ret (r, f')
            | Trap \<Rightarrow> Trap | Blocked \<Rightarrow> Blocked)
      else (case clock of [] \<Rightarrow> Blocked
            | start # c \<Rightarrow> limited_write_loop c s buf limit (page_size * 256) start 0 f))"

text \<open>\<^verbatim>\<open>flush_memory\<close> opens without truncation and writes the region from the start.\<close>

definition flush_memory ::
    "os \<Rightarrow> nat list \<Rightarrow> io list \<Rightarrow> nat \<Rightarrow> file_system \<Rightarrow> string \<Rightarrow> u8 list option \<Rightarrow> nat \<Rightarrow>
     (int \<times> file_system) outcome" where
  "flush_memory os clock s page_size fs name mem write_limit =
     (case mem of None \<Rightarrow> Ret (0, fs)
      | Some m \<Rightarrow>
          (case open_file os fs name of
             None \<Rightarrow> Ret (- 1, fs)
           | Some (f, fs1) \<Rightarrow>
               (case limited_write clock s page_size m write_limit f of
                  Trap \<Rightarrow> Trap | Blocked \<Rightarrow> Blocked
                | Ret (r, f') \<Rightarrow> Ret (if r < 0 then - 1 else 0, fs1(name \<mapsto> fd_content f')))))"

text \<open>\<^verbatim>\<open>alloc_file_memory\<close>: a zeroed private region, then the file read into its front.\<close>

fun alloc_read_loop :: "io list \<Rightarrow> nat \<Rightarrow> u8 list \<Rightarrow> fd \<Rightarrow> u8 list option outcome" where
  "alloc_read_loop [] sz got f = (if length got < sz then Blocked else Ret (Some got))"
| "alloc_read_loop (r # s) sz got f =
     (if length got < sz
      then (case r of
              Fail \<Rightarrow> Ret None
            | Eintr \<Rightarrow> alloc_read_loop s sz got f
            | Xfer k \<Rightarrow>
                (case fd_read f (min k (sz - length got)) of
                   (bs, f') \<Rightarrow>
                     if bs = [] then Ret (Some got) else alloc_read_loop s sz (got @ bs) f'))
      else Ret (Some got))"

definition alloc_file_memory ::
    "os \<Rightarrow> io list \<Rightarrow> file_system \<Rightarrow> string \<Rightarrow> u32 \<Rightarrow> (u8 list option \<times> file_system) outcome" where
  "alloc_file_memory os s fs name sz =
     (case open_file os fs name of
        None \<Rightarrow> Ret (None, fs)
      | Some (f, fs1) \<Rightarrow>
          if sz = 0 \<or> \<not> os_mmap os name then Ret (None, fs1)
          else (case alloc_read_loop s (unat sz) [] f of
                  Trap \<Rightarrow> Trap | Blocked \<Rightarrow> Blocked
                | Ret None \<Rightarrow> Ret (None, fs1)
                | Ret (Some got) \<Rightarrow> Ret (Some (got @ replicate (unat sz - length got) 0), fs1)))"

section \<open>What the loops do\<close>

definition progress :: "io list \<Rightarrow> nat" where
  "progress s = (\<Sum>r\<leftarrow>s. case r of Xfer k \<Rightarrow> k | _ \<Rightarrow> 0)"

lemma progress_simps [simp]:
  "progress [] = 0" "progress (Xfer k # s) = k + progress s"
  "progress (Eintr # s) = progress s" "progress (Fail # s) = progress s"
  by (simp_all add: progress_def)

lemma fd_write_Nil [simp]: "fd_write f [] = f"
  by (simp add: fd_write_def)

lemma fd_write_append: "fd_write (fd_write f xs) ys = fd_write f (xs @ ys)"
proof (cases "xs = [] \<or> ys = []")
  case True
  then show ?thesis by auto
next
  case False
  then show ?thesis
    by (cases f) (auto simp: fd_write_def Let_def min_def ac_simps)
qed

lemma take_drop_split: "take k (drop d xs) @ drop (d + min (length xs - d) k) xs = drop d xs"
proof (cases "k \<le> length xs - d")
  case True
  then show ?thesis using append_take_drop_id [of k "drop d xs"] by (simp add: min_def add.commute)
next
  case False
  then show ?thesis by (cases "d \<le> length xs") simp_all
qed

lemma unintr_write_exact:
  assumes "Fail \<notin> set s" and "length buf - d \<le> progress s" and "d \<le> length buf"
  shows "\<exists>s'. unintr_write s buf d f = Ret (int (length buf), fd_write f (drop d buf), s')"
  using assms
proof (induction s buf d f rule: unintr_write.induct)
  case (1 buf d f)
  then show ?case by simp
next
  case (2 r s buf d f)
  show ?case
  proof (cases "d < length buf")
    case False
    with "2.prems" show ?thesis by simp
  next
    case True
    show ?thesis
    proof (cases r)
      case (Xfer k)
      let ?bs = "take k (drop d buf)"
      have "\<exists>s'. unintr_write s buf (d + length ?bs) (fd_write f ?bs) =
          Ret (int (length buf), fd_write (fd_write f ?bs) (drop (d + length ?bs) buf), s')"
        using "2.IH"(1) [OF True Xfer refl] "2.prems" Xfer by auto
      with True Xfer show ?thesis by (simp add: fd_write_append take_drop_split Let_def)
    qed (use True "2" in auto)
  qed
qed

lemma size_t_nonneg: "0 \<le> n \<Longrightarrow> n < 2 ^ 64 \<Longrightarrow> size_t n = n"
  by (simp add: size_t_def)

lemma while_write_exact:
  assumes "Fail \<notin> set s" and "Eintr \<notin> set s" and "length buf - nat d \<le> progress s"
    and "0 \<le> d" and "d \<le> int (length buf)" and "length buf < 2 ^ 63"
  shows "\<exists>s'. while_write s buf d f = Ret (int (length buf), fd_write f (drop (nat d) buf), s')"
  using assms
proof (induction s buf d f rule: while_write.induct)
  case (1 buf d f)
  then show ?case by (simp add: size_t_nonneg)
next
  case (2 r s buf d f)
  have st: "size_t d = d" using "2.prems" by (simp add: size_t_nonneg)
  show ?case
  proof (cases "d < int (length buf)")
    case False
    with "2.prems" st show ?thesis by simp
  next
    case True
    then obtain k where r: "r = Xfer k" using "2.prems" by (cases r) auto
    let ?bs = "take k (drop (nat d) buf)"
    have nd: "nat (d + int (length ?bs)) = nat d + length ?bs" using "2.prems"(4) by linarith
    have le: "length ?bs \<le> length buf - nat d" by simp
    have pr: "length buf - (nat d + length ?bs) \<le> progress s"
      using "2.prems"(3) r by (simp add: min_def) linarith
    have fe: "Fail \<notin> set s" "Eintr \<notin> set s" using "2.prems" by simp_all
    have bd: "0 \<le> d + int (length ?bs)" "d + int (length ?bs) \<le> int (length buf)"
      using le "2.prems"(4,5) by linarith+
    have "size_t d < int (length buf)" using True st by simp
    from "2.IH"(1) [OF this r refl fe _ bd "2.prems"(6), unfolded nd, OF pr]
    have "\<exists>s'. while_write s buf (d + int (length ?bs)) (fd_write f ?bs) =
        Ret (int (length buf), fd_write (fd_write f ?bs) (drop (nat d + length ?bs) buf), s')" .
    with True r st show ?thesis by (simp add: fd_write_append take_drop_split Let_def)
  qed
qed

definition xfers :: "io list \<Rightarrow> nat" where
  "xfers s = length (filter (\<lambda>r. case r of Xfer k \<Rightarrow> True | _ \<Rightarrow> False) s)"

lemma xfers_simps [simp]:
  "xfers [] = 0" "xfers (Xfer k # s) = Suc (xfers s)" "xfers (Eintr # s) = xfers s"
  "xfers (Fail # s) = xfers s"
  by (simp_all add: xfers_def)

text \<open>A read loop gathers what is left of the file, up to the count, however the transfers are
  cut; it needs at most one transfer per byte and one more to see the end of the file.\<close>

lemma read_step:
  assumes "prefix buf (take n (drop off c))" and "0 < k" and "length buf < n"
    and "bs = take (min k (n - length buf)) (drop (off + length buf) c)"
  shows "bs = [] \<Longrightarrow> buf = take n (drop off c)"
    and "prefix (buf @ bs) (take n (drop off c))"
    and "length (buf @ bs) \<le> n"
proof -
  from assms(1) obtain rest where rest: "take n (drop off c) = buf @ rest"
    by (auto simp: prefix_def)
  have "drop (length buf) (take n (drop off c)) = take (n - length buf) (drop (off + length buf) c)"
    by (simp add: drop_take add.commute)
  then have "rest = take (n - length buf) (drop (off + length buf) c)"
    by (simp add: rest)
  then have bs: "bs = take k rest" using assms(4) by simp
  show "buf = take n (drop off c)" if "bs = []"
    using that bs assms(2) rest by simp
  show "prefix (buf @ bs) (take n (drop off c))"
    by (simp add: rest bs take_is_prefix)
  show "length (buf @ bs) \<le> n" using assms(3,4) by simp
qed

lemma prefix_full: "prefix xs (take n ys) \<Longrightarrow> n \<le> length xs \<Longrightarrow> take n ys = xs"
  by (auto simp: prefix_def) (metis append.right_neutral append_eq_conv_conj length_append
      length_take linorder_not_less min.cobounded2 not_add_less1 trans_le_add1 le_antisym)

lemma unintr_pread_exact:
  assumes "Fail \<notin> set s" and "Xfer 0 \<notin> set s" and "n - length buf < xfers s" and "length buf \<le> n"
    and "prefix buf (take n (drop off c))"
  shows "\<exists>s'. unintr_pread s c n off buf =
    Ret (int (length (take n (drop off c))), take n (drop off c), s')"
  using assms
proof (induction s c n off buf rule: unintr_pread.induct)
  case (1 c n off buf)
  then show ?case by simp
next
  case (2 r s c n off buf)
  show ?case
  proof (cases "length buf < n")
    case False
    with "2.prems" prefix_full show ?thesis by fastforce
  next
    case True
    show ?thesis
    proof (cases r)
      case (Xfer k)
      then have "0 < k" using "2.prems" by (cases k) auto
      note step = read_step [OF "2.prems"(5) this True refl]
      define bs where "bs = take (min k (n - length buf)) (drop (off + length buf) c)"
      show ?thesis
      proof (cases "bs = []")
        case True
        with step(1) \<open>length buf < n\<close> Xfer show ?thesis by (simp add: bs_def Let_def)
      next
        case False
        have "n - length (buf @ bs) < xfers s"
          using "2.prems"(3) Xfer True False by (cases bs) auto
        then have "\<exists>s'. unintr_pread s c n off (buf @ bs) =
            Ret (int (length (take n (drop off c))), take n (drop off c), s')"
          using "2.IH"(1) [OF True Xfer bs_def False] step(2,3) "2.prems"(1,2)
          by (simp flip: bs_def)
        with True Xfer False show ?thesis by (simp add: Let_def flip: bs_def)
      qed
    qed (use True "2" in auto)
  qed
qed

section \<open>Mapping and flushing\<close>

definition pad_to :: "nat \<Rightarrow> u8 list \<Rightarrow> u8 list" where
  "pad_to n c = take n c @ replicate (n - length c) 0"

definition file_bytes :: "file_system \<Rightarrow> string \<Rightarrow> u8 list" where
  "file_bytes fs name = (case fs name of None \<Rightarrow> [] | Some c \<Rightarrow> c)"

text \<open>\<^verbatim>\<open>msync\<close> of the shared mapping: the front of the file holds the mapped bytes.\<close>

definition msync_file :: "file_system \<Rightarrow> string \<Rightarrow> u8 list \<Rightarrow> file_system" where
  "msync_file fs name m = fs(name \<mapsto> m @ drop (length m) (file_bytes fs name))"

definition mem_or_empty :: "u8 list option \<Rightarrow> u8 list" where
  "mem_or_empty m = (case m of None \<Rightarrow> [] | Some bs \<Rightarrow> bs)"

text \<open>Nothing is written to a mapping that failed, and the file behind it stays as it is.\<close>

definition sync_mapping :: "file_system \<Rightarrow> string \<Rightarrow> u8 list option \<Rightarrow> u8 list \<Rightarrow> file_system" where
  "sync_mapping fs name mapped m = (if mapped = None then fs else msync_file fs name m)"

definition os_ok :: "os \<Rightarrow> string \<Rightarrow> bool" where
  "os_ok os name \<longleftrightarrow> os_open os name \<and> os_mmap os name \<and> (\<forall>n. os_truncate os name n)"

lemma length_pad_to [simp]: "length (pad_to n c) = n"
  by (simp add: pad_to_def)

lemma pad_to_same [simp]: "pad_to (length c) c = c"
  by (simp add: pad_to_def)

lemma open_file_ok:
  "os_ok os name \<Longrightarrow> open_file os fs name =
    Some (\<lparr>fd_content = file_bytes fs name, fd_pos = 0\<rparr>, fs(name \<mapsto> file_bytes fs name))"
  by (auto simp: open_file_def os_ok_def file_bytes_def split: option.splits)

lemma get_mmap_memory_small:
  assumes os: "os_ok os name" and pos: "0 < unat sz" and small: "unat sz < 2147483648"
  shows "get_mmap_memory os fs name sz =
    (Some (pad_to (unat sz) (file_bytes fs name)),
     fs(name \<mapsto> file_bytes fs name @ replicate (unat sz - length (file_bytes fs name)) 0))"
proof -
  let ?c = "file_bytes fs name"
  have sz: "sz \<noteq> 0" using pos by auto
  have tr: "os_truncate os name n" "os_mmap os name" for n using os by (auto simp: os_ok_def)
  have "ensure_file_size os (fs(name \<mapsto> ?c)) name ?c sz =
      (0, fs(name \<mapsto> ?c @ replicate (unat sz - length ?c) 0))"
    by (cases "length ?c < unat sz") (simp_all add: ensure_file_size_def sint_small_u32 [OF small] tr)
  with os sz tr show ?thesis
    by (simp add: get_mmap_memory_def open_file_ok pad_to_def)
qed

lemma fd_write_at_start: "fd_write \<lparr>fd_content = c, fd_pos = 0\<rparr> bs =
    \<lparr>fd_content = bs @ drop (length bs) c, fd_pos = length bs\<rparr>"
  by (simp add: fd_write_def)

lemma flush_memory_unlimited:
  assumes "os_ok os name" and "Fail \<notin> set s" and "Eintr \<notin> set s" and "length m \<le> progress s"
    and "length m < 2 ^ 63"
  shows "flush_memory os clock s pg fs name (Some m) 0 =
    Ret (0, fs(name \<mapsto> m @ drop (length m) (file_bytes fs name)))"
proof -
  obtain s' where "while_write s m 0 \<lparr>fd_content = file_bytes fs name, fd_pos = 0\<rparr> =
      Ret (int (length m), fd_write \<lparr>fd_content = file_bytes fs name, fd_pos = 0\<rparr> m, s')"
    using while_write_exact [of s m 0] assms(2-5) by auto
  with assms(1) show ?thesis
    by (simp add: flush_memory_def open_file_ok limited_write_def fd_write_at_start)
qed

section \<open>Properties\<close>

text \<open>C30: \<^verbatim>\<open>unintr_pread\<close> returns exactly the bytes of the file from the offset, up to the
  count or the end of the file, for every way the kernel cuts the transfers and however many
  interrupts arrive, as long as no read fails and enough transfers happen.\<close>

theorem unintr_pread_returns_file_range:
  assumes "Fail \<notin> set s" and "Xfer 0 \<notin> set s" and "n < xfers s"
  shows "\<exists>s'. unintr_pread s c n off [] =
    Ret (int (length (take n (drop off c))), take n (drop off c), s')"
  using unintr_pread_exact [of s n "[]" off c] assms by simp

theorem unintr_pread_returns_file_range_witness:
  "\<exists>s'. unintr_pread [Xfer 1, Eintr, Xfer 1, Xfer 5, Eintr, Xfer 2] [10, 11, 12, 13] 3 1 [] =
    Ret (3, [11, 12, 13], s')"
  using unintr_pread_returns_file_range
    [of "[Xfer 1, Eintr, Xfer 1, Xfer 5, Eintr, Xfer 2]" 3 "[10, 11, 12, 13]" 1] by simp

text \<open>C31: a region flushed without a rate limit, with no write interrupted, is what a later
  mapping of the file of the same size shows: nothing of the region is lost or moved.\<close>

theorem flush_then_map_restores:
  assumes "os_ok os name" and "Fail \<notin> set s" and "Eintr \<notin> set s" and "length m \<le> progress s"
    and "unat sz = length m" and "0 < length m" and "length m < 2147483648"
  shows "\<exists>fs'. flush_memory os clock s pg fs name (Some m) 0 = Ret (0, fs') \<and>
    fst (get_mmap_memory os fs' name sz) = Some m"
proof -
  let ?fs = "fs(name \<mapsto> m @ drop (length m) (file_bytes fs name))"
  have "flush_memory os clock s pg fs name (Some m) 0 = Ret (0, ?fs)"
    using assms by (intro flush_memory_unlimited) simp_all
  moreover have "file_bytes ?fs name = m @ drop (length m) (file_bytes fs name)"
    by (simp add: file_bytes_def)
  ultimately show ?thesis
    using assms(1,5,6,7) by (simp add: get_mmap_memory_small pad_to_def)
qed

theorem flush_then_map_restores_witness:
  "\<exists>fs'. flush_memory \<lparr>os_open = \<lambda>_. True, os_truncate = \<lambda>_ _. True, os_mmap = \<lambda>_. True\<rparr> []
      [Xfer 2, Xfer 9] 4096 Map.empty ''f'' (Some [1, 2, 3]) 0 = Ret (0, fs') \<and>
    fst (get_mmap_memory \<lparr>os_open = \<lambda>_. True, os_truncate = \<lambda>_ _. True, os_mmap = \<lambda>_. True\<rparr>
      fs' ''f'' 3) = Some [1, 2, 3]"
  using flush_then_map_restores
    [of "\<lparr>os_open = \<lambda>_. True, os_truncate = \<lambda>_ _. True, os_mmap = \<lambda>_. True\<rparr>" "''f''"
      "[Xfer 2, Xfer 9]" "[1, 2, 3]" 3 "[]" 4096 Map.empty]
  by (simp add: os_ok_def)

lemma while_write_prefix:
  assumes "Fail \<notin> set s1" and "Eintr \<notin> set s1" and "0 \<le> d" and "nat d + progress s1 < length buf" and "length buf < 2 ^ 63"
  shows "while_write (s1 @ s) buf d f =
    while_write s buf (d + int (progress s1)) (fd_write f (take (progress s1) (drop (nat d) buf)))"
  using assms
proof (induction s1 arbitrary: d f)
  case (Cons r s1)
  then obtain k where r: "r = Xfer k" by (cases r) auto
  let ?bs = "take k (drop (nat d) buf)"
  have k: "length ?bs = k" using Cons.prems(4) r by simp
  have st: "size_t d < int (length buf)" using Cons.prems(3-5) by (simp add: size_t_nonneg)
  have nd: "nat (d + int k) = nat d + k" using Cons.prems(3) by simp
  have "while_write ((r # s1) @ s) buf d f = while_write (s1 @ s) buf (d + int k) (fd_write f ?bs)"
    using st k by (simp add: r Let_def)
  also have "\<dots> = while_write s buf (d + int k + int (progress s1))
      (fd_write (fd_write f ?bs) (take (progress s1) (drop (nat d + k) buf)))"
    using Cons.IH [of "d + int k" "fd_write f ?bs"] Cons.prems r nd by simp
  finally show ?case by (simp add: r fd_write_append take_add add.commute add.left_commute drop_drop)
qed simp

text \<open>C32: a write that is interrupted makes \<^verbatim>\<open>while_write\<close> step its count back by one.  If k bytes
  were written before the interrupt, the byte before the interrupt is written a second time and all
  that follow it are shifted by one, yet the call reports the length of the buffer; an interrupt
  before the first byte makes it report an error with nothing written.\<close>

theorem while_write_interrupt_duplicates_byte:
  assumes "Fail \<notin> set s1" and "Eintr \<notin> set s1" and "Fail \<notin> set s2" and "Eintr \<notin> set s2"
    and "progress s1 = k" and "k < length buf" and "length buf < 2 ^ 63" and "length buf - (k - 1) \<le> progress s2"
  shows "if k = 0 then while_write (s1 @ Eintr # s2) buf 0 f = Ret (- 1, f, s2)
    else \<exists>s'. while_write (s1 @ Eintr # s2) buf 0 f = Ret (int (length buf), fd_write f (take k buf @ drop (k - 1) buf), s')"
proof -
  have "while_write (s1 @ Eintr # s2) buf 0 f = while_write (Eintr # s2) buf (int k) (fd_write f (take k buf))"
    using while_write_prefix [of s1 0 buf "Eintr # s2" f] assms by simp
  also have "\<dots> = while_write s2 buf (int k - 1) (fd_write f (take k buf))"
    using assms(6,7) by (simp add: size_t_nonneg)
  finally have w: "while_write (s1 @ Eintr # s2) buf 0 f = while_write s2 buf (int k - 1) (fd_write f (take k buf))" .
  show ?thesis
  proof (cases "k = 0")
    case True
    have "\<not> size_t (- 1) < int (length buf)" using assms(7) by (simp add: size_t_def)
    then show ?thesis using True w by (cases s2) simp_all
  next
    case False
    have "nat (int k - 1) = k - 1" using False by simp
    then show ?thesis using while_write_exact [OF assms(3,4), of buf "int k - 1" "fd_write f (take k buf)"] False w assms(6-8)
      by (simp add: fd_write_append)
  qed
qed

lemma Suc4_eq_4: "Suc (Suc (Suc (Suc 0))) = 4"
  by simp

theorem while_write_interrupt_duplicates_byte_witness:
  "\<exists>s'. while_write [Xfer 2, Eintr, Xfer 2] [1, 2, 3] 0 \<lparr>fd_content = [], fd_pos = 0\<rparr> =
    Ret (3, \<lparr>fd_content = [1, 2, 2, 3], fd_pos = 4\<rparr>, s')"
  using while_write_interrupt_duplicates_byte [of "[Xfer 2]" "[Xfer 2]" 2 "[1, 2, 3]" "\<lparr>fd_content = [], fd_pos = 0\<rparr>"]
  by (simp add: fd_write_def Suc4_eq_4 del: while_write.simps)

text \<open>with a write limit set, a second chunk reached within the start millisecond divides by
  the zero elapsed time: the throttled write traps instead of writing the region.\<close>

theorem limited_write_traps_in_first_millisecond:
  assumes "0 < limit" and "0 < pg" and "pg * 256 < length buf" and "pg * 256 < 2 ^ 63"
    and "Fail \<notin> set s" and "Eintr \<notin> set s" and "pg * 256 \<le> progress s"
  shows "limited_write (start # t # start # clock) s pg buf limit f = Trap"
proof -
  let ?chunk = "take (pg * 256) buf"
  obtain s' where w: "while_write s ?chunk 0 f = Ret (int (pg * 256), fd_write f ?chunk, s')"
    using while_write_exact [of s ?chunk 0 f] assms by (auto simp: min_def)
  have "throttle (start # clock) 0 start limit t = Ret (start # clock)" by simp
  moreover have "throttle clock (pg * 256) start limit start = Trap"
    using assms(2) by (cases clock) simp_all
  moreover have "buf \<noteq> []" using assms(3) by auto
  ultimately show ?thesis
    using assms(1-3) w
    by (simp add: limited_write_def limited_write_loop.simps [of "t # start # clock"]
        limited_write_loop.simps [of "start # clock"] Let_def)
qed

theorem limited_write_traps_in_first_millisecond_witness:
  "limited_write [5, 5, 5] [Xfer 300] 1 (replicate 257 0) 1000 \<lparr>fd_content = [], fd_pos = 0\<rparr> = Trap"
  using limited_write_traps_in_first_millisecond
    [of 1000 1 "replicate 257 0" "[Xfer 300]" 5 5 "[]" "\<lparr>fd_content = [], fd_pos = 0\<rparr>"]
  by simp

text \<open>C33: a mapping of two gigabytes or more of a new file is not backed by the file: the
  requested size turns negative in \<^verbatim>\<open>ensure_file_size\<close>, the file stays empty, and no byte of
  the returned region may be touched.\<close>

theorem mmap_of_2GB_is_unbacked:
  assumes "os_ok os name" and "fs name = None" and "2147483648 \<le> unat sz"
  shows "get_mmap_memory os fs name sz = (Some [], fs(name \<mapsto> []))"
proof -
  have "sz \<noteq> 0" using assms(3) by auto
  moreover have "\<not> 0 < sint sz" using sint_big_u32 [OF assms(3)] by simp
  ultimately show ?thesis
    using assms by (simp add: get_mmap_memory_def open_file_def ensure_file_size_def os_ok_def)
qed

theorem mmap_of_2GB_is_unbacked_witness:
  "get_mmap_memory \<lparr>os_open = \<lambda>_. True, os_truncate = \<lambda>_ _. True, os_mmap = \<lambda>_. True\<rparr>
    Map.empty ''f'' 0x80000000 = (Some [], [''f'' \<mapsto> []])"
  using mmap_of_2GB_is_unbacked
    [of "\<lparr>os_open = \<lambda>_. True, os_truncate = \<lambda>_ _. True, os_mmap = \<lambda>_. True\<rparr>" "''f''" Map.empty
      "0x80000000"]
  by (simp add: os_ok_def)

end
