(* ===== verification/Bitmark.thy ===== *)
theory Bitmark
  imports File_Op
begin

text \<open>
  The delete and null marks of \<^verbatim>\<open>storage/docdb/bitmark.c\<close>: one bit per document, most
  significant bit of a byte first.  The mapped bytes are \<open>bm_mem\<close> (\<^term>\<open>None\<close> is the
  NULL pointer).  The abstraction \<open>bm_marks\<close> is the set of marked document numbers; every
  operation refines a set operation on it.
\<close>

section \<open>State\<close>

abbreviation (input) BYTE_SIZE :: u32 where
  "BYTE_SIZE \<equiv> 8"

record bitmark_manager =
  bm_file_name :: string
  bm_mem :: "u8 list option"
  bm_row_limit :: u32

definition BITMAPMASK :: "u8 list" where
  "BITMAPMASK = [0x80, 0x40, 0x20, 0x10, 0x08, 0x04, 0x02, 0x01]"

definition BITMARK_MMAP_SIZE :: "bitmark_manager \<Rightarrow> u32" where
  "BITMARK_MMAP_SIZE b = bm_row_limit b div BYTE_SIZE + 1"

section \<open>Operations\<close>

record bitmark_config =
  bc_work_space :: string
  bc_bitmark_name :: string
  bc_row_limit :: u32

text \<open>The assertion that the mapping succeeded is the \<^term>\<open>None\<close> case.\<close>

definition bitmark_init ::
    "os \<Rightarrow> file_system \<Rightarrow> bitmark_config \<Rightarrow> (bitmark_manager \<times> file_system) option" where
  "bitmark_init os fs config = do {
     name \<leftarrow> sprintf_name (bc_work_space config @ ''/'' @ bc_bitmark_name config @ ''.bit'');
     let b = \<lparr>bm_file_name = name, bm_mem = None, bm_row_limit = bc_row_limit config\<rparr>;
     let (mem, fs') = get_mmap_memory os fs name (BITMARK_MMAP_SIZE b);
     m \<leftarrow> mem;
     Some (b\<lparr>bm_mem := Some m\<rparr>, fs')
   }"

definition bitmark_set :: "bitmark_manager \<Rightarrow> u32 \<Rightarrow> (int \<times> bitmark_manager) option" where
  "bitmark_set b docid =
     (if docid \<ge> bm_row_limit b then Some (ERROR_EXCEED_LIMIT, b)
      else do {
        m \<leftarrow> bm_mem b;
        let quot = unat (docid div BYTE_SIZE);
        mask \<leftarrow> rd BITMAPMASK (unat (docid mod BYTE_SIZE));
        c \<leftarrow> rd m quot;
        if c AND mask = 0
        then do { m' \<leftarrow> wr m quot (c OR mask); Some (0, b\<lparr>bm_mem := Some m'\<rparr>) }
        else Some (0, b)
      })"

definition bitmark_clear :: "bitmark_manager \<Rightarrow> u32 \<Rightarrow> (int \<times> bitmark_manager) option" where
  "bitmark_clear b docid =
     (if docid \<ge> bm_row_limit b then Some (ERROR_EXCEED_LIMIT, b)
      else do {
        m \<leftarrow> bm_mem b;
        let quot = unat (docid div BYTE_SIZE);
        mask \<leftarrow> rd BITMAPMASK (unat (docid mod BYTE_SIZE));
        c \<leftarrow> rd m quot;
        if c AND mask \<noteq> 0
        then do { m' \<leftarrow> wr m quot (c AND NOT mask); Some (1, b\<lparr>bm_mem := Some m'\<rparr>) }
        else Some (0, b)
      })"

definition bitmark_query :: "bitmark_manager \<Rightarrow> u32 \<Rightarrow> int option" where
  "bitmark_query b docid =
     (if docid \<ge> bm_row_limit b then Some ERROR_EXCEED_LIMIT
      else do {
        m \<leftarrow> bm_mem b;
        mask \<leftarrow> rd BITMAPMASK (unat (docid mod BYTE_SIZE));
        c \<leftarrow> rd m (unat (docid div BYTE_SIZE));
        Some (if c AND mask \<noteq> 0 then 0 else 1)
      })"

definition bitmark_reset :: "bitmark_manager \<Rightarrow> (int \<times> bitmark_manager) option" where
  "bitmark_reset b = do {
     m \<leftarrow> bm_mem b;
     m' \<leftarrow> wr_range m 0 (replicate (unat (BITMARK_MMAP_SIZE b)) 0);
     Some (0, b\<lparr>bm_mem := Some m'\<rparr>)
   }"

text \<open>The loop of \<^verbatim>\<open>bitmark_recover\<close> that clears the bits \<open>rem\<close> to 7 of one byte.  It
  is entered with \<open>rem > 0\<close> only and leaves \<open>rem\<close> at 8.\<close>

function bitmark_recover_byte :: "nat \<Rightarrow> nat \<Rightarrow> u8 list \<Rightarrow> (nat \<times> u8 list) option" where
  "bitmark_recover_byte quot rem m =
     (if rem > 0 \<and> rem < 8 then do {
        c \<leftarrow> rd m quot;
        mask \<leftarrow> rd BITMAPMASK rem;
        m' \<leftarrow> wr m quot (c AND NOT mask);
        bitmark_recover_byte quot (rem + 1) m'
      } else Some (rem, m))"
  by pat_completeness auto
termination
  by (relation "measure (\<lambda>(quot, rem, m). 8 - rem)") auto

definition bitmark_recover :: "bitmark_manager \<Rightarrow> u32 \<Rightarrow> (int \<times> bitmark_manager) option" where
  "bitmark_recover b docid =
     (if docid \<ge> bm_row_limit b then Some (ERROR_EXCEED_LIMIT, b)
      else do {
        m \<leftarrow> bm_mem b;
        let quot = unat (docid div BYTE_SIZE);
        let size = unat (BITMARK_MMAP_SIZE b);
        (rem, m1) \<leftarrow> bitmark_recover_byte quot (unat (docid mod BYTE_SIZE)) m;
        let quot' = (if rem > 0 then quot + 1 else quot);
        m2 \<leftarrow> (if quot' < size then wr_range m1 quot' (replicate (size - quot') 0) else Some m1);
        Some (0, b\<lparr>bm_mem := Some m2\<rparr>)
      })"

definition count_map :: "int list" where
  "count_map = [0, 1, 1, 2, 1, 2, 2, 3, 1, 2, 2, 3, 2, 3, 3, 4]"

text \<open>\<^verbatim>\<open>char c\<close> is signed: \<open>c >> 4\<close> is the arithmetic shift.  \<^verbatim>\<open>count\<close> is an \<^verbatim>\<open>int\<close>.\<close>

definition bitmark_count_byte :: "int \<Rightarrow> u8 \<Rightarrow> int option" where
  "bitmark_count_byte count c = do {
     lo \<leftarrow> rd count_map (unat (c AND 0x0F));
     count' \<leftarrow> add_int count lo;
     hi \<leftarrow> rd count_map (unat (signed_drop_bit 4 c AND 0x0F));
     add_int count' hi
   }"

fun bitmark_count_loop :: "u8 list \<Rightarrow> nat \<Rightarrow> nat \<Rightarrow> int \<Rightarrow> int option" where
  "bitmark_count_loop m i 0 count = Some count"
| "bitmark_count_loop m i (Suc n) count = do {
     c \<leftarrow> rd m i;
     count' \<leftarrow> bitmark_count_byte count c;
     bitmark_count_loop m (Suc i) n count'
   }"

definition bitmark_count :: "bitmark_manager \<Rightarrow> int option" where
  "bitmark_count b = do {
     m \<leftarrow> bm_mem b;
     bitmark_count_loop m 0 (unat (BITMARK_MMAP_SIZE b)) 0
   }"

definition bitmark_release :: "file_system \<Rightarrow> bitmark_manager \<Rightarrow> bitmark_manager \<times> file_system" where
  "bitmark_release fs b =
     (case bm_mem b of
        None \<Rightarrow> (b, fs)
      | Some m \<Rightarrow> (b\<lparr>bm_mem := None\<rparr>, msync_file fs (bm_file_name b) m))"

definition bitmark_destroy :: "file_system \<Rightarrow> bitmark_manager \<Rightarrow> file_system" where
  "bitmark_destroy fs b = fs(bm_file_name b := None)"

definition bitmark_checkpoint :: "file_system \<Rightarrow> bitmark_manager \<Rightarrow> file_system" where
  "bitmark_checkpoint fs b =
     (case bm_mem b of None \<Rightarrow> fs | Some m \<Rightarrow> msync_file fs (bm_file_name b) m)"

section \<open>Well-formedness and the set of marked documents\<close>

definition bitmark_ok :: "bitmark_manager \<Rightarrow> bool" where
  "bitmark_ok b \<longleftrightarrow>
     (case bm_mem b of None \<Rightarrow> False
      | Some m \<Rightarrow> length m = unat (bm_row_limit b) div 8 + 1)"

definition bm_bit :: "u8 list \<Rightarrow> nat \<Rightarrow> bool" where
  "bm_bit m d \<longleftrightarrow> d div 8 < length m \<and> bit (m ! (d div 8)) (7 - d mod 8)"

definition bm_marks :: "bitmark_manager \<Rightarrow> nat set" where
  "bm_marks b = {d. d < unat (bm_row_limit b) \<and> bm_bit (the (bm_mem b)) d}"

lemma bitmark_okE:
  assumes "bitmark_ok b"
  obtains m where "bm_mem b = Some m" and "length m = unat (bm_row_limit b) div 8 + 1"
  using assms by (auto simp: bitmark_ok_def split: option.splits)

lemma unat_BITMARK_MMAP_SIZE: "unat (BITMARK_MMAP_SIZE b) = unat (bm_row_limit b) div 8 + 1"
proof -
  have "unat (bm_row_limit b div 8) + 1 < 4294967296"
    using u32_bound [of "bm_row_limit b"] unfolding unat_div_8 by linarith
  then show ?thesis by (simp add: BITMARK_MMAP_SIZE_def unat_plus_one_u32)
qed

section \<open>The bit masks\<close>

lemma length_BITMAPMASK [simp]: "length BITMAPMASK = 8"
  by (simp add: BITMAPMASK_def)

lemma BITMAPMASK_power:
  assumes "r < 8"
  shows "BITMAPMASK ! r = push_bit (7 - r) 1"
proof -
  have "r = 0 \<or> r = 1 \<or> r = 2 \<or> r = 3 \<or> r = 4 \<or> r = 5 \<or> r = 6 \<or> r = 7"
    using assms by linarith
  then show ?thesis
    by (elim disjE) (simp_all add: BITMAPMASK_def push_bit_eq_mult)
qed

lemma bit_BITMAPMASK: "r < 8 \<Longrightarrow> bit (BITMAPMASK ! r) n \<longleftrightarrow> n = 7 - r"
  by (auto simp: BITMAPMASK_power bit_simps)

lemma and_BITMAPMASK_eq_0:
  assumes "r < 8"
  shows "(c AND BITMAPMASK ! r = 0) \<longleftrightarrow> \<not> bit c (7 - r)"
proof
  assume "c AND BITMAPMASK ! r = 0"
  then have "\<not> bit (c AND BITMAPMASK ! r) (7 - r)" by simp
  with assms show "\<not> bit c (7 - r)" by (simp add: bit_simps bit_BITMAPMASK)
next
  assume "\<not> bit c (7 - r)"
  with assms show "c AND BITMAPMASK ! r = 0"
    by (intro bit_word_eqI) (auto simp: bit_simps bit_BITMAPMASK)
qed

lemma same_bit_iff:
  assumes "d div 8 = e div 8"
  shows "7 - d mod 8 = 7 - e mod 8 \<longleftrightarrow> (d :: nat) = e"
proof
  assume "7 - d mod 8 = 7 - e mod 8"
  moreover have "d mod 8 < 8" "e mod 8 < 8" by simp_all
  ultimately have "d mod 8 = e mod 8" by linarith
  with assms show "d = e" by (metis div_mult_mod_eq)
qed simp

lemma div_8_in_range: "d < n \<Longrightarrow> d div 8 < n div 8 + (1 :: nat)"
  using div_le_mono [of d n 8] by simp

section \<open>Each operation on the marks\<close>

lemma bm_bit_update:
  "q < length m \<Longrightarrow>
    bm_bit (m[q := c]) e \<longleftrightarrow> (if e div 8 = q then bit c (7 - e mod 8) else bm_bit m e)"
  by (auto simp: bm_bit_def nth_list_update)

lemma bm_bit_same_byte: "d div 8 < length m \<Longrightarrow> bm_bit m d \<longleftrightarrow> bit (m ! (d div 8)) (7 - d mod 8)"
  by (simp add: bm_bit_def)

lemma bm_bit_or_mask:
  assumes "d div 8 < length m"
  shows "bm_bit (m[d div 8 := m ! (d div 8) OR BITMAPMASK ! (d mod 8)]) e \<longleftrightarrow> e = d \<or> bm_bit m e"
proof (cases "e div 8 = d div 8")
  case True
  with assms show ?thesis
    by (auto simp: bm_bit_update bm_bit_same_byte bit_simps bit_BITMAPMASK same_bit_iff)
next
  case False
  with assms show ?thesis by (auto simp: bm_bit_update)
qed

lemma bm_bit_and_not_mask:
  assumes "d div 8 < length m"
  shows "bm_bit (m[d div 8 := m ! (d div 8) AND NOT (BITMAPMASK ! (d mod 8))]) e \<longleftrightarrow>
    e \<noteq> d \<and> bm_bit m e"
proof (cases "e div 8 = d div 8")
  case True
  with assms show ?thesis
    by (auto simp: bm_bit_update bm_bit_same_byte bit_simps bit_BITMAPMASK same_bit_iff)
next
  case False
  with assms show ?thesis by (auto simp: bm_bit_update)
qed

lemma bitmark_out_of_range:
  assumes "bm_row_limit b \<le> d"
  shows "bitmark_set b d = Some (ERROR_EXCEED_LIMIT, b)"
    and "bitmark_clear b d = Some (ERROR_EXCEED_LIMIT, b)"
    and "bitmark_query b d = Some ERROR_EXCEED_LIMIT"
    and "bitmark_recover b d = Some (ERROR_EXCEED_LIMIT, b)"
  using assms by (simp_all add: bitmark_set_def bitmark_clear_def bitmark_query_def bitmark_recover_def)

lemma bitmark_set_bits:
  assumes "bitmark_ok b" and "d < bm_row_limit b"
  obtains m' where "bitmark_set b d = Some (0, b\<lparr>bm_mem := Some m'\<rparr>)"
    and "length m' = unat (bm_row_limit b) div 8 + 1"
    and "\<And>e. bm_bit m' e \<longleftrightarrow> e = unat d \<or> bm_bit (the (bm_mem b)) e"
proof -
  from assms(1) obtain m where m: "bm_mem b = Some m" "length m = unat (bm_row_limit b) div 8 + 1"
    by (rule bitmark_okE)
  have q: "unat d div 8 < length m"
    using assms(2) m(2) by (simp add: unat_less_iff div_8_in_range)
  let ?m = "m[unat d div 8 := m ! (unat d div 8) OR BITMAPMASK ! (unat d mod 8)]"
  show ?thesis
  proof (cases "bm_bit m (unat d)")
    case True
    have "bitmark_set b d = Some (0, b\<lparr>bm_mem := Some m\<rparr>)"
      using True assms(2) m q
      by (simp add: bitmark_set_def mem_simps Let_def bm_bit_def and_BITMAPMASK_eq_0)
    then show ?thesis by (rule that) (use m True in auto)
  next
    case False
    have "bitmark_set b d = Some (0, b\<lparr>bm_mem := Some ?m\<rparr>)"
      using False assms(2) m q
      by (simp add: bitmark_set_def mem_simps Let_def bm_bit_def and_BITMAPMASK_eq_0)
    then show ?thesis by (rule that) (use m q in \<open>simp_all add: bm_bit_or_mask\<close>)
  qed
qed

lemma bitmark_clear_bits:
  assumes "bitmark_ok b" and "d < bm_row_limit b"
  obtains m' where
    "bitmark_clear b d =
       Some (if bm_bit (the (bm_mem b)) (unat d) then 1 else 0, b\<lparr>bm_mem := Some m'\<rparr>)"
    and "length m' = unat (bm_row_limit b) div 8 + 1"
    and "\<And>e. bm_bit m' e \<longleftrightarrow> e \<noteq> unat d \<and> bm_bit (the (bm_mem b)) e"
proof -
  from assms(1) obtain m where m: "bm_mem b = Some m" "length m = unat (bm_row_limit b) div 8 + 1"
    by (rule bitmark_okE)
  have q: "unat d div 8 < length m"
    using assms(2) m(2) by (simp add: unat_less_iff div_8_in_range)
  let ?m = "m[unat d div 8 := m ! (unat d div 8) AND NOT (BITMAPMASK ! (unat d mod 8))]"
  show ?thesis
  proof (cases "bm_bit m (unat d)")
    case False
    have "bitmark_clear b d = Some (0, b\<lparr>bm_mem := Some m\<rparr>)"
      using False assms(2) m q
      by (simp add: bitmark_clear_def mem_simps Let_def bm_bit_def and_BITMAPMASK_eq_0)
    then show ?thesis by (intro that [of m]) (use m False in auto)
  next
    case True
    have "bitmark_clear b d = Some (1, b\<lparr>bm_mem := Some ?m\<rparr>)"
      using True assms(2) m q
      by (simp add: bitmark_clear_def mem_simps Let_def bm_bit_def and_BITMAPMASK_eq_0)
    then show ?thesis
      by (intro that [of ?m]) (use m q True in \<open>simp_all add: bm_bit_and_not_mask\<close>)
  qed
qed

lemma bitmark_query_bits:
  assumes "bitmark_ok b" and "d < bm_row_limit b"
  shows "bitmark_query b d = Some (if bm_bit (the (bm_mem b)) (unat d) then 0 else 1)"
proof -
  from assms(1) obtain m where m: "bm_mem b = Some m" "length m = unat (bm_row_limit b) div 8 + 1"
    by (rule bitmark_okE)
  have q: "unat d div 8 < length m"
    using assms(2) m(2) by (simp add: unat_less_iff div_8_in_range)
  with assms(2) m show ?thesis
    by (simp add: bitmark_query_def mem_simps Let_def bm_bit_def and_BITMAPMASK_eq_0)
qed

section \<open>Counting and recovery\<close>


lemma count_map_nibble:
  assumes "n < 16"
  shows "rd count_map n = Some (int (length (filter (bit n) [0..<4])))"
proof -
  have "list_all (\<lambda>n. rd count_map n = Some (int (length (filter (bit n) [0..<4])))) [0..<16]"
    by code_simp
  with assms show ?thesis by (simp add: list_all_iff)
qed

lemma and_15_mask: "(c :: u8) AND 0x0F = take_bit 4 c"
  by (simp add: take_bit_eq_mask mask_eq_exp_minus_1)

lemma unat_nibble_bound: "unat (take_bit 4 (c :: u8)) < 16"
  using take_bit_nat_less_exp [of 4 "unat c"] by (simp add: unsigned_take_bit_eq)

lemma bit_unat_nibble: "bit (unat (take_bit 4 (c :: u8))) k \<longleftrightarrow> k < 4 \<and> bit c k"
  by (auto simp: unsigned_take_bit_eq bit_simps dest: bit_imp_le_length)

definition int_or_overflow :: "nat \<Rightarrow> int option" where
  "int_or_overflow n = (if n < 2 ^ 31 then Some (int n) else None)"

lemma add_int_nat: "add_int (int a) (int b) = int_or_overflow (a + b)"
  by (simp add: add_int_def int_or_overflow_def)

lemma int_or_overflow_bind:
  "Option.bind (int_or_overflow a) (\<lambda>c. add_int c (int b)) = int_or_overflow (a + b)"
  by (simp add: int_or_overflow_def add_int_def)

lemma bitmark_count_byte_popcount:
  "bitmark_count_byte (int k) c = int_or_overflow (k + length (filter (bit c) [0..<8]))"
proof -
  have lo: "filter (bit (unat (c AND 0x0F))) [0..<4] = filter (bit c) [0..<4]"
    by (intro filter_cong) (auto simp: and_15_mask bit_unat_nibble)
  have hi: "filter (bit (unat (signed_drop_bit 4 c AND 0x0F))) [0..<4] =
      filter (\<lambda>k. bit c (k + 4)) [0..<4]"
    by (intro filter_cong) (auto simp: and_15_mask bit_unat_nibble bit_signed_drop_bit_iff add.commute)
  have "[0..<8] = [0..<4] @ map (\<lambda>k. k + 4) [0..<4]"
    by (simp add: map_add_upt upt_add_eq_append [of 0 4 4, simplified])
  then have "length (filter (bit c) [0..<8]) =
      length (filter (bit c) [0..<4]) + length (filter (\<lambda>k. bit c (k + 4)) [0..<4])"
    by (simp add: filter_map o_def del: upt_rec_numeral)
  with lo hi show ?thesis
    by (simp add: bitmark_count_byte_def and_15_mask count_map_nibble unat_nibble_bound add_int_nat int_or_overflow_bind add.assoc
        del: upt_rec_numeral)
qed

lemma bitmark_recover_byte_bits:
  assumes "0 < r" and "r \<le> 8" and "q < length m"
  shows "\<exists>m'. bitmark_recover_byte q r m = Some (8, m') \<and> length m' = length m \<and>
    (\<forall>e. bm_bit m' e \<longleftrightarrow> bm_bit m e \<and> \<not> (e div 8 = q \<and> r \<le> e mod 8))"
  using assms
proof (induction q r m rule: bitmark_recover_byte.induct)
  case (1 q r m)
  show ?case
  proof (cases "r < 8")
    case True
    let ?d = "8 * q + r"
    let ?m = "m[q := m ! q AND NOT (BITMAPMASK ! r)]"
    have d: "?d div 8 = q" "?d mod 8 = r" using True by simp_all
    have bits: "bm_bit ?m e \<longleftrightarrow> e \<noteq> ?d \<and> bm_bit m e" for e
      using bm_bit_and_not_mask [of ?d m e] d "1.prems" by simp
    from "1.IH" [of "m ! q" "BITMAPMASK ! r" ?m] True "1.prems"
    obtain m' where m': "bitmark_recover_byte q (r + 1) ?m = Some (8, m')"
      "length m' = length m"
      "\<And>e. bm_bit m' e \<longleftrightarrow> bm_bit ?m e \<and> \<not> (e div 8 = q \<and> r + 1 \<le> e mod 8)"
      by (auto simp: mem_simps)
    have "bitmark_recover_byte q r m = Some (8, m')"
      using True "1.prems" m'(1) by (subst bitmark_recover_byte.simps) (simp add: mem_simps)
    moreover have "bm_bit m' e \<longleftrightarrow> bm_bit m e \<and> \<not> (e div 8 = q \<and> r \<le> e mod 8)" for e
    proof -
      have "e = ?d \<longleftrightarrow> e div 8 = q \<and> e mod 8 = r"
        using d by (metis mult_div_mod_eq)
      then show ?thesis by (auto simp: m'(3) bits)
    qed
    ultimately show ?thesis using m'(2) by blast
  next
    case False
    with "1.prems" have r: "r = 8" by simp
    have "\<not> 8 \<le> e mod 8" for e :: nat by (simp add: not_le)
    with r show ?thesis by (subst bitmark_recover_byte.simps) auto
  qed
qed

lemma bm_bit_zero_tail:
  assumes "wr_range m a (replicate n 0) = Some m'" and "a + n = length m"
  shows "bm_bit m' e \<longleftrightarrow> e div 8 < a \<and> bm_bit m e"
  using nth_wr_range [OF assms(1), of "e div 8"] wr_range_length [OF assms(1)] assms(2)
  by (auto simp: bm_bit_def split: if_splits)

lemma bitmark_recover_bits:
  assumes "bitmark_ok b" and "d < bm_row_limit b"
  obtains m' where "bitmark_recover b d = Some (0, b\<lparr>bm_mem := Some m'\<rparr>)"
    and "length m' = unat (bm_row_limit b) div 8 + 1"
    and "\<And>e. bm_bit m' e \<longleftrightarrow> e < unat d \<and> bm_bit (the (bm_mem b)) e"
proof -
  from assms(1) obtain m where m: "bm_mem b = Some m" "length m = unat (bm_row_limit b) div 8 + 1"
    by (rule bitmark_okE)
  define q r where "q = unat d div 8" and "r = unat d mod 8"
  define q' where "q' = (if 0 < r then q + 1 else q)"
  have q: "q < length m" and q': "q' \<le> length m"
    using assms(2) m(2) by (auto simp: unat_less_iff div_8_in_range q_def q'_def)
  have d: "unat d = 8 * q + r" "r < 8" by (simp_all add: q_def r_def)
  obtain m1 where m1: "bitmark_recover_byte q r m = Some (if 0 < r then 8 else 0, m1)"
    "length m1 = length m"
    "\<And>e. bm_bit m1 e \<longleftrightarrow> bm_bit m e \<and> \<not> (0 < r \<and> e div 8 = q \<and> r \<le> e mod 8)"
  proof (cases "0 < r")
    case True
    with bitmark_recover_byte_bits [of r q m] d(2) q show ?thesis by (auto intro: that)
  next
    case False
    then have "bitmark_recover_byte q r m = Some (0, m)" by (subst bitmark_recover_byte.simps) simp
    with False show ?thesis by (intro that [of m]) auto
  qed
  define m2 where "m2 = take q' m1 @ replicate (length m - q') 0"
  have w: "wr_range m1 q' (replicate (length m - q') 0) = Some m2"
    using q' m1(2) by (simp add: wr_range_def m2_def)
  have "\<not> q' < length m \<Longrightarrow> m2 = m1" using q' m1(2) by (simp add: m2_def)
  then have "bitmark_recover b d = Some (0, b\<lparr>bm_mem := Some m2\<rparr>)"
    using assms(2) m m1(1) w
    by (auto simp: bitmark_recover_def Let_def unat_BITMARK_MMAP_SIZE q'_def
        simp flip: q_def r_def)
  moreover have "bm_bit m2 e \<longleftrightarrow> e < unat d \<and> bm_bit m e" for e
  proof -
    obtain x y where e: "e = 8 * x + y" "y < 8"
      using that [of "e div 8" "e mod 8"] by simp
    have "x < q' \<and> \<not> (0 < r \<and> x = q \<and> r \<le> y) \<longleftrightarrow> 8 * x + y < 8 * q + r"
      using d(2) e(2) unfolding q'_def by auto
    then have "e div 8 < q' \<and> \<not> (0 < r \<and> e div 8 = q \<and> r \<le> e mod 8) \<longleftrightarrow> e < 8 * q + r"
      using e by simp
    then show ?thesis using bm_bit_zero_tail [OF w, of e] q' m1 d(1) by auto
  qed
  ultimately show ?thesis using that [of m2] m q' m1(2) by (simp add: m2_def)
qed

lemma bitmark_reset_bits:
  assumes "bitmark_ok b"
  obtains m' where "bitmark_reset b = Some (0, b\<lparr>bm_mem := Some m'\<rparr>)"
    and "length m' = unat (bm_row_limit b) div 8 + 1"
    and "\<And>e. \<not> bm_bit m' e"
proof -
  from assms obtain m where m: "bm_mem b = Some m" "length m = unat (bm_row_limit b) div 8 + 1"
    by (rule bitmark_okE)
  have "bitmark_reset b = Some (0, b\<lparr>bm_mem := Some (replicate (length m) 0)\<rparr>)"
    using m by (simp add: bitmark_reset_def unat_BITMARK_MMAP_SIZE wr_range_def)
  moreover have "\<not> bm_bit (replicate (length m) 0) e" for e
    by (simp add: bm_bit_def)
  ultimately show ?thesis using that m(2) by simp
qed

lemma bitmark_count_loop_sum:
  assumes "i + n \<le> length m" and "k < 2 ^ 31"
  shows "bitmark_count_loop m i n (int k) =
    int_or_overflow (k + (\<Sum>j\<leftarrow>[i..<i + n]. length (filter (bit (m ! j)) [0..<8])))"
  using assms
proof (induction n arbitrary: i k)
  case 0
  then show ?case by (simp add: int_or_overflow_def)
next
  case (Suc n)
  let ?p = "length (filter (bit (m ! i)) [0..<8])"
  have "bitmark_count_loop m i (Suc n) (int k) = Option.bind (int_or_overflow (k + ?p)) (bitmark_count_loop m (Suc i) n)"
    using Suc.prems by (simp add: mem_simps bitmark_count_byte_popcount)
  moreover have "[i..<i + Suc n] = i # [Suc i..<Suc i + n]"
    by (simp add: upt_conv_Cons)
  ultimately show ?case using Suc.IH [of "Suc i" "k + ?p"] Suc.prems
    by (cases "k + ?p < 2 ^ 31") (simp_all add: int_or_overflow_def add.assoc)
qed

lemma popcount_byte_card:
  assumes "j < length m"
  shows "length (filter (bit (m ! j)) [0..<8]) = card {d. d div 8 = j \<and> bm_bit m d}"
proof -
  have "{d. d div 8 = j \<and> bm_bit m d} = (\<lambda>k. 8 * j + (7 - k)) ` set (filter (bit (m ! j)) [0..<8])"
    (is "?L = ?f ` ?S")
  proof
    show "?f ` ?S \<subseteq> ?L"
    proof
      fix x
      assume "x \<in> ?f ` ?S"
      then obtain k where k: "k < 8" "bit (m ! j) k" "x = 8 * j + (7 - k)" by auto
      define y where "y = 7 - k"
      have y: "y < 8" "k = 7 - y" "x = 8 * j + y" using k by (simp_all add: y_def)
      have "x div 8 = j" "x mod 8 = y" using y(1,3) by simp_all
      with k(2) y(2) assms show "x \<in> ?L" by (simp add: bm_bit_def)
    qed
    show "?L \<subseteq> ?f ` ?S"
    proof
      fix d
      assume "d \<in> ?L"
      then have d: "d div 8 = j" "bit (m ! j) (7 - d mod 8)" by (auto simp: bm_bit_def)
      then have "d = ?f (7 - d mod 8)" using div_mult_mod_eq [of d 8] mod_less_divisor [of 8 d] by simp
      moreover have "7 - d mod 8 \<in> ?S" using d(2) by simp
      ultimately show "d \<in> ?f ` ?S" by blast
    qed
  qed
  moreover have "inj_on (\<lambda>k. 8 * j + (7 - k)) (set (filter (bit (m ! j)) [0..<8]))"
    by (auto simp: inj_on_def)
  ultimately have "card {d. d div 8 = j \<and> bm_bit m d} = card (set (filter (bit (m ! j)) [0..<8]))"
    by (simp only: card_image)
  also have "\<dots> = length (filter (bit (m ! j)) [0..<8])"
    by (intro distinct_card distinct_filter distinct_upt)
  finally show ?thesis ..
qed

lemma popcount_sum_card:
  assumes "n \<le> length m"
  shows "(\<Sum>j\<leftarrow>[0..<n]. length (filter (bit (m ! j)) [0..<8])) = card {d. d div 8 < n \<and> bm_bit m d}"
  using assms
proof (induction n)
  case 0
  then show ?case by simp
next
  case (Suc n)
  let ?A = "{d. d div 8 < n \<and> bm_bit m d}" and ?B = "{d. d div 8 = n \<and> bm_bit m d}"
  have fin: "finite {d. d div 8 < k}" for k :: nat
    by (rule finite_subset [of _ "{..<8 * k}"]) (auto simp: div_less_iff_less_mult mult.commute)
  have "finite ?A" "finite ?B" by (auto intro: finite_subset [OF _ fin [of "Suc n"]])
  moreover have "{d. d div 8 < Suc n \<and> bm_bit m d} = ?A \<union> ?B" "?A \<inter> ?B = {}"
    by auto
  ultimately have "card {d. d div 8 < Suc n \<and> bm_bit m d} = card ?A + card ?B"
    by (simp only: card_Un_disjoint)
  with Suc popcount_byte_card [of n m] show ?case by simp
qed

lemma bitmark_count_bits:
  assumes "bitmark_ok b"
  shows "bitmark_count b = int_or_overflow (card {d. bm_bit (the (bm_mem b)) d})"
proof -
  from assms obtain m where m: "bm_mem b = Some m" "length m = unat (bm_row_limit b) div 8 + 1"
    by (rule bitmark_okE)
  have "{d. d div 8 < length m \<and> bm_bit m d} = {d. bm_bit m d}"
    by (auto simp: bm_bit_def)
  with m popcount_sum_card [of "length m" m] bitmark_count_loop_sum [of 0 "length m" m 0]
  show ?thesis by (simp add: bitmark_count_def unat_BITMARK_MMAP_SIZE)
qed

section \<open>The mark-set interface\<close>

text \<open>
  What a component that keeps a mark per document relies on: the operations succeed on a
  valid state, keep it valid and keep its limit, and act on the set of marks as named; a
  document number past the limit is refused and changes nothing.
\<close>

locale doc_marks =
  fixes inv :: "'b \<Rightarrow> bool" and marks :: "'b \<Rightarrow> nat set" and limit :: "'b \<Rightarrow> u32"
    and set_mark clear_mark recover_marks :: "'b \<Rightarrow> u32 \<Rightarrow> (int \<times> 'b) option"
    and query_mark :: "'b \<Rightarrow> u32 \<Rightarrow> int option"
  assumes set_law: "inv b \<Longrightarrow> d < limit b \<Longrightarrow>
      \<exists>b'. set_mark b d = Some (0, b') \<and> inv b' \<and> limit b' = limit b \<and>
        marks b' = insert (unat d) (marks b)"
    and clear_law: "inv b \<Longrightarrow> d < limit b \<Longrightarrow>
      \<exists>b'. clear_mark b d = Some (if unat d \<in> marks b then 1 else 0, b') \<and> inv b' \<and>
        limit b' = limit b \<and> marks b' = marks b - {unat d}"
    and recover_law: "inv b \<Longrightarrow> d < limit b \<Longrightarrow>
      \<exists>b'. recover_marks b d = Some (0, b') \<and> inv b' \<and> limit b' = limit b \<and>
        marks b' = {e \<in> marks b. e < unat d}"
    and query_law: "inv b \<Longrightarrow> d < limit b \<Longrightarrow>
      query_mark b d = Some (if unat d \<in> marks b then 0 else 1)"
    and past_limit: "\<not> d < limit b \<Longrightarrow>
      set_mark b d = Some (ERROR_EXCEED_LIMIT, b) \<and> clear_mark b d = Some (ERROR_EXCEED_LIMIT, b) \<and>
      recover_marks b d = Some (ERROR_EXCEED_LIMIT, b) \<and> query_mark b d = Some ERROR_EXCEED_LIMIT"
begin

lemma query_after_set:
  assumes "inv b" and "d < limit b" and "set_mark b d = Some (r, b')" and "e < limit b"
  shows "query_mark b' e = (if e = d then Some 0 else query_mark b e)"
proof -
  have "e = d \<longleftrightarrow> unat e = unat d" by (rule word_unat_eq_iff)
  with assms set_law [of b d] query_law [of b' e] query_law [of b e] show ?thesis by auto
qed

lemma query_after_recover:
  assumes "inv b" and "d < limit b" and "recover_marks b d = Some (r, b')" and "e < limit b"
  shows "query_mark b' e = (if e < d then query_mark b e else Some 1)"
  using assms recover_law [of b d] query_law [of b' e] query_law [of b e]
  by (auto simp: unat_less_iff)

end

lemma bitmark_ok_mem:
  "length m = unat (bm_row_limit b) div 8 + 1 \<Longrightarrow> bitmark_ok (b\<lparr>bm_mem := Some m\<rparr>)"
  by (simp add: bitmark_ok_def)

interpretation bm: doc_marks bitmark_ok bm_marks bm_row_limit
  bitmark_set bitmark_clear bitmark_recover bitmark_query
proof unfold_locales
  fix b d
  assume b: "bitmark_ok b" and d: "d < bm_row_limit b"
  show "\<exists>b'. bitmark_set b d = Some (0, b') \<and> bitmark_ok b' \<and> bm_row_limit b' = bm_row_limit b \<and>
      bm_marks b' = insert (unat d) (bm_marks b)"
    by (rule bitmark_set_bits [OF b d])
      (use d in \<open>auto simp: bm_marks_def bitmark_ok_mem unat_less_iff\<close>)
  show "\<exists>b'. bitmark_clear b d = Some (if unat d \<in> bm_marks b then 1 else 0, b') \<and> bitmark_ok b' \<and>
      bm_row_limit b' = bm_row_limit b \<and> bm_marks b' = bm_marks b - {unat d}"
    by (rule bitmark_clear_bits [OF b d])
      (use d in \<open>auto simp: bm_marks_def bitmark_ok_mem unat_less_iff\<close>)
  show "\<exists>b'. bitmark_recover b d = Some (0, b') \<and> bitmark_ok b' \<and> bm_row_limit b' = bm_row_limit b \<and>
      bm_marks b' = {e \<in> bm_marks b. e < unat d}"
    by (rule bitmark_recover_bits [OF b d])
      (use d in \<open>auto simp: bm_marks_def bitmark_ok_mem unat_less_iff\<close>)
  show "bitmark_query b d = Some (if unat d \<in> bm_marks b then 0 else 1)"
    using d by (simp add: bitmark_query_bits [OF b d] bm_marks_def unat_less_iff)
next
  fix d and b :: bitmark_manager
  assume "\<not> d < bm_row_limit b"
  then show "bitmark_set b d = Some (ERROR_EXCEED_LIMIT, b) \<and>
      bitmark_clear b d = Some (ERROR_EXCEED_LIMIT, b) \<and>
      bitmark_recover b d = Some (ERROR_EXCEED_LIMIT, b) \<and> bitmark_query b d = Some ERROR_EXCEED_LIMIT"
    by (simp add: bitmark_out_of_range)
qed

section \<open>Runs of operations\<close>

datatype mark_op = MarkSet u32 | MarkClear u32 | MarkRecover u32

fun bitmark_exec :: "mark_op \<Rightarrow> bitmark_manager \<Rightarrow> (int \<times> bitmark_manager) option" where
  "bitmark_exec (MarkSet d) b = bitmark_set b d"
| "bitmark_exec (MarkClear d) b = bitmark_clear b d"
| "bitmark_exec (MarkRecover d) b = bitmark_recover b d"

fun bitmark_run :: "mark_op list \<Rightarrow> bitmark_manager \<Rightarrow> bitmark_manager option" where
  "bitmark_run [] b = Some b"
| "bitmark_run (x # xs) b = do { (r, b') \<leftarrow> bitmark_exec x b; bitmark_run xs b' }"

text \<open>The specification works on the plain set; an operation past the limit does nothing.\<close>

fun marks_spec :: "nat \<Rightarrow> mark_op \<Rightarrow> nat set \<Rightarrow> nat set" where
  "marks_spec n (MarkSet d) S = (if unat d < n then insert (unat d) S else S)"
| "marks_spec n (MarkClear d) S = (if unat d < n then S - {unat d} else S)"
| "marks_spec n (MarkRecover d) S = (if unat d < n then {e \<in> S. e < unat d} else S)"

definition bitmark_clean :: "bitmark_manager \<Rightarrow> bool" where
  "bitmark_clean b \<longleftrightarrow> (\<forall>d. bm_bit (the (bm_mem b)) d \<longrightarrow> d < unat (bm_row_limit b))"

lemma bitmark_exec_refines:
  assumes "bitmark_ok b"
  obtains r b' where "bitmark_exec x b = Some (r, b')" and "bitmark_ok b'"
    and "bm_row_limit b' = bm_row_limit b"
    and "bm_marks b' = marks_spec (unat (bm_row_limit b)) x (bm_marks b)"
proof (cases x)
  case (MarkSet d)
  then show ?thesis
    using that bm.set_law [OF assms, of d] bm.past_limit [of d b] assms
    by (cases "d < bm_row_limit b") (auto simp: unat_less_iff)
next
  case (MarkClear d)
  then show ?thesis
    using that bm.clear_law [OF assms, of d] bm.past_limit [of d b] assms
    by (cases "d < bm_row_limit b") (auto simp: unat_less_iff)
next
  case (MarkRecover d)
  then show ?thesis
    using that bm.recover_law [OF assms, of d] bm.past_limit [of d b] assms
    by (cases "d < bm_row_limit b") (auto simp: unat_less_iff)
qed

section \<open>Properties\<close>

text \<open>C18: every run of marking, unmarking and recovery operations on a valid bit map succeeds
  without touching memory outside it, and acts on the set of marked documents exactly as the
  set specification: marking inserts, unmarking removes, recovery to \<open>d\<close> keeps the marks
  below \<open>d\<close>, and document numbers past the limit change nothing.\<close>

theorem bitmark_run_refines_sets:
  assumes "bitmark_ok b"
  shows "\<exists>b'. bitmark_run xs b = Some b' \<and> bitmark_ok b' \<and> bm_row_limit b' = bm_row_limit b \<and>
    bm_marks b' = fold (marks_spec (unat (bm_row_limit b))) xs (bm_marks b)"
  using assms
proof (induction xs arbitrary: b)
  case Nil
  then show ?case by simp
next
  case (Cons x xs)
  obtain r b1 where b1: "bitmark_exec x b = Some (r, b1)" "bitmark_ok b1"
    "bm_row_limit b1 = bm_row_limit b"
    "bm_marks b1 = marks_spec (unat (bm_row_limit b)) x (bm_marks b)"
    using bitmark_exec_refines [OF Cons.prems] by blast
  with Cons.IH [OF b1(2)] show ?case by simp
qed

theorem bitmark_run_refines_sets_witness:
  "\<exists>b'. bitmark_run [MarkSet 3, MarkSet 9, MarkClear 3, MarkSet 12]
      \<lparr>bm_file_name = ''f'', bm_mem = Some [0, 0], bm_row_limit = 12\<rparr> = Some b' \<and>
    bitmark_ok b' \<and> bm_row_limit b' = 12 \<and>
    bm_marks b' = fold (marks_spec 12) [MarkSet 3, MarkSet 9, MarkClear 3, MarkSet 12]
      (bm_marks \<lparr>bm_file_name = ''f'', bm_mem = Some [0, 0], bm_row_limit = 12\<rparr>)"
  using bitmark_run_refines_sets
    [of "\<lparr>bm_file_name = ''f'', bm_mem = Some [0, 0], bm_row_limit = 12\<rparr>"
      "[MarkSet 3, MarkSet 9, MarkClear 3, MarkSet 12]"]
  by (simp add: bitmark_ok_def)

text \<open>\<^verbatim>\<open>bitmark_query\<close> answers 0 exactly for the marked documents, 1 for the unmarked ones
  and the limit error for document numbers past the limit.\<close>

theorem bitmark_query_answers_marks:
  assumes "bitmark_ok b"
  shows "bitmark_query b d =
    Some (if unat (bm_row_limit b) \<le> unat d then ERROR_EXCEED_LIMIT
          else if unat d \<in> bm_marks b then 0 else 1)"
  using bm.query_law [OF assms, of d] bm.past_limit [of d b]
  by (cases "d < bm_row_limit b") (auto simp: unat_less_iff)

theorem bitmark_query_answers_marks_witness:
  "bitmark_query \<lparr>bm_file_name = ''f'', bm_mem = Some [0x10, 0], bm_row_limit = 12\<rparr> 3 = Some 0"
  using bitmark_query_answers_marks
    [of "\<lparr>bm_file_name = ''f'', bm_mem = Some [0x10, 0], bm_row_limit = 12\<rparr>" 3]
  by (simp add: bitmark_ok_def bm_marks_def bm_bit_def bit_iff_odd)

text \<open>C29: \<^verbatim>\<open>bitmark_count\<close>, which adds table entries for the two halves of each byte to a 32-bit
  \<^verbatim>\<open>int\<close>, gives the number of marked documents if no padding bit past the limit is set and
  fewer than 2147483648 documents are marked; with more the sum overflows and the call is undefined.\<close>

theorem bitmark_count_is_cardinality:
  assumes "bitmark_ok b" and "bitmark_clean b"
  shows "bitmark_count b = (if card (bm_marks b) < 2 ^ 31 then Some (int (card (bm_marks b))) else None)"
proof -
  have "{d. bm_bit (the (bm_mem b)) d} = bm_marks b"
    using assms(2) by (auto simp: bm_marks_def bitmark_clean_def)
  with bitmark_count_bits [OF assms(1)] show ?thesis by (simp add: int_or_overflow_def)
qed

theorem bitmark_count_is_cardinality_witness:
  "bitmark_count \<lparr>bm_file_name = ''f'', bm_mem = Some [0x90, 0], bm_row_limit = 12\<rparr> = Some 2 \<and>
    card (bm_marks \<lparr>bm_file_name = ''f'', bm_mem = Some [0x90, 0], bm_row_limit = 12\<rparr>) = 2"
proof -
  let ?b = "\<lparr>bm_file_name = ''f'', bm_mem = Some [0x90, 0], bm_row_limit = 12\<rparr>"
  have "d < 12" if "bm_bit [0x90, 0] d" for d
  proof -
    have "d div 8 < 2" "d div 8 \<noteq> 1" using that by (auto simp: bm_bit_def)
    then have "d div 8 = 0" by simp
    then show ?thesis by simp
  qed
  then have "bitmark_clean ?b" by (simp add: bitmark_clean_def)
  moreover have "bitmark_count ?b = Some 2" by code_simp
  ultimately show ?thesis using bitmark_count_is_cardinality [of ?b] by (simp add: bitmark_ok_def split: if_splits)
qed

text \<open>releasing a bit map and initialising it again from the same directory restores it:
  every mark survives the restart.\<close>

theorem bitmark_restart_restores:
  assumes "bitmark_ok b" and "os_ok os (bm_file_name b)" and "length (bm_file_name b) < 256"
    and "bm_file_name b = bc_work_space config @ ''/'' @ bc_bitmark_name config @ ''.bit''"
    and "bc_row_limit config = bm_row_limit b"
  shows "\<exists>fs'. bitmark_init os (snd (bitmark_release fs b)) config = Some (b, fs')"
proof -
  from assms(1) obtain m where m: "bm_mem b = Some m" "length m = unat (bm_row_limit b) div 8 + 1"
    by (rule bitmark_okE)
  let ?sz = "BITMARK_MMAP_SIZE b"
  let ?fs = "msync_file fs (bm_file_name b) m"
  have sz: "unat ?sz = length m" using m(2) by (simp add: unat_BITMARK_MMAP_SIZE)
  have "unat (bm_row_limit b) div 8 < 536870912"
    using u32_bound [of "bm_row_limit b"] by linarith
  then have "fst (get_mmap_memory os ?fs (bm_file_name b) ?sz) =
      Some (pad_to (length m) (file_bytes ?fs (bm_file_name b)))"
    using assms(2) m(2) sz by (subst get_mmap_memory_small) simp_all
  moreover have "pad_to (length m) (file_bytes ?fs (bm_file_name b)) = m"
    by (simp add: msync_file_def file_bytes_def pad_to_def)
  ultimately obtain fs2 where map: "get_mmap_memory os ?fs (bm_file_name b) ?sz = (Some m, fs2)"
    by (metis prod.collapse)
  have name: "sprintf_name (bc_work_space config @ ''/'' @ bc_bitmark_name config @ ''.bit'') =
      Some (bm_file_name b)"
    using assms(3) unfolding assms(4) [symmetric] by (simp add: sprintf_name_def)
  have "BITMARK_MMAP_SIZE \<lparr>bm_file_name = n, bm_mem = None, bm_row_limit = bm_row_limit b\<rparr> = ?sz" for n
    by (simp add: BITMARK_MMAP_SIZE_def)
  with map m(1) show ?thesis
    by (simp add: bitmark_init_def bitmark_release_def name [simplified] assms(5))
qed

theorem bitmark_restart_restores_witness:
  "\<exists>fs'. bitmark_init \<lparr>os_open = \<lambda>_. True, os_truncate = \<lambda>_ _. True, os_mmap = \<lambda>_. True\<rparr>
      (snd (bitmark_release Map.empty
        \<lparr>bm_file_name = ''w/null.bit'', bm_mem = Some [0x90, 0], bm_row_limit = 12\<rparr>))
      \<lparr>bc_work_space = ''w'', bc_bitmark_name = ''null'', bc_row_limit = 12\<rparr> =
    Some (\<lparr>bm_file_name = ''w/null.bit'', bm_mem = Some [0x90, 0], bm_row_limit = 12\<rparr>, fs')"
  using bitmark_restart_restores
    [of "\<lparr>bm_file_name = ''w/null.bit'', bm_mem = Some [0x90, 0], bm_row_limit = 12\<rparr>"
      "\<lparr>os_open = \<lambda>_. True, os_truncate = \<lambda>_ _. True, os_mmap = \<lambda>_. True\<rparr>"
      "\<lparr>bc_work_space = ''w'', bc_bitmark_name = ''null'', bc_row_limit = 12\<rparr>" Map.empty]
  by (simp add: bitmark_ok_def os_ok_def)

end
