(* ===== verification/Low_Data.thy ===== *)
theory Low_Data
  imports Mile_Prelude
begin

text \<open>
  Field values (\<^verbatim>\<open>struct low_data_struct\<close>, \<^verbatim>\<open>enum field_types\<close> of \<^verbatim>\<open>common/def.h\<close>), their
  sizes and comparison, and the row codec of \<^verbatim>\<open>common/common_util.c\<close> that packs a row into
  one value for the data column.  A field type is its enum number, since the code casts a
  stored byte to the enum unchecked; a value is the bytes its pointer reaches and its length.
\<close>

section \<open>Types and values\<close>

type_synonym field_types = u8

abbreviation (input) HI_TYPE_NULL :: field_types where "HI_TYPE_NULL \<equiv> 0"
abbreviation (input) HI_TYPE_TINY :: field_types where "HI_TYPE_TINY \<equiv> 1"
abbreviation (input) HI_TYPE_SHORT :: field_types where "HI_TYPE_SHORT \<equiv> 2"
abbreviation (input) HI_TYPE_UNSIGNED_SHORT :: field_types where "HI_TYPE_UNSIGNED_SHORT \<equiv> 3"
abbreviation (input) HI_TYPE_LONG :: field_types where "HI_TYPE_LONG \<equiv> 4"
abbreviation (input) HI_TYPE_UNSIGNED_LONG :: field_types where "HI_TYPE_UNSIGNED_LONG \<equiv> 5"
abbreviation (input) HI_TYPE_FLOAT :: field_types where "HI_TYPE_FLOAT \<equiv> 6"
abbreviation (input) HI_TYPE_DOUBLE :: field_types where "HI_TYPE_DOUBLE \<equiv> 7"
abbreviation (input) HI_TYPE_LONGLONG :: field_types where "HI_TYPE_LONGLONG \<equiv> 10"
abbreviation (input) HI_TYPE_UNSIGNED_LONGLONG :: field_types where "HI_TYPE_UNSIGNED_LONGLONG \<equiv> 11"
abbreviation (input) HI_TYPE_VARCHAR :: field_types where "HI_TYPE_VARCHAR \<equiv> 18"
abbreviation (input) HI_TYPE_STRING :: field_types where "HI_TYPE_STRING \<equiv> 254"

record low_data =
  ld_field_name :: "u8 list"
  ld_type :: field_types
  ld_data :: "u8 list"
  ld_len :: u32

definition get_unit_size :: "field_types \<Rightarrow> u32" where
  "get_unit_size t =
     (if t = HI_TYPE_TINY then 1
      else if t = HI_TYPE_SHORT then 2
      else if t = HI_TYPE_UNSIGNED_SHORT then 2
      else if t = HI_TYPE_LONG then 4
      else if t = HI_TYPE_UNSIGNED_LONG then 4
      else if t = HI_TYPE_LONGLONG then 8
      else if t = HI_TYPE_UNSIGNED_LONGLONG then 8
      else if t = HI_TYPE_FLOAT then 4
      else if t = HI_TYPE_DOUBLE then 8
      else if t = HI_TYPE_VARCHAR then 0
      else if t = HI_TYPE_STRING then 0
      else 0)"

text \<open>The first \<open>ld_len\<close> bytes behind the data pointer.\<close>

definition ld_bytes :: "low_data \<Rightarrow> u8 list option" where
  "ld_bytes d = rd_range (ld_data d) 0 (unat (ld_len d))"

definition ld_ok :: "low_data \<Rightarrow> bool" where
  "ld_ok d \<longleftrightarrow> length (ld_data d) = unat (ld_len d)"

lemma ld_bytes_ok [simp]: "ld_ok d \<Longrightarrow> ld_bytes d = Some (ld_data d)"
  by (simp add: ld_bytes_def ld_ok_def rd_range_def)

definition ld_of :: "u8 list \<Rightarrow> low_data" where
  "ld_of v = \<lparr>ld_field_name = [], ld_type = HI_TYPE_NULL, ld_data = v,
     ld_len = word_of_nat (length v)\<rparr>"

definition ld_value :: "low_data \<Rightarrow> u8 list" where
  "ld_value d = take (unat (ld_len d)) (ld_data d)"

lemma ld_of_simps:
  "length v < 4294967296 \<Longrightarrow> ld_ok (ld_of v)"
  "length v < 4294967296 \<Longrightarrow> unat (ld_len (ld_of v)) = length v"
  "ld_data (ld_of v) = v"
  by (simp_all add: ld_ok_def ld_of_def unat_word_of_nat_u32)

text \<open>A value whose pointer reaches at least its length, as a decoded field's does.\<close>

definition ld_valid :: "low_data \<Rightarrow> bool" where
  "ld_valid d \<longleftrightarrow> unat (ld_len d) \<le> length (ld_data d)"

lemma ld_valid_simps [simp]:
  assumes "ld_valid d"
  shows "ld_bytes d = Some (ld_value d)" and "length (ld_value d) = unat (ld_len d)"
  using assms by (simp_all add: ld_valid_def ld_bytes_def ld_value_def rd_range_def)

lemma ld_ok_valid: "ld_ok d \<Longrightarrow> ld_valid d"
  by (simp add: ld_ok_def ld_valid_def)

end
