(* ===== verification/Doc_Store.thy ===== *)
theory Doc_Store
  imports Mile_Prelude
begin

text \<open>
  The contract of a column store, as \<^verbatim>\<open>filter_index.c\<close> and \<^verbatim>\<open>data_field.c\<close> use it: a
  partial map from document numbers to byte strings (a missing entry is the null value), with
  a write of one document, a read, and the recovery that drops every document from a given
  number on.  \<^verbatim>\<open>storage.c\<close> (fixed length) and \<^verbatim>\<open>vstorage.c\<close> (variable length)
  both provide it.
\<close>

locale doc_store =
  fixes inv :: "'s \<Rightarrow> bool" and cells :: "'s \<Rightarrow> nat \<rightharpoonup> u8 list" and limit :: "'s \<Rightarrow> u32"
    and fits :: "'s \<Rightarrow> u8 list \<Rightarrow> bool"
    and put :: "'s \<Rightarrow> u8 list \<Rightarrow> u32 \<Rightarrow> (int \<times> 's) option"
    and get :: "'s \<Rightarrow> u32 \<Rightarrow> u8 list option"
    and cut :: "'s \<Rightarrow> u32 \<Rightarrow> (int \<times> 's) option"
  assumes put_law: "inv s \<Longrightarrow> d < limit s \<Longrightarrow> fits s v \<Longrightarrow>
      \<exists>s'. put s v d = Some (0, s') \<and> inv s' \<and> limit s' = limit s \<and>
        cells s' = (cells s)(unat d \<mapsto> v)"
    and cut_law: "inv s \<Longrightarrow> d < limit s \<Longrightarrow>
      \<exists>s'. cut s d = Some (0, s') \<and> inv s' \<and> limit s' = limit s \<and>
        cells s' = cells s |` {..<unat d}"
    and get_law: "inv s \<Longrightarrow> d < limit s \<Longrightarrow>
      get s d = Some (case cells s (unat d) of None \<Rightarrow> [] | Some v \<Rightarrow> v)"
begin

lemma get_after_put:
  assumes "inv s" and "d < limit s" and "fits s v" and "put s v d = Some (r, s')" and "e < limit s"
  shows "r = 0 \<and> get s' e = (if e = d then Some v else get s e)"
proof -
  have "e = d \<longleftrightarrow> unat e = unat d" by (rule word_unat_eq_iff)
  with assms put_law [of s d v] get_law [of s' e] get_law [of s e] show ?thesis by auto
qed

lemma get_after_cut:
  assumes "inv s" and "d < limit s" and "cut s d = Some (r, s')" and "e < limit s"
  shows "r = 0 \<and> get s' e = (if e < d then get s e else Some [])"
  using assms cut_law [of s d] get_law [of s' e] get_law [of s e]
  by (auto simp: unat_less_iff restrict_map_def)

text \<open>Writes to different documents commute, as far as any read can tell.\<close>

lemma puts_commute:
  assumes "inv s" and "d < limit s" and "e < limit s" and "d \<noteq> e"
    and "fits s v" and "fits s w"
    and "put s v d = Some (r1, s1)" and "fits s1 w" and "put s1 w e = Some (r2, s2)"
    and "put s w e = Some (r3, t1)" and "fits t1 v" and "put t1 v d = Some (r4, t2)"
    and "x < limit s"
  shows "get s2 x = get t2 x"
proof -
  have s1: "inv s1" "limit s1 = limit s" using assms put_law [of s d v] by auto
  have t1: "inv t1" "limit t1 = limit s" using assms put_law [of s e w] by auto
  have "get s2 x = (if x = e then Some w else if x = d then Some v else get s x)"
    using assms s1 get_after_put [of s d v r1 s1 x] get_after_put [of s1 e w r2 s2 x] by auto
  moreover have "get t2 x = (if x = d then Some v else if x = e then Some w else get s x)"
    using assms t1 get_after_put [of s e w r3 t1 x] get_after_put [of t1 d v r4 t2 x] by auto
  ultimately show ?thesis using assms(4) by auto
qed

text \<open>Recovery undoes every write at or past its document number: crash recovery restores
  what a reader saw before them.\<close>

lemma cut_undoes_put:
  assumes "inv s" and "d < limit s" and "fits s v" and "put s v d = Some (r, s')"
    and "c \<le> d" and "cut s' c = Some (r', s2)" and "cut s c = Some (r2, t2)" and "x < limit s"
  shows "get s2 x = get t2 x"
proof -
  have s': "inv s'" "limit s' = limit s" using assms put_law [of s d v] by auto
  have "c < limit s" using assms(5,2) by (rule order_le_less_trans)
  then show ?thesis
    using assms s' get_after_cut [of s' c r' s2 x] get_after_cut [of s c r2 t2 x]
      get_after_put [of s d v r s' x] by auto
qed

end

end
