(* ===== verification/Storage.thy ===== *)
theory Storage
  imports Bitmark Low_Data Doc_Store
begin

text \<open>
  Fixed-length columns, \<^verbatim>\<open>storage/docdb/storage.c\<close>: cells of \<open>st_value_size\<close> bytes in one
  mapped region, and a null mark per document.  Offsets are computed in 32-bit unsigned
  arithmetic, as the C expression \<^verbatim>\<open>value_size * docid\<close> is.
\<close>

section \<open>State\<close>

record storage_config =
  sc_work_space :: string
  sc_storage_name :: string
  sc_unit_size :: u16
  sc_row_limit :: u32

record storage_manager =
  st_file_name :: string
  st_value_size :: u16
  st_row_limit :: u32
  st_mem :: "u8 list option"
  st_null :: bitmark_manager

definition STORAGE_MMAP_SIZE :: "u16 \<Rightarrow> u32 \<Rightarrow> u32" where
  "STORAGE_MMAP_SIZE value_size row_limit = ucast value_size * row_limit"

definition st_offset :: "storage_manager \<Rightarrow> u32 \<Rightarrow> nat" where
  "st_offset s docid = unat (ucast (st_value_size s) * docid)"

section \<open>Operations\<close>

definition storage_init ::
    "os \<Rightarrow> file_system \<Rightarrow> storage_config \<Rightarrow> (storage_manager \<times> file_system) option" where
  "storage_init os fs config = do {
     name \<leftarrow> sprintf_name (sc_work_space config @ ''/'' @ sc_storage_name config @ ''.dat'');
     let (mem, fs1) = get_mmap_memory os fs name
       (STORAGE_MMAP_SIZE (sc_unit_size config) (sc_row_limit config));
     m \<leftarrow> mem;
     (b, fs2) \<leftarrow> bitmark_init os fs1
       \<lparr>bc_work_space = sc_work_space config, bc_bitmark_name = ''null'',
        bc_row_limit = sc_row_limit config\<rparr>;
     Some (\<lparr>st_file_name = name, st_value_size = sc_unit_size config,
            st_row_limit = sc_row_limit config, st_mem = Some m, st_null = b\<rparr>, fs2)
   }"

definition storage_insert ::
    "storage_manager \<Rightarrow> low_data \<Rightarrow> u32 \<Rightarrow> (int \<times> storage_manager) option" where
  "storage_insert s data docid = do {
     s1 \<leftarrow> (if ld_len data \<noteq> 0
           then do { (r, b) \<leftarrow> bitmark_set (st_null s) docid; Some (s\<lparr>st_null := b\<rparr>) }
           else Some s);
     if ld_len data = 0 then Some (0, s1)
     else do {
       m \<leftarrow> st_mem s1;
       bs \<leftarrow> ld_bytes data;
       m' \<leftarrow> wr_range m (st_offset s1 docid) bs;
       Some (0, s1\<lparr>st_mem := Some m'\<rparr>)
     }
   }"

text \<open>The answer's type and field name are zeroed by the caller's \<^verbatim>\<open>memset\<close>.\<close>

definition storage_query :: "storage_manager \<Rightarrow> u32 \<Rightarrow> low_data option" where
  "storage_query s docid = do {
     let vs = unat (st_value_size s);
     q \<leftarrow> bitmark_query (st_null s) docid;
     if q = 1
     then Some \<lparr>ld_field_name = [], ld_type = HI_TYPE_NULL, ld_data = replicate vs 0, ld_len = 0\<rparr>
     else do {
       m \<leftarrow> st_mem s;
       bs \<leftarrow> rd_range m (st_offset s docid) vs;
       Some \<lparr>ld_field_name = [], ld_type = HI_TYPE_NULL, ld_data = bs,
             ld_len = ucast (st_value_size s)\<rparr>
     }
   }"

definition storage_update ::
    "storage_manager \<Rightarrow> low_data \<Rightarrow> u32 \<Rightarrow> (int \<times> low_data \<times> storage_manager) option" where
  "storage_update s new_data docid =
     (if ld_len new_data = 0
      then do {
        old \<leftarrow> storage_query s docid;
        (r, b) \<leftarrow> bitmark_clear (st_null s) docid;
        Some (0, old, s\<lparr>st_null := b\<rparr>)
      }
      else do {
        old \<leftarrow> storage_query s docid;
        m \<leftarrow> st_mem s;
        bs \<leftarrow> rd_range (ld_data new_data) 0 (unat (st_value_size s));
        m' \<leftarrow> wr_range m (st_offset s docid) bs;
        (r, b) \<leftarrow> bitmark_set (st_null s) docid;
        Some (0, old, s\<lparr>st_null := b, st_mem := Some m'\<rparr>)
      })"

definition storage_release :: "file_system \<Rightarrow> storage_manager \<Rightarrow> storage_manager \<times> file_system" where
  "storage_release fs s =
     (let fs1 = (case st_mem s of None \<Rightarrow> fs | Some m \<Rightarrow> msync_file fs (st_file_name s) m);
          (b, fs2) = bitmark_release fs1 (st_null s)
      in (s\<lparr>st_null := b\<rparr>, fs2))"

definition storage_destroy :: "file_system \<Rightarrow> storage_manager \<Rightarrow> file_system" where
  "storage_destroy fs s = bitmark_destroy (fs(st_file_name s := None)) (st_null s)"

definition storage_checkpoint :: "file_system \<Rightarrow> storage_manager \<Rightarrow> file_system" where
  "storage_checkpoint fs s =
     bitmark_checkpoint
       (case st_mem s of None \<Rightarrow> fs | Some m \<Rightarrow> msync_file fs (st_file_name s) m) (st_null s)"

definition storage_recover :: "storage_manager \<Rightarrow> u32 \<Rightarrow> (int \<times> storage_manager) option" where
  "storage_recover s docid =
     (if docid \<ge> st_row_limit s then Some (ERROR_EXCEED_LIMIT, s)
      else do {
        (r, b) \<leftarrow> bitmark_recover (st_null s) docid;
        let s1 = s\<lparr>st_null := b\<rparr>;
        if r \<noteq> 0 then Some (- 1, s1)
        else do {
          m \<leftarrow> st_mem s1;
          let n = unat ((st_row_limit s - docid) * ucast (st_value_size s));
          m' \<leftarrow> wr_range m (st_offset s docid) (replicate n 0);
          Some (0, s1\<lparr>st_mem := Some m'\<rparr>)
        }
      })"

section \<open>Invariant and abstraction\<close>

definition storage_ok :: "storage_manager \<Rightarrow> bool" where
  "storage_ok s \<longleftrightarrow>
     bitmark_ok (st_null s) \<and> bm_row_limit (st_null s) = st_row_limit s \<and>
     0 < unat (st_value_size s) \<and> unat (st_value_size s) * unat (st_row_limit s) < 2 ^ 32 \<and>
     (case st_mem s of None \<Rightarrow> False
      | Some m \<Rightarrow> length m = unat (st_value_size s) * unat (st_row_limit s))"

definition st_cell :: "storage_manager \<Rightarrow> nat \<Rightarrow> u8 list" where
  "st_cell s d = take (unat (st_value_size s)) (drop (unat (st_value_size s) * d) (the (st_mem s)))"

definition st_cells :: "storage_manager \<Rightarrow> nat \<rightharpoonup> u8 list" where
  "st_cells s d = (if d \<in> bm_marks (st_null s) then Some (st_cell s d) else None)"

definition st_same_shape :: "storage_manager \<Rightarrow> storage_manager \<Rightarrow> bool" where
  "st_same_shape s s' \<longleftrightarrow> st_value_size s' = st_value_size s \<and> st_row_limit s' = st_row_limit s"


lemma storage_okE:
  assumes "storage_ok s"
  obtains m where "st_mem s = Some m"
    and "length m = unat (st_value_size s) * unat (st_row_limit s)"
    and "bitmark_ok (st_null s)" and "bm_row_limit (st_null s) = st_row_limit s"
    and "0 < unat (st_value_size s)"
  using assms by (auto simp: storage_ok_def split: option.splits)

lemma cell_in_region:
  assumes "d < n"
  shows "v * d + v \<le> v * (n :: nat)"
  using mult_le_mono2 [of "Suc d" n v] assms by simp

lemma st_offset_exact:
  assumes "storage_ok s" and "unat d \<le> unat (st_row_limit s)"
  shows "st_offset s d = unat (st_value_size s) * unat d"
proof -
  have "unat (st_value_size s) * unat d \<le> unat (st_value_size s) * unat (st_row_limit s)"
    using assms(2) by (rule mult_le_mono2)
  also have "\<dots> < 2 ^ 32" using assms(1) by (simp add: storage_ok_def)
  finally show ?thesis by (simp add: st_offset_def unat_word_ariths)
qed

text \<open>Two different cells do not overlap.\<close>

lemma cells_disjoint:
  assumes "d \<noteq> (e :: nat)"
  shows "v * e + v \<le> v * d \<or> v * d + v \<le> v * e"
  using assms cell_in_region [of e d v] cell_in_region [of d e v] by (cases "e < d") auto

lemma st_cells_other:
  assumes "wr_range m (v * d) bs = Some m'" and "length bs \<le> v" and "e \<noteq> d"
    and "e < n" and "length m = v * n"
  shows "take v (drop (v * e) m') = take v (drop (v * e) m)"
proof -
  have "rd_range m' (v * e) v = rd_range m (v * e) v"
    using assms(1-3) cells_disjoint [of d e v] by (intro rd_wr_range_disjoint [OF assms(1)]) auto
  with assms(4,5) cell_in_region [of e n v] wr_range_length [OF assms(1)] show ?thesis
    by (simp add: rd_range_def)
qed

lemma st_cells_same:
  assumes "wr_range m a bs = Some m'"
  shows "take (length bs) (drop a m') = bs"
  using rd_wr_range_same [OF assms refl] by (simp add: rd_range_def split: if_splits)


lemma bm_marks_bound: "d \<in> bm_marks b \<Longrightarrow> d < unat (bm_row_limit b)"
  by (simp add: bm_marks_def)

text \<open>One write into a cell, at most as long as the cell, with its mark set.\<close>

lemma storage_write_cell:
  assumes s: "storage_ok s" and d: "d < st_row_limit s" and bs: "length bs \<le> unat (st_value_size s)"
  obtains m m' b where "st_mem s = Some m" and "wr_range m (st_offset s d) bs = Some m'"
    and "bitmark_set (st_null s) d = Some (0, b)"
    and "storage_ok (s\<lparr>st_null := b, st_mem := Some m'\<rparr>)"
    and "st_cells (s\<lparr>st_null := b, st_mem := Some m'\<rparr>) =
      (st_cells s)(unat d \<mapsto> bs @ drop (length bs) (st_cell s (unat d)))"
proof -
  let ?v = "unat (st_value_size s)" and ?n = "unat (st_row_limit s)"
  from s obtain m where m: "st_mem s = Some m" "length m = ?v * ?n"
    and b: "bitmark_ok (st_null s)" "bm_row_limit (st_null s) = st_row_limit s" "0 < ?v"
    by (rule storage_okE)
  have dn: "unat d < ?n" using d by (simp add: unat_less_iff)
  have off: "st_offset s d = ?v * unat d" using st_offset_exact [OF s] dn by simp
  define m' where "m' = take (?v * unat d) m @ bs @ drop (?v * unat d + length bs) m"
  have w: "wr_range m (?v * unat d) bs = Some m'"
    using cell_in_region [OF dn, of ?v] bs m(2) by (simp add: wr_range_def m'_def)
  obtain b' where b': "bitmark_set (st_null s) d = Some (0, b')" "bitmark_ok b'"
    "bm_row_limit b' = st_row_limit s" "bm_marks b' = insert (unat d) (bm_marks (st_null s))"
    using bm.set_law [OF b(1), of d] b(2) d by auto
  have own: "take ?v (drop (?v * unat d) m') = bs @ drop (length bs) (st_cell s (unat d))"
  proof -
    have "?v * unat d \<le> length m" using m(2) dn by simp
    then have "drop (?v * unat d) m' = bs @ drop (?v * unat d + length bs) m" by (simp add: m'_def)
    with bs m(1) show ?thesis by (simp add: st_cell_def drop_take add.commute)
  qed
  have other: "take ?v (drop (?v * e) m') = take ?v (drop (?v * e) m)" if "e \<noteq> unat d" "e < ?n" for e
    using st_cells_other [OF w bs that m(2)] .
  have "st_cells (s\<lparr>st_null := b', st_mem := Some m'\<rparr>) =
      (st_cells s)(unat d \<mapsto> bs @ drop (length bs) (st_cell s (unat d)))"
    using own other m(1) b(2) bm_marks_bound [of _ "st_null s"]
    by (intro ext) (auto simp: st_cells_def b'(4) st_cell_def)
  moreover have "storage_ok (s\<lparr>st_null := b', st_mem := Some m'\<rparr>)"
    using s b' m wr_range_length [OF w] by (simp add: storage_ok_def)
  ultimately show ?thesis using that m(1) w off b'(1) by simp
qed

lemma storage_insert_cells:
  assumes "storage_ok s" and "d < st_row_limit s"
    and "ld_ok data" and "0 < ld_len data" and "unat (ld_len data) \<le> unat (st_value_size s)"
  shows "\<exists>s'. storage_insert s data d = Some (0, s') \<and> storage_ok s' \<and> st_same_shape s s' \<and>
    st_cells s' =
      (st_cells s)(unat d \<mapsto> ld_data data @ drop (unat (ld_len data)) (st_cell s (unat d)))"
proof -
  have "length (ld_data data) \<le> unat (st_value_size s)" using assms(3,5) by (simp add: ld_ok_def)
  from storage_write_cell [OF assms(1,2) this]
  obtain m m' b where *: "st_mem s = Some m" "wr_range m (st_offset s d) (ld_data data) = Some m'"
    "bitmark_set (st_null s) d = Some (0, b)"
    "storage_ok (s\<lparr>st_null := b, st_mem := Some m'\<rparr>)"
    "st_cells (s\<lparr>st_null := b, st_mem := Some m'\<rparr>) =
      (st_cells s)(unat d \<mapsto> ld_data data @ drop (length (ld_data data)) (st_cell s (unat d)))" .
  then show ?thesis using assms(3,4)
    by (auto simp: storage_insert_def st_offset_def st_same_shape_def ld_ok_def)
qed

lemma storage_query_cells:
  assumes s: "storage_ok s" and d: "d < st_row_limit s"
  shows "storage_query s d = Some (case st_cells s (unat d) of
      None \<Rightarrow> \<lparr>ld_field_name = [], ld_type = HI_TYPE_NULL,
        ld_data = replicate (unat (st_value_size s)) 0, ld_len = 0\<rparr>
    | Some v \<Rightarrow> \<lparr>ld_field_name = [], ld_type = HI_TYPE_NULL, ld_data = v,
        ld_len = ucast (st_value_size s)\<rparr>)"
proof -
  let ?v = "unat (st_value_size s)" and ?n = "unat (st_row_limit s)"
  from s obtain m where m: "st_mem s = Some m" "length m = ?v * ?n"
    and b: "bitmark_ok (st_null s)" "bm_row_limit (st_null s) = st_row_limit s"
    by (rule storage_okE)
  have dn: "unat d < ?n" using d by (simp add: unat_less_iff)
  have "st_offset s d = ?v * unat d" using st_offset_exact [OF s] dn by simp
  with m cell_in_region [OF dn, of ?v]
  have "rd_range m (st_offset s d) ?v = Some (st_cell s (unat d))"
    by (simp add: rd_range_def st_cell_def)
  with m bm.query_law [OF b(1), of d] b(2) d show ?thesis
    by (simp add: storage_query_def Let_def st_cells_def)
qed


lemma storage_update_cells:
  assumes s: "storage_ok s" and d: "d < st_row_limit s"
    and v: "v = take (unat (st_value_size s)) (ld_data data)"
    and len: "unat (st_value_size s) \<le> length (ld_data data)"
  shows "\<exists>old s'. storage_query s d = Some old \<and> storage_update s data d = Some (0, old, s') \<and>
    storage_ok s' \<and> st_same_shape s s' \<and>
    st_cells s' = (st_cells s)(unat d := if ld_len data = 0 then None else Some v)"
proof (cases "ld_len data = 0")
  case True
  from s obtain m where m: "st_mem s = Some m"
    and b: "bitmark_ok (st_null s)" "bm_row_limit (st_null s) = st_row_limit s"
    by (rule storage_okE)
  obtain b' where b': "bitmark_clear (st_null s) d =
      Some (if unat d \<in> bm_marks (st_null s) then 1 else 0, b')" "bitmark_ok b'"
    "bm_row_limit b' = st_row_limit s" "bm_marks b' = bm_marks (st_null s) - {unat d}"
    using bm.clear_law [OF b(1), of d] b(2) d by auto
  have "st_cells (s\<lparr>st_null := b'\<rparr>) = (st_cells s)(unat d := None)"
    by (intro ext) (simp add: st_cells_def b'(4) st_cell_def)
  moreover have "storage_ok (s\<lparr>st_null := b'\<rparr>)" using s m b' by (simp add: storage_ok_def)
  ultimately show ?thesis
    using True b'(1) by (simp add: storage_update_def storage_query_cells [OF s d] st_same_shape_def)
next
  case False
  have lv: "length v = unat (st_value_size s)" using v len by simp
  then have "length v \<le> unat (st_value_size s)" by simp
  from storage_write_cell [OF s d this]
  obtain m m' b where *: "st_mem s = Some m" "wr_range m (st_offset s d) v = Some m'"
    "bitmark_set (st_null s) d = Some (0, b)"
    "storage_ok (s\<lparr>st_null := b, st_mem := Some m'\<rparr>)"
    "st_cells (s\<lparr>st_null := b, st_mem := Some m'\<rparr>) =
      (st_cells s)(unat d \<mapsto> v @ drop (length v) (st_cell s (unat d)))" .
  have "rd_range (ld_data data) 0 (unat (st_value_size s)) = Some v"
    using v len by (simp add: rd_range_def)
  moreover have "v @ drop (length v) (st_cell s (unat d)) = v" by (simp add: st_cell_def lv)
  ultimately show ?thesis
    using False * by (simp add: storage_update_def storage_query_cells [OF s d] st_same_shape_def)
qed

lemma zero_tail:
  assumes "length xs = a" and "a \<le> b" and "b + v \<le> a + k"
  shows "take v (drop b (xs @ replicate k z)) = replicate v z"
  using assms by simp

lemma storage_recover_cells:
  assumes s: "storage_ok s" and d: "d < st_row_limit s"
  shows "\<exists>s'. storage_recover s d = Some (0, s') \<and> storage_ok s' \<and> st_same_shape s s' \<and>
    st_cells s' = st_cells s |` {..<unat d} \<and>
    (\<forall>e. unat d \<le> e \<longrightarrow> e < unat (st_row_limit s) \<longrightarrow>
      st_cell s' e = replicate (unat (st_value_size s)) 0)"
proof -
  let ?v = "unat (st_value_size s)" and ?n = "unat (st_row_limit s)"
  from s obtain m where m: "st_mem s = Some m" "length m = ?v * ?n"
    and b: "bitmark_ok (st_null s)" "bm_row_limit (st_null s) = st_row_limit s"
    by (rule storage_okE)
  have dn: "unat d < ?n" using d by (simp add: unat_less_iff)
  have off: "st_offset s d = ?v * unat d" using st_offset_exact [OF s] dn by simp
  let ?k = "?v * (?n - unat d)"
  have "?k \<le> ?v * ?n" by simp
  also have "\<dots> < 2 ^ 32" using s by (simp add: storage_ok_def)
  finally have k: "unat ((st_row_limit s - d) * ucast (st_value_size s)) = ?k"
    using d by (simp add: unat_word_ariths unat_sub less_imp_le mult.commute)
  have sum: "?v * unat d + ?k = length m" using m(2) dn by (simp flip: distrib_left)
  then have front: "length (take (?v * unat d) m) = ?v * unat d" by simp
  define m' where "m' = take (?v * unat d) m @ replicate ?k 0"
  have w: "wr_range m (?v * unat d) (replicate ?k 0) = Some m'"
    using sum by (simp add: wr_range_def m'_def)
  obtain b' where b': "bitmark_recover (st_null s) d = Some (0, b')" "bitmark_ok b'"
    "bm_row_limit b' = st_row_limit s" "bm_marks b' = {e \<in> bm_marks (st_null s). e < unat d}"
    using bm.recover_law [OF b(1), of d] b(2) d by auto
  let ?s = "s\<lparr>st_null := b', st_mem := Some m'\<rparr>"
  have "storage_recover s d = Some (0, ?s)"
    using d m(1) b'(1) k off w by (simp add: storage_recover_def Let_def)
  moreover have "storage_ok ?s" using s b' m wr_range_length [OF w] by (simp add: storage_ok_def)
  moreover have below: "take ?v (drop (?v * e) m') = take ?v (drop (?v * e) m)" if "e < unat d" for e
    using cell_in_region [OF that, of ?v] sum by (simp add: m'_def drop_take min_def)
  then have "st_cells ?s = st_cells s |` {..<unat d}"
    using m(1) by (intro ext) (auto simp: st_cells_def b'(4) st_cell_def restrict_map_def)
  moreover have "st_cell ?s e = replicate ?v 0" if "unat d \<le> e" "e < ?n" for e
  proof -
    have "?v * e + ?v \<le> ?v * ?n" using cell_in_region [OF that(2)] .
    moreover have "?v * unat d \<le> ?v * e" using that(1) by simp
    ultimately have "take ?v (drop (?v * e) m') = replicate ?v 0"
      unfolding m'_def using front sum m(2) by (intro zero_tail [where a = "?v * unat d"]) linarith+
    then show ?thesis by (simp add: st_cell_def)
  qed
  ultimately show ?thesis by (auto simp: st_same_shape_def)
qed

section \<open>The column-store contract\<close>

definition st_fits :: "storage_manager \<Rightarrow> u8 list \<Rightarrow> bool" where
  "st_fits s v \<longleftrightarrow> length v = unat (st_value_size s)"

lemma length_st_cell:
  assumes "storage_ok s" and "d < unat (st_row_limit s)"
  shows "length (st_cell s d) = unat (st_value_size s)"
  using assms cell_in_region [of d "unat (st_row_limit s)" "unat (st_value_size s)"]
  by (auto simp: storage_ok_def st_cell_def min_def split: option.splits)

interpretation fx: doc_store storage_ok st_cells st_row_limit st_fits
  "\<lambda>s v. storage_insert s (ld_of v)"
  "\<lambda>s d. map_option ld_value (storage_query s d)"
  storage_recover
proof unfold_locales
  fix s d v
  assume s: "storage_ok s" and d: "d < st_row_limit s"
  show "\<exists>s'. storage_recover s d = Some (0, s') \<and> storage_ok s' \<and> st_row_limit s' = st_row_limit s \<and>
      st_cells s' = st_cells s |` {..<unat d}"
    using storage_recover_cells [OF s d] by (auto simp: st_same_shape_def)
  show "map_option ld_value (storage_query s d) =
      Some (case st_cells s (unat d) of None \<Rightarrow> [] | Some v \<Rightarrow> v)"
    using length_st_cell [OF s, of "unat d"] d
    by (auto simp: storage_query_cells [OF s d] ld_value_def st_cells_def unat_less_iff)
  assume v: "st_fits s v"
  then have len: "length v < 4294967296" "0 < length v" "length v = unat (st_value_size s)"
    using u16_small [of "st_value_size s"] s by (auto simp: st_fits_def storage_ok_def)
  have "0 < ld_len (ld_of v)" using len by (simp add: unat_less_iff ld_of_simps)
  with storage_insert_cells [OF s d, of "ld_of v"] len
  show "\<exists>s'. storage_insert s (ld_of v) d = Some (0, s') \<and> storage_ok s' \<and>
      st_row_limit s' = st_row_limit s \<and> st_cells s' = (st_cells s)(unat d \<mapsto> v)"
    by (auto simp: ld_of_simps st_same_shape_def st_cell_def)
qed


section \<open>Properties\<close>

text \<open>C26: a value written to a fixed-length column is what a read of its document returns, and no
  other document's value changes; recovery to a document number then hides exactly the
  documents from that number on.  Both report success by 0, also the insertion, which the
  header documents to return the row number.\<close>

theorem storage_insert_query_recover:
  assumes "storage_ok s" and "d < st_row_limit s" and "length v = unat (st_value_size s)"
    and "c < st_row_limit s" and "e < st_row_limit s"
  shows "\<exists>s1 s2. storage_insert s (ld_of v) d = Some (0, s1) \<and> storage_recover s1 c = Some (0, s2) \<and>
    map_option ld_value (storage_query s1 e) =
      (if e = d then Some v else map_option ld_value (storage_query s e)) \<and>
    map_option ld_value (storage_query s2 e) =
      (if e < c then map_option ld_value (storage_query s1 e) else Some [])"
proof -
  have fits: "st_fits s v" using assms(3) by (simp add: st_fits_def)
  from fx.put_law [OF assms(1,2) fits] obtain s1 where s1:
    "storage_insert s (ld_of v) d = Some (0, s1)" "storage_ok s1" "st_row_limit s1 = st_row_limit s"
    by blast
  from fx.cut_law [OF s1(2), of c] s1(3) assms(4) obtain s2 where s2:
    "storage_recover s1 c = Some (0, s2)" by auto
  show ?thesis
    using s1(1) s2 fx.get_after_put [OF assms(1,2) fits s1(1) assms(5)]
      fx.get_after_cut [OF s1(2) _ s2, of e] s1(3) assms(4,5) by simp
qed

definition storage_example :: storage_manager where
  "storage_example = \<lparr>st_file_name = ''w/s.dat'', st_value_size = 2, st_row_limit = 3,
     st_mem = Some [1, 2, 3, 4, 5, 6],
     st_null = \<lparr>bm_file_name = ''w/null.bit'', bm_mem = Some [0xA0], bm_row_limit = 3\<rparr>\<rparr>"

lemma storage_example_ok: "storage_ok storage_example"
  by (simp add: storage_ok_def storage_example_def bitmark_ok_def)

theorem storage_insert_query_recover_witness:
  "\<exists>s1 s2. storage_insert storage_example (ld_of [8, 9]) 1 = Some (0, s1) \<and>
    storage_recover s1 2 = Some (0, s2) \<and>
    map_option ld_value (storage_query s1 1) = Some [8, 9] \<and>
    map_option ld_value (storage_query s2 1) = Some [8, 9]"
  using storage_insert_query_recover [OF storage_example_ok, of 1 "[8, 9]" 2 1]
  by (auto simp: storage_example_def)

text \<open>an update of a fixed-length column hands back the value read before it and then
  stores the new value, or the null value when the new data is empty; every other document
  keeps its value.\<close>

theorem storage_update_swaps:
  assumes "storage_ok s" and "d < st_row_limit s"
    and "unat (st_value_size s) \<le> length (ld_data data)"
  shows "\<exists>old s'. storage_query s d = Some old \<and> storage_update s data d = Some (0, old, s') \<and>
    storage_ok s' \<and>
    st_cells s' = (st_cells s)(unat d := if ld_len data = 0 then None
      else Some (take (unat (st_value_size s)) (ld_data data)))"
  using storage_update_cells [OF assms(1,2) refl assms(3)] by blast

theorem storage_update_swaps_witness:
  "\<exists>old s'. storage_query storage_example 1 = Some old \<and>
    storage_update storage_example (ld_of [8, 9]) 1 = Some (0, old, s') \<and> storage_ok s' \<and>
    st_cells s' = (st_cells storage_example)(1 \<mapsto> [8, 9])"
  using storage_update_swaps [OF storage_example_ok, of 1 "ld_of [8, 9]"]
  by (simp add: storage_example_def ld_of_def)

text \<open>The length written is the data's own length, not the column's value size as the
  comment in \<^verbatim>\<open>storage_insert\<close> says: a value one cell too long replaces the next document's
  cell.\<close>

theorem storage_insert_overwrites_neighbour:
  assumes "storage_ok s" and "Suc (unat d) < unat (st_row_limit s)"
    and "ld_ok data" and "unat (ld_len data) = 2 * unat (st_value_size s)"
  shows "\<exists>s'. storage_insert s data d = Some (0, s') \<and>
    st_cell s' (Suc (unat d)) = drop (unat (st_value_size s)) (ld_data data)"
proof -
  let ?v = "unat (st_value_size s)" and ?n = "unat (st_row_limit s)"
  from assms(1) obtain m where m: "st_mem s = Some m" "length m = ?v * ?n"
    and b: "bitmark_ok (st_null s)" "bm_row_limit (st_null s) = st_row_limit s" "0 < ?v"
    by (rule storage_okE)
  have d: "d < st_row_limit s" using assms(2) by (simp add: unat_less_iff)
  obtain b' where b': "bitmark_set (st_null s) d = Some (0, b')"
    using bm.set_law [OF b(1), of d] b(2) d by auto
  have off: "st_offset s d = ?v * unat d" using st_offset_exact [OF assms(1)] assms(2) by simp
  have len: "length (ld_data data) = 2 * ?v" using assms(3,4) by (simp add: ld_ok_def)
  define m' where "m' = take (?v * unat d) m @ ld_data data @ drop (?v * unat d + 2 * ?v) m"
  have fit: "?v * unat d + 2 * ?v \<le> length m" using cell_in_region [OF assms(2), of ?v] m(2) by simp
  then have w: "wr_range m (?v * unat d) (ld_data data) = Some m'"
    using len by (simp add: wr_range_def m'_def)
  have "0 < ld_len data" using assms(4) b(3) by (simp add: unat_less_iff)
  then have "storage_insert s data d = Some (0, s\<lparr>st_null := b', st_mem := Some m'\<rparr>)"
    using assms(3) b' m(1) w off by (simp add: storage_insert_def st_offset_def)
  moreover have "take ?v (drop (?v * Suc (unat d)) m') = drop ?v (ld_data data)"
  proof -
    have "drop (?v * Suc (unat d)) m' = drop ?v (ld_data data) @ drop (?v * unat d + 2 * ?v) m"
      using fit len by (simp add: m'_def)
    then show ?thesis using len by simp
  qed
  ultimately show ?thesis by (simp add: st_cell_def)
qed

theorem storage_insert_overwrites_neighbour_witness:
  "\<exists>s'. storage_insert storage_example (ld_of [7, 7, 8, 8]) 0 = Some (0, s') \<and>
    st_cell s' 1 = [8, 8]"
  using storage_insert_overwrites_neighbour [OF storage_example_ok, of 0 "ld_of [7, 7, 8, 8]"]
  by (simp add: storage_example_def ld_of_def ld_ok_def)

end
