(* ===== verification/Vstorage.thy ===== *)
theory Vstorage
  imports File_Op Low_Data Doc_Store Bitmark
begin

text \<open>
  Variable-length columns, \<^verbatim>\<open>storage/docdb/vstorage.c\<close>: an append-only data file and a
  mapped table of (offset, length) pairs behind the running file offset.  Two table formats
  exist, with 16-bit and with 32-bit lengths.  What one \<^verbatim>\<open>write\<close> or \<^verbatim>\<open>pread\<close> call
  answers is a parameter, since the code makes a single call and compares its result.
\<close>

section \<open>State\<close>

record locate_info =
  l2_offset :: u64
  l2_len :: u16

record locate_info4 =
  l4_offset :: u64
  l4_len :: u32

text \<open>Exactly one of the pointers \<^verbatim>\<open>loc_info\<close> and \<^verbatim>\<open>loc_info4\<close> is set.\<close>

datatype loc_table = Loc2 "locate_info list" | Loc4 "locate_info4 list"

record vstorage_manager =
  vs_data_file_name :: string
  vs_data :: "u8 list"
  vs_index_file_name :: string
  vs_row_limit :: u32
  vs_offset :: u64
  vs_loc :: loc_table

record vstorage_config =
  vc_work_space :: string
  vc_vstorage_name :: string
  vc_row_limit :: u32

definition VSTORAGE_MMAP_SIZE :: "u32 \<Rightarrow> u64" where
  "VSTORAGE_MMAP_SIZE row_limit = ucast row_limit * 10 + 8"

definition VSTORAGE_MMAP_SIZE4 :: "u32 \<Rightarrow> u64" where
  "VSTORAGE_MMAP_SIZE4 row_limit = ucast row_limit * 12 + 8"

section \<open>The packed table\<close>

definition enc_loc :: "locate_info \<Rightarrow> u8 list" where
  "enc_loc l = le_bytes 8 (l2_offset l) @ le_bytes 2 (l2_len l)"

definition enc_loc4 :: "locate_info4 \<Rightarrow> u8 list" where
  "enc_loc4 l = le_bytes 8 (l4_offset l) @ le_bytes 4 (l4_len l)"

definition dec_loc :: "u8 list \<Rightarrow> locate_info" where
  "dec_loc bs = \<lparr>l2_offset = le_word (take 8 bs), l2_len = le_word (take 2 (drop 8 bs))\<rparr>"

definition dec_loc4 :: "u8 list \<Rightarrow> locate_info4" where
  "dec_loc4 bs = \<lparr>l4_offset = le_word (take 8 bs), l4_len = le_word (take 4 (drop 8 bs))\<rparr>"

definition vs_index_bytes :: "vstorage_manager \<Rightarrow> u8 list" where
  "vs_index_bytes v = le_bytes 8 (vs_offset v) @
     (case vs_loc v of Loc2 ls \<Rightarrow> concat (map enc_loc ls) | Loc4 ls \<Rightarrow> concat (map enc_loc4 ls))"

definition chunks :: "nat \<Rightarrow> u8 list \<Rightarrow> u8 list list" where
  "chunks k bs = map (\<lambda>i. take k (drop (k * i) bs)) [0..<length bs div k]"

section \<open>Table entries\<close>

definition loc_entry :: "loc_table \<Rightarrow> nat \<Rightarrow> (u64 \<times> u32) option" where
  "loc_entry t i =
     (case t of
        Loc2 ls \<Rightarrow> do { l \<leftarrow> rd ls i; Some (l2_offset l, ucast (l2_len l)) }
      | Loc4 ls \<Rightarrow> do { l \<leftarrow> rd ls i; Some (l4_offset l, l4_len l) })"

definition loc_store :: "loc_table \<Rightarrow> nat \<Rightarrow> u64 \<Rightarrow> u32 \<Rightarrow> loc_table option" where
  "loc_store t i off len =
     (case t of
        Loc2 ls \<Rightarrow> do { ls' \<leftarrow> wr ls i \<lparr>l2_offset = off, l2_len = ucast len\<rparr>; Some (Loc2 ls') }
      | Loc4 ls \<Rightarrow> do { ls' \<leftarrow> wr ls i \<lparr>l4_offset = off, l4_len = len\<rparr>; Some (Loc4 ls') })"

definition loc_clear_len :: "loc_table \<Rightarrow> nat \<Rightarrow> loc_table option" where
  "loc_clear_len t i =
     (case t of
        Loc2 ls \<Rightarrow> do { l \<leftarrow> rd ls i; ls' \<leftarrow> wr ls i (l\<lparr>l2_len := 0\<rparr>); Some (Loc2 ls') }
      | Loc4 ls \<Rightarrow> do { l \<leftarrow> rd ls i; ls' \<leftarrow> wr ls i (l\<lparr>l4_len := 0\<rparr>); Some (Loc4 ls') })"

section \<open>Operations\<close>

definition vstorage_init ::
    "os \<Rightarrow> file_system \<Rightarrow> vstorage_config \<Rightarrow> (vstorage_manager option \<times> file_system) option" where
  "vstorage_init os fs config = do {
     let base = vc_work_space config @ ''/'' @ vc_vstorage_name config;
     data_name \<leftarrow> sprintf_name (base @ ''.dat'');
     case open_file os fs data_name of
       None \<Rightarrow> Some (None, fs)
     | Some (f, fs1) \<Rightarrow> do {
         old_loc_name \<leftarrow> sprintf_name (base @ ''.loc'');
         new_loc_name \<leftarrow> sprintf_name (base @ ''.loc4'');
         if fs1 old_loc_name \<noteq> None \<and> os_open os old_loc_name
         then do {
           let (mem, fs2) = get_mmap_memory os fs1 old_loc_name
             (ucast (VSTORAGE_MMAP_SIZE (vc_row_limit config)));
           m \<leftarrow> mem;
           off \<leftarrow> rd_range m 0 8;
           Some (Some \<lparr>vs_data_file_name = data_name, vs_data = fd_content f,
             vs_index_file_name = old_loc_name, vs_row_limit = vc_row_limit config,
             vs_offset = le_word off, vs_loc = Loc2 (map dec_loc (chunks 10 (drop 8 m)))\<rparr>, fs2)
         }
         else do {
           let (mem, fs2) = get_mmap_memory os fs1 new_loc_name
             (ucast (VSTORAGE_MMAP_SIZE4 (vc_row_limit config)));
           m \<leftarrow> mem;
           off \<leftarrow> rd_range m 0 8;
           Some (Some \<lparr>vs_data_file_name = data_name, vs_data = fd_content f,
             vs_index_file_name = new_loc_name, vs_row_limit = vc_row_limit config,
             vs_offset = le_word off, vs_loc = Loc4 (map dec_loc4 (chunks 12 (drop 8 m)))\<rparr>, fs2)
         }
       }
   }"

text \<open>One \<^verbatim>\<open>write\<close> to a file opened with \<^verbatim>\<open>O_APPEND\<close>: its result and the file.\<close>

fun append_once :: "io \<Rightarrow> u8 list \<Rightarrow> u8 list \<Rightarrow> int \<times> u8 list" where
  "append_once (Xfer k) c bs = (int (min k (length bs)), c @ take k bs)"
| "append_once Eintr c bs = (- 1, c)"
| "append_once Fail c bs = (- 1, c)"

fun pread_once :: "io \<Rightarrow> u8 list \<Rightarrow> nat \<Rightarrow> nat \<Rightarrow> u8 list option" where
  "pread_once (Xfer k) c n off = Some (take (min k n) (drop off c))"
| "pread_once Eintr c n off = None"
| "pread_once Fail c n off = None"

text \<open>The second length check, \<^verbatim>\<open>len > 0xFFFFFFFF\<close> on a 32-bit length, never fires.\<close>

definition vstorage_insert ::
    "io \<Rightarrow> vstorage_manager \<Rightarrow> low_data \<Rightarrow> u32 \<Rightarrow> (int \<times> vstorage_manager) option" where
  "vstorage_insert w v data docid =
     (if (case vs_loc v of Loc2 _ \<Rightarrow> ld_len data > 0xFFFF | Loc4 _ \<Rightarrow> ld_len data > 0xFFFFFFFF)
      then Some (- 1, v)
      else do {
        bs \<leftarrow> ld_bytes data;
        let (n, content) = (if ld_len data \<noteq> 0 then append_once w (vs_data v) bs
                            else (0, vs_data v));
        let v1 = v\<lparr>vs_data := content\<rparr>;
        if ld_len data \<noteq> 0 \<and> n \<noteq> int (unat (ld_len data)) then Some (- 1, v1)
        else do {
          t \<leftarrow> loc_store (vs_loc v1) (unat docid) (vs_offset v1) (ld_len data);
          Some (0, v1\<lparr>vs_loc := t, vs_offset := vs_offset v1 + ucast (ld_len data)\<rparr>)
        }
      })"

text \<open>The inner \<^term>\<open>None\<close> is the NULL result of a failed or short read.\<close>

definition vstorage_query ::
    "io \<Rightarrow> vstorage_manager \<Rightarrow> u32 \<Rightarrow> low_data option option" where
  "vstorage_query r v docid = do {
     (off, len) \<leftarrow> loc_entry (vs_loc v) (unat docid);
     let res = \<lparr>ld_field_name = [], ld_type = HI_TYPE_NULL, ld_data = [], ld_len = len\<rparr>;
     if len \<noteq> 0
     then (case pread_once r (vs_data v) (unat len) (unat off) of
             None \<Rightarrow> Some None
           | Some bs \<Rightarrow> if length bs \<noteq> unat len then Some None else Some (Some (res\<lparr>ld_data := bs\<rparr>)))
     else Some (Some res)
   }"

definition vstorage_update ::
    "io \<Rightarrow> io \<Rightarrow> vstorage_manager \<Rightarrow> low_data \<Rightarrow> u32 \<Rightarrow>
       (int \<times> low_data option \<times> vstorage_manager) option" where
  "vstorage_update r w v new_data docid = do {
     old \<leftarrow> vstorage_query r v docid;
     if ld_len new_data = 0
     then do {
       t \<leftarrow> loc_clear_len (vs_loc v) (unat docid);
       Some (0, old, v\<lparr>vs_loc := t\<rparr>)
     }
     else do {
       (ret, v') \<leftarrow> vstorage_insert w v new_data docid;
       Some (ret, old, v')
     }
   }"

definition vstorage_release :: "file_system \<Rightarrow> vstorage_manager \<Rightarrow> file_system" where
  "vstorage_release fs v =
     (msync_file fs (vs_index_file_name v) (vs_index_bytes v))(vs_data_file_name v \<mapsto> vs_data v)"

definition vstorage_destroy :: "file_system \<Rightarrow> vstorage_manager \<Rightarrow> file_system" where
  "vstorage_destroy fs v = fs(vs_data_file_name v := None, vs_index_file_name v := None)"

definition vstorage_checkpoint :: "file_system \<Rightarrow> vstorage_manager \<Rightarrow> file_system" where
  "vstorage_checkpoint fs v =
     (msync_file fs (vs_index_file_name v) (vs_index_bytes v))(vs_data_file_name v \<mapsto> vs_data v)"

text \<open>The end of the data that the entries below \<open>n\<close> reach, from entry \<open>i\<close> on.\<close>

fun loc_end :: "loc_table \<Rightarrow> nat \<Rightarrow> nat \<Rightarrow> u64 \<Rightarrow> u64 option" where
  "loc_end t i 0 offset = Some offset"
| "loc_end t i (Suc n) offset = do {
     (o1, len) \<leftarrow> loc_entry t i;
     let off = o1 + ucast len;
     loc_end t (Suc i) n (if off > offset then off else offset)
   }"

definition loc_zero_from :: "loc_table \<Rightarrow> nat \<Rightarrow> nat \<Rightarrow> loc_table option" where
  "loc_zero_from t i n =
     (case t of
        Loc2 ls \<Rightarrow> map_option Loc2 (wr_range ls i (replicate n \<lparr>l2_offset = 0, l2_len = 0\<rparr>))
      | Loc4 ls \<Rightarrow> map_option Loc4 (wr_range ls i (replicate n \<lparr>l4_offset = 0, l4_len = 0\<rparr>)))"

text \<open>\<open>size_ok\<close> and \<open>trunc_ok\<close> are the success of \<^verbatim>\<open>fstat\<close> and \<^verbatim>\<open>ftruncate\<close>.  The
  loop counter is a signed \<^verbatim>\<open>int\<close>, so a document number from \<open>2\<^sup>3\<^sup>1\<close> on overflows it.\<close>

definition vstorage_recover ::
    "bool \<Rightarrow> bool \<Rightarrow> vstorage_manager \<Rightarrow> u32 \<Rightarrow> (int \<times> vstorage_manager) option" where
  "vstorage_recover size_ok trunc_ok v docid =
     (if docid \<ge> vs_row_limit v then Some (ERROR_EXCEED_LIMIT, v)
      else do {
        t \<leftarrow> loc_zero_from (vs_loc v) (unat docid) (unat (vs_row_limit v - docid));
        offset \<leftarrow> (if docid < 0x80000000 then loc_end t 0 (unat docid) 0 else None);
        let v1 = v\<lparr>vs_loc := t, vs_offset := offset\<rparr>;
        if \<not> size_ok then Some (- 1, v1)
        else if length (vs_data v1) < unat offset then Some (- 1, v1)
        else if \<not> trunc_ok then Some (- 1, v1)
        else Some (0, v1\<lparr>vs_data := take (unat offset) (vs_data v1)\<rparr>)
      })"


section \<open>The table as a list of pairs\<close>

definition loc_list :: "loc_table \<Rightarrow> (u64 \<times> u32) list" where
  "loc_list t =
     (case t of
        Loc2 ls \<Rightarrow> map (\<lambda>l. (l2_offset l, ucast (l2_len l))) ls
      | Loc4 ls \<Rightarrow> map (\<lambda>l. (l4_offset l, l4_len l)) ls)"

definition loc_max :: "loc_table \<Rightarrow> u32" where
  "loc_max t = (case t of Loc2 _ \<Rightarrow> 0xFFFF | Loc4 _ \<Rightarrow> 0xFFFFFFFF)"

lemma loc_entry_list [simp]: "loc_entry t i = rd (loc_list t) i"
  by (auto simp: loc_entry_def loc_list_def rd_def split: loc_table.splits)

lemma loc_list_simps [simp]:
  "loc_list (Loc2 ls) = map (\<lambda>l. (l2_offset l, ucast (l2_len l))) ls"
  "loc_list (Loc4 ls4) = map (\<lambda>l. (l4_offset l, l4_len l)) ls4"
  "loc_max (Loc2 ls) = 0xFFFF" "loc_max (Loc4 ls4) = 0xFFFFFFFF"
  by (simp_all add: loc_list_def loc_max_def)

lemma ucast_u16_small: "(len :: u32) \<le> 0xFFFF \<Longrightarrow> ucast (ucast len :: u16) = len"
proof -
  assume "len \<le> 0xFFFF"
  then have "unat len < 2 ^ 16" by (simp add: unat_le_iff)
  then have "take_bit 16 (unat len) = unat len" by (rule take_bit_nat_eq_self)
  then have "unat (ucast (ucast len :: u16) :: u32) = unat len"
    by (simp only: unat_ucast_u16) (simp add: unsigned_ucast_eq)
  then show ?thesis by (rule word_unat_eq_iff [THEN iffD2])
qed

lemma loc_store_list:
  assumes "i < length (loc_list t)" and "len \<le> loc_max t"
  obtains t' where "loc_store t i off len = Some t'" and "loc_list t' = (loc_list t)[i := (off, len)]"
    and "loc_max t' = loc_max t"
proof (cases t)
  case (Loc2 ls)
  with assms that show ?thesis by (simp add: loc_store_def mem_simps map_update ucast_u16_small)
next
  case (Loc4 ls)
  with assms that show ?thesis by (simp add: loc_store_def mem_simps map_update)
qed

lemma loc_clear_len_list:
  assumes "i < length (loc_list t)"
  obtains t' where "loc_clear_len t i = Some t'"
    and "loc_list t' = (loc_list t)[i := (fst (loc_list t ! i), 0)]" and "loc_max t' = loc_max t"
proof (cases t)
  case (Loc2 ls)
  with assms that show ?thesis by (simp add: loc_clear_len_def mem_simps map_update)
next
  case (Loc4 ls)
  with assms that show ?thesis by (simp add: loc_clear_len_def mem_simps map_update)
qed

lemma loc_zero_from_list:
  assumes "i + n = length (loc_list t)"
  obtains t' where "loc_zero_from t i n = Some t'"
    and "loc_list t' = take i (loc_list t) @ replicate n (0, 0)" and "loc_max t' = loc_max t"
proof (cases t)
  case (Loc2 ls)
  with assms that show ?thesis by (simp add: loc_zero_from_def mem_simps take_map)
next
  case (Loc4 ls)
  with assms that show ?thesis by (simp add: loc_zero_from_def mem_simps take_map)
qed

definition loc_reach :: "u64 \<times> u32 \<Rightarrow> nat" where
  "loc_reach l = unat (fst l) + unat (snd l)"

lemma unat_loc_sum:
  assumes "unat (o1 :: u64) + unat (len :: u32) < 2 ^ 64"
  shows "unat (o1 + ucast len) = unat o1 + unat len"
proof -
  have "unat len < 2 ^ 64" by (rule less_trans [OF u32_bound]) simp
  then have "take_bit 64 (unat len) = unat len" by (rule take_bit_nat_eq_self)
  then have "unat (ucast len :: u64) = unat len" by (simp add: unsigned_ucast_eq)
  with assms show ?thesis by (simp add: unat_word_ariths)
qed

lemma loc_end_max:
  assumes "i + n \<le> length (loc_list t)"
    and "\<And>l. l \<in> set (loc_list t) \<Longrightarrow> loc_reach l \<le> M" and "M < 2 ^ 64" and "unat off \<le> M"
  shows "\<exists>e. loc_end t i n off = Some e \<and> unat e \<le> M \<and> unat off \<le> unat e \<and>
    (\<forall>l \<in> set (take n (drop i (loc_list t))). loc_reach l \<le> unat e)"
  using assms(1,4)
proof (induction n arbitrary: i off)
  case 0
  then show ?case by simp
next
  case (Suc n)
  then have i: "i < length (loc_list t)" by simp
  obtain o1 len where l: "loc_list t ! i = (o1, len)" by fastforce
  have r: "loc_reach (o1, len) \<le> M" using assms(2) i l nth_mem [OF i] by metis
  then have sum: "unat (o1 + ucast len) = loc_reach (o1, len)"
    using assms(3) by (simp add: loc_reach_def unat_loc_sum)
  let ?off = "if o1 + ucast len > off then o1 + ucast len else off"
  have off: "unat ?off \<le> M" "unat off \<le> unat ?off" "loc_reach (o1, len) \<le> unat ?off"
    using Suc.prems(2) r sum by (auto simp: unat_less_iff not_less)
  from Suc.IH [of "Suc i" ?off] Suc.prems(1) off(1) obtain e where
    e: "loc_end t (Suc i) n ?off = Some e" "unat e \<le> M" "unat ?off \<le> unat e"
      "\<forall>l \<in> set (take n (drop (Suc i) (loc_list t))). loc_reach l \<le> unat e" by auto
  have "take (Suc n) (drop i (loc_list t)) = (o1, len) # take n (drop (Suc i) (loc_list t))"
    using i l by (simp add: Cons_nth_drop_Suc [symmetric])
  moreover have "loc_end t i (Suc n) off = Some e" using e(1) i l by (simp add: mem_simps Let_def)
  ultimately show ?case using e off by auto
qed

section \<open>Invariant and abstraction\<close>

definition vstorage_ok :: "vstorage_manager \<Rightarrow> bool" where
  "vstorage_ok v \<longleftrightarrow>
     length (loc_list (vs_loc v)) = unat (vs_row_limit v) \<and> unat (vs_row_limit v) \<le> 2 ^ 31 \<and>
     length (vs_data v) < 2 ^ 64 \<and> unat (vs_offset v) = length (vs_data v) \<and>
     (\<forall>l \<in> set (loc_list (vs_loc v)). loc_reach l \<le> length (vs_data v))"

definition loc_bytes :: "u8 list \<Rightarrow> u64 \<times> u32 \<Rightarrow> u8 list option" where
  "loc_bytes c l = (if snd l = 0 then None else Some (take (unat (snd l)) (drop (unat (fst l)) c)))"

definition vs_cells :: "vstorage_manager \<Rightarrow> nat \<rightharpoonup> u8 list" where
  "vs_cells v d =
     (if d < unat (vs_row_limit v) then loc_bytes (vs_data v) (loc_list (vs_loc v) ! d) else None)"

definition vs_fits :: "vstorage_manager \<Rightarrow> u8 list \<Rightarrow> bool" where
  "vs_fits v bs \<longleftrightarrow>
     0 < length bs \<and> length bs \<le> unat (loc_max (vs_loc v)) \<and> length (vs_data v) + length bs < 2 ^ 64"

text \<open>Appending bytes to the data file leaves every value where it is.\<close>

lemma loc_bytes_append:
  "loc_reach l \<le> length c \<Longrightarrow> loc_bytes (c @ bs) l = loc_bytes c l"
  by (auto simp: loc_bytes_def loc_reach_def)

lemma loc_bytes_take:
  "loc_reach l \<le> n \<Longrightarrow> loc_bytes (take n c) l = loc_bytes c l"
  by (auto simp: loc_bytes_def loc_reach_def drop_take min_def)


section \<open>Each operation on the cells\<close>

lemma vs_entry:
  assumes "vstorage_ok v" and "d < vs_row_limit v"
  obtains off len where "loc_list (vs_loc v) ! unat d = (off, len)"
    and "unat d < length (loc_list (vs_loc v))"
    and "unat off + unat len \<le> length (vs_data v)"
proof -
  obtain off len where l: "loc_list (vs_loc v) ! unat d = (off, len)" by fastforce
  have d: "unat d < length (loc_list (vs_loc v))"
    using assms by (simp add: vstorage_ok_def unat_less_iff)
  then have "loc_reach (off, len) \<le> length (vs_data v)"
    using assms(1) l nth_mem [OF d] by (simp add: vstorage_ok_def)
  with l d show ?thesis by (intro that) (auto simp: loc_reach_def)
qed

lemma vstorage_query_cells:
  assumes v: "vstorage_ok v" and d: "d < vs_row_limit v"
  shows "\<exists>r. vstorage_query (Xfer (2 ^ 32)) v d = Some (Some r) \<and> ld_ok r \<and>
    ld_value r = (case vs_cells v (unat d) of None \<Rightarrow> [] | Some b \<Rightarrow> b)"
proof -
  obtain off len where l: "loc_list (vs_loc v) ! unat d = (off, len)"
    "unat d < length (loc_list (vs_loc v))" "unat off + unat len \<le> length (vs_data v)"
    using vs_entry [OF v d] .
  have "min 4294967296 (unat len) = unat len" using u32_bound [of len] by linarith
  with l d show ?thesis
    by (auto simp: vstorage_query_def mem_simps Let_def vs_cells_def loc_bytes_def ld_value_def
        ld_ok_def unat_less_iff)
qed

lemma vstorage_insert_cells:
  assumes v: "vstorage_ok v" and d: "d < vs_row_limit v" and fit: "vs_fits v bs"
    and k: "length bs \<le> k"
  shows "\<exists>v'. vstorage_insert (Xfer k) v (ld_of bs) d = Some (0, v') \<and> vstorage_ok v' \<and>
    vs_row_limit v' = vs_row_limit v \<and> loc_max (vs_loc v') = loc_max (vs_loc v) \<and>
    vs_data v' = vs_data v @ bs \<and> vs_cells v' = (vs_cells v)(unat d \<mapsto> bs)"
proof -
  let ?ls = "loc_list (vs_loc v)" and ?len = "ld_len (ld_of bs)"
  have small: "length bs < 4294967296"
    using fit by (auto simp: vs_fits_def intro: le_less_trans [OF _ u32_bound])
  have len: "unat ?len = length bs" using small by (rule ld_of_simps)
  have pos: "?len \<noteq> 0" using fit len by (auto simp: vs_fits_def)
  have le: "?len \<le> loc_max (vs_loc v)" using fit len by (simp add: unat_le_iff vs_fits_def)
  have dl: "unat d < length ?ls" and off: "unat (vs_offset v) = length (vs_data v)"
    using v d by (simp_all add: vstorage_ok_def unat_less_iff)
  obtain t where t: "loc_store (vs_loc v) (unat d) (vs_offset v) ?len = Some t"
    "loc_list t = ?ls[unat d := (vs_offset v, ?len)]" "loc_max t = loc_max (vs_loc v)"
    using loc_store_list [OF dl le] .
  let ?v = "v\<lparr>vs_data := vs_data v @ bs, vs_loc := t, vs_offset := vs_offset v + ucast ?len\<rparr>"
  have guard: "\<not> (case vs_loc v of Loc2 _ \<Rightarrow> ?len > 0xFFFF | Loc4 _ \<Rightarrow> ?len > 0xFFFFFFFF)"
    using le by (auto simp: not_less split: loc_table.split)
  have "vstorage_insert (Xfer k) v (ld_of bs) d = Some (0, ?v)"
    using guard pos small k len t(1)
    by (simp add: vstorage_insert_def ld_of_simps Let_def min_absorb2)
  moreover have sum: "length (vs_data v) + length bs < 2 ^ 64" using fit by (simp add: vs_fits_def)
  then have off': "unat (vs_offset v + ucast ?len) = length (vs_data v) + length bs"
    using off len by (simp add: unat_loc_sum)
  have "loc_reach l \<le> length (vs_data v) + length bs" if "l \<in> set (loc_list t)" for l
  proof (cases "l = (vs_offset v, ?len)")
    case True
    then show ?thesis using off len by (simp add: loc_reach_def)
  next
    case False
    with that t(2) set_update_subset_insert [of ?ls "unat d" "(vs_offset v, ?len)"]
    have "l \<in> set ?ls" by auto
    then show ?thesis using v by (auto simp: vstorage_ok_def)
  qed
  then have "vstorage_ok ?v" using v t(2) sum off' by (simp add: vstorage_ok_def)
  moreover have "vs_cells ?v = (vs_cells v)(unat d \<mapsto> bs)"
  proof (rule ext)
    fix e
    show "vs_cells ?v e = ((vs_cells v)(unat d \<mapsto> bs)) e"
    proof (cases "e = unat d")
      case True
      then show ?thesis
        using dl t(2) v d off len pos by (simp add: vs_cells_def loc_bytes_def unat_less_iff)
    next
      case False
      have "loc_bytes (vs_data v @ bs) (?ls ! e) = loc_bytes (vs_data v) (?ls ! e)"
        if "e < unat (vs_row_limit v)"
        using that v by (intro loc_bytes_append) (simp add: vstorage_ok_def)
      with False show ?thesis using t(2) by (auto simp: vs_cells_def)
    qed
  qed
  ultimately show ?thesis using t(3) by (intro exI [of _ ?v]) simp
qed

lemma vstorage_recover_cells:
  assumes v: "vstorage_ok v" and d: "d < vs_row_limit v"
  shows "\<exists>v'. vstorage_recover True True v d = Some (0, v') \<and> vstorage_ok v' \<and>
    vs_row_limit v' = vs_row_limit v \<and> loc_max (vs_loc v') = loc_max (vs_loc v) \<and>
    vs_cells v' = vs_cells v |` {..<unat d}"
proof -
  let ?ls = "loc_list (vs_loc v)" and ?n = "unat (vs_row_limit v)"
  have dn: "unat d < ?n" and n: "length ?ls = ?n" using v d by (simp_all add: vstorage_ok_def unat_less_iff)
  have cnt: "unat (vs_row_limit v - d) = ?n - unat d" using d by (simp add: unat_sub less_imp_le)
  obtain t where t: "loc_zero_from (vs_loc v) (unat d) (?n - unat d) = Some t"
    "loc_list t = take (unat d) ?ls @ replicate (?n - unat d) (0, 0)" "loc_max t = loc_max (vs_loc v)"
    by (rule loc_zero_from_list [of "unat d" "?n - unat d" "vs_loc v"]) (use dn n in simp)
  have reach: "loc_reach l \<le> length (vs_data v)" if "l \<in> set (loc_list t)" for l
    using that t(2) v by (auto simp: vstorage_ok_def loc_reach_def dest: in_set_takeD)
  obtain e where e: "loc_end t 0 (unat d) 0 = Some e" "unat e \<le> length (vs_data v)"
    "\<And>l. l \<in> set (take (unat d) ?ls) \<Longrightarrow> loc_reach l \<le> unat e"
    using loc_end_max [of 0 "unat d" t "length (vs_data v)" 0] reach v dn n t(2)
    by (auto simp: vstorage_ok_def)
  let ?v = "v\<lparr>vs_loc := t, vs_offset := e, vs_data := take (unat e) (vs_data v)\<rparr>"
  have small: "d < 0x80000000" using dn v by (simp add: unat_less_iff vstorage_ok_def)
  have "vstorage_recover True True v d = Some (0, ?v)"
    using d cnt t(1) e(1,2) small by (simp add: vstorage_recover_def Let_def)
  moreover have "loc_reach l \<le> unat e" if "l \<in> set (loc_list t)" for l
    using that t(2) e(3) by (auto simp: loc_reach_def)
  then have "vstorage_ok ?v" using v dn n t(2) e(2) by (simp add: vstorage_ok_def)
  moreover have "vs_cells ?v = vs_cells v |` {..<unat d}"
  proof (rule ext)
    fix x
    consider "x < unat d" | "unat d \<le> x" "x < ?n" | "?n \<le> x" by linarith
    then show "vs_cells ?v x = (vs_cells v |` {..<unat d}) x"
    proof cases
      case 1
      then have "?ls ! x \<in> set (take (unat d) ?ls)"
        using dn n by (auto simp: in_set_conv_nth intro!: exI [of _ x])
      with 1 e(3) dn n t(2) show ?thesis
        by (simp add: vs_cells_def restrict_map_def nth_append loc_bytes_take)
    next
      case 2
      with dn n t(2) show ?thesis by (simp add: vs_cells_def nth_append loc_bytes_def)
    next
      case 3
      with dn show ?thesis by (simp add: vs_cells_def)
    qed
  qed
  ultimately show ?thesis using t(3) by (intro exI [of _ ?v]) simp
qed


section \<open>The column-store contract\<close>

text \<open>With a kernel that transfers whole values, the variable-length store keeps the same
  contract as the fixed-length one.\<close>

definition vs_put :: "vstorage_manager \<Rightarrow> u8 list \<Rightarrow> u32 \<Rightarrow> (int \<times> vstorage_manager) option" where
  "vs_put v bs = vstorage_insert (Xfer (length bs)) v (ld_of bs)"

definition vs_get :: "vstorage_manager \<Rightarrow> u32 \<Rightarrow> u8 list option" where
  "vs_get v d = do { r \<leftarrow> vstorage_query (Xfer (2 ^ 32)) v d; map_option ld_value r }"

interpretation vx: doc_store vstorage_ok vs_cells vs_row_limit vs_fits vs_put vs_get
  "vstorage_recover True True"
proof unfold_locales
  fix v d bs
  assume v: "vstorage_ok v" and d: "d < vs_row_limit v"
  show "\<exists>v'. vstorage_recover True True v d = Some (0, v') \<and> vstorage_ok v' \<and>
      vs_row_limit v' = vs_row_limit v \<and> vs_cells v' = vs_cells v |` {..<unat d}"
    using vstorage_recover_cells [OF v d] by blast
  show "vs_get v d = Some (case vs_cells v (unat d) of None \<Rightarrow> [] | Some b \<Rightarrow> b)"
    using vstorage_query_cells [OF v d] by (auto simp: vs_get_def)
  assume "vs_fits v bs"
  from vstorage_insert_cells [OF v d this order_refl]
  show "\<exists>v'. vs_put v bs d = Some (0, v') \<and> vstorage_ok v' \<and> vs_row_limit v' = vs_row_limit v \<and>
      vs_cells v' = (vs_cells v)(unat d \<mapsto> bs)"
    by (auto simp: vs_put_def)
qed

section \<open>Restart\<close>

lemma chunks_concat:
  assumes "\<And>x. x \<in> set xs \<Longrightarrow> length (f x) = k" and "0 < k"
  shows "chunks k (concat (map f xs)) = map f xs"
proof -
  have "length (concat (map f xs)) = k * length xs"
    using assms(1) by (induction xs) auto
  moreover have "take k (drop (k * i) (concat (map f xs))) = f (xs ! i)" if "i < length xs" for i
    using that assms(1)
  proof (induction xs arbitrary: i)
    case (Cons x xs)
    then show ?case by (cases i) simp_all
  qed simp
  ultimately show ?thesis
    using assms(2) by (intro nth_equalityI) (simp_all add: chunks_def)
qed

lemma dec_enc_loc [simp]: "dec_loc (enc_loc l) = l"
  by (simp add: dec_loc_def enc_loc_def)

lemma dec_enc_loc4 [simp]: "dec_loc4 (enc_loc4 l) = l"
  by (simp add: dec_loc4_def enc_loc4_def)

lemma length_enc_loc [simp]: "length (enc_loc l) = 10" "length (enc_loc4 l4) = 12"
  by (simp_all add: enc_loc_def enc_loc4_def)

lemma decode_table:
  "map dec_loc (chunks 10 (concat (map enc_loc ls))) = ls"
  "map dec_loc4 (chunks 12 (concat (map enc_loc4 ls4))) = ls4"
  by (simp_all add: chunks_concat o_def)


lemma index_bytes4:
  "vs_loc v = Loc4 ls \<Longrightarrow> length (vs_index_bytes v) = 8 + 12 * length ls"
  by (simp add: vs_index_bytes_def length_concat o_def sum_list_triv)

lemma VSTORAGE_MMAP_SIZE4_small:
  assumes "12 * unat n + 8 < 2 ^ 31"
  shows "unat (ucast (VSTORAGE_MMAP_SIZE4 n) :: u32) = 12 * unat n + 8"
proof -
  have "unat n < 2 ^ 64" by (rule less_trans [OF u32_bound]) simp
  then have "unat (ucast n :: u64) = unat n" by (simp add: unsigned_ucast_eq take_bit_nat_eq_self)
  then have "unat (VSTORAGE_MMAP_SIZE4 n) = 12 * unat n + 8"
    using assms by (simp add: VSTORAGE_MMAP_SIZE4_def unat_word_ariths mult.commute)
  with assms show ?thesis by (simp add: unsigned_ucast_eq take_bit_nat_eq_self)
qed

section \<open>Properties\<close>

text \<open>C25: with complete transfers a value written to a variable-length column is what a read of
  its document returns, no other document's value changes, and recovery to a document number
  hides exactly the documents from that number on, although it truncates the shared data
  file.\<close>

theorem vstorage_insert_query_recover:
  assumes "vstorage_ok v" and "d < vs_row_limit v" and "vs_fits v bs"
    and "c < vs_row_limit v" and "e < vs_row_limit v"
  shows "\<exists>v1 v2. vstorage_insert (Xfer (length bs)) v (ld_of bs) d = Some (0, v1) \<and>
    vstorage_recover True True v1 c = Some (0, v2) \<and> vstorage_ok v2 \<and>
    vs_get v1 e = (if e = d then Some bs else vs_get v e) \<and>
    vs_get v2 e = (if e < c then vs_get v1 e else Some [])"
proof -
  from vx.put_law [OF assms(1-3)] obtain v1 where v1:
    "vs_put v bs d = Some (0, v1)" "vstorage_ok v1" "vs_row_limit v1 = vs_row_limit v" by blast
  from vx.cut_law [OF v1(2), of c] v1(3) assms(4) obtain v2 where v2:
    "vstorage_recover True True v1 c = Some (0, v2)" "vstorage_ok v2" by auto
  show ?thesis
    using v1 v2 vx.get_after_put [OF assms(1-3) v1(1) assms(5)]
      vx.get_after_cut [OF v1(2) _ v2(1), of e] assms(4,5) by (simp add: vs_put_def)
qed

definition vstorage_example :: vstorage_manager where
  "vstorage_example = \<lparr>vs_data_file_name = ''w/d.dat'', vs_data = [1, 2, 3],
     vs_index_file_name = ''w/d.loc4'', vs_row_limit = 3, vs_offset = 3,
     vs_loc = Loc4 [\<lparr>l4_offset = 0, l4_len = 2\<rparr>, \<lparr>l4_offset = 2, l4_len = 1\<rparr>,
       \<lparr>l4_offset = 0, l4_len = 0\<rparr>]\<rparr>"

lemma vstorage_example_ok: "vstorage_ok vstorage_example"
  by (simp add: vstorage_ok_def vstorage_example_def loc_reach_def)

theorem vstorage_insert_query_recover_witness:
  "\<exists>v1 v2. vstorage_insert (Xfer 1) vstorage_example (ld_of [9]) 0 = Some (0, v1) \<and>
    vstorage_recover True True v1 1 = Some (0, v2) \<and> vs_get v1 0 = Some [9] \<and>
    vs_get v2 0 = Some [9]"
  using vstorage_insert_query_recover [OF vstorage_example_ok, of 0 "[9]" 1 0]
  by (auto simp: vstorage_example_def vs_fits_def)

text \<open>C34: releasing a variable-length column with the 32-bit table and initialising it again
  restores offset, table and data, whatever the values were.\<close>

theorem vstorage_restart_restores:
  assumes "vs_loc v = Loc4 ls" and "length ls = unat (vs_row_limit v)"
    and "12 * unat (vs_row_limit v) + 8 < 2 ^ 31"
    and "base = vc_work_space config @ ''/'' @ vc_vstorage_name config" and "length base < 250"
    and "vs_data_file_name v = base @ ''.dat''" and "vs_index_file_name v = base @ ''.loc4''"
    and "vc_row_limit config = vs_row_limit v"
    and "\<And>n. os_ok os n" and "fs (base @ ''.loc'') = None"
  shows "\<exists>fs'. vstorage_init os (vstorage_release fs v) config = Some (Some v, fs')"
proof -
  let ?m = "vs_index_bytes v" and ?fs = "vstorage_release fs v"
  let ?sz = "ucast (VSTORAGE_MMAP_SIZE4 (vs_row_limit v)) :: u32"
  have sz: "unat ?sz = length ?m"
    using index_bytes4 [OF assms(1)] VSTORAGE_MMAP_SIZE4_small [OF assms(3)] assms(2) by simp
  have files: "?fs (base @ ''.dat'') = Some (vs_data v)" "?fs (base @ ''.loc'') = None"
    "file_bytes ?fs (base @ ''.loc4'') = ?m @ drop (length ?m) (file_bytes fs (base @ ''.loc4''))"
    using assms(6,7,10) by (simp_all add: vstorage_release_def msync_file_def file_bytes_def)
  have "length ?m < 2147483648" "0 < length ?m"
    using index_bytes4 [OF assms(1)] assms(2,3) by simp_all
  then have map: "get_mmap_memory os ?fs (base @ ''.loc4'') ?sz =
      (Some ?m, ?fs(base @ ''.loc4'' \<mapsto> ?m @ drop (length ?m) (file_bytes fs (base @ ''.loc4''))))"
    using sz files(3) assms(9) by (subst get_mmap_memory_small) (simp_all add: pad_to_def)
  have "rd_range ?m 0 8 = Some (le_bytes 8 (vs_offset v))"
    "map dec_loc4 (chunks 12 (drop 8 ?m)) = ls"
    by (simp_all add: vs_index_bytes_def assms(1) rd_range_def decode_table)
  moreover have "open_file os ?fs (base @ ''.dat'') =
      Some (\<lparr>fd_content = vs_data v, fd_pos = 0\<rparr>, ?fs)"
    using assms(9) files(1) by (simp add: open_file_def os_ok_def)
  moreover have names: "sprintf_name (base @ ''.dat'') = Some (base @ ''.dat'')"
    "sprintf_name (base @ ''.loc'') = Some (base @ ''.loc'')"
    "sprintf_name (base @ ''.loc4'') = Some (base @ ''.loc4'')"
    using assms(5) by (simp_all add: sprintf_name_def)
  ultimately show ?thesis
    using map files(2) assms(1,6,7,8) unfolding vstorage_init_def assms(4) [symmetric]
    by (simp add: Let_def)
qed


theorem vstorage_restart_restores_witness:
  "\<exists>fs'. vstorage_init \<lparr>os_open = \<lambda>_. True, os_truncate = \<lambda>_ _. True, os_mmap = \<lambda>_. True\<rparr>
      (vstorage_release Map.empty vstorage_example)
      \<lparr>vc_work_space = ''w'', vc_vstorage_name = ''d'', vc_row_limit = 3\<rparr> =
    Some (Some vstorage_example, fs')"
  by (rule vstorage_restart_restores [where base = "''w/d''" and
      ls = "[\<lparr>l4_offset = 0, l4_len = 2\<rparr>, \<lparr>l4_offset = 2, l4_len = 1\<rparr>, \<lparr>l4_offset = 0, l4_len = 0\<rparr>]"])
    (simp_all add: vstorage_example_def os_ok_def)

text \<open>a short \<^verbatim>\<open>write\<close> is reported as a failure, but its bytes stay in the append-only
  file while the recorded offset does not move: the next value stored, for any document,
  reads back shifted by them although its insert reports success.\<close>

theorem vstorage_short_write_shifts_next_value:
  assumes "vstorage_ok v" and "d < vs_row_limit v" and "e < vs_row_limit v"
    and "vs_fits v bs" and "k < length bs" and "vs_fits v ws"
  shows "\<exists>v1 v2. vstorage_insert (Xfer k) v (ld_of bs) d = Some (- 1, v1) \<and>
    vstorage_insert (Xfer (length ws)) v1 (ld_of ws) e = Some (0, v2) \<and>
    vs_get v2 e = Some (take (length ws) (take k bs @ ws))"
proof -
  let ?ls = "loc_list (vs_loc v)"
  have fit: "x \<noteq> [] \<and> unat (ld_len (ld_of x)) = length x \<and> ld_len (ld_of x) \<le> loc_max (vs_loc v) \<and>
      length x < 4294967296 \<and> ld_len (ld_of x) \<noteq> 0" if "vs_fits v x" for x
  proof -
    have "length x < 4294967296"
      using that by (auto simp: vs_fits_def intro: le_less_trans [OF _ u32_bound])
    moreover from this have "unat (ld_len (ld_of x)) = length x" by (rule ld_of_simps)
    ultimately show ?thesis using that by (auto simp: unat_le_iff vs_fits_def)
  qed
  note b = fit [OF assms(4)] and w = fit [OF assms(6)]
  have guard: "\<not> (case vs_loc v of Loc2 _ \<Rightarrow> len > 0xFFFF | Loc4 _ \<Rightarrow> len > 0xFFFFFFFF)"
    if "len \<le> loc_max (vs_loc v)" for len
    using that by (auto simp: not_less split: loc_table.split)
  let ?v1 = "v\<lparr>vs_data := vs_data v @ take k bs\<rparr>"
  have v1: "vstorage_insert (Xfer k) v (ld_of bs) d = Some (- 1, ?v1)"
    using guard b assms(5) by (simp add: vstorage_insert_def ld_of_simps Let_def min_absorb1)
  have el: "unat e < length ?ls" and off: "unat (vs_offset v) = length (vs_data v)"
    using assms(1,3) by (simp_all add: vstorage_ok_def unat_less_iff)
  obtain t where t: "loc_store (vs_loc v) (unat e) (vs_offset v) (ld_len (ld_of ws)) = Some t"
    "loc_list t = ?ls[unat e := (vs_offset v, ld_len (ld_of ws))]"
    using loc_store_list [OF el] w by blast
  let ?v2 = "?v1\<lparr>vs_data := vs_data ?v1 @ ws, vs_loc := t,
    vs_offset := vs_offset v + ucast (ld_len (ld_of ws))\<rparr>"
  have "vstorage_insert (Xfer (length ws)) ?v1 (ld_of ws) e = Some (0, ?v2)"
    using guard w t(1) by (simp add: vstorage_insert_def ld_of_simps Let_def)
  moreover have "min 4294967296 (length ws) = length ws" using w by simp
  then have "vs_get ?v2 e = Some (take (length ws) (take k bs @ ws))"
    using t(2) el w off
    by (simp add: vs_get_def vstorage_query_def mem_simps Let_def ld_value_def del: take_append)
  ultimately show ?thesis using v1 by blast
qed

theorem vstorage_short_write_shifts_next_value_witness:
  "\<exists>v1 v2. vstorage_insert (Xfer 1) vstorage_example (ld_of [7, 8]) 0 = Some (- 1, v1) \<and>
    vstorage_insert (Xfer 1) v1 (ld_of [9]) 2 = Some (0, v2) \<and> vs_get v2 2 = Some [7]"
  using vstorage_short_write_shifts_next_value [OF vstorage_example_ok, of 0 2 "[7, 8]" 1 "[9]"]
  by (simp add: vstorage_example_def vs_fits_def)

end
