(* ===== verification/Filter_Index.thy ===== *)
theory Filter_Index
  imports Storage Vstorage
begin

text \<open>
  \<^verbatim>\<open>storage/docdb/filter_index.c\<close>: a column kept by the fixed-length or the variable-length
  store, chosen by whether its type has a fixed size.  The pointer that the type does not
  use is NULL; following it is the \<^term>\<open>None\<close> outcome.  The parameters \<open>r\<close> and \<open>w\<close> are
  what the read and the write call of the variable-length store answer.
\<close>

section \<open>State and operations\<close>

record filter_index_config =
  fc_work_space :: string
  fc_row_limit :: u32
  fc_unit_size :: u16
  fc_type :: field_types

record filter_index_manager =
  fi_storage :: "storage_manager option"
  fi_vstorage :: "vstorage_manager option"
  fi_type :: field_types

definition is_fixed_size :: "field_types \<Rightarrow> bool" where
  "is_fixed_size t \<longleftrightarrow> get_unit_size t > 0"

definition filter_index_init ::
    "os \<Rightarrow> file_system \<Rightarrow> filter_index_config \<Rightarrow> (filter_index_manager \<times> file_system) option" where
  "filter_index_init os fs config =
     (if \<not> is_fixed_size (fc_type config)
      then do {
        (vs, fs') \<leftarrow> vstorage_init os fs \<lparr>vc_work_space = fc_work_space config,
          vc_vstorage_name = ''filter_vstore'', vc_row_limit = fc_row_limit config\<rparr>;
        v \<leftarrow> vs;
        Some (\<lparr>fi_storage = None, fi_vstorage = Some v, fi_type = fc_type config\<rparr>, fs')
      }
      else do {
        (s, fs') \<leftarrow> storage_init os fs \<lparr>sc_work_space = fc_work_space config,
          sc_storage_name = ''filter_store'', sc_unit_size = fc_unit_size config,
          sc_row_limit = fc_row_limit config\<rparr>;
        Some (\<lparr>fi_storage = Some s, fi_vstorage = None, fi_type = fc_type config\<rparr>, fs')
      })"

definition filter_index_insert ::
    "io \<Rightarrow> filter_index_manager \<Rightarrow> low_data \<Rightarrow> u32 \<Rightarrow> (int \<times> filter_index_manager) option" where
  "filter_index_insert w f data docid =
     (if \<not> is_fixed_size (fi_type f)
      then do {
        v \<leftarrow> fi_vstorage f;
        (ret, v') \<leftarrow> vstorage_insert w v data docid;
        Some (ret, f\<lparr>fi_vstorage := Some v'\<rparr>)
      }
      else do {
        s \<leftarrow> fi_storage f;
        (ret, s') \<leftarrow> storage_insert s data docid;
        Some (ret, f\<lparr>fi_storage := Some s'\<rparr>)
      })"

definition filter_index_update ::
    "io \<Rightarrow> io \<Rightarrow> filter_index_manager \<Rightarrow> low_data \<Rightarrow> u32 \<Rightarrow>
       (int \<times> low_data option \<times> filter_index_manager) option" where
  "filter_index_update r w f new_data docid =
     (if \<not> is_fixed_size (fi_type f)
      then do {
        v \<leftarrow> fi_vstorage f;
        (ret, old, v') \<leftarrow> vstorage_update r w v new_data docid;
        Some (ret, old, f\<lparr>fi_vstorage := Some v'\<rparr>)
      }
      else do {
        s \<leftarrow> fi_storage f;
        (ret, old, s') \<leftarrow> storage_update s new_data docid;
        Some (ret, Some old, f\<lparr>fi_storage := Some s'\<rparr>)
      })"

definition filter_index_query ::
    "io \<Rightarrow> filter_index_manager \<Rightarrow> u32 \<Rightarrow> low_data option option" where
  "filter_index_query r f docid =
     (if \<not> is_fixed_size (fi_type f)
      then do { v \<leftarrow> fi_vstorage f; vstorage_query r v docid }
      else do { s \<leftarrow> fi_storage f; d \<leftarrow> storage_query s docid; Some (Some d) })"

definition filter_index_release ::
    "file_system \<Rightarrow> filter_index_manager \<Rightarrow> (filter_index_manager \<times> file_system) option" where
  "filter_index_release fs f =
     (if \<not> is_fixed_size (fi_type f)
      then do { v \<leftarrow> fi_vstorage f; Some (f, vstorage_release fs v) }
      else do {
        s \<leftarrow> fi_storage f;
        let (s', fs') = storage_release fs s;
        Some (f\<lparr>fi_storage := Some s'\<rparr>, fs')
      })"

definition filter_index_checkpoint :: "file_system \<Rightarrow> filter_index_manager \<Rightarrow> file_system option" where
  "filter_index_checkpoint fs f =
     (if \<not> is_fixed_size (fi_type f)
      then do { v \<leftarrow> fi_vstorage f; Some (vstorage_checkpoint fs v) }
      else do { s \<leftarrow> fi_storage f; Some (storage_checkpoint fs s) })"

definition filter_index_destroy :: "file_system \<Rightarrow> filter_index_manager \<Rightarrow> file_system option" where
  "filter_index_destroy fs f =
     (if \<not> is_fixed_size (fi_type f)
      then do { v \<leftarrow> fi_vstorage f; Some (vstorage_destroy fs v) }
      else do { s \<leftarrow> fi_storage f; Some (storage_destroy fs s) })"

definition filter_index_recover ::
    "bool \<Rightarrow> bool \<Rightarrow> filter_index_manager \<Rightarrow> u32 \<Rightarrow> (int \<times> filter_index_manager) option" where
  "filter_index_recover size_ok trunc_ok f docid =
     (if \<not> is_fixed_size (fi_type f)
      then do {
        v \<leftarrow> fi_vstorage f;
        (ret, v') \<leftarrow> vstorage_recover size_ok trunc_ok v docid;
        Some (ret, f\<lparr>fi_vstorage := Some v'\<rparr>)
      }
      else do {
        s \<leftarrow> fi_storage f;
        (ret, s') \<leftarrow> storage_recover s docid;
        Some (ret, f\<lparr>fi_storage := Some s'\<rparr>)
      })"

section \<open>The column-store contract\<close>

definition filter_index_ok :: "filter_index_manager \<Rightarrow> bool" where
  "filter_index_ok f \<longleftrightarrow>
     (if is_fixed_size (fi_type f)
      then (case fi_storage f of None \<Rightarrow> False | Some s \<Rightarrow> storage_ok s)
      else (case fi_vstorage f of None \<Rightarrow> False | Some v \<Rightarrow> vstorage_ok v))"

definition fi_cells :: "filter_index_manager \<Rightarrow> nat \<rightharpoonup> u8 list" where
  "fi_cells f = (if is_fixed_size (fi_type f) then st_cells (the (fi_storage f))
     else vs_cells (the (fi_vstorage f)))"

definition fi_limit :: "filter_index_manager \<Rightarrow> u32" where
  "fi_limit f = (if is_fixed_size (fi_type f) then st_row_limit (the (fi_storage f))
     else vs_row_limit (the (fi_vstorage f)))"

definition fi_fits :: "filter_index_manager \<Rightarrow> u8 list \<Rightarrow> bool" where
  "fi_fits f v = (if is_fixed_size (fi_type f) then st_fits (the (fi_storage f)) v
     else vs_fits (the (fi_vstorage f)) v)"

definition fi_put :: "filter_index_manager \<Rightarrow> u8 list \<Rightarrow> u32 \<Rightarrow> (int \<times> filter_index_manager) option" where
  "fi_put f v = filter_index_insert (Xfer (length v)) f (ld_of v)"

definition fi_get :: "filter_index_manager \<Rightarrow> u32 \<Rightarrow> u8 list option" where
  "fi_get f d = do { r \<leftarrow> filter_index_query (Xfer (2 ^ 32)) f d; map_option ld_value r }"

lemma filter_index_okE:
  assumes "filter_index_ok f"
  obtains (fixed) s where "is_fixed_size (fi_type f)" and "fi_storage f = Some s" and "storage_ok s"
  | (variable) v where "\<not> is_fixed_size (fi_type f)" and "fi_vstorage f = Some v" and "vstorage_ok v"
  using assms by (auto simp: filter_index_ok_def split: if_splits option.splits)

lemmas fi_defs = fi_cells_def fi_limit_def fi_fits_def fi_put_def fi_get_def filter_index_ok_def

interpretation fi: doc_store filter_index_ok fi_cells fi_limit fi_fits fi_put fi_get
  "filter_index_recover True True"
proof unfold_locales
  fix f d v
  assume f: "filter_index_ok f" and d: "d < fi_limit f"
  from f show "\<exists>f'. filter_index_recover True True f d = Some (0, f') \<and> filter_index_ok f' \<and>
      fi_limit f' = fi_limit f \<and> fi_cells f' = fi_cells f |` {..<unat d}"
  proof (cases rule: filter_index_okE)
    case (fixed s)
    then obtain s' where "storage_recover s d = Some (0, s')" "storage_ok s'"
      "st_row_limit s' = st_row_limit s" "st_cells s' = st_cells s |` {..<unat d}"
      using d fx.cut_law [of s d] by (auto simp: fi_limit_def)
    with fixed show ?thesis
      by (intro exI [of _ "f\<lparr>fi_storage := Some s'\<rparr>"]) (simp add: fi_defs filter_index_recover_def)
  next
    case (variable w)
    then obtain w' where "vstorage_recover True True w d = Some (0, w')" "vstorage_ok w'"
      "vs_row_limit w' = vs_row_limit w" "vs_cells w' = vs_cells w |` {..<unat d}"
      using d vx.cut_law [of w d] by (auto simp: fi_limit_def)
    with variable show ?thesis
      by (intro exI [of _ "f\<lparr>fi_vstorage := Some w'\<rparr>"]) (simp add: fi_defs filter_index_recover_def)
  qed
  from f show "fi_get f d = Some (case fi_cells f (unat d) of None \<Rightarrow> [] | Some v \<Rightarrow> v)"
  proof (cases rule: filter_index_okE)
    case (fixed s)
    then have "map_option ld_value (storage_query s d) =
        Some (case st_cells s (unat d) of None \<Rightarrow> [] | Some v \<Rightarrow> v)"
      using d by (intro fx.get_law) (simp_all add: fi_limit_def)
    with fixed show ?thesis by (auto simp: fi_get_def fi_cells_def filter_index_query_def)
  next
    case (variable w)
    then have "vs_get w d = Some (case vs_cells w (unat d) of None \<Rightarrow> [] | Some v \<Rightarrow> v)"
      using d by (intro vx.get_law) (simp_all add: fi_limit_def)
    with variable show ?thesis
      by (simp add: fi_get_def fi_cells_def filter_index_query_def vs_get_def)
  qed
  assume fit: "fi_fits f v"
  from f show "\<exists>f'. fi_put f v d = Some (0, f') \<and> filter_index_ok f' \<and> fi_limit f' = fi_limit f \<and>
      fi_cells f' = (fi_cells f)(unat d \<mapsto> v)"
  proof (cases rule: filter_index_okE)
    case (fixed s)
    then obtain s' where "storage_insert s (ld_of v) d = Some (0, s')" "storage_ok s'"
      "st_row_limit s' = st_row_limit s" "st_cells s' = (st_cells s)(unat d \<mapsto> v)"
      using d fit fx.put_law [of s d v] by (auto simp: fi_limit_def fi_fits_def)
    with fixed show ?thesis
      by (intro exI [of _ "f\<lparr>fi_storage := Some s'\<rparr>"]) (simp add: fi_defs filter_index_insert_def)
  next
    case (variable w)
    then obtain w' where "vs_put w v d = Some (0, w')" "vstorage_ok w'"
      "vs_row_limit w' = vs_row_limit w" "vs_cells w' = (vs_cells w)(unat d \<mapsto> v)"
      using d fit vx.put_law [of w d v] by (auto simp: fi_limit_def fi_fits_def)
    with variable show ?thesis
      by (intro exI [of _ "f\<lparr>fi_vstorage := Some w'\<rparr>"])
        (simp add: fi_defs filter_index_insert_def vs_put_def)
  qed
qed

section \<open>Properties\<close>

text \<open>C27: crash recovery of a filter column undoes every write at or past the recovery point:
  recovering to \<open>c\<close> after a value was stored for a document \<open>d \<ge> c\<close> leaves what recovering
  without that write would have left, for either kind of column.\<close>

theorem filter_index_recover_undoes_insert:
  assumes "filter_index_ok f" and "d < fi_limit f" and "fi_fits f v" and "c \<le> d" and "x < fi_limit f"
  shows "\<exists>f1 f2 g. filter_index_insert (Xfer (length v)) f (ld_of v) d = Some (0, f1) \<and>
    filter_index_recover True True f1 c = Some (0, f2) \<and>
    filter_index_recover True True f c = Some (0, g) \<and>
    fi_get f1 d = Some v \<and> fi_get f2 x = fi_get g x"
proof -
  from fi.put_law [OF assms(1-3)] obtain f1 where f1: "fi_put f v d = Some (0, f1)"
    "filter_index_ok f1" "fi_limit f1 = fi_limit f" by blast
  have c: "c < fi_limit f" using assms(4,2) by (rule order_le_less_trans)
  from fi.cut_law [OF f1(2), of c] f1(3) c obtain f2 where
    f2: "filter_index_recover True True f1 c = Some (0, f2)" by auto
  from fi.cut_law [OF assms(1) c] obtain g where
    g: "filter_index_recover True True f c = Some (0, g)" by blast
  have "fi_get f1 d = Some v" using fi.get_after_put [OF assms(1-3) f1(1) assms(2)] by simp
  moreover have "fi_get f2 x = fi_get g x"
    using fi.cut_undoes_put [OF assms(1-3) f1(1) assms(4) f2 g assms(5)] .
  ultimately show ?thesis using f1(1) f2 g by (simp add: fi_put_def)
qed

theorem filter_index_recover_undoes_insert_witness:
  "\<exists>f1 f2 g. filter_index_insert (Xfer 1)
      \<lparr>fi_storage = None, fi_vstorage = Some vstorage_example, fi_type = HI_TYPE_STRING\<rparr>
      (ld_of [9]) 1 = Some (0, f1) \<and>
    filter_index_recover True True f1 1 = Some (0, f2) \<and>
    filter_index_recover True True
      \<lparr>fi_storage = None, fi_vstorage = Some vstorage_example, fi_type = HI_TYPE_STRING\<rparr> 1 =
      Some (0, g) \<and>
    fi_get f1 1 = Some [9] \<and> fi_get f2 0 = fi_get g 0"
  using filter_index_recover_undoes_insert
    [of "\<lparr>fi_storage = None, fi_vstorage = Some vstorage_example, fi_type = HI_TYPE_STRING\<rparr>" 1
      "[9]" 1 0] vstorage_example_ok
  by (simp add: fi_defs is_fixed_size_def get_unit_size_def vs_fits_def vstorage_example_def)

end
