(* ===== verification/Row_Codec.thy ===== *)
theory Row_Codec
  imports Low_Data
begin

text \<open>
  The row codec of \<^verbatim>\<open>common/common_util.c\<close>: a row is packed as its field count (2 bytes) and,
  per field, the name length (1 byte), the name, the type (1 byte), the data length (4 bytes)
  and the data.  A fresh buffer holds the arbitrary bytes \<open>raw\<close>; the pool refuses a buffer
  larger than \<open>pool_size\<close>.  A field name is the text of its C string.
\<close>

section \<open>Packing\<close>

record row_data =
  rw_datas :: "low_data list"
  rw_field_count :: u16

fun row_len_loop :: "low_data list \<Rightarrow> u32 \<Rightarrow> u32" where
  "row_len_loop [] len = len"
| "row_len_loop (d # ds) len =
     row_len_loop ds (len + 1 + 1 + word_of_nat (length (ld_field_name d)) + 4 + ld_len d)"

fun row_put_loop :: "low_data list \<Rightarrow> u32 \<Rightarrow> u8 list \<Rightarrow> u8 list option" where
  "row_put_loop [] off buf = Some buf"
| "row_put_loop (d # ds) off buf = do {
     let fieldname_len = (word_of_nat (length (ld_field_name d)) :: u8);
     buf1 \<leftarrow> wr_range buf (unat off) [fieldname_len];
     name \<leftarrow> rd_range (ld_field_name d) 0 (unat fieldname_len);
     buf2 \<leftarrow> wr_range buf1 (unat (off + 1)) name;
     let off2 = off + 1 + ucast fieldname_len;
     buf3 \<leftarrow> wr_range buf2 (unat off2) [ld_type d];
     buf4 \<leftarrow> wr_range buf3 (unat (off2 + 1)) (le_bytes 4 (ld_len d));
     bs \<leftarrow> ld_bytes d;
     buf5 \<leftarrow> wr_range buf4 (unat (off2 + 1 + 4)) bs;
     row_put_loop ds (off2 + 1 + 4 + ld_len d) buf5
   }"

text \<open>\<^verbatim>\<open>memset(buf,0,sizeof(buf))\<close> clears the eight bytes of a pointer.\<close>

definition rowdata_to_lowdata :: "nat \<Rightarrow> (nat \<Rightarrow> u8) \<Rightarrow> row_data \<Rightarrow> low_data option option" where
  "rowdata_to_lowdata pool_size raw rdata = do {
     fields \<leftarrow> rd_range (rw_datas rdata) 0 (unat (rw_field_count rdata));
     let len = row_len_loop fields 2;
     if unat len > pool_size then Some None
     else do {
       buf0 \<leftarrow> wr_range (map raw [0..<unat len]) 0 (replicate 8 0);
       buf1 \<leftarrow> wr_range buf0 0 (le_bytes 2 (rw_field_count rdata));
       buf2 \<leftarrow> row_put_loop fields 2 buf1;
       Some (Some \<lparr>ld_field_name = [], ld_type = HI_TYPE_NULL, ld_data = buf2, ld_len = len\<rparr>)
     }
   }"

section \<open>Unpacking\<close>

definition strncpy_text :: "u8 list \<Rightarrow> nat \<Rightarrow> nat \<Rightarrow> u8 list option" where
  "strncpy_text buf a n =
     (let w = takeWhile (\<lambda>b. b \<noteq> 0) (take n (drop a buf))
      in if a + n \<le> length buf \<or> a + length w < length buf then Some w else None)"

fun row_get_loop :: "nat \<Rightarrow> u32 \<Rightarrow> u8 list \<Rightarrow> low_data list option" where
  "row_get_loop 0 off buf = Some []"
| "row_get_loop (Suc n) off buf = do {
     fieldname_len \<leftarrow> rd buf (unat off);
     name \<leftarrow> strncpy_text buf (unat (off + 1)) (unat fieldname_len);
     let off2 = off + 1 + ucast fieldname_len;
     t \<leftarrow> rd buf (unat off2);
     lenb \<leftarrow> rd_range buf (unat (off2 + 1)) 4;
     let len = (le_word lenb :: u32);
     let off3 = off2 + 1 + 4;
     ds \<leftarrow> row_get_loop n (off3 + len) buf;
     Some (\<lparr>ld_field_name = name, ld_type = t, ld_data = drop (unat off3) buf, ld_len = len\<rparr> # ds)
   }"

definition lowdata_to_rowdata :: "low_data \<Rightarrow> row_data option" where
  "lowdata_to_rowdata rdata = do {
     cnt \<leftarrow> rd_range (ld_data rdata) 0 2;
     let field_count = (le_word cnt :: u16);
     ds \<leftarrow> row_get_loop (unat field_count) 2 (ld_data rdata);
     Some \<lparr>rw_datas = ds, rw_field_count = field_count\<rparr>
   }"

section \<open>The encoded form\<close>

definition field_ok :: "low_data \<Rightarrow> bool" where
  "field_ok d \<longleftrightarrow> ld_valid d \<and> length (ld_field_name d) < 256 \<and> 0 \<notin> set (ld_field_name d)"

definition enc_field :: "low_data \<Rightarrow> u8 list" where
  "enc_field d = word_of_nat (length (ld_field_name d)) # ld_field_name d @ ld_type d #
     le_bytes 4 (ld_len d) @ ld_value d"

definition enc_fields :: "low_data list \<Rightarrow> u8 list" where
  "enc_fields ds = concat (map enc_field ds)"

definition same_field :: "low_data \<Rightarrow> low_data \<Rightarrow> bool" where
  "same_field d d' \<longleftrightarrow> ld_field_name d' = ld_field_name d \<and> ld_type d' = ld_type d \<and>
     ld_len d' = ld_len d \<and> ld_value d' = ld_value d"

lemma enc_fields_simps [simp]:
  "enc_fields [] = []" "enc_fields (d # ds) = enc_field d @ enc_fields ds"
  by (simp_all add: enc_fields_def)

lemma length_enc_field:
  "ld_valid d \<Longrightarrow> length (enc_field d) = 6 + length (ld_field_name d) + unat (ld_len d)"
  by (simp add: enc_field_def)

lemma wr_range_extend:
  assumes "a + length xs + length ys \<le> length b" and "a' = a + length xs"
  shows "wr_range (take a b @ xs @ drop (a + length xs) b) a' ys =
    Some (take a b @ (xs @ ys) @ drop (a + length (xs @ ys)) b)"
  using assms by (simp add: wr_range_def ac_simps)

lemma unat_add_u32:
  assumes "unat (a :: u32) + n < 4294967296"
  shows "unat (a + word_of_nat n) = unat a + n"
proof -
  have "n < 4294967296" using assms by simp
  then have "unat (word_of_nat n :: u32) = n" by (rule unat_word_of_nat_u32)
  with assms show ?thesis by (simp add: unat_word_ariths)
qed

lemma name_len_byte:
  assumes "n < 256"
  shows "unat (word_of_nat n :: u8) = n" and "ucast (word_of_nat n :: u8) = (word_of_nat n :: u32)"
proof -
  show u: "unat (word_of_nat n :: u8) = n"
    using assms by (simp add: unat_of_nat take_bit_nat_eq_self)
  have "unat (ucast (word_of_nat n :: u8) :: u32) = take_bit 32 (unat (word_of_nat n :: u8))"
    by (simp add: unsigned_ucast_eq)
  also have "\<dots> = n" unfolding u using assms by (simp add: take_bit_nat_eq_self)
  also have "n = unat (word_of_nat n :: u32)" using assms by (simp add: unat_word_of_nat_u32)
  finally show "ucast (word_of_nat n :: u8) = (word_of_nat n :: u32)"
    by (rule word_unat_eq_iff [THEN iffD2])
qed

text \<open>The 32-bit offsets the loops step through, as naturals, for one field at \<open>off\<close>.\<close>

lemma field_offsets:
  assumes "field_ok d" and "unat (off :: u32) + length (enc_field d) < 4294967296"
  shows "unat (off + 1) = unat off + 1"
    and "unat (off + 1 + word_of_nat (length (ld_field_name d))) = unat off + 1 + length (ld_field_name d)"
    and "unat (off + 1 + word_of_nat (length (ld_field_name d)) + 1) =
      unat off + 2 + length (ld_field_name d)"
    and "unat (off + 1 + word_of_nat (length (ld_field_name d)) + 1 + 4) =
      unat off + 6 + length (ld_field_name d)"
    and "unat (off + 1 + word_of_nat (length (ld_field_name d)) + 1 + 4 + ld_len d) =
      unat off + length (enc_field d)"
proof -
  let ?n = "length (ld_field_name d)"
  have len: "unat off + (6 + ?n + unat (ld_len d)) < 4294967296"
    using assms by (simp add: length_enc_field field_ok_def)
  show 1: "unat (off + 1) = unat off + 1" using len by (intro unat_plus_one_u32) simp
  show 2: "unat (off + 1 + word_of_nat ?n) = unat off + 1 + ?n"
    using len 1 by (simp add: unat_add_u32)
  show 3: "unat (off + 1 + word_of_nat ?n + 1) = unat off + 2 + ?n"
    using len 2 unat_plus_one_u32 [of "off + 1 + word_of_nat ?n"] by simp
  have "unat (off + 1 + word_of_nat ?n + 1 + word_of_nat 4) = unat (off + 1 + word_of_nat ?n + 1) + 4"
    using len 3 by (intro unat_add_u32) simp
  then show 4: "unat (off + 1 + word_of_nat ?n + 1 + 4) = unat off + 6 + ?n" using 3 by simp
  have "unat (off + 1 + word_of_nat ?n + 1 + 4 + word_of_nat (unat (ld_len d))) =
      unat (off + 1 + word_of_nat ?n + 1 + 4) + unat (ld_len d)"
    using len 4 by (intro unat_add_u32) simp
  then show "unat (off + 1 + word_of_nat ?n + 1 + 4 + ld_len d) = unat off + length (enc_field d)"
    using 4 assms(1) by (simp add: length_enc_field field_ok_def)
qed


lemma row_put_field:
  assumes d: "field_ok d" and fit: "unat off + length (enc_field d) \<le> length buf"
    and small: "unat off + length (enc_field d) < 4294967296"
  shows "row_put_loop (d # ds) off buf =
    row_put_loop ds (off + 1 + word_of_nat (length (ld_field_name d)) + 1 + 4 + ld_len d)
      (take (unat off) buf @ enc_field d @ drop (unat off + length (enc_field d)) buf)"
proof -
  let ?n = "length (ld_field_name d)" and ?a = "unat off"
  let ?img = "\<lambda>xs. take ?a buf @ xs @ drop (?a + length xs) buf"
  let ?c1 = "[word_of_nat ?n] :: u8 list" and ?c4 = "le_bytes 4 (ld_len d)"
  have n: "unat (word_of_nat ?n :: u8) = ?n" "ucast (word_of_nat ?n :: u8) = (word_of_nat ?n :: u32)"
    using d by (simp_all add: field_ok_def name_len_byte)
  have ok: "ld_valid d" "length (ld_value d) = unat (ld_len d)" using d by (simp_all add: field_ok_def)
  note o = field_offsets [OF d small]
  have len: "?a + (6 + ?n + unat (ld_len d)) \<le> length buf"
    using fit ok(1) by (simp add: length_enc_field)
  have w1: "wr_range buf ?a ?c1 = Some (?img ?c1)"
    using len by (simp add: wr_range_def)
  have w2: "wr_range (?img ?c1) (unat (off + 1)) (ld_field_name d) = Some (?img (?c1 @ ld_field_name d))"
    using len o(1) by (intro wr_range_extend) simp_all
  have w3: "wr_range (?img (?c1 @ ld_field_name d)) (unat (off + 1 + word_of_nat ?n)) [ld_type d] =
      Some (?img ((?c1 @ ld_field_name d) @ [ld_type d]))"
    using len o(2) by (intro wr_range_extend) simp_all
  have w4: "wr_range (?img ((?c1 @ ld_field_name d) @ [ld_type d]))
      (unat (off + 1 + word_of_nat ?n + 1)) ?c4 =
      Some (?img (((?c1 @ ld_field_name d) @ [ld_type d]) @ ?c4))"
    using len o(3) by (intro wr_range_extend) simp_all
  have w5: "wr_range (?img (((?c1 @ ld_field_name d) @ [ld_type d]) @ ?c4))
      (unat (off + 1 + word_of_nat ?n + 1 + 4)) (ld_value d) =
      Some (?img ((((?c1 @ ld_field_name d) @ [ld_type d]) @ ?c4) @ ld_value d))"
    using len o(4) ok(2) by (intro wr_range_extend) simp_all
  have enc: "(((?c1 @ ld_field_name d) @ [ld_type d]) @ ?c4) @ ld_value d = enc_field d"
    by (simp add: enc_field_def)
  have r: "rd_range (ld_field_name d) 0 ?n = Some (ld_field_name d)" by (simp add: rd_range_def)
  show ?thesis
    unfolding row_put_loop.simps Let_def n w1 option.simps bind.bind_lunit r w2 w3 w4
      ld_valid_simps(1) [OF ok(1)] w5 enc ..
qed


lemma row_put_loop_image:
  assumes "list_all field_ok ds" and "unat off + length (enc_fields ds) \<le> length buf"
    and "unat off + length (enc_fields ds) < 4294967296"
  shows "row_put_loop ds off buf =
    Some (take (unat off) buf @ enc_fields ds @ drop (unat off + length (enc_fields ds)) buf)"
  using assms
proof (induction ds arbitrary: off buf)
  case Nil
  then show ?case by simp
next
  case (Cons d ds)
  let ?off = "off + 1 + word_of_nat (length (ld_field_name d)) + 1 + 4 + ld_len d"
  let ?buf = "take (unat off) buf @ enc_field d @ drop (unat off + length (enc_field d)) buf"
  have d: "field_ok d" "unat off + length (enc_field d) < 4294967296"
    "unat off + length (enc_field d) \<le> length buf" using Cons.prems by simp_all
  have off: "unat ?off = unat off + length (enc_field d)" by (rule field_offsets(5) [OF d(1,2)])
  have step: "row_put_loop (d # ds) off buf = row_put_loop ds ?off ?buf"
    by (rule row_put_field [OF d(1,3,2)])
  have "row_put_loop ds ?off ?buf =
      Some (take (unat ?off) ?buf @ enc_fields ds @ drop (unat ?off + length (enc_fields ds)) ?buf)"
    using Cons.prems by (intro Cons.IH) (simp_all only: off, simp_all)
  then show ?case unfolding step off using d(3) by (simp add: ac_simps)
qed

lemma row_len_loop_length:
  assumes "list_all field_ok ds" and "unat len + length (enc_fields ds) < 4294967296"
  shows "unat (row_len_loop ds len) = unat len + length (enc_fields ds)"
  using assms
proof (induction ds arbitrary: len)
  case Nil
  then show ?case by simp
next
  case (Cons d ds)
  let ?len = "len + 1 + word_of_nat (length (ld_field_name d)) + 1 + 4 + ld_len d"
  have "unat ?len = unat len + length (enc_field d)"
    using Cons.prems by (intro field_offsets(5)) simp_all
  moreover have "len + 1 + 1 + word_of_nat (length (ld_field_name d)) + 4 + ld_len d = ?len" by simp
  ultimately show ?case using Cons.IH [of ?len] Cons.prems by simp
qed

lemma strncpy_text_plain:
  assumes "0 \<notin> set name" and "length pre = a"
  shows "strncpy_text (pre @ name @ post) a (length name) = Some name"
proof -
  have "takeWhile (\<lambda>b. b \<noteq> 0) name = name" using assms(1) by (auto simp: takeWhile_eq_all_conv)
  with assms(2) show ?thesis by (simp add: strncpy_text_def Let_def)
qed

lemma nth_at: "length pre = a \<Longrightarrow> rd (pre @ x # post) a = Some x"
  by (auto simp: rd_def)

lemma drop_at: "length pre = a \<Longrightarrow> drop a (pre @ xs) = xs"
  by simp

lemma rd_range_at: "length pre = a \<Longrightarrow> length xs = n \<Longrightarrow> rd_range (pre @ xs @ post) a n = Some xs"
  by (simp add: rd_range_def)

lemma row_get_loop_fields:
  assumes "list_all field_ok ds" and "unat off + length (enc_fields ds) < 4294967296"
    and "length pre = unat off"
  shows "\<exists>ds'. row_get_loop (length ds) off (pre @ enc_fields ds @ post) = Some ds' \<and>
    list_all2 same_field ds ds'"
  using assms
proof (induction ds arbitrary: off pre)
  case Nil
  then show ?case by simp
next
  case (Cons d ds)
  let ?n = "length (ld_field_name d)" and ?buf = "pre @ enc_fields (d # ds) @ post"
  let ?b = "word_of_nat ?n :: u8" and ?c4 = "le_bytes 4 (ld_len d)" and ?rest = "enc_fields ds @ post"
  have d: "field_ok d" "unat off + length (enc_field d) < 4294967296" using Cons.prems by simp_all
  have ok: "length (ld_value d) = unat (ld_len d)" "0 \<notin> set (ld_field_name d)"
    using d by (simp_all add: field_ok_def)
  have n: "unat ?b = ?n" "ucast ?b = (word_of_nat ?n :: u32)"
    using d by (simp_all add: field_ok_def name_len_byte)
  note o = field_offsets [OF d]
  have buf: "?buf = pre @ ?b # ld_field_name d @ ld_type d # ?c4 @ ld_value d @ ?rest"
    by (simp add: enc_field_def)
  have r1: "rd ?buf (unat off) = Some ?b" unfolding buf using Cons.prems(3) by (intro nth_at)
  have r2: "strncpy_text ?buf (unat (off + 1)) ?n = Some (ld_field_name d)"
    using strncpy_text_plain [OF ok(2), of "pre @ [?b]"] Cons.prems(3) o(1) unfolding buf by simp
  have r3: "rd ?buf (unat (off + 1 + word_of_nat ?n)) = Some (ld_type d)"
    using nth_at [of "pre @ ?b # ld_field_name d"] Cons.prems(3) o(2) unfolding buf by simp
  have r4: "rd_range ?buf (unat (off + 1 + word_of_nat ?n + 1)) 4 = Some ?c4"
    using rd_range_at [of "pre @ ?b # ld_field_name d @ [ld_type d]" _ ?c4] Cons.prems(3) o(3)
    unfolding buf by simp
  have r5: "drop (unat (off + 1 + word_of_nat ?n + 1 + 4)) ?buf = ld_value d @ ?rest"
    using drop_at [of "pre @ ?b # ld_field_name d @ ld_type d # ?c4" _ "ld_value d @ ?rest"]
      Cons.prems(3) o(4) unfolding buf by simp
  have c4: "(le_word ?c4 :: u32) = ld_len d" by simp
  let ?off = "off + 1 + word_of_nat ?n + 1 + 4 + ld_len d"
  have "\<exists>ds'. row_get_loop (length ds) ?off ((pre @ enc_field d) @ enc_fields ds @ post) = Some ds' \<and>
      list_all2 same_field ds ds'"
    using Cons.prems by (intro Cons.IH) (simp_all only: o(5), simp_all)
  then obtain ds' where ds': "row_get_loop (length ds) ?off ?buf = Some ds'" "list_all2 same_field ds ds'"
    by auto
  let ?d = "\<lparr>ld_field_name = ld_field_name d, ld_type = ld_type d, ld_data = ld_value d @ ?rest,
    ld_len = ld_len d\<rparr>"
  have "row_get_loop (length (d # ds)) off ?buf = Some (?d # ds')"
    unfolding list.size(4) add_0_right One_nat_def add_Suc_right row_get_loop.simps r1
      bind.bind_lunit n r2 Let_def r3 r4 c4 ds'(1) r5 ..
  moreover have "same_field d ?d" using ok(1) by (simp add: same_field_def ld_value_def [of ?d])
  ultimately show ?case using ds'(2) by blast
qed


section \<open>Properties\<close>

definition row_ok :: "row_data \<Rightarrow> bool" where
  "row_ok r \<longleftrightarrow> rw_datas r \<noteq> [] \<and> unat (rw_field_count r) = length (rw_datas r) \<and>
     list_all field_ok (rw_datas r) \<and> 2 + length (enc_fields (rw_datas r)) < 4294967296"

lemma rowdata_to_lowdata_image:
  assumes "row_ok r" and "2 + length (enc_fields (rw_datas r)) \<le> pool_size"
  shows "rowdata_to_lowdata pool_size raw r =
    Some (Some \<lparr>ld_field_name = [], ld_type = HI_TYPE_NULL,
      ld_data = le_bytes 2 (rw_field_count r) @ enc_fields (rw_datas r),
      ld_len = row_len_loop (rw_datas r) 2\<rparr>)"
proof -
  let ?ds = "rw_datas r" and ?n = "length (enc_fields (rw_datas r))"
  have ok: "list_all field_ok ?ds" "2 + ?n < 4294967296" "?ds \<noteq> []" using assms(1) by (auto simp: row_ok_def)
  have n: "unat (row_len_loop ?ds 2) = 2 + ?n" using row_len_loop_length [of ?ds 2] ok by simp
  obtain d ds where "?ds = d # ds" using ok(3) by (cases ?ds) auto
  then have six: "6 \<le> ?n" using ok(1) by (simp add: length_enc_field field_ok_def)
  define b0 where "b0 = replicate 8 0 @ drop 8 (map raw [0..<2 + ?n])"
  have w0: "wr_range (map raw [0..<2 + ?n]) 0 (replicate 8 0) = Some b0"
    using six by (simp add: wr_range_def b0_def)
  have l0: "length b0 = 2 + ?n" using six by (simp add: b0_def)
  define b1 where "b1 = le_bytes 2 (rw_field_count r) @ drop 2 b0"
  have w1: "wr_range b0 0 (le_bytes 2 (rw_field_count r)) = Some b1"
    using l0 by (simp add: wr_range_def b1_def numeral_2_eq_2)
  have "row_put_loop ?ds 2 b1 = Some (le_bytes 2 (rw_field_count r) @ enc_fields ?ds)"
    using row_put_loop_image [of ?ds 2 b1] ok l0 by (simp add: b1_def)
  moreover have "rd_range ?ds 0 (unat (rw_field_count r)) = Some ?ds"
    using assms(1) by (simp add: rd_range_def row_ok_def)
  moreover have "\<not> pool_size < unat (row_len_loop ?ds 2)" using assms(2) n by simp
  ultimately show ?thesis
    unfolding rowdata_to_lowdata_def by (simp add: n [simplified] w0 [simplified] w1 Let_def)
qed

text \<open>C17: a row whose names are shorter than 256 bytes packs into one value of the computed
  length, inside the buffer whatever it held before, and unpacking the value gives back every
  field's name, type, length and bytes in order.\<close>

theorem row_codec_roundtrip:
  assumes "row_ok r" and "2 + length (enc_fields (rw_datas r)) \<le> pool_size"
  shows "\<exists>ld r'. rowdata_to_lowdata pool_size raw r = Some (Some ld) \<and> ld_ok ld \<and>
    lowdata_to_rowdata ld = Some r' \<and> rw_field_count r' = rw_field_count r \<and>
    list_all2 same_field (rw_datas r) (rw_datas r')"
proof -
  let ?ds = "rw_datas r" and ?c = "le_bytes 2 (rw_field_count r)"
  have ok: "list_all field_ok ?ds" "2 + length (enc_fields ?ds) < 4294967296"
    "unat (rw_field_count r) = length ?ds" using assms(1) by (auto simp: row_ok_def)
  obtain ds' where ds': "row_get_loop (length ?ds) 2 (?c @ enc_fields ?ds) = Some ds'"
    "list_all2 same_field ?ds ds'"
    using row_get_loop_fields [of ?ds 2 ?c "[]"] ok by auto
  have "rd_range (?c @ enc_fields ?ds) 0 2 = Some ?c" by (simp add: rd_range_def)
  moreover have "unat (row_len_loop ?ds 2) = 2 + length (enc_fields ?ds)"
    using row_len_loop_length [of ?ds 2] ok by simp
  ultimately show ?thesis
    using rowdata_to_lowdata_image [OF assms, of raw] ds' ok(3)
    by (simp add: lowdata_to_rowdata_def ld_ok_def)
qed

definition row_example :: row_data where
  "row_example = \<lparr>rw_datas =
     [\<lparr>ld_field_name = [97, 98], ld_type = HI_TYPE_TINY, ld_data = [5], ld_len = 1\<rparr>,
      \<lparr>ld_field_name = [99], ld_type = HI_TYPE_STRING, ld_data = [], ld_len = 0\<rparr>],
     rw_field_count = 2\<rparr>"

theorem row_codec_roundtrip_witness:
  "\<exists>ld r'. rowdata_to_lowdata 4096 (\<lambda>_. 0xCC) row_example = Some (Some ld) \<and> ld_ok ld \<and>
    lowdata_to_rowdata ld = Some r' \<and> rw_field_count r' = rw_field_count row_example \<and>
    list_all2 same_field (rw_datas row_example) (rw_datas r')"
  by (rule row_codec_roundtrip)
    (simp_all add: row_example_def row_ok_def field_ok_def ld_valid_def enc_field_def ld_value_def)

text \<open>The name length is stored in one byte, so a longer name is cut to its length modulo
  256: a field with a 256-letter name comes back without a name, its value intact.\<close>

theorem row_codec_loses_long_name:
  "do { ld \<leftarrow> rowdata_to_lowdata 4096 (\<lambda>_. 0)
          \<lparr>rw_datas = [\<lparr>ld_field_name = replicate 256 97, ld_type = HI_TYPE_TINY, ld_data = [5],
             ld_len = 1\<rparr>], rw_field_count = 1\<rparr>;
        ld \<leftarrow> ld;
        r \<leftarrow> lowdata_to_rowdata ld;
        Some (map (\<lambda>d. (ld_field_name d, ld_type d, ld_value d)) (rw_datas r)) } =
    Some [([], HI_TYPE_TINY, [5])]"
  by code_simp

end
