(* ===== verification/Data_Field.thy ===== *)
theory Data_Field
  imports Filter_Index Row_Codec
begin

text \<open>
  The original-row column of \<^verbatim>\<open>storage/docdb/data_field.c\<close>: whole rows, packed by the row
  codec, in a variable-length filter column.  One column is read by walking the packed bytes
  without unpacking the row.
\<close>

section \<open>State and operations\<close>

abbreviation (input) ERROR_UPDATE_FAIL :: int where
  "ERROR_UPDATE_FAIL \<equiv> - 4006"

record data_field_config =
  dc_work_space :: string
  dc_row_limit :: u32

record data_field_manager =
  df_work_space :: string
  df_row_limit :: u32
  df_filter_data :: filter_index_manager

definition data_field_init ::
    "os \<Rightarrow> file_system \<Rightarrow> data_field_config \<Rightarrow> (data_field_manager \<times> file_system) option" where
  "data_field_init os fs config = do {
     (f, fs') \<leftarrow> filter_index_init os fs \<lparr>fc_work_space = dc_work_space config,
       fc_row_limit = dc_row_limit config, fc_unit_size = 0, fc_type = HI_TYPE_STRING\<rparr>;
     Some (\<lparr>df_work_space = dc_work_space config, df_row_limit = dc_row_limit config,
            df_filter_data = f\<rparr>, fs')
   }"

text \<open>A row that does not fit the pool packs to NULL, which the store dereferences.\<close>

definition data_field_insert ::
    "nat \<Rightarrow> (nat \<Rightarrow> u8) \<Rightarrow> io \<Rightarrow> data_field_manager \<Rightarrow> row_data \<Rightarrow> u32 \<Rightarrow>
       (int \<times> data_field_manager) option" where
  "data_field_insert pool_size raw w df rdata docid = do {
     ld \<leftarrow> rowdata_to_lowdata pool_size raw rdata;
     data \<leftarrow> ld;
     (ret, f) \<leftarrow> filter_index_insert w (df_filter_data df) data docid;
     Some (ret, df\<lparr>df_filter_data := f\<rparr>)
   }"

definition data_field_query_row ::
    "io \<Rightarrow> data_field_manager \<Rightarrow> u32 \<Rightarrow> row_data option option" where
  "data_field_query_row r df docid = do {
     q \<leftarrow> filter_index_query r (df_filter_data df) docid;
     case q of
       None \<Rightarrow> Some None
     | Some rdata \<Rightarrow>
         if ld_len rdata = 0 then Some None
         else do { row \<leftarrow> lowdata_to_rowdata rdata; Some (Some row) }
   }"

text \<open>\<^verbatim>\<open>strncmp\<close> of the packed name with a text of the same length.\<close>

definition strncmp_eq :: "u8 list \<Rightarrow> nat \<Rightarrow> u8 list \<Rightarrow> bool option" where
  "strncmp_eq buf a s =
     (let xs = take (length s) (drop a buf)
      in if length xs < length s \<and> xs = take (length xs) s then None else Some (xs = s))"

fun query_col_loop :: "nat \<Rightarrow> u32 \<Rightarrow> u8 list \<Rightarrow> u8 list \<Rightarrow> low_data option option" where
  "query_col_loop 0 off buf field_name = Some None"
| "query_col_loop (Suc n) off buf field_name = do {
     fieldname_len \<leftarrow> rd buf (unat off);
     let off1 = off + 1;
     same \<leftarrow> (if length field_name = unat fieldname_len
             then strncmp_eq buf (unat off1) field_name else Some False);
     let off2 = off1 + ucast fieldname_len;
     if same
     then do {
       name \<leftarrow> rd_range buf (unat off1) (unat fieldname_len);
       t \<leftarrow> rd buf (unat off2);
       lenb \<leftarrow> rd_range buf (unat (off2 + 1)) 4;
       Some (Some \<lparr>ld_field_name = name, ld_type = t,
         ld_data = drop (unat (off2 + 1 + 4)) buf, ld_len = le_word lenb\<rparr>)
     }
     else do {
       lenb \<leftarrow> rd_range buf (unat (off2 + 1)) 4;
       query_col_loop n (off2 + 1 + le_word lenb + 4) buf field_name
     }
   }"

definition data_field_query_col ::
    "io \<Rightarrow> data_field_manager \<Rightarrow> u8 list \<Rightarrow> u32 \<Rightarrow> low_data option option" where
  "data_field_query_col r df field_name docid = do {
     q \<leftarrow> filter_index_query r (df_filter_data df) docid;
     case q of
       None \<Rightarrow> Some None
     | Some rdata \<Rightarrow>
         if ld_len rdata = 0 then Some None
         else do {
           cnt \<leftarrow> rd_range (ld_data rdata) 0 2;
           query_col_loop (unat (le_word cnt :: u16)) 2 (ld_data rdata) field_name
         }
   }"

text \<open>The position of the first field with the new value's name.\<close>

fun find_field :: "low_data list \<Rightarrow> u8 list \<Rightarrow> nat \<Rightarrow> nat option" where
  "find_field [] name i = None"
| "find_field (d # ds) name i =
     (if length (ld_field_name d) = length name \<and> ld_field_name d = name then Some i
      else find_field ds name (Suc i))"

definition data_field_update ::
    "nat \<Rightarrow> (nat \<Rightarrow> u8) \<Rightarrow> io \<Rightarrow> io \<Rightarrow> data_field_manager \<Rightarrow> low_data \<Rightarrow> u32 \<Rightarrow>
       (int \<times> low_data option \<times> data_field_manager) option" where
  "data_field_update pool_size raw r w df new_data docid = do {
     q \<leftarrow> data_field_query_row r df docid;
     case q of
       None \<Rightarrow> Some (ERROR_UPDATE_FAIL, None, df)
     | Some rdata \<Rightarrow>
         (case find_field (rw_datas rdata) (ld_field_name new_data) 0 of
            Some i \<Rightarrow> do {
              old \<leftarrow> rd (rw_datas rdata) i;
              datas \<leftarrow> wr (rw_datas rdata) i new_data;
              (ret, df') \<leftarrow> data_field_insert pool_size raw w df (rdata\<lparr>rw_datas := datas\<rparr>) docid;
              Some (ret, Some old, df')
            }
          | None \<Rightarrow> do {
              (ret, df') \<leftarrow> data_field_insert pool_size raw w df
                \<lparr>rw_datas = rw_datas rdata @ [new_data],
                 rw_field_count = rw_field_count rdata + 1\<rparr> docid;
              Some (ret, None, df')
            })
   }"

definition data_field_release ::
    "file_system \<Rightarrow> data_field_manager \<Rightarrow> (data_field_manager \<times> file_system) option" where
  "data_field_release fs df = do {
     (f, fs') \<leftarrow> filter_index_release fs (df_filter_data df);
     Some (df\<lparr>df_filter_data := f\<rparr>, fs')
   }"

definition data_field_checkpoint :: "file_system \<Rightarrow> data_field_manager \<Rightarrow> file_system option" where
  "data_field_checkpoint fs df = filter_index_checkpoint fs (df_filter_data df)"

definition data_field_recover ::
    "bool \<Rightarrow> bool \<Rightarrow> data_field_manager \<Rightarrow> u32 \<Rightarrow> (int \<times> data_field_manager) option" where
  "data_field_recover size_ok trunc_ok df docid = do {
     (ret, f) \<leftarrow> filter_index_recover size_ok trunc_ok (df_filter_data df) docid;
     Some (ret, df\<lparr>df_filter_data := f\<rparr>)
   }"

section \<open>Walking the packed row\<close>

lemma strncmp_eq_at:
  assumes "length pre = a" and "length x = length s"
  shows "strncmp_eq (pre @ x @ post) a s = Some (x = s)"
  using assms by (simp add: strncmp_eq_def Let_def)

lemma query_col_loop_find:
  assumes "list_all field_ok ds" and "unat off + length (enc_fields ds) < 4294967296"
    and "length pre = unat off"
  shows "\<exists>res. query_col_loop (length ds) off (pre @ enc_fields ds @ post) name = Some res \<and>
    rel_option same_field (find (\<lambda>d. ld_field_name d = name) ds) res"
  using assms
proof (induction ds arbitrary: off pre)
  case Nil
  then show ?case by simp
next
  case (Cons d ds)
  let ?n = "length (ld_field_name d)" and ?buf = "pre @ enc_fields (d # ds) @ post"
  let ?b = "word_of_nat ?n :: u8" and ?c4 = "le_bytes 4 (ld_len d)" and ?rest = "enc_fields ds @ post"
  have d: "field_ok d" "unat off + length (enc_field d) < 4294967296" using Cons.prems by simp_all
  have n: "unat ?b = ?n" "ucast ?b = (word_of_nat ?n :: u32)"
    using d by (simp_all add: field_ok_def name_len_byte)
  have val: "length (ld_value d) = unat (ld_len d)" using d by (simp add: field_ok_def)
  note o = field_offsets [OF d]
  have buf: "?buf = pre @ ?b # ld_field_name d @ ld_type d # ?c4 @ ld_value d @ ?rest"
    by (simp add: enc_field_def)
  have r1: "rd ?buf (unat off) = Some ?b" unfolding buf using Cons.prems(3) by (intro nth_at)
  have cmp: "(if length name = ?n then strncmp_eq ?buf (unat (off + 1)) name else Some False) =
      Some (ld_field_name d = name)"
    using strncmp_eq_at [of "pre @ [?b]" "unat (off + 1)" "ld_field_name d" name] Cons.prems(3) o(1)
    unfolding buf by auto
  have r2: "rd_range ?buf (unat (off + 1)) ?n = Some (ld_field_name d)"
    using rd_range_at [of "pre @ [?b]" _ "ld_field_name d"] Cons.prems(3) o(1) unfolding buf by simp
  have r3: "rd ?buf (unat (off + 1 + word_of_nat ?n)) = Some (ld_type d)"
    using nth_at [of "pre @ ?b # ld_field_name d"] Cons.prems(3) o(2) unfolding buf by simp
  have r4: "rd_range ?buf (unat (off + 1 + word_of_nat ?n + 1)) 4 = Some ?c4"
    using rd_range_at [of "pre @ ?b # ld_field_name d @ [ld_type d]" _ ?c4] Cons.prems(3) o(3)
    unfolding buf by simp
  have r5: "drop (unat (off + 1 + word_of_nat ?n + 1 + 4)) ?buf = ld_value d @ ?rest"
    using drop_at [of "pre @ ?b # ld_field_name d @ ld_type d # ?c4" _ "ld_value d @ ?rest"]
      Cons.prems(3) o(4) unfolding buf by simp
  have c4: "(le_word ?c4 :: u32) = ld_len d" by simp
  have swap: "off + 1 + word_of_nat ?n + 1 + ld_len d + 4 = off + 1 + word_of_nat ?n + 1 + 4 + ld_len d"
    by simp
  let ?d = "\<lparr>ld_field_name = ld_field_name d, ld_type = ld_type d, ld_data = ld_value d @ ?rest,
    ld_len = ld_len d\<rparr>"
  let ?off = "off + 1 + word_of_nat ?n + 1 + 4 + ld_len d"
  have step: "query_col_loop (length (d # ds)) off ?buf name =
      (if ld_field_name d = name then Some (Some ?d) else query_col_loop (length ds) ?off ?buf name)"
    unfolding list.size(4) add_0_right One_nat_def add_Suc_right query_col_loop.simps r1
      bind.bind_lunit Let_def n cmp r2 r3 r4 r5 c4 swap ..
  show ?case
  proof (cases "ld_field_name d = name")
    case True
    have "same_field d ?d" using val by (simp add: same_field_def ld_value_def [of ?d])
    with True show ?thesis unfolding step by simp
  next
    case False
    have "\<exists>res. query_col_loop (length ds) ?off ((pre @ enc_field d) @ enc_fields ds @ post) name =
        Some res \<and> rel_option same_field (find (\<lambda>d. ld_field_name d = name) ds) res"
      using Cons.prems by (intro Cons.IH) (simp_all only: o(5), simp_all)
    with False show ?thesis unfolding step by simp
  qed
qed


section \<open>Rows as the column stores them\<close>

definition data_field_ok :: "data_field_manager \<Rightarrow> bool" where
  "data_field_ok df \<longleftrightarrow> filter_index_ok (df_filter_data df) \<and> \<not> is_fixed_size (fi_type (df_filter_data df))"

definition row_bytes :: "row_data \<Rightarrow> u8 list" where
  "row_bytes r = le_bytes 2 (rw_field_count r) @ enc_fields (rw_datas r)"

definition row_fits :: "nat \<Rightarrow> data_field_manager \<Rightarrow> row_data \<Rightarrow> bool" where
  "row_fits pool_size df r \<longleftrightarrow> row_ok r \<and> length (row_bytes r) \<le> pool_size \<and>
     fi_fits (df_filter_data df) (row_bytes r)"

lemma rowdata_to_lowdata_bytes:
  assumes "row_ok r" and "length (row_bytes r) \<le> pool_size"
  shows "rowdata_to_lowdata pool_size raw r = Some (Some (ld_of (row_bytes r)))"
proof -
  let ?n = "2 + length (enc_fields (rw_datas r))"
  have ok: "list_all field_ok (rw_datas r)" "?n < 4294967296" using assms(1) by (auto simp: row_ok_def)
  have "unat (row_len_loop (rw_datas r) 2) = ?n" using row_len_loop_length [of "rw_datas r" 2] ok by simp
  moreover have "unat (word_of_nat ?n :: u32) = ?n" using ok(2) by (rule unat_word_of_nat_u32)
  ultimately have "unat (row_len_loop (rw_datas r) 2) = unat (word_of_nat ?n :: u32)" by (simp only:)
  then have "row_len_loop (rw_datas r) 2 = word_of_nat ?n" by (rule word_unat_eq_iff [THEN iffD2])
  then have "ld_of (row_bytes r) = \<lparr>ld_field_name = [], ld_type = HI_TYPE_NULL,
      ld_data = le_bytes 2 (rw_field_count r) @ enc_fields (rw_datas r),
      ld_len = row_len_loop (rw_datas r) 2\<rparr>"
    by (simp add: ld_of_def row_bytes_def)
  with rowdata_to_lowdata_image [OF assms(1), of pool_size raw] assms(2) show ?thesis
    by (simp add: row_bytes_def)
qed

lemma data_field_insert_cells:
  assumes "data_field_ok df" and "d < fi_limit (df_filter_data df)" and "row_fits pool_size df r"
  shows "\<exists>df'. data_field_insert pool_size raw (Xfer (length (row_bytes r))) df r d = Some (0, df') \<and>
    data_field_ok df' \<and> fi_limit (df_filter_data df') = fi_limit (df_filter_data df) \<and>
    fi_cells (df_filter_data df') = (fi_cells (df_filter_data df))(unat d \<mapsto> row_bytes r)"
proof -
  let ?f = "df_filter_data df"
  obtain f where f: "fi_put ?f (row_bytes r) d = Some (0, f)" "filter_index_ok f"
    "fi_limit f = fi_limit ?f" "fi_cells f = (fi_cells ?f)(unat d \<mapsto> row_bytes r)"
    using fi.put_law [of ?f d "row_bytes r"] assms by (auto simp: data_field_ok_def row_fits_def)
  have "\<not> is_fixed_size (fi_type f)"
    using f(1) assms(1) by (auto simp: fi_put_def filter_index_insert_def data_field_ok_def bind_eq_Some_conv)
  moreover have "data_field_insert pool_size raw (Xfer (length (row_bytes r))) df r d =
      Some (0, df\<lparr>df_filter_data := f\<rparr>)"
    using f(1) assms(3)
    by (simp add: data_field_insert_def rowdata_to_lowdata_bytes row_fits_def fi_put_def)
  ultimately show ?thesis using f by (simp add: data_field_ok_def)
qed

lemma data_field_stored:
  assumes "data_field_ok df" and "d < fi_limit (df_filter_data df)"
    and "fi_cells (df_filter_data df) (unat d) = Some v"
  shows "\<exists>ld. filter_index_query (Xfer (2 ^ 32)) (df_filter_data df) d = Some (Some ld) \<and>
    ld_data ld = v \<and> unat (ld_len ld) = length v"
proof -
  obtain w where w: "fi_vstorage (df_filter_data df) = Some w" "vstorage_ok w"
    using assms(1) by (auto simp: data_field_ok_def elim: filter_index_okE)
  have nf: "\<not> is_fixed_size (fi_type (df_filter_data df))" using assms(1) by (simp add: data_field_ok_def)
  have "d < vs_row_limit w" "vs_cells w (unat d) = Some v"
    using assms(2,3) nf w(1) by (simp_all add: fi_limit_def fi_cells_def)
  with vstorage_query_cells [OF w(2), of d] obtain ld where
    "vstorage_query (Xfer (2 ^ 32)) w d = Some (Some ld)" "ld_ok ld" "ld_value ld = v" by auto
  with nf w(1) show ?thesis
    by (auto simp: filter_index_query_def ld_ok_def ld_value_def)
qed

lemma data_field_reads_row:
  assumes "data_field_ok df" and "d < fi_limit (df_filter_data df)"
    and "fi_cells (df_filter_data df) (unat d) = Some (row_bytes r)" and "row_ok r"
  shows "\<exists>r'. data_field_query_row (Xfer (2 ^ 32)) df d = Some (Some r') \<and>
      rw_field_count r' = rw_field_count r \<and> list_all2 same_field (rw_datas r) (rw_datas r')"
    and "\<exists>res. data_field_query_col (Xfer (2 ^ 32)) df name d = Some res \<and>
      rel_option same_field (find (\<lambda>x. ld_field_name x = name) (rw_datas r)) res"
proof -
  let ?c = "le_bytes 2 (rw_field_count r)" and ?ds = "rw_datas r"
  obtain ld where ld: "filter_index_query (Xfer (2 ^ 32)) (df_filter_data df) d = Some (Some ld)"
    "ld_data ld = row_bytes r" "unat (ld_len ld) = length (row_bytes r)"
    using data_field_stored [OF assms(1-3)] by blast
  have nz: "ld_len ld \<noteq> 0" using ld(3) by (auto simp: row_bytes_def)
  have ok: "list_all field_ok ?ds" "2 + length (enc_fields ?ds) < 4294967296"
    "unat (rw_field_count r) = length ?ds" using assms(4) by (auto simp: row_ok_def)
  have cnt: "rd_range (row_bytes r) 0 2 = Some ?c" by (simp add: row_bytes_def rd_range_def)
  obtain ds' where "row_get_loop (length ?ds) 2 (row_bytes r) = Some ds'" "list_all2 same_field ?ds ds'"
    using row_get_loop_fields [of ?ds 2 ?c "[]"] ok by (auto simp: row_bytes_def)
  then show "\<exists>r'. data_field_query_row (Xfer (2 ^ 32)) df d = Some (Some r') \<and>
      rw_field_count r' = rw_field_count r \<and> list_all2 same_field (rw_datas r) (rw_datas r')"
    using ld nz cnt ok(3) by (simp add: data_field_query_row_def lowdata_to_rowdata_def)
  obtain res where "query_col_loop (length ?ds) 2 (row_bytes r) name = Some res"
    "rel_option same_field (find (\<lambda>x. ld_field_name x = name) ?ds) res"
    using query_col_loop_find [of ?ds 2 ?c "[]" name] ok by (auto simp: row_bytes_def)
  then show "\<exists>res. data_field_query_col (Xfer (2 ^ 32)) df name d = Some res \<and>
      rel_option same_field (find (\<lambda>x. ld_field_name x = name) (rw_datas r)) res"
    using ld nz cnt ok(3) by (simp add: data_field_query_col_def)
qed


section \<open>Updating one field\<close>

fun put_field :: "low_data \<Rightarrow> low_data list \<Rightarrow> low_data list" where
  "put_field x [] = [x]"
| "put_field x (d # ds) = (if ld_field_name d = ld_field_name x then x # ds else d # put_field x ds)"

lemma find_field_cases:
  "case find_field ds (ld_field_name x) i of
     None \<Rightarrow> find (\<lambda>d. ld_field_name d = ld_field_name x) ds = None \<and> put_field x ds = ds @ [x]
   | Some j \<Rightarrow> i \<le> j \<and> j - i < length ds \<and>
       find (\<lambda>d. ld_field_name d = ld_field_name x) ds = Some (ds ! (j - i)) \<and>
       put_field x ds = ds[j - i := x]"
proof (induction ds arbitrary: i)
  case Nil
  then show ?case by simp
next
  case (Cons d ds)
  show ?case
  proof (cases "ld_field_name d = ld_field_name x")
    case True
    then show ?thesis by simp
  next
    case False
    show ?thesis
    proof (cases "find_field ds (ld_field_name x) (Suc i)")
      case None
      with False Cons.IH [of "Suc i"] show ?thesis by simp
    next
      case (Some j)
      with Cons.IH [of "Suc i"] obtain k where "j = Suc (i + k)"
        by (auto dest!: le_Suc_ex)
      with False Some Cons.IH [of "Suc i"] show ?thesis by (simp add: Suc_diff_le)
    qed
  qed
qed

lemma row_get_loop_length: "row_get_loop n off buf = Some ds \<Longrightarrow> length ds = n"
  by (induction n arbitrary: off ds) (auto simp: bind_eq_Some_conv Let_def)

lemma query_row_count:
  assumes "data_field_query_row q df d = Some (Some r)"
  shows "unat (rw_field_count r) = length (rw_datas r)"
  using assms
  by (auto simp: data_field_query_row_def lowdata_to_rowdata_def bind_eq_Some_conv Let_def
      dest!: row_get_loop_length split: option.splits if_splits)

definition row_of :: "low_data list \<Rightarrow> row_data" where
  "row_of ds = \<lparr>rw_datas = ds, rw_field_count = word_of_nat (length ds)\<rparr>"

lemma row_of_count:
  assumes "unat (rw_field_count r) = length (rw_datas r)"
  shows "row_of (rw_datas r) = r" and "rw_field_count r = word_of_nat (length (rw_datas r))"
proof -
  show *: "rw_field_count r = word_of_nat (length (rw_datas r))"
    unfolding assms [symmetric] by simp
  show "row_of (rw_datas r) = r" by (simp add: row_of_def flip: *)
qed

lemma data_field_update_inserts:
  assumes "data_field_query_row (Xfer (2 ^ 32)) df d = Some (Some r)"
    and "data_field_insert pool_size raw w df (row_of (put_field x (rw_datas r))) d = Some (ret, df')"
  shows "data_field_update pool_size raw (Xfer (2 ^ 32)) w df x d =
    Some (ret, find (\<lambda>y. ld_field_name y = ld_field_name x) (rw_datas r), df')"
proof (cases "find_field (rw_datas r) (ld_field_name x) 0")
  case None
  note cnt = row_of_count [OF query_row_count [OF assms(1)]]
  have "row_of (put_field x (rw_datas r)) =
      \<lparr>rw_datas = rw_datas r @ [x], rw_field_count = rw_field_count r + 1\<rparr>"
    using None find_field_cases [of x "rw_datas r" 0] by (simp add: row_of_def cnt(2))
  with None assms find_field_cases [of x "rw_datas r" 0] show ?thesis
    by (simp add: data_field_update_def)
next
  case (Some j)
  note cnt = row_of_count [OF query_row_count [OF assms(1)]]
  have j: "j < length (rw_datas r)" "put_field x (rw_datas r) = (rw_datas r)[j := x]"
    "find (\<lambda>d. ld_field_name d = ld_field_name x) (rw_datas r) = Some (rw_datas r ! j)"
    using Some find_field_cases [of x "rw_datas r" 0] by auto
  then have "row_of (put_field x (rw_datas r)) = r\<lparr>rw_datas := (rw_datas r)[j := x]\<rparr>"
    by (simp add: row_of_def flip: cnt(2))
  with Some j assms show ?thesis by (simp add: data_field_update_def mem_simps)
qed

section \<open>Properties\<close>

text \<open>C16: after a row is stored, reading the row gives back all its fields, and reading one column
  by name gives the first field of that name, or nothing when the row has none.\<close>

theorem data_field_insert_then_query:
  assumes "data_field_ok df" and "d < fi_limit (df_filter_data df)" and "row_fits pool_size df r"
  shows "\<exists>df' r' res.
    data_field_insert pool_size raw (Xfer (length (row_bytes r))) df r d = Some (0, df') \<and>
    data_field_ok df' \<and>
    data_field_query_row (Xfer (2 ^ 32)) df' d = Some (Some r') \<and>
    list_all2 same_field (rw_datas r) (rw_datas r') \<and>
    data_field_query_col (Xfer (2 ^ 32)) df' name d = Some res \<and>
    rel_option same_field (find (\<lambda>x. ld_field_name x = name) (rw_datas r)) res"
proof -
  obtain df' where df': "data_field_insert pool_size raw (Xfer (length (row_bytes r))) df r d = Some (0, df')"
    "data_field_ok df'" "d < fi_limit (df_filter_data df')"
    "fi_cells (df_filter_data df') (unat d) = Some (row_bytes r)"
    using data_field_insert_cells [OF assms, of raw] assms(2) by auto
  have r: "row_ok r" using assms(3) by (simp add: row_fits_def)
  show ?thesis
    using data_field_reads_row(1) [OF df'(2-4) r] data_field_reads_row(2) [OF df'(2-4) r, of name] df'
    by blast
qed

definition data_field_example :: data_field_manager where
  "data_field_example = \<lparr>df_work_space = ''w'', df_row_limit = 3,
     df_filter_data = \<lparr>fi_storage = None, fi_vstorage = Some vstorage_example, fi_type = HI_TYPE_STRING\<rparr>\<rparr>"

lemma data_field_example_fits:
  "data_field_ok data_field_example" "fi_limit (df_filter_data data_field_example) = 3"
  "row_fits 4096 data_field_example row_example"
  using vstorage_example_ok
  by (simp_all add: data_field_ok_def data_field_example_def fi_defs is_fixed_size_def get_unit_size_def
      row_fits_def row_example_def row_ok_def field_ok_def ld_valid_def enc_field_def ld_value_def
      row_bytes_def vs_fits_def vstorage_example_def)

theorem data_field_insert_then_query_witness:
  "\<exists>df' r' res. data_field_insert 4096 (\<lambda>_. 0xCC) (Xfer (length (row_bytes row_example)))
      data_field_example row_example 2 = Some (0, df') \<and>
    data_field_query_row (Xfer (2 ^ 32)) df' 2 = Some (Some r') \<and>
    list_all2 same_field (rw_datas row_example) (rw_datas r') \<and>
    data_field_query_col (Xfer (2 ^ 32)) df' [97, 98] 2 = Some res \<and>
    rel_option same_field (find (\<lambda>x. ld_field_name x = [97, 98]) (rw_datas row_example)) res"
  using data_field_insert_then_query
    [OF data_field_example_fits(1) _ data_field_example_fits(3), of 2 "\<lambda>_. 0xCC" "[97, 98]"]
  by (auto simp: data_field_example_fits(2))

text \<open>C24: updating one field of a stored row returns the field's old value (nothing for a new
  name) and stores the row with that field replaced, or appended when the name is new; the
  other fields keep their place and value.\<close>

theorem data_field_update_replaces_field:
  assumes "data_field_ok df" and "d < fi_limit (df_filter_data df)"
    and "data_field_query_row (Xfer (2 ^ 32)) df d = Some (Some r)"
    and "row_fits pool_size df (row_of (put_field x (rw_datas r)))"
  shows "\<exists>df' r'.
    data_field_update pool_size raw (Xfer (2 ^ 32))
      (Xfer (length (row_bytes (row_of (put_field x (rw_datas r)))))) df x d =
      Some (0, find (\<lambda>y. ld_field_name y = ld_field_name x) (rw_datas r), df') \<and>
    data_field_query_row (Xfer (2 ^ 32)) df' d = Some (Some r') \<and>
    list_all2 same_field (put_field x (rw_datas r)) (rw_datas r')"
proof -
  let ?r = "row_of (put_field x (rw_datas r))"
  obtain df' where df': "data_field_insert pool_size raw (Xfer (length (row_bytes ?r))) df ?r d = Some (0, df')"
    "data_field_ok df'" "d < fi_limit (df_filter_data df')"
    "fi_cells (df_filter_data df') (unat d) = Some (row_bytes ?r)"
    using data_field_insert_cells [OF assms(1,2,4), of raw] assms(2) by auto
  have "row_ok ?r" using assms(4) by (simp add: row_fits_def)
  with data_field_reads_row(1) [OF df'(2-4)] data_field_update_inserts [OF assms(3) df'(1)]
  show ?thesis by (simp add: row_of_def) blast
qed


definition data_field_example2 :: data_field_manager where
  "data_field_example2 = \<lparr>df_work_space = ''w'', df_row_limit = 1,
     df_filter_data = \<lparr>fi_storage = None, fi_vstorage = Some
       \<lparr>vs_data_file_name = ''w/d.dat'',
        vs_data = [2, 0, 2, 97, 98, 1, 1, 0, 0, 0, 5, 1, 99, 254, 0, 0, 0, 0],
        vs_index_file_name = ''w/d.loc4'', vs_row_limit = 1, vs_offset = 18,
        vs_loc = Loc4 [\<lparr>l4_offset = 0, l4_len = 18\<rparr>]\<rparr>, fi_type = HI_TYPE_STRING\<rparr>\<rparr>"

definition row_example2 :: row_data where
  "row_example2 = \<lparr>rw_datas =
     [\<lparr>ld_field_name = [97, 98], ld_type = HI_TYPE_TINY, ld_data = [5, 1, 99, 254, 0, 0, 0, 0], ld_len = 1\<rparr>,
      \<lparr>ld_field_name = [99], ld_type = HI_TYPE_STRING, ld_data = [], ld_len = 0\<rparr>],
     rw_field_count = 2\<rparr>"

definition new_field_example :: low_data where
  "new_field_example = \<lparr>ld_field_name = [99], ld_type = HI_TYPE_TINY, ld_data = [7], ld_len = 1\<rparr>"

lemma row_example2_decoded:
  "lowdata_to_rowdata \<lparr>ld_field_name = [], ld_type = HI_TYPE_NULL,
      ld_data = [2, 0, 2, 97, 98, 1, 1, 0, 0, 0, 5, 1, 99, 254, 0, 0, 0, 0], ld_len = 18\<rparr> =
    Some row_example2"
  by code_simp

lemma data_field_example2_row:
  "data_field_query_row (Xfer (2 ^ 32)) data_field_example2 0 = Some (Some row_example2)"
  by (simp add: data_field_query_row_def data_field_example2_def filter_index_query_def is_fixed_size_def
      get_unit_size_def vstorage_query_def rd_def Let_def row_example2_decoded)

theorem data_field_update_replaces_field_witness:
  "\<exists>df' r'. data_field_update 4096 (\<lambda>_. 0xCC) (Xfer (2 ^ 32))
      (Xfer (length (row_bytes (row_of (put_field new_field_example (rw_datas row_example2))))))
      data_field_example2 new_field_example 0 =
      Some (0, find (\<lambda>y. ld_field_name y = ld_field_name new_field_example) (rw_datas row_example2), df') \<and>
    data_field_query_row (Xfer (2 ^ 32)) df' 0 = Some (Some r') \<and>
    list_all2 same_field (put_field new_field_example (rw_datas row_example2)) (rw_datas r')"
  by (rule data_field_update_replaces_field [OF _ _ data_field_example2_row])
    (simp_all add: data_field_ok_def data_field_example2_def fi_defs is_fixed_size_def get_unit_size_def
      vstorage_ok_def loc_reach_def row_fits_def row_example2_def row_ok_def field_ok_def ld_valid_def
      enc_field_def ld_value_def row_bytes_def vs_fits_def new_field_example_def row_of_def)

end
