(* ===== verification/Rowid_List.thy ===== *)
theory Rowid_List
  imports Mile_Prelude "HOL-Library.Multiset"
begin

text \<open>
  Document-number lists of \<^verbatim>\<open>storage/docdb/rowid_list.c\<close>: a chain of blocks of 256 numbers,
  each with an optional array of scores.  A list is the chain of blocks from its head (an
  empty chain is the NULL head), the position of the block its tail pointer names, and the
  number of entries.  A block pointer is a position in the chain, one past the last being
  NULL; the \<^verbatim>\<open>NULL\<close> list is \<^term>\<open>None\<close>.  Scores are of any type with zero and addition.
\<close>

section \<open>State\<close>

abbreviation (input) ROWID_ARRAY_SIZE :: nat where
  "ROWID_ARRAY_SIZE \<equiv> 256"

record 's rowid_list_node =
  rn_rowid_array :: "u32 list"
  rn_score_array :: "'s list option"

record 's rowid_list =
  rl_rowid_num :: u32
  rl_nodes :: "'s rowid_list_node list"
  rl_tail :: "nat option"

definition blank_array :: "u32 list" where
  "blank_array = replicate ROWID_ARRAY_SIZE 0"

definition blank_node :: "'s rowid_list_node" where
  "blank_node = \<lparr>rn_rowid_array = blank_array, rn_score_array = None\<rparr>"

definition next_block :: "nat \<Rightarrow> nat \<Rightarrow> nat" where
  "next_block i p = (if i mod ROWID_ARRAY_SIZE = 0 then p + 1 else p)"

text \<open>\<^verbatim>\<open>p->rowid_array[i % ROWID_ARRAY_SIZE]\<close>, read and written.\<close>

definition block_get :: "'s rowid_list_node list \<Rightarrow> nat \<Rightarrow> nat \<Rightarrow> u32 option" where
  "block_get ns p i = do { n \<leftarrow> rd ns p; rd (rn_rowid_array n) (i mod ROWID_ARRAY_SIZE) }"

definition block_set ::
    "'s rowid_list_node list \<Rightarrow> nat \<Rightarrow> nat \<Rightarrow> u32 \<Rightarrow> 's rowid_list_node list option" where
  "block_set ns p i x = do {
     n \<leftarrow> rd ns p;
     xs \<leftarrow> wr (rn_rowid_array n) (i mod ROWID_ARRAY_SIZE) x;
     wr ns p (n\<lparr>rn_rowid_array := xs\<rparr>)
   }"

section \<open>Operations\<close>

definition rowid_list_init :: "'s rowid_list" where
  "rowid_list_init = \<lparr>rl_rowid_num = 0, rl_nodes = [], rl_tail = None\<rparr>"

function equals_loop ::
    "'s rowid_list \<Rightarrow> 's rowid_list \<Rightarrow> nat \<Rightarrow> nat \<Rightarrow> nat \<Rightarrow> nat \<Rightarrow> (nat \<times> nat) option option" where
  "equals_loop a b i j p q =
     (if i < unat (rl_rowid_num a) \<and> j < unat (rl_rowid_num b)
      then do {
        x \<leftarrow> block_get (rl_nodes a) p i;
        y \<leftarrow> block_get (rl_nodes b) q j;
        if x \<noteq> y then Some None
        else equals_loop a b (Suc i) (Suc j)
               (if i \<noteq> 0 \<and> i mod ROWID_ARRAY_SIZE = 0 then p + 1 else p)
               (if j \<noteq> 0 \<and> j mod ROWID_ARRAY_SIZE = 0 then q + 1 else q)
      }
      else Some (Some (p, q)))"
  by pat_completeness auto
termination
  by (relation "measure (\<lambda>(a, b, i, j, p, q). unat (rl_rowid_num a) - i)") auto

text \<open>The block a pointer names, NULL when it is past the chain.\<close>

definition block_ptr :: "'s rowid_list_node list \<Rightarrow> nat \<Rightarrow> nat option" where
  "block_ptr ns p = (if p < length ns then Some p else None)"

fun rowid_list_equals :: "'s rowid_list option \<Rightarrow> 's rowid_list option \<Rightarrow> int option" where
  "rowid_list_equals None None = Some 1"
| "rowid_list_equals (Some a) (Some b) =
     (if rl_rowid_num a \<noteq> rl_rowid_num b then Some 0
      else do {
        res \<leftarrow> equals_loop a b 0 0 0 0;
        case res of
          None \<Rightarrow> Some 0
        | Some (p, q) \<Rightarrow>
            Some (if block_ptr (rl_nodes a) p \<noteq> rl_tail a \<or> block_ptr (rl_nodes b) q \<noteq> rl_tail b
                  then 0 else 1)
      })"
| "rowid_list_equals _ _ = Some 0"

text \<open>\<open>late i\<close> says whether the clock read after entry \<open>i\<close> is past the deadline; \<open>func\<close> is
  the visitor on its user data.\<close>

function for_each_loop ::
    "'s rowid_list \<Rightarrow> (u32 \<Rightarrow> 'u \<Rightarrow> int \<times> 'u) \<Rightarrow> (nat \<Rightarrow> bool) \<Rightarrow> nat \<Rightarrow> nat \<Rightarrow> 'u \<Rightarrow> (int \<times> 'u) option" where
  "for_each_loop l func late p i u =
     (if i < unat (rl_rowid_num l)
      then do {
        rowid \<leftarrow> block_get (rl_nodes l) p i;
        let (result_code, u') = func rowid u;
        if result_code < 0 then Some (result_code, u')
        else if Suc i mod 100 = 0 \<and> late (Suc i) then Some (ERROR_TIMEOUT, u')
        else for_each_loop l func late (next_block (Suc i) p) (Suc i) u'
      }
      else Some (MILE_RETURN_SUCCESS, u))"
  by pat_completeness auto
termination
  by (relation "measure (\<lambda>(l, func, late, p, i, u). unat (rl_rowid_num l) - i)") auto

fun rowid_list_for_each ::
    "'s rowid_list option \<Rightarrow> (u32 \<Rightarrow> 'u \<Rightarrow> int \<times> 'u) \<Rightarrow> (nat \<Rightarrow> bool) \<Rightarrow> 'u \<Rightarrow> (int \<times> 'u) option" where
  "rowid_list_for_each None func late u = Some (MILE_RETURN_SUCCESS, u)"
| "rowid_list_for_each (Some l) func late u = for_each_loop l func late 0 0 u"

text \<open>\<^verbatim>\<open>tail->next = tmp; tail = tmp\<close>, or the first block of an empty list.\<close>

definition link_block :: "'s rowid_list \<Rightarrow> 's rowid_list_node \<Rightarrow> 's rowid_list option" where
  "link_block l tmp =
     (if rl_nodes l = [] then Some (l\<lparr>rl_nodes := [tmp], rl_tail := Some 0\<rparr>)
      else do {
        t \<leftarrow> rl_tail l;
        Some (l\<lparr>rl_nodes := take (Suc t) (rl_nodes l) @ [tmp], rl_tail := Some (Suc t)\<rparr>)
      })"

definition rowid_list_add :: "'s rowid_list \<Rightarrow> u32 \<Rightarrow> 's rowid_list option" where
  "rowid_list_add l rowid =
     (if rl_nodes l = [] \<or> unat (rl_rowid_num l) mod ROWID_ARRAY_SIZE = 0
      then do {
        let tmp = blank_node;
        xs \<leftarrow> wr (rn_rowid_array tmp) 0 rowid;
        link_block (l\<lparr>rl_rowid_num := rl_rowid_num l + 1\<rparr>) (tmp\<lparr>rn_rowid_array := xs\<rparr>)
      }
      else do {
        t \<leftarrow> rl_tail l;
        ns \<leftarrow> block_set (rl_nodes l) t (unat (rl_rowid_num l)) rowid;
        Some (l\<lparr>rl_nodes := ns, rl_rowid_num := rl_rowid_num l + 1\<rparr>)
      })"

function batch_add_loop :: "'s rowid_list \<Rightarrow> u32 list \<Rightarrow> nat \<Rightarrow> nat \<Rightarrow> 's rowid_list option" where
  "batch_add_loop l rowids n num =
     (if num \<noteq> 0
      then do {
        let insert_num = (if num div ROWID_ARRAY_SIZE > 0 then ROWID_ARRAY_SIZE else num);
        xs \<leftarrow> rd_range rowids (n - num) insert_num;
        let tmp = blank_node;
        arr \<leftarrow> wr_range (rn_rowid_array tmp) 0 xs;
        l' \<leftarrow> link_block l (tmp\<lparr>rn_rowid_array := arr\<rparr>);
        batch_add_loop (l'\<lparr>rl_rowid_num := rl_rowid_num l' + word_of_nat insert_num\<rparr>) rowids n
          (num - insert_num)
      }
      else Some l)"
  by pat_completeness auto
termination
  by (relation "measure (\<lambda>(l, rowids, n, num). num)") (auto split: if_splits)

definition rowid_list_batch_add :: "'s rowid_list \<Rightarrow> u32 list \<Rightarrow> u32 \<Rightarrow> 's rowid_list option" where
  "rowid_list_batch_add l rowids num = batch_add_loop l rowids (unat num) (unat num)"

section \<open>Quicksort over the blocks\<close>

definition rowid_get :: "'s rowid_list_node list \<Rightarrow> int \<Rightarrow> u32 option" where
  "rowid_get ns n = (if n < 0 then None else block_get ns (nat n div ROWID_ARRAY_SIZE) (nat n))"

definition rowid_set :: "'s rowid_list_node list \<Rightarrow> int \<Rightarrow> u32 \<Rightarrow> 's rowid_list_node list option" where
  "rowid_set ns i key =
     (if i < 0 then None else block_set ns (nat i div ROWID_ARRAY_SIZE) (nat i) key)"


function qs_right :: "'s rowid_list_node list \<Rightarrow> u32 \<Rightarrow> int \<Rightarrow> int \<Rightarrow> int option" where
  "qs_right ns key left right =
     (if left < right
      then do {
        x \<leftarrow> rowid_get ns right;
        if x \<le> key then qs_right ns key left (right - 1) else Some right
      }
      else Some right)"
  by pat_completeness auto
termination
  by (relation "measure (\<lambda>(ns, key, left, right). nat (right - left))") auto

function qs_left :: "'s rowid_list_node list \<Rightarrow> u32 \<Rightarrow> int \<Rightarrow> int \<Rightarrow> int option" where
  "qs_left ns key left right =
     (if left < right
      then do {
        x \<leftarrow> rowid_get ns left;
        if x \<ge> key then qs_left ns key (left + 1) right else Some left
      }
      else Some left)"
  by pat_completeness auto
termination
  by (relation "measure (\<lambda>(ns, key, left, right). nat (right - left))") auto

declare qs_right.simps [simp del] qs_left.simps [simp del]

lemma qs_right_bounds:
  assumes "qs_right ns key left right = Some r" and "left \<le> right"
  shows "left \<le> r \<and> r \<le> right \<and> (left < r \<longrightarrow> (\<exists>x. rowid_get ns r = Some x \<and> key < x))"
  using assms
proof (induction ns key left right rule: qs_right.induct)
  case (1 ns key left right)
  show ?case
  proof (cases "left < right")
    case True
    with "1.prems"(1) obtain x where x: "rowid_get ns right = Some x"
      by (subst (asm) qs_right.simps) (auto simp: bind_eq_Some_conv)
    show ?thesis
    proof (cases "x \<le> key")
      case True
      with \<open>left < right\<close> "1.prems"(1) x have "qs_right ns key left (right - 1) = Some r"
        by (subst (asm) qs_right.simps) simp
      with "1.IH" [OF \<open>left < right\<close> x True] \<open>left < right\<close> show ?thesis by simp
    next
      case False
      with True "1.prems"(1) x have "r = right" by (subst (asm) qs_right.simps) simp
      with True False x show ?thesis by auto
    qed
  next
    case False
    with "1.prems" show ?thesis by (subst (asm) qs_right.simps) simp
  qed
qed

lemma qs_left_bounds:
  assumes "qs_left ns key left right = Some l" and "left \<le> right"
  shows "left \<le> l \<and> l \<le> right"
  using assms
proof (induction ns key left right rule: qs_left.induct)
  case (1 ns key left right)
  show ?case
  proof (cases "left < right")
    case True
    with "1.prems"(1) obtain x where x: "rowid_get ns left = Some x"
      by (subst (asm) qs_left.simps) (auto simp: bind_eq_Some_conv)
    show ?thesis
    proof (cases "key \<le> x")
      case True
      with \<open>left < right\<close> "1.prems"(1) x have "qs_left ns key (left + 1) right = Some l"
        by (subst (asm) qs_left.simps) simp
      with "1.IH" [OF \<open>left < right\<close> x True] \<open>left < right\<close> show ?thesis by simp
    next
      case False
      with True "1.prems"(1) x have "l = left" by (subst (asm) qs_left.simps) simp
      with True show ?thesis by auto
    qed
  next
    case False
    with "1.prems" show ?thesis by (subst (asm) qs_left.simps) simp
  qed
qed

lemma qs_left_moves:
  assumes "qs_left ns key left right = Some l" and "left < right"
    and "rowid_get ns left = Some x" and "key \<le> x"
  shows "left < l"
proof -
  have "qs_left ns key (left + 1) right = Some l"
    using assms by (subst (asm) qs_left.simps) simp
  with qs_left_bounds [OF this] assms(2) show ?thesis by simp
qed

lemma rowid_get_set:
  assumes "rowid_set ns i x = Some ns'"
  shows "rowid_get ns' i = Some x"
  using assms
  by (auto simp: rowid_set_def rowid_get_def block_set_def block_get_def bind_eq_Some_conv
      rd_def wr_def split: if_splits)

function qs_part ::
    "'s rowid_list_node list \<Rightarrow> u32 \<Rightarrow> int \<Rightarrow> int \<Rightarrow> ('s rowid_list_node list \<times> int) option" where
  "qs_part ns key left right =
     (if left < right
      then do {
        right' \<leftarrow> qs_right ns key left right;
        x \<leftarrow> rowid_get ns right';
        ns1 \<leftarrow> rowid_set ns left x;
        left' \<leftarrow> qs_left ns1 key left right';
        y \<leftarrow> rowid_get ns1 left';
        ns2 \<leftarrow> rowid_set ns1 right' y;
        qs_part ns2 key left' right'
      }
      else Some (ns, right))"
  by pat_completeness auto
termination
proof (relation "measure (\<lambda>(ns, key, left, right). nat (right - left))")
  fix ns :: "'s rowid_list_node list" and key left right right' x ns1 left' y ns2
  assume *: "left < right" "qs_right ns key left right = Some right'" "rowid_get ns right' = Some x"
    "rowid_set ns left x = Some ns1" "qs_left ns1 key left right' = Some left'"
  have r: "left \<le> right'" "right' \<le> right" "left < right' \<Longrightarrow> key < x"
    using qs_right_bounds [OF *(2)] *(1,3) by auto
  have l: "left \<le> left'" "left' \<le> right'" using qs_left_bounds [OF *(5)] r by auto
  have "left < left'" if "left < right'"
    using qs_left_moves [OF *(5) that rowid_get_set [OF *(4)]] r(3) that by simp
  with r l *(1) show "((ns2, key, left', right'), ns, key, left, right) \<in>
      measure (\<lambda>(ns, key, left, right). nat (right - left))"
    by (cases "left < right'") auto
qed simp

declare qs_part.simps [simp del]

lemma qs_part_bounds:
  assumes "qs_part ns key left right = Some (ns', r)" and "left \<le> right"
  shows "left \<le> r \<and> r \<le> right"
  using assms
proof (induction ns key left right rule: qs_part.induct)
  case (1 ns key left right)
  show ?case
  proof (cases "left < right")
    case False
    with "1.prems" show ?thesis by (subst (asm) qs_part.simps) simp
  next
    case True
    with "1.prems"(1) obtain right' x ns1 left' y ns2 where
      *: "qs_right ns key left right = Some right'" "rowid_get ns right' = Some x"
        "rowid_set ns left x = Some ns1" "qs_left ns1 key left right' = Some left'"
        "rowid_get ns1 left' = Some y" "rowid_set ns1 right' y = Some ns2"
        "qs_part ns2 key left' right' = Some (ns', r)"
      by (subst (asm) qs_part.simps) (auto simp: bind_eq_Some_conv)
    have "left \<le> right'" "right' \<le> right" using qs_right_bounds [OF *(1)] True by auto
    moreover from this have "left \<le> left'" "left' \<le> right'" using qs_left_bounds [OF *(4)] by auto
    ultimately show ?thesis using "1.IH" [OF True *(1-7)] by simp
  qed
qed

text \<open>The key is read before the range is tested, as in the source.\<close>

function rowid_qsort ::
    "'s rowid_list_node list \<Rightarrow> int \<Rightarrow> int \<Rightarrow> 's rowid_list_node list option" where
  "rowid_qsort ns start end = do {
     key \<leftarrow> rowid_get ns start;
     if start \<ge> end then Some ns
     else do {
       (ns1, right) \<leftarrow> qs_part ns key start end;
       ns2 \<leftarrow> rowid_set ns1 right key;
       below \<leftarrow> add_int right (- 1);
       ns3 \<leftarrow> rowid_qsort ns2 start below;
       above \<leftarrow> add_int right 1;
       rowid_qsort ns3 above end
     }
   }"
  by pat_completeness auto
termination
  by (relation "measure (\<lambda>(ns, start, end). nat (end + 1 - start))")
    (auto dest!: qs_part_bounds add_int_eq)

declare rowid_qsort.simps [simp del]


declare equals_loop.simps [simp del] for_each_loop.simps [simp del] batch_add_loop.simps [simp del]

section \<open>A chain as one array\<close>

definition node_ok :: "'s rowid_list_node \<Rightarrow> bool" where
  "node_ok n \<longleftrightarrow> length (rn_rowid_array n) = ROWID_ARRAY_SIZE \<and>
     (case rn_score_array n of None \<Rightarrow> True | Some sc \<Rightarrow> length sc = ROWID_ARRAY_SIZE)"

definition flat :: "'s rowid_list_node list \<Rightarrow> u32 list" where
  "flat ns = concat (map rn_rowid_array ns)"

lemma flat_simps [simp]:
  "flat [] = []" "flat (n # ns) = rn_rowid_array n @ flat ns" "flat (xs @ ys) = flat xs @ flat ys"
  by (simp_all add: flat_def)

lemma length_blank_array [simp]: "length blank_array = ROWID_ARRAY_SIZE"
  by (simp add: blank_array_def)

lemma node_ok_blank [simp]: "node_ok blank_node"
  by (simp add: node_ok_def blank_node_def)

lemma length_flat: "list_all node_ok ns \<Longrightarrow> length (flat ns) = ROWID_ARRAY_SIZE * length ns"
  by (induction ns) (auto simp: node_ok_def)

lemma block_of_index: "i < ROWID_ARRAY_SIZE * n \<Longrightarrow> i div ROWID_ARRAY_SIZE < n"
  by (simp add: less_mult_imp_div_less mult.commute)

lemma flat_nth:
  assumes "list_all node_ok ns" and "i < ROWID_ARRAY_SIZE * length ns"
  shows "flat ns ! i = rn_rowid_array (ns ! (i div ROWID_ARRAY_SIZE)) ! (i mod ROWID_ARRAY_SIZE)"
proof -
  have "list_all (\<lambda>xs. length xs = 256) (map rn_rowid_array ns)"
    using assms(1) by (simp add: list_all_length node_ok_def)
  from concat_nth_blocks [OF this] show ?thesis
    using assms(2) block_of_index [OF assms(2)] by (simp add: flat_def)
qed

lemma block_get_flat:
  assumes "list_all node_ok ns" and "i < length (flat ns)"
  shows "block_get ns (i div ROWID_ARRAY_SIZE) i = Some (flat ns ! i)"
proof -
  have i: "i < 256 * length ns" using assms by (simp add: length_flat)
  then have "i div 256 < length ns" by (rule block_of_index)
  moreover from this have "node_ok (ns ! (i div 256))" using assms(1) by (simp add: list_all_length)
  ultimately show ?thesis
    using flat_nth [OF assms(1) i] by (simp add: block_get_def mem_simps node_ok_def)
qed

lemma flat_list_update:
  assumes "list_all node_ok ns" and "p < length ns" and "length xs = ROWID_ARRAY_SIZE"
    and "xs = (rn_rowid_array (ns ! p))[k := x]" and "k < ROWID_ARRAY_SIZE"
  shows "flat (ns[p := (ns ! p)\<lparr>rn_rowid_array := xs\<rparr>]) = (flat ns)[ROWID_ARRAY_SIZE * p + k := x]"
  using assms
proof (induction ns arbitrary: p)
  case Nil
  then show ?case by simp
next
  case (Cons n ns)
  show ?case
  proof (cases p)
    case 0
    with Cons.prems show ?thesis by (simp add: list_update_append node_ok_def)
  next
    case (Suc q)
    with Cons show ?thesis by (simp add: list_update_append node_ok_def)
  qed
qed

lemma block_set_flat:
  assumes "list_all node_ok ns" and "i < length (flat ns)"
  obtains ns' where "block_set ns (i div ROWID_ARRAY_SIZE) i x = Some ns'"
    and "flat ns' = (flat ns)[i := x]" and "list_all node_ok ns'"
    and "map rn_score_array ns' = map rn_score_array ns"
proof -
  let ?p = "i div 256" and ?k = "i mod 256"
  have i: "i < 256 * length ns" using assms by (simp add: length_flat)
  then have p: "?p < length ns" by (rule block_of_index)
  have n: "node_ok (ns ! ?p)" using assms(1) p by (simp add: list_all_length)
  let ?xs = "(rn_rowid_array (ns ! ?p))[?k := x]"
  let ?ns = "ns[?p := (ns ! ?p)\<lparr>rn_rowid_array := ?xs\<rparr>]"
  have "block_set ns ?p i x = Some ?ns"
    using p n by (simp add: block_set_def mem_simps node_ok_def)
  moreover have "flat ?ns = (flat ns)[i := x]"
    using flat_list_update [OF assms(1) p, of ?xs ?k x] n by (simp add: node_ok_def)
  moreover have "list_all node_ok ?ns"
    using assms(1) n p by (auto simp: list_all_length nth_list_update node_ok_def)
  moreover have "map rn_score_array ?ns = map rn_score_array ns"
    using p by (simp add: map_update list_update_same_conv)
  ultimately show ?thesis by (rule that)
qed

lemma rowid_get_flat:
  assumes "list_all node_ok ns" and "0 \<le> i" and "i < int (length (flat ns))"
  shows "rowid_get ns i = Some (flat ns ! nat i)"
  using assms block_get_flat [of ns "nat i"] by (simp add: rowid_get_def)

lemma rowid_get_nat:
  "list_all node_ok ns \<Longrightarrow> i < length (flat ns) \<Longrightarrow> rowid_get ns (int i) = Some (flat ns ! i)"
  using rowid_get_flat [of ns "int i"] by simp

lemma rowid_set_flat:
  assumes "list_all node_ok ns" and "0 \<le> i" and "i < int (length (flat ns))"
  obtains ns' where "rowid_set ns i x = Some ns'" and "flat ns' = (flat ns)[nat i := x]"
    and "list_all node_ok ns'"
proof -
  have "nat i < length (flat ns)" using assms(2,3) by simp
  from block_set_flat [OF assms(1) this, of x] obtain ns' where
    "block_set ns (nat i div 256) (nat i) x = Some ns'" "flat ns' = (flat ns)[nat i := x]"
    "list_all node_ok ns'" .
  with assms(2) show ?thesis by (intro that) (simp_all add: rowid_set_def)
qed

section \<open>Lists\<close>

definition rl_ids :: "'s rowid_list \<Rightarrow> u32 list" where
  "rl_ids l = take (unat (rl_rowid_num l)) (flat (rl_nodes l))"

definition rl_ok :: "'s rowid_list \<Rightarrow> bool" where
  "rl_ok l \<longleftrightarrow> list_all node_ok (rl_nodes l) \<and> unat (rl_rowid_num l) \<le> length (flat (rl_nodes l))"

text \<open>The shape that adding builds: no empty block, the tail pointer at the last block.\<close>

definition rl_wf :: "'s rowid_list \<Rightarrow> bool" where
  "rl_wf l \<longleftrightarrow> rl_ok l \<and>
     (if rl_nodes l = [] then rl_rowid_num l = 0 \<and> rl_tail l = None
      else unat (rl_rowid_num l) > ROWID_ARRAY_SIZE * (length (rl_nodes l) - 1) \<and>
        rl_tail l = Some (length (rl_nodes l) - 1))"

lemma length_rl_ids [simp]: "rl_ok l \<Longrightarrow> length (rl_ids l) = unat (rl_rowid_num l)"
  by (simp add: rl_ids_def rl_ok_def)

lemma rl_get:
  assumes "rl_ok l" and "i < unat (rl_rowid_num l)"
  shows "block_get (rl_nodes l) (i div ROWID_ARRAY_SIZE) i = Some (rl_ids l ! i)"
  using assms by (simp add: rl_ok_def rl_ids_def block_get_flat)

lemma rl_wf_init [simp]: "rl_wf rowid_list_init" "rl_ids rowid_list_init = []"
  by (simp_all add: rl_wf_def rl_ok_def rl_ids_def rowid_list_init_def)

lemma next_block_div: "next_block (Suc i) (i div ROWID_ARRAY_SIZE) = Suc i div ROWID_ARRAY_SIZE"
  by (auto simp: next_block_def div_Suc)


lemma node_with_array [simp]:
  "length xs = ROWID_ARRAY_SIZE \<Longrightarrow> node_ok (blank_node\<lparr>rn_rowid_array := xs\<rparr>)"
  by (simp add: node_ok_def blank_node_def)

lemma blank_node_array [simp]: "rn_rowid_array blank_node = blank_array"
  by (simp add: blank_node_def)

lemma last_block:
  assumes "256 * k < n" and "n \<le> 256 * Suc k"
  shows "n mod 256 = 0 \<Longrightarrow> n = 256 * Suc k"
    and "n mod 256 \<noteq> 0 \<Longrightarrow> n < 256 * Suc k" and "n < 256 * Suc k \<Longrightarrow> n div 256 = k"
proof -
  show "n = 256 * Suc k" if "n mod 256 = 0"
  proof -
    define m where "m = n div 256"
    have q: "n = 256 * m" using that mult_div_mod_eq [of 256 n] unfolding m_def by linarith
    have "k < m" "m \<le> Suc k" using assms unfolding q by auto
    then show ?thesis unfolding q by simp
  qed
  show "n < 256 * Suc k" if "n mod 256 \<noteq> 0"
  proof -
    have "(256 * Suc k) mod 256 = 0" by (rule mod_mult_self1_is_0)
    with that have "n \<noteq> 256 * Suc k" by metis
    with assms(2) show ?thesis by simp
  qed
  show "n div 256 = k" if "n < 256 * Suc k"
    using that assms(1) by (intro div_nat_eqI) simp_all
qed

text \<open>Linking a block whose first \<open>m\<close> entries are \<open>xs\<close> onto a list that fills its blocks.\<close>

lemma link_block_full:
  assumes "rl_wf l" and "unat (rl_rowid_num l) mod ROWID_ARRAY_SIZE = 0"
    and "node_ok n" and "take m (rn_rowid_array n) = xs" and "0 < m" and "m \<le> ROWID_ARRAY_SIZE"
    and "unat (rl_rowid_num l) + m < 4294967296"
    and "link_block l n = Some l1" and "l' = l1\<lparr>rl_rowid_num := rl_rowid_num l + word_of_nat m\<rparr>"
  shows "rl_wf l' \<and> rl_ids l' = rl_ids l @ xs"
proof -
  let ?n = "unat (rl_rowid_num l)" and ?ns = "rl_nodes l"
  have m: "unat (word_of_nat m :: u32) = m" using assms(6) by (intro unat_word_of_nat_u32) simp
  have num: "unat (rl_rowid_num l') = ?n + m"
    using assms(7,9) m by (simp add: unat_word_ariths)
  have ok: "list_all node_ok ?ns" using assms(1) by (simp add: rl_wf_def rl_ok_def)
  have len: "?n = 256 * length ?ns"
  proof (cases "?ns = []")
    case True
    then show ?thesis using assms(1) by (simp add: rl_wf_def)
  next
    case False
    then obtain k where "length ?ns = Suc k" by (cases ?ns) auto
    then have "256 * k < ?n" "?n \<le> 256 * Suc k"
      using assms(1) False length_flat [OF ok] by (auto simp: rl_wf_def rl_ok_def)
    from last_block(1) [OF this assms(2)] \<open>length ?ns = Suc k\<close> show ?thesis by simp
  qed
  have nodes: "rl_nodes l' = ?ns @ [n]" "rl_tail l' = Some (length ?ns)"
    using assms(1,8,9) by (auto simp: link_block_def rl_wf_def split: if_splits)
  have fl: "length (flat ?ns) = ?n" using len length_flat [OF ok] by simp
  have arr: "length (rn_rowid_array n) = 256" using assms(3) by (simp add: node_ok_def)
  have "rl_ids l' = flat ?ns @ xs"
    unfolding rl_ids_def nodes num using fl assms(4) by simp
  moreover have "rl_ids l = flat ?ns" unfolding rl_ids_def using fl by simp
  moreover have "rl_wf l'"
    unfolding rl_wf_def rl_ok_def nodes num using fl arr assms(3,5,6) ok len by simp
  ultimately show ?thesis by simp
qed

lemma rl_wf_link: "rl_wf l \<Longrightarrow> \<exists>l1. link_block l n = Some l1"
  by (auto simp: link_block_def rl_wf_def split: if_splits)

lemma rowid_list_add_ids:
  assumes "rl_wf l" and "unat (rl_rowid_num l) + 1 < 4294967296"
  shows "\<exists>l'. rowid_list_add l x = Some l' \<and> rl_wf l' \<and> rl_ids l' = rl_ids l @ [x]"
proof (cases "rl_nodes l = [] \<or> unat (rl_rowid_num l) mod 256 = 0")
  case True
  let ?n = "blank_node\<lparr>rn_rowid_array := blank_array[0 := x]\<rparr>"
  have md: "unat (rl_rowid_num l) mod 256 = 0" using True assms(1) by (auto simp: rl_wf_def)
  obtain l1 where l1: "link_block l ?n = Some l1" using rl_wf_link [OF assms(1)] by blast
  let ?l = "l1\<lparr>rl_rowid_num := rl_rowid_num l + 1\<rparr>"
  have "link_block (l\<lparr>rl_rowid_num := rl_rowid_num l + 1\<rparr>) ?n = Some ?l"
    using l1 by (auto simp: link_block_def bind_eq_Some_conv split: if_splits)
  then have "rowid_list_add l x = Some ?l"
    using True by (simp add: rowid_list_add_def mem_simps)
  moreover have "rl_wf ?l \<and> rl_ids ?l = rl_ids l @ [x]"
    using assms(2) by (intro link_block_full [OF assms(1) md _ _ _ _ _ l1, of 1])
      (simp_all add: take_Suc_conv_app_nth [of 0])
  ultimately show ?thesis by blast
next
  case False
  let ?n = "unat (rl_rowid_num l)" and ?ns = "rl_nodes l"
  have ok: "list_all node_ok ?ns" using assms(1) by (simp add: rl_wf_def rl_ok_def)
  from False obtain k where k: "length ?ns = Suc k" by (cases ?ns) auto
  have n: "256 * k < ?n" "?n \<le> 256 * Suc k" "rl_tail l = Some k"
    using assms(1) False k length_flat [OF ok] by (auto simp: rl_wf_def rl_ok_def)
  have lt: "?n < 256 * Suc k" using last_block(2) [OF n(1,2)] False by simp
  have dv: "?n div 256 = k" using last_block(3) [OF n(1,2) lt] .
  have fl: "?n < length (flat ?ns)" using lt k length_flat [OF ok] by simp
  obtain ns' where ns': "block_set ?ns (?n div 256) ?n x = Some ns'"
    "flat ns' = (flat ?ns)[?n := x]" "list_all node_ok ns'" "map rn_score_array ns' = map rn_score_array ?ns"
    using block_set_flat [OF ok fl] .
  have len: "length ns' = Suc k" using ns'(4) k by (metis length_map)
  let ?l = "l\<lparr>rl_nodes := ns', rl_rowid_num := rl_rowid_num l + 1\<rparr>"
  have num: "unat (rl_rowid_num l + 1) = ?n + 1" using assms(2) by (rule unat_plus_one_u32)
  have "rowid_list_add l x = Some ?l"
    using False n(3) ns'(1) dv by (simp add: rowid_list_add_def)
  moreover have "rl_wf ?l"
    using ns'(2,3) len n fl num by (auto simp: rl_wf_def rl_ok_def)
  moreover have "rl_ids ?l = rl_ids l @ [x]"
    using fl by (simp add: rl_ids_def num ns'(2) take_Suc_conv_app_nth)
  ultimately show ?thesis by blast
qed

lemma take_drop_chunk:
  assumes "k \<le> m" and "m \<le> n"
  shows "take k (drop (n - m) xs) @ take (m - k) (drop (n - (m - k)) xs) = take m (drop (n - m) xs)"
proof -
  have "n - (m - k) = k + (n - m)" "m = k + (m - k)" using assms by simp_all
  then show ?thesis using take_add [of k "m - k" "drop (n - m) xs"] by (simp add: add.commute)
qed

lemma batch_add_step:
  assumes "rl_wf l" and "unat (rl_rowid_num l) mod ROWID_ARRAY_SIZE = 0"
    and "unat (rl_rowid_num l) + num < 4294967296" and "num \<le> n" and "n \<le> length rowids"
    and "0 < num" and k: "k = (if num div ROWID_ARRAY_SIZE > 0 then ROWID_ARRAY_SIZE else num)"
  shows "\<exists>l'. batch_add_loop l rowids n num = batch_add_loop l' rowids n (num - k) \<and> rl_wf l' \<and>
    unat (rl_rowid_num l') = unat (rl_rowid_num l) + k \<and>
    rl_ids l' = rl_ids l @ take k (drop (n - num) rowids)"
proof -
  have kb: "0 < k" "k \<le> 256" "k \<le> num" using k assms(6) by auto
  let ?xs = "take k (drop (n - num) rowids)"
  have xs: "rd_range rowids (n - num) k = Some ?xs" "length ?xs = k"
    using assms(4,5) kb by (auto simp: rd_range_def)
  let ?arr = "?xs @ drop k blank_array"
  have arr: "wr_range blank_array 0 ?xs = Some ?arr" using xs(2) kb by (simp add: wr_range_def)
  let ?n = "blank_node\<lparr>rn_rowid_array := ?arr\<rparr>"
  obtain l1 where l1: "link_block l ?n = Some l1" using rl_wf_link [OF assms(1)] by blast
  have same: "rl_rowid_num l1 = rl_rowid_num l"
    using l1 by (auto simp: link_block_def bind_eq_Some_conv split: if_splits)
  let ?l = "l1\<lparr>rl_rowid_num := rl_rowid_num l + word_of_nat k\<rparr>"
  have n: "node_ok ?n" "take k (rn_rowid_array ?n) = ?xs" using xs(2) kb by simp_all
  have "rl_wf ?l \<and> rl_ids ?l = rl_ids l @ ?xs"
    using assms(3) kb by (intro link_block_full [OF assms(1,2) n kb(1,2) _ l1 refl]) linarith
  moreover have "unat (word_of_nat k :: u32) = k" using kb(2) by (intro unat_word_of_nat_u32) simp
  then have "unat (rl_rowid_num ?l) = unat (rl_rowid_num l) + k"
    using assms(3) kb(3) by (simp add: unat_word_ariths)
  moreover have "batch_add_loop l rowids n num = batch_add_loop ?l rowids n (num - k)"
    using assms(6) xs(1) arr l1 same
    by (subst batch_add_loop.simps) (simp add: Let_def flip: k)
  ultimately show ?thesis by blast
qed

lemma batch_add_loop_ids:
  assumes "rl_wf l" and "unat (rl_rowid_num l) mod ROWID_ARRAY_SIZE = 0"
    and "unat (rl_rowid_num l) + num < 4294967296" and "num \<le> n" and "n \<le> length rowids"
  shows "\<exists>l'. batch_add_loop l rowids n num = Some l' \<and> rl_wf l' \<and>
    rl_ids l' = rl_ids l @ take num (drop (n - num) rowids)"
  using assms
proof (induction num arbitrary: l rule: less_induct)
  case (less num)
  show ?case
  proof (cases "num = 0")
    case True
    with less.prems show ?thesis by (subst batch_add_loop.simps) simp
  next
    case False
    define k where "k = (if num div ROWID_ARRAY_SIZE > 0 then ROWID_ARRAY_SIZE else num)"
    have kb: "0 < k" "k \<le> num" "k < num \<Longrightarrow> k = 256" using False by (auto simp: k_def split: if_splits)
    from batch_add_step [OF less.prems _ k_def] False obtain l1 where l1:
      "batch_add_loop l rowids n num = batch_add_loop l1 rowids n (num - k)" "rl_wf l1"
      "unat (rl_rowid_num l1) = unat (rl_rowid_num l) + k"
      "rl_ids l1 = rl_ids l @ take k (drop (n - num) rowids)" by auto
    show ?thesis
    proof (cases "k = num")
      case True
      then have "batch_add_loop l1 rowids n (num - k) = Some l1" by (subst batch_add_loop.simps) simp
      with l1 True show ?thesis by simp
    next
      case False
      have "unat (rl_rowid_num l1) mod 256 = 0"
        using l1(3) less.prems(2) False kb by simp
      then obtain l' where "batch_add_loop l1 rowids n (num - k) = Some l'" "rl_wf l'"
        "rl_ids l' = rl_ids l1 @ take (num - k) (drop (n - (num - k)) rowids)"
        using less.IH [of "num - k" l1, OF _ l1(2)] less.prems(3,5) kb l1(3)
          le_trans [OF diff_le_self less.prems(4)] by auto
      with l1 take_drop_chunk [OF kb(2) less.prems(4), of rowids] show ?thesis by simp
    qed
  qed
qed


lemma rl_wf_tail:
  assumes "rl_wf l"
  shows "block_ptr (rl_nodes l) ((unat (rl_rowid_num l) - 1) div ROWID_ARRAY_SIZE) = rl_tail l"
proof (cases "rl_nodes l = []")
  case True
  with assms show ?thesis by (simp add: rl_wf_def block_ptr_def)
next
  case False
  let ?n = "unat (rl_rowid_num l)"
  from False obtain k where k: "length (rl_nodes l) = Suc k" by (cases "rl_nodes l") auto
  have "256 * k < ?n" "?n \<le> 256 * Suc k" "rl_tail l = Some k"
    using assms False k length_flat [of "rl_nodes l"] by (auto simp: rl_wf_def rl_ok_def)
  moreover from this have "(?n - 1) div 256 = k" by (intro div_nat_eqI) simp_all
  ultimately show ?thesis using k by (simp add: block_ptr_def)
qed

section \<open>Visiting\<close>

fun visit :: "(u32 \<Rightarrow> 'u \<Rightarrow> int \<times> 'u) \<Rightarrow> (nat \<Rightarrow> bool) \<Rightarrow> nat \<Rightarrow> u32 list \<Rightarrow> 'u \<Rightarrow> int \<times> 'u" where
  "visit f late i [] u = (MILE_RETURN_SUCCESS, u)"
| "visit f late i (x # xs) u =
     (case f x u of (r, u') \<Rightarrow>
        if r < 0 then (r, u')
        else if Suc i mod 100 = 0 \<and> late (Suc i) then (ERROR_TIMEOUT, u')
        else visit f late (Suc i) xs u')"

lemma for_each_loop_visit:
  assumes "rl_ok l" and "i \<le> unat (rl_rowid_num l)"
  shows "for_each_loop l f late (i div ROWID_ARRAY_SIZE) i u =
    Some (visit f late i (drop i (rl_ids l)) u)"
  using assms(2)
proof (induction "unat (rl_rowid_num l) - i" arbitrary: i u)
  case 0
  then have "drop i (rl_ids l) = []" using assms(1) by simp
  with 0 show ?case by (subst for_each_loop.simps) simp
next
  case (Suc m)
  then have i: "i < unat (rl_rowid_num l)" by simp
  have d: "drop i (rl_ids l) = rl_ids l ! i # drop (Suc i) (rl_ids l)"
    using i assms(1) by (simp add: Cons_nth_drop_Suc)
  obtain r u' where f: "f (rl_ids l ! i) u = (r, u')" by fastforce
  have "for_each_loop l f late (Suc i div 256) (Suc i) u' =
      Some (visit f late (Suc i) (drop (Suc i) (rl_ids l)) u')"
    using Suc i by (intro Suc.hyps(1)) simp_all
  then show ?case
    using i f rl_get [OF assms(1) i] next_block_div [of i]
    by (subst for_each_loop.simps) (simp add: d)
qed

section \<open>Comparing\<close>

text \<open>The entry that step \<open>i\<close> of the comparison looks at: the block pointers move on only
  after the first entry of the next block should have been read.\<close>

definition eq_pos :: "nat \<Rightarrow> nat" where
  "eq_pos i = (if i \<noteq> 0 \<and> i mod ROWID_ARRAY_SIZE = 0 then i - ROWID_ARRAY_SIZE else i)"

lemma eq_pos_block:
  "eq_pos i div ROWID_ARRAY_SIZE = (i - 1) div ROWID_ARRAY_SIZE"
  "eq_pos i mod ROWID_ARRAY_SIZE = i mod ROWID_ARRAY_SIZE" "eq_pos i \<le> i"
proof -
  have "i - 256 = 256 * (i div 256 - 1)" if "i mod 256 = 0"
    using that mult_div_mod_eq [of 256 i] by (simp add: diff_mult_distrib2)
  moreover have "(i - 1) div 256 = (if i mod 256 = 0 then i div 256 - 1 else i div 256)"
    by (cases i) (simp_all add: div_Suc)
  ultimately show "eq_pos i div 256 = (i - 1) div 256" by (auto simp: eq_pos_def)
  show "eq_pos i mod 256 = i mod 256"
    using \<open>i mod 256 = 0 \<Longrightarrow> i - 256 = 256 * (i div 256 - 1)\<close> by (auto simp: eq_pos_def)
qed (simp add: eq_pos_def)

lemma equals_get:
  assumes "rl_ok l" and "i < unat (rl_rowid_num l)"
  shows "block_get (rl_nodes l) ((i - 1) div ROWID_ARRAY_SIZE) i = Some (rl_ids l ! eq_pos i)"
proof -
  have "eq_pos i < unat (rl_rowid_num l)" using assms(2) eq_pos_block(3) [of i] by simp
  from rl_get [OF assms(1) this] show ?thesis
    by (simp add: eq_pos_block block_get_def)
qed

lemma equals_next:
  "(if i \<noteq> 0 \<and> i mod ROWID_ARRAY_SIZE = 0 then (i - 1) div ROWID_ARRAY_SIZE + 1
    else (i - 1) div ROWID_ARRAY_SIZE) = i div ROWID_ARRAY_SIZE"
  by (cases i) (simp_all add: div_Suc)

text \<open>The entries the comparison looks at are all but the first one of the last block.\<close>

lemma all_eq_pos:
  "(\<forall>j < n. P (eq_pos j)) \<longleftrightarrow>
    (\<forall>i < n. (n \<le> ROWID_ARRAY_SIZE \<or> i \<noteq> ROWID_ARRAY_SIZE * ((n - 1) div ROWID_ARRAY_SIZE)) \<longrightarrow> P i)"
proof -
  let ?t = "(n - 1) div 256"
  have ex: "\<exists>j < n. eq_pos j = i" if "i < n" "n \<le> 256 \<or> i \<noteq> 256 * ?t" for i
  proof (cases "i mod 256 = 0 \<and> 256 < n")
    case False
    then have "i mod 256 \<noteq> 0 \<or> i = 0" using that(1) by auto
    then have "eq_pos i = i" by (auto simp: eq_pos_def)
    with that(1) show ?thesis by blast
  next
    case True
    obtain q where q: "i = 256 * q" using True by (auto simp: mod_eq_0_iff_dvd elim: dvdE)
    have "q \<noteq> ?t" using that(2) True q by auto
    moreover have "q \<le> ?t" using q that(1) by (metis Suc_pred' div_le_mono less_Suc_eq_le nonzero_mult_div_cancel_left not_less_zero zero_neq_numeral gr_zeroI)
    ultimately have "Suc q \<le> ?t" by simp
    then have "256 * Suc q \<le> n - 1" by (metis mult.commute less_eq_div_iff_mult_less_eq zero_less_numeral)
    then have "256 * Suc q < n" using that(1) by simp
    moreover have "eq_pos (256 * Suc q) = i" using q by (simp add: eq_pos_def)
    ultimately show ?thesis by blast
  qed
  have im: "eq_pos j < n \<and> (n \<le> 256 \<or> eq_pos j \<noteq> 256 * ?t)" if "j < n" for j
  proof -
    have "eq_pos j \<noteq> 256 * ?t" if "256 < n"
    proof
      assume e: "eq_pos j = 256 * ?t"
      have pos: "0 < ?t" using that by (simp add: div_greater_zero_iff)
      have "j mod 256 = 0" using e eq_pos_block(2) [of j] by simp
      moreover have "j \<noteq> 0" using e pos by (cases "j = 0") (simp_all add: eq_pos_def)
      ultimately have "j - 256 = 256 * ?t" "256 \<le> j" using e by (auto simp: eq_pos_def)
      then have "j = 256 * Suc ?t" by simp
      moreover have "n - 1 < 256 * Suc ?t" by (metis dividend_less_times_div mult.commute mult_Suc_right zero_less_numeral add.commute)
      ultimately show False using \<open>j < n\<close> by simp
    qed
    with that eq_pos_block(3) [of j] show ?thesis by fastforce
  qed
  show ?thesis using ex im by metis
qed

lemma equals_loop_result:
  assumes "rl_ok a" and "rl_ok b" and "rl_rowid_num a = rl_rowid_num b" and "n = unat (rl_rowid_num a)"
    and "i \<le> n"
  shows "equals_loop a b i i ((i - 1) div ROWID_ARRAY_SIZE) ((i - 1) div ROWID_ARRAY_SIZE) =
    Some (if \<forall>j. i \<le> j \<and> j < n \<longrightarrow> rl_ids a ! eq_pos j = rl_ids b ! eq_pos j
          then Some ((n - 1) div ROWID_ARRAY_SIZE, (n - 1) div ROWID_ARRAY_SIZE) else None)"
  using assms(5)
proof (induction "n - i" arbitrary: i)
  case 0
  then have "i = n" by simp
  then show ?case using assms(3,4) by (subst equals_loop.simps) simp
next
  case (Suc m)
  then have i: "i < n" by simp
  note get = equals_get [OF assms(1), of i] equals_get [OF assms(2), of i]
  have IH: "equals_loop a b (Suc i) (Suc i) (i div 256) (i div 256) =
      Some (if \<forall>j. Suc i \<le> j \<and> j < n \<longrightarrow> rl_ids a ! eq_pos j = rl_ids b ! eq_pos j
            then Some ((n - 1) div 256, (n - 1) div 256) else None)"
    using Suc.hyps(1) [of "Suc i"] Suc.hyps(2) i by simp
  have split: "(\<forall>j. i \<le> j \<and> j < n \<longrightarrow> P j) \<longleftrightarrow> P i \<and> (\<forall>j. Suc i \<le> j \<and> j < n \<longrightarrow> P j)" for P
    using i by (metis Suc_leD Suc_leI le_neq_implies_less order_refl)
  have cond: "i < unat (rl_rowid_num a) \<and> i < unat (rl_rowid_num b)" using i assms(3,4) by simp
  then have step: "equals_loop a b i i ((i - 1) div 256) ((i - 1) div 256) =
      (if rl_ids a ! eq_pos i \<noteq> rl_ids b ! eq_pos i then Some None
       else equals_loop a b (Suc i) (Suc i) (i div 256) (i div 256))"
    by (subst equals_loop.simps) (simp only: get simp_thms if_True bind.bind_lunit equals_next)
  show ?case unfolding step IH split [of "\<lambda>j. rl_ids a ! eq_pos j = rl_ids b ! eq_pos j"] by simp
qed


section \<open>Sorting\<close>

lemma qs_right_finds:
  assumes "list_all node_ok ns" and "l \<le> r" and "r < length (flat ns)"
  shows "\<exists>r'. qs_right ns key (int l) (int r) = Some (int r') \<and> l \<le> r' \<and> r' \<le> r \<and>
    (\<forall>i. r' < i \<and> i \<le> r \<longrightarrow> flat ns ! i \<le> key) \<and> (l < r' \<longrightarrow> key < flat ns ! r')"
  using assms(2,3)
proof (induction r)
  case 0
  then show ?case by (subst qs_right.simps) auto
next
  case (Suc r)
  show ?case
  proof (cases "l = Suc r")
    case True
    then show ?thesis by (intro exI [of _ "Suc r"]) (auto simp: qs_right.simps)
  next
    case False
    then have l: "l \<le> r" using Suc.prems(1) by simp
    have g: "rowid_get ns (int (Suc r)) = Some (flat ns ! Suc r)"
      using assms(1) Suc.prems(2) by (rule rowid_get_nat)
    show ?thesis
    proof (cases "flat ns ! Suc r \<le> key")
      case True
      have "qs_right ns key (int l) (int (Suc r)) = qs_right ns key (int l) (int r)"
        using l g True by (subst qs_right.simps) simp
      with Suc.IH [OF l] Suc.prems(2) True show ?thesis by (auto simp: le_Suc_eq)
    next
      case False
      have "qs_right ns key (int l) (int (Suc r)) = Some (int (Suc r))"
        using l g False by (subst qs_right.simps) simp
      with False l show ?thesis by (intro exI [of _ "Suc r"]) auto
    qed
  qed
qed

lemma qs_left_finds:
  assumes "list_all node_ok ns" and "l \<le> r" and "r < length (flat ns)"
  shows "\<exists>l'. qs_left ns key (int l) (int r) = Some (int l') \<and> l \<le> l' \<and> l' \<le> r \<and>
    (\<forall>i. l \<le> i \<and> i < l' \<longrightarrow> key \<le> flat ns ! i)"
  using assms(2)
proof (induction "r - l" arbitrary: l)
  case 0
  then show ?case by (subst qs_left.simps) auto
next
  case (Suc m)
  then have l: "l < r" by simp
  have g: "rowid_get ns (int l) = Some (flat ns ! l)"
    using rowid_get_flat [OF assms(1), of "int l"] l assms(3) by simp
  show ?case
  proof (cases "key \<le> flat ns ! l")
    case True
    have "qs_left ns key (int l) (int r) = qs_left ns key (int (Suc l)) (int r)"
      using l g True by (subst qs_left.simps) (simp add: add.commute)
    moreover obtain l' where "qs_left ns key (int (Suc l)) (int r) = Some (int l')" "Suc l \<le> l'" "l' \<le> r"
      "\<forall>i. Suc l \<le> i \<and> i < l' \<longrightarrow> key \<le> flat ns ! i"
      using Suc.hyps(1) [of "Suc l", OF _ Suc_leI [OF l]] Suc.hyps(2) by (metis Suc_diff_Suc l nat.inject)
    ultimately show ?thesis using True l
      by (intro exI [of _ l']) (metis Suc_leD Suc_leI le_neq_implies_less)
  next
    case False
    have "qs_left ns key (int l) (int r) = Some (int l)"
      using l g False by (subst qs_left.simps) simp
    with l show ?thesis by (intro exI [of _ l]) auto
  qed
qed

text \<open>Moving the hole from \<open>l\<close> to \<open>r\<close> keeps the multiset with the key in the hole.\<close>

lemma hole_move:
  assumes "l < length xs" and "r < length xs"
  shows "mset (xs[l := xs ! r, r := key]) = mset (xs[l := key])"
proof (cases "l = r")
  case False
  let ?ys = "xs[l := key]"
  have "?ys[l := ?ys ! r, r := ?ys ! l] = xs[l := xs ! r, r := key]"
    using False assms by (simp add: list_update_swap)
  then show ?thesis using mset_swap [of r ?ys l] assms by simp
qed simp

lemma qs_part_correct:
  assumes "list_all node_ok ns" and "l \<le> r" and "r < length (flat ns)"
  shows "\<exists>ns' m. qs_part ns key (int l) (int r) = Some (ns', int m) \<and> l \<le> m \<and> m \<le> r \<and>
    list_all node_ok ns' \<and> length (flat ns') = length (flat ns) \<and>
    mset ((flat ns')[m := key]) = mset ((flat ns)[l := key]) \<and>
    (\<forall>i. i < l \<or> r < i \<longrightarrow> flat ns' ! i = flat ns ! i) \<and>
    (\<forall>i. l \<le> i \<and> i < m \<longrightarrow> key \<le> flat ns' ! i) \<and> (\<forall>i. m < i \<and> i \<le> r \<longrightarrow> flat ns' ! i \<le> key)"
  using assms
proof (induction "r - l" arbitrary: ns l r rule: less_induct)
  case less
  show ?case
  proof (cases "l = r")
    case True
    then show ?thesis using less.prems
      by (intro exI [of _ ns] exI [of _ r]) (auto simp: qs_part.simps)
  next
    case False
    let ?xs = "flat ns"
    have lr: "l < r" using False less.prems(2) by simp
    from qs_right_finds [OF less.prems] obtain r1 where r1:
      "qs_right ns key (int l) (int r) = Some (int r1)" "l \<le> r1" "r1 \<le> r"
      "\<And>i. r1 < i \<Longrightarrow> i \<le> r \<Longrightarrow> ?xs ! i \<le> key" "l < r1 \<Longrightarrow> key < ?xs ! r1" by metis
    have in1: "r1 < length ?xs" "l < length ?xs" using r1 less.prems by simp_all
    have x: "rowid_get ns (int r1) = Some (?xs ! r1)"
      using rowid_get_flat [OF less.prems(1), of "int r1"] in1 by simp
    obtain ns1 where ns1: "rowid_set ns (int l) (?xs ! r1) = Some ns1"
      "flat ns1 = ?xs[l := ?xs ! r1]" "list_all node_ok ns1"
      using rowid_set_flat [OF less.prems(1), of "int l" "?xs ! r1"] in1 by auto
    have "r1 < length (flat ns1)" using in1 ns1(2) by simp
    from qs_left_finds [OF ns1(3) r1(2) this, of key] obtain l1 where l1:
      "qs_left ns1 key (int l) (int r1) = Some (int l1)" "l \<le> l1" "l1 \<le> r1"
      "\<And>i. l \<le> i \<Longrightarrow> i < l1 \<Longrightarrow> key \<le> flat ns1 ! i" by blast
    have y: "rowid_get ns1 (int l1) = Some (flat ns1 ! l1)"
      using rowid_get_flat [OF ns1(3), of "int l1"] in1 l1(3) ns1(2) by simp
    obtain ns2 where ns2: "rowid_set ns1 (int r1) (flat ns1 ! l1) = Some ns2"
      "flat ns2 = (flat ns1)[r1 := flat ns1 ! l1]" "list_all node_ok ns2"
      using rowid_set_flat [OF ns1(3), of "int r1" "flat ns1 ! l1"] in1 ns1(2) by auto
    have step: "qs_part ns key (int l) (int r) = qs_part ns2 key (int l1) (int r1)"
      using lr r1(1) x ns1(1) l1(1) y ns2(1) by (subst qs_part.simps) simp
    have "l < l1" if "l < r1"
      using qs_left_moves [OF l1(1) _ rowid_get_set [OF ns1(1)]] that r1(5) by simp
    then have "r1 - l1 < r - l" using r1 l1 lr by (cases "l < r1") auto
    moreover have len2: "length (flat ns2) = length ?xs" using ns1(2) ns2(2) by simp
    then have "r1 < length (flat ns2)" using in1 by simp
    ultimately obtain ns' m where m:
      "qs_part ns2 key (int l1) (int r1) = Some (ns', int m)" "l1 \<le> m" "m \<le> r1"
      "list_all node_ok ns'" "length (flat ns') = length (flat ns2)"
      "mset ((flat ns')[m := key]) = mset ((flat ns2)[l1 := key])"
      "\<And>i. i < l1 \<or> r1 < i \<Longrightarrow> flat ns' ! i = flat ns2 ! i"
      "\<And>i. l1 \<le> i \<Longrightarrow> i < m \<Longrightarrow> key \<le> flat ns' ! i" "\<And>i. m < i \<Longrightarrow> i \<le> r1 \<Longrightarrow> flat ns' ! i \<le> key"
      using less.hyps [OF _ ns2(3) l1(3)] by blast
    have "mset ((flat ns2)[l1 := key]) = mset ((flat ns1)[r1 := key])"
      unfolding ns2(2) using in1 l1(3) ns1(2) by (intro hole_move) simp_all
    also have "\<dots> = mset (?xs[l := key])" unfolding ns1(2) using in1 by (intro hole_move)
    finally have ms: "mset ((flat ns')[m := key]) = mset (?xs[l := key])" using m(6) by simp
    have out: "flat ns' ! i = ?xs ! i" if "i < l \<or> r < i" for i
      using that m(7) [of i] l1 r1 unfolding ns2(2) ns1(2) by auto
    have lo: "key \<le> flat ns' ! i" if "l \<le> i" "i < m" for i
      using that m(7,8) [of i] l1 unfolding ns2(2) by (cases "i < l1") auto
    have hi: "flat ns' ! i \<le> key" if "m < i" "i \<le> r" for i
      using that m(7,9) [of i] l1 r1 unfolding ns2(2) ns1(2) by (cases "i \<le> r1") auto
    show ?thesis
      using step m(1-5) len2 ms out lo hi l1 r1 by (intro exI [of _ ns'] exI [of _ m]) auto
  qed
qed


definition desc_on :: "u32 list \<Rightarrow> nat \<Rightarrow> nat \<Rightarrow> bool" where
  "desc_on xs s e \<longleftrightarrow> (\<forall>i j. s \<le> i \<and> i < j \<and> j < e \<longrightarrow> xs ! j \<le> xs ! i)"

lemma map_nth_range:
  "e \<le> length xs \<Longrightarrow> map ((!) xs) [s..<e] = take (e - s) (drop s xs)"
  by (intro nth_equalityI) auto

lemma range_mset:
  assumes "length ys = length xs" and "mset ys = mset xs" and "s \<le> e" and "e \<le> length xs"
    and "\<And>i. i < s \<or> e \<le> i \<Longrightarrow> i < length xs \<Longrightarrow> ys ! i = xs ! i"
  shows "(!) ys ` {s..<e} = (!) xs ` {s..<e}"
proof -
  have split: "mset zs = mset (take s zs) + mset (take (e - s) (drop s zs)) + mset (drop e zs)"
    for zs :: "'a list"
  proof -
    have "take (e - s) (drop s zs) @ drop e zs = drop s zs"
      using append_take_drop_id [of "e - s" "drop s zs"] assms(3) by (simp add: add.commute)
    then have "zs = take s zs @ take (e - s) (drop s zs) @ drop e zs" by simp
    then show ?thesis by (metis add.assoc mset_append)
  qed
  have "take s ys = take s xs" "drop e ys = drop e xs"
    using assms by (auto intro!: nth_equalityI)
  then have "mset (take (e - s) (drop s ys)) = mset (take (e - s) (drop s xs))"
    using assms(2) split [of ys] split [of xs] by simp
  then have "set (take (e - s) (drop s ys)) = set (take (e - s) (drop s xs))"
    by (rule mset_eq_setD)
  then have "set (map ((!) ys) [s..<e]) = set (map ((!) xs) [s..<e])"
    using assms(1,4) by (simp only: map_nth_range)
  then show ?thesis by simp
qed

lemma rowid_qsort_correct:
  assumes "list_all node_ok ns" and "s \<le> e" and "e < length (flat ns)" and "e < 2 ^ 31"
  shows "\<exists>ns'. rowid_qsort ns (int s) (int e - 1) = Some ns' \<and> list_all node_ok ns' \<and>
    length (flat ns') = length (flat ns) \<and> mset (flat ns') = mset (flat ns) \<and>
    (\<forall>i. i < s \<or> e \<le> i \<longrightarrow> flat ns' ! i = flat ns ! i) \<and> desc_on (flat ns') s e"
  using assms
proof (induction "e - s" arbitrary: ns s e rule: less_induct)
  case less
  let ?xs = "flat ns"
  have s: "s < length ?xs" using less.prems by simp
  note key = rowid_get_nat [OF less.prems(1) s]
  show ?case
  proof (cases "e \<le> Suc s")
    case True
    then have "rowid_qsort ns (int s) (int e - 1) = Some ns"
      using key by (subst rowid_qsort.simps) simp
    moreover have "desc_on ?xs s e" using True by (auto simp: desc_on_def)
    ultimately show ?thesis using less.prems(1) by blast
  next
    case False
    then obtain r where r: "e = Suc r" "s < r" by (cases e) auto
    have rl: "r < length ?xs" "s \<le> r" using r less.prems(3) by simp_all
    from qs_part_correct [OF less.prems(1) rl(2,1), of "?xs ! s", unfolded list_update_id]
    obtain ns1 m where m:
      "qs_part ns (?xs ! s) (int s) (int r) = Some (ns1, int m)" "s \<le> m" "m \<le> r"
      "list_all node_ok ns1" "length (flat ns1) = length ?xs"
      "mset ((flat ns1)[m := ?xs ! s]) = mset ?xs"
      "\<And>i. i < s \<or> r < i \<Longrightarrow> flat ns1 ! i = ?xs ! i"
      "\<And>i. s \<le> i \<Longrightarrow> i < m \<Longrightarrow> ?xs ! s \<le> flat ns1 ! i" "\<And>i. m < i \<Longrightarrow> i \<le> r \<Longrightarrow> flat ns1 ! i \<le> ?xs ! s"
      by blast
    have ml: "m < length ?xs" using m(3) rl by simp
    obtain ns2 where ns2: "rowid_set ns1 (int m) (?xs ! s) = Some ns2"
      "flat ns2 = (flat ns1)[m := ?xs ! s]" "list_all node_ok ns2"
      using rowid_set_flat [OF m(4), of "int m" "?xs ! s"] ml m(5) by auto
    have len2: "length (flat ns2) = length ?xs" using ns2(2) m(5) by simp
    have "m - s < e - s" "m < length (flat ns2)" "m < 2 ^ 31" using m(2,3) r ml len2 less.prems(4) by simp_all
    then obtain ns3 where ns3: "rowid_qsort ns2 (int s) (int m - 1) = Some ns3" "list_all node_ok ns3"
      "length (flat ns3) = length (flat ns2)" "mset (flat ns3) = mset (flat ns2)"
      "\<And>i. i < s \<or> m \<le> i \<Longrightarrow> flat ns3 ! i = flat ns2 ! i" "desc_on (flat ns3) s m"
      using less.hyps [OF _ ns2(3) m(2)] by blast
    have "e - Suc m < e - s" "e < length (flat ns3)" "Suc m \<le> e"
      using m(2,3) r less.prems(3) len2 ns3(3) by simp_all
    then obtain ns4 where ns4: "rowid_qsort ns3 (int (Suc m)) (int e - 1) = Some ns4" "list_all node_ok ns4"
      "length (flat ns4) = length (flat ns3)" "mset (flat ns4) = mset (flat ns3)"
      "\<And>i. i < Suc m \<or> e \<le> i \<Longrightarrow> flat ns4 ! i = flat ns3 ! i" "desc_on (flat ns4) (Suc m) e"
      using less.hyps [OF _ ns3(2)] less.prems(4) by blast
    have len: "length (flat ns3) = length ?xs" "length (flat ns4) = length ?xs" using ns3(3) ns4(3) len2 by simp_all
    have step: "add_int (int m) (- 1) = Some (int m - 1)" "add_int (int m) 1 = Some (int (Suc m))"
      using m(3) r less.prems(4) by (simp_all add: add_int_def)
    have run: "rowid_qsort ns (int s) (int e - 1) = Some ns4"
      using key r m(1) ns2(1) ns3(1) ns4(1) step by (subst rowid_qsort.simps) (simp add: add.commute)
    have ms: "mset (flat ns4) = mset ?xs" using ns4(4) ns3(4) ns2(2) m(6) by simp
    have out: "flat ns4 ! i = ?xs ! i" if "i < s \<or> e \<le> i" for i
      using that ns4(5) [of i] ns3(5) [of i] m(2,3) m(7) [of i] r unfolding ns2(2) by auto
    have pivot: "flat ns4 ! m = ?xs ! s"
      using ns4(5) [of m] ns3(5) [of m] ml m(5) unfolding ns2(2) by simp
    have lo: "?xs ! s \<le> flat ns4 ! i" if "s \<le> i" "i < m" for i
    proof -
      have "(!) (flat ns3) ` {s..<m} = (!) (flat ns2) ` {s..<m}"
        using ns3(4,5) len len2 m(2) ml by (intro range_mset) auto
      moreover have "flat ns3 ! i \<in> (!) (flat ns3) ` {s..<m}" using that by simp
      ultimately obtain j where "s \<le> j" "j < m" "flat ns3 ! i = flat ns2 ! j"
        by (metis atLeastLessThan_iff imageE)
      then show ?thesis using ns4(5) [of i] that m(8) [of j] unfolding ns2(2) by simp
    qed
    have hi: "flat ns4 ! i \<le> ?xs ! s" if "m < i" "i < e" for i
    proof -
      have "(!) (flat ns4) ` {Suc m..<e} = (!) (flat ns3) ` {Suc m..<e}"
        using ns4(4,5) len m(3) r less.prems(3) by (intro range_mset) auto
      moreover have "flat ns4 ! i \<in> (!) (flat ns4) ` {Suc m..<e}" using that by simp
      ultimately obtain j where "m < j" "j < e" "flat ns4 ! i = flat ns3 ! j"
        by (metis Suc_le_eq atLeastLessThan_iff imageE)
      then show ?thesis using ns3(5) [of j] m(9) [of j] r unfolding ns2(2) by simp
    qed
    have "desc_on (flat ns4) s e"
      unfolding desc_on_def
    proof (intro allI impI)
      fix i j
      assume ij: "s \<le> i \<and> i < j \<and> j < e"
      consider "j < m" | "i < m" "m \<le> j" | "m \<le> i" by linarith
      then show "flat ns4 ! j \<le> flat ns4 ! i"
      proof cases
        case 1
        then show ?thesis using ij ns3(6) ns4(5) [of i] ns4(5) [of j] by (auto simp: desc_on_def)
      next
        case 2
        then have "flat ns4 ! j \<le> ?xs ! s" using ij hi [of j] pivot by (cases "j = m") auto
        also have "\<dots> \<le> flat ns4 ! i" using ij 2 lo by simp
        finally show ?thesis .
      next
        case 3
        then show ?thesis using ij hi [of j] pivot ns4(6) by (cases "i = m") (auto simp: desc_on_def)
      qed
    qed
    with run ns4(2) len(2) ms out show ?thesis by blast
  qed
qed


lemma minimum_pivot_last:
  fixes xs ys :: "u32 list"
  assumes "m \<le> r" and "r < length xs" and "length ys = length xs"
    and "mset (ys[m := xs ! 0]) = mset xs" and "\<And>i. m < i \<Longrightarrow> i \<le> r \<Longrightarrow> ys ! i \<le> xs ! 0"
    and "\<And>i. 0 < i \<Longrightarrow> i < length xs \<Longrightarrow> xs ! 0 < xs ! i"
  shows "m = r"
proof (rule ccontr)
  assume "m \<noteq> r"
  let ?ys = "ys[m := xs ! 0]" and ?p = "\<lambda>x. x \<le> xs ! 0"
  have m: "Suc m \<le> r" "Suc m < length ys" using \<open>m \<noteq> r\<close> assms(1-3) by simp_all
  have "length (filter ?p ?ys) = length (filter ?p xs)"
    using assms(4) by (metis mset_filter size_mset)
  moreover have "i = 0" if "i < length xs" "xs ! i \<le> xs ! 0" for i
    using that assms(6) [of i] by (cases "i = 0") auto
  then have "{i. i < length xs \<and> ?p (xs ! i)} = {0}" using assms(2) by auto
  moreover have "{m, Suc m} \<subseteq> {i. i < length ?ys \<and> ?p (?ys ! i)}"
    using m assms(5) [of "Suc m"] by auto
  then have "card {m, Suc m} \<le> card {i. i < length ?ys \<and> ?p (?ys ! i)}"
    by (intro card_mono) simp_all
  ultimately show False by (simp add: length_filter_conv_card)
qed

section \<open>Properties\<close>

fun rowid_list_adds :: "'s rowid_list \<Rightarrow> u32 list \<Rightarrow> 's rowid_list option" where
  "rowid_list_adds l [] = Some l"
| "rowid_list_adds l (x # xs) = do { l' \<leftarrow> rowid_list_add l x; rowid_list_adds l' xs }"

text \<open>C35: adding numbers one by one appends them to the list in order, across block boundaries,
  and keeps the block structure: the list is the sequence of the numbers added.\<close>

theorem rowid_list_adds_append:
  assumes "rl_wf l" and "unat (rl_rowid_num l) + length xs < 4294967296"
  shows "\<exists>l'. rowid_list_adds l xs = Some l' \<and> rl_wf l' \<and> rl_ids l' = rl_ids l @ xs"
  using assms
proof (induction xs arbitrary: l)
  case Nil
  then show ?case by simp
next
  case (Cons x xs)
  then have "unat (rl_rowid_num l) + 1 < 4294967296" by simp
  from rowid_list_add_ids [OF Cons.prems(1) this] obtain l1 where l1:
    "rowid_list_add l x = Some l1" "rl_wf l1" "rl_ids l1 = rl_ids l @ [x]" by blast
  have "rl_ok l" "rl_ok l1" using Cons.prems(1) l1(2) by (simp_all add: rl_wf_def)
  then have "unat (rl_rowid_num l1) = Suc (unat (rl_rowid_num l))"
    using l1(3) length_rl_ids [of l] length_rl_ids [of l1] by simp
  then obtain l' where "rowid_list_adds l1 xs = Some l'" "rl_wf l'" "rl_ids l' = rl_ids l1 @ xs"
    using Cons.IH [OF l1(2)] Cons.prems(2) by auto
  with l1 show ?case by simp
qed

theorem rowid_list_adds_append_witness:
  "\<exists>l'. rowid_list_adds (rowid_list_init :: nat rowid_list) [9, 7, 4] = Some l' \<and> rl_wf l' \<and>
    rl_ids l' = [9, 7, 4]"
  using rowid_list_adds_append [OF rl_wf_init(1), where ?'a = nat and xs = "[9, 7, 4]"]
  unfolding rl_wf_init(2) by (simp add: rowid_list_init_def [THEN arg_cong, of rl_rowid_num])

text \<open>\<^verbatim>\<open>rowid_list_for_each\<close> applies the visitor to every number of the list, in order, until
  it fails or the deadline has passed at a multiple of a hundred entries.\<close>

theorem rowid_list_for_each_visits:
  assumes "rl_ok l"
  shows "rowid_list_for_each (Some l) func late u = Some (visit func late 0 (rl_ids l) u)"
  using for_each_loop_visit [OF assms, of 0 func late u] by simp

definition block_of :: "u32 list \<Rightarrow> 's rowid_list_node" where
  "block_of xs = blank_node\<lparr>rn_rowid_array := xs @ replicate (ROWID_ARRAY_SIZE - length xs) 0\<rparr>"

lemma block_of_ok [simp]: "length xs \<le> ROWID_ARRAY_SIZE \<Longrightarrow> node_ok (block_of xs)"
  by (simp add: block_of_def node_ok_def blank_node_def)

lemma rn_block_of [simp]:
  "rn_rowid_array (block_of xs) = xs @ replicate (ROWID_ARRAY_SIZE - length xs) 0"
  by (simp add: block_of_def)

theorem rowid_list_for_each_visits_witness:
  "rowid_list_for_each (Some \<lparr>rl_rowid_num = 2, rl_nodes = [block_of [9, 4] :: nat rowid_list_node],
      rl_tail = Some 0\<rparr>) (\<lambda>x u. (0, u @ [x])) (\<lambda>_. False) [] = Some (0, [9, 4])"
  using rowid_list_for_each_visits [of "\<lparr>rl_rowid_num = 2,
      rl_nodes = [block_of [9, 4] :: nat rowid_list_node], rl_tail = Some 0\<rparr>"
      "\<lambda>x u. (0, u @ [x])" "\<lambda>_. False" "[]"]
  by (simp add: rl_ok_def rl_ids_def)

text \<open>\<^verbatim>\<open>rowid_list_equals\<close> compares all entries except the first entry of the last block, when
  there is more than one block: two lists of 257 numbers that differ in the last one are
  reported equal.\<close>

theorem rowid_list_equals_skips_one_entry:
  assumes "rl_wf a" and "rl_wf b" and "rl_rowid_num a = rl_rowid_num b"
    and "n = unat (rl_rowid_num a)"
  shows "rowid_list_equals (Some a) (Some b) =
    Some (if \<forall>i < n. (n \<le> ROWID_ARRAY_SIZE \<or> i \<noteq> ROWID_ARRAY_SIZE * ((n - 1) div ROWID_ARRAY_SIZE)) \<longrightarrow>
               rl_ids a ! i = rl_ids b ! i
          then 1 else 0)"
proof -
  have ok: "rl_ok a" "rl_ok b" using assms(1,2) by (simp_all add: rl_wf_def)
  let ?P = "\<lambda>i. rl_ids a ! i = rl_ids b ! i" and ?t = "(n - 1) div 256"
  have loop: "equals_loop a b 0 0 0 0 = Some (if \<forall>j < n. ?P (eq_pos j) then Some (?t, ?t) else None)"
    using equals_loop_result [OF ok assms(3,4), of 0] by simp
  have tails: "block_ptr (rl_nodes l) ?t = rl_tail l" if "rl_wf l" "unat (rl_rowid_num l) = n" for l :: "'a rowid_list"
    using rl_wf_tail [OF that(1)] that(2) by simp
  have "rowid_list_equals (Some a) (Some b) = Some (if \<forall>j < n. ?P (eq_pos j) then 1 else 0)"
    using loop tails [OF assms(1)] tails [OF assms(2)] assms(3,4) by simp
  then show ?thesis unfolding all_eq_pos [of n ?P] .
qed


definition long_list :: "u32 \<Rightarrow> nat rowid_list" where
  "long_list x = \<lparr>rl_rowid_num = 257, rl_nodes = [block_of [], block_of [x]], rl_tail = Some 1\<rparr>"

lemma long_list_wf: "rl_wf (long_list x)" "rl_rowid_num (long_list x) = 257"
  by (simp_all add: rl_wf_def rl_ok_def long_list_def)

theorem rowid_list_equals_skips_one_entry_witness:
  "rowid_list_equals (Some (long_list 5)) (Some (long_list 6)) = Some 1 \<and>
    rl_ids (long_list 5) ! 256 \<noteq> rl_ids (long_list 6) ! 256"
proof
  have zero: "rl_ids (long_list x) ! i = 0" if "i < 256" for x i
    using that by (simp add: rl_ids_def long_list_def nth_append)
  have "\<forall>i < 257. (257 \<le> (256 :: nat) \<or> i \<noteq> 256 * ((257 - 1) div 256)) \<longrightarrow>
      rl_ids (long_list 5) ! i = rl_ids (long_list 6) ! i"
  proof (intro allI impI)
    fix i :: nat
    assume "i < 257" and "257 \<le> (256 :: nat) \<or> i \<noteq> 256 * ((257 - 1) div 256)"
    then have "i < 256" by simp
    then show "rl_ids (long_list 5) ! i = rl_ids (long_list 6) ! i" by (simp add: zero)
  qed
  then show "rowid_list_equals (Some (long_list 5)) (Some (long_list 6)) = Some 1"
    using rowid_list_equals_skips_one_entry [OF long_list_wf(1) long_list_wf(1), of 5 6 257]
    by (simp only: long_list_wf(2)) simp
  show "rl_ids (long_list 5) ! 256 \<noteq> rl_ids (long_list 6) ! 256"
    by (simp add: rl_ids_def long_list_def nth_append)
qed

text \<open>The key is read before the range is tested, so sorting a chain that is filled to its
  last entry reads past the chain whenever the pivot ends up last, as it does when the first
  number is the smallest.\<close>

lemma rowid_qsort_reads_past_full_chain:
  assumes "list_all node_ok ns" and "n = length (flat ns)" and "ns \<noteq> []" and "n < 2 ^ 31"
    and "\<And>i. 0 < i \<Longrightarrow> i < n \<Longrightarrow> flat ns ! 0 < flat ns ! i"
  shows "rowid_qsort ns 0 (int n - 1) = None"
proof -
  let ?xs = "flat ns"
  have "0 < length ns" using assms(3) by simp
  then have "256 \<le> n" using length_flat [OF assms(1)] assms(2) by linarith
  then obtain r where r: "n = Suc r" "0 < r" by (cases n) auto
  have rl: "r < length ?xs" using r assms(2) by simp
  from qs_part_correct [OF assms(1) le0 rl, of "?xs ! 0", unfolded list_update_id]
  obtain ns1 m where m: "qs_part ns (?xs ! 0) 0 (int r) = Some (ns1, int m)" "m \<le> r"
    "list_all node_ok ns1" "length (flat ns1) = length ?xs" "mset ((flat ns1)[m := ?xs ! 0]) = mset ?xs"
    "\<And>i. m < i \<Longrightarrow> i \<le> r \<Longrightarrow> flat ns1 ! i \<le> ?xs ! 0" by auto
  have mr: "m = r" using minimum_pivot_last [OF m(2) rl m(4,5,6)] assms(2,5) by simp
  obtain ns2 where ns2: "rowid_set ns1 (int r) (?xs ! 0) = Some ns2"
    "flat ns2 = (flat ns1)[r := ?xs ! 0]" "list_all node_ok ns2"
    using rowid_set_flat [OF m(3), of "int r" "?xs ! 0"] rl m(4) by auto
  have "r < length (flat ns2)" using ns2(2) m(4) rl by simp
  moreover have r31: "r < 2 ^ 31" using r assms(4) by simp
  ultimately obtain ns3 where
    ns3: "rowid_qsort ns2 0 (int r - 1) = Some ns3" "list_all node_ok ns3"
      "length (flat ns3) = length (flat ns2)" using rowid_qsort_correct [OF ns2(3) le0] by auto
  have "n = 256 * length ns3"
    using assms(2) ns3(2,3) ns2(2) m(4) by (simp add: length_flat)
  then have "rowid_get ns3 (int n) = None"
    by (simp add: rowid_get_def block_get_def rd_def)
  then have "rowid_qsort ns3 (int r + 1) (int r) = None"
    using r by (subst rowid_qsort.simps) (simp add: add.commute)
  moreover have "0 < length ?xs" using rl by linarith
  then have "rowid_get ns 0 = Some (?xs ! 0)" using rowid_get_nat [OF assms(1), of 0] by simp
  ultimately show ?thesis
    using r m(1) mr ns2(1) ns3(1) r31 by (subst rowid_qsort.simps) (auto simp: add_int_def)
qed

text \<open>C22: For a range of fewer than 2147483648 numbers from the start of a chain: if at least one entry
  of the chain behind the range is unused, the block quicksort returns, keeps the multiset of the
  numbers and everything behind the range, and leaves the range in descending order.  If
  the range is the whole chain, filled to its last entry, and its first number is the
  smallest, the sort reads behind the chain, which is undefined.\<close>

theorem rowid_qsort_sorts:
  assumes "list_all node_ok ns" and "n < 2 ^ 31"
  shows "(n < length (flat ns) \<longrightarrow>
      (\<exists>ns'. rowid_qsort ns 0 (int n - 1) = Some ns' \<and> mset (flat ns') = mset (flat ns) \<and>
        drop n (flat ns') = drop n (flat ns) \<and> sorted_wrt (\<ge>) (take n (flat ns')))) \<and>
    (n = length (flat ns) \<and> ns \<noteq> [] \<and> (\<forall>i. 0 < i \<and> i < n \<longrightarrow> flat ns ! 0 < flat ns ! i) \<longrightarrow>
      rowid_qsort ns 0 (int n - 1) = None)"
proof (intro conjI impI)
  assume n: "n < length (flat ns)"
  from rowid_qsort_correct [OF assms(1) le0 n assms(2)] obtain ns' where ns':
    "rowid_qsort ns 0 (int n - 1) = Some ns'" "length (flat ns') = length (flat ns)"
    "mset (flat ns') = mset (flat ns)" "\<And>i. n \<le> i \<Longrightarrow> flat ns' ! i = flat ns ! i"
    "desc_on (flat ns') 0 n" by auto
  have "drop n (flat ns') = drop n (flat ns)" using ns'(2,4) by (intro nth_equalityI) auto
  moreover have "sorted_wrt (\<ge>) (take n (flat ns'))"
    using ns'(2,5) n by (auto simp: sorted_wrt_iff_nth_less desc_on_def)
  ultimately show "\<exists>ns'. rowid_qsort ns 0 (int n - 1) = Some ns' \<and> mset (flat ns') = mset (flat ns) \<and>
      drop n (flat ns') = drop n (flat ns) \<and> sorted_wrt (\<ge>) (take n (flat ns'))" using ns'(1,3) by blast
next
  assume h: "n = length (flat ns) \<and> ns \<noteq> [] \<and> (\<forall>i. 0 < i \<and> i < n \<longrightarrow> flat ns ! 0 < flat ns ! i)"
  show "rowid_qsort ns 0 (int n - 1) = None"
    by (rule rowid_qsort_reads_past_full_chain [OF assms(1) _ _ assms(2)]) (use h in blast)+
qed

theorem rowid_qsort_sorts_witness:
  "(\<exists>ns'. rowid_qsort [block_of [4, 9, 7] :: nat rowid_list_node] 0 2 = Some ns' \<and> sorted_wrt (\<ge>) (take 3 (flat ns'))) \<and>
   rowid_qsort [block_of (1 # replicate 255 7) :: nat rowid_list_node] 0 255 = None"
proof (intro conjI)
  show "\<exists>ns'. rowid_qsort [block_of [4, 9, 7] :: nat rowid_list_node] 0 2 = Some ns' \<and> sorted_wrt (\<ge>) (take 3 (flat ns'))"
    using rowid_qsort_sorts [of "[block_of [4, 9, 7] :: nat rowid_list_node]" 3] by auto
  let ?ns = "[block_of (1 # replicate 255 7) :: nat rowid_list_node]"
  have fl: "flat ?ns = 1 # replicate 255 7" by simp
  have "flat ?ns ! 0 < flat ?ns ! i" if "0 < i" "i < 256" for i
    unfolding fl using that by (cases i) simp_all
  then have min: "\<forall>i. 0 < i \<and> i < 256 \<longrightarrow> flat ?ns ! 0 < flat ?ns ! i" by blast
  have ok: "list_all node_ok ?ns" and len: "256 = length (flat ?ns)" and ne: "?ns \<noteq> []" and lt: "(256 :: nat) < 2 ^ 31"
    unfolding fl by simp_all
  have "rowid_qsort ?ns 0 (int 256 - 1) = None"
    by (rule rowid_qsort_sorts [THEN conjunct2, THEN mp, OF ok lt conjI [OF len conjI [OF ne min]]])
  then show "rowid_qsort ?ns 0 255 = None" by simp
qed

end
