(* ===== verification/Set_Operator.thy ===== *)
theory Set_Operator
  imports Rowid_List
begin

text \<open>
  Set operations on descending document-number lists, \<^verbatim>\<open>storage/docdb/set_operator.c\<close>:
  union, intersection, difference and the full-text combination of two lists, block by block
  with their scores, and the same operations on a list of segments.  Union and intersection
  build new blocks: \<open>rs\<close> are the finished blocks and \<open>r\<close> the one being filled.  Difference
  and the full-text combination write into the first list's own blocks, which the two lists
  do not share.
\<close>

section \<open>Writing entries into the block under construction\<close>

definition score_slot :: "'s::zero rowid_list_node \<Rightarrow> 's list" where
  "score_slot r = (case rn_score_array r of None \<Rightarrow> replicate ROWID_ARRAY_SIZE 0 | Some sc \<Rightarrow> sc)"

definition copy_entry ::
    "'s::zero rowid_list_node \<Rightarrow> nat \<Rightarrow> 's rowid_list_node \<Rightarrow> nat \<Rightarrow> 's rowid_list_node option" where
  "copy_entry r k p i = do {
     x \<leftarrow> rd (rn_rowid_array p) (i mod ROWID_ARRAY_SIZE);
     xs \<leftarrow> wr (rn_rowid_array r) (k mod ROWID_ARRAY_SIZE) x;
     let r1 = r\<lparr>rn_rowid_array := xs\<rparr>;
     case rn_score_array p of
       None \<Rightarrow> Some r1
     | Some sc \<Rightarrow> do {
         v \<leftarrow> rd sc (i mod ROWID_ARRAY_SIZE);
         sc' \<leftarrow> wr (score_slot r1) (k mod ROWID_ARRAY_SIZE) v;
         Some (r1\<lparr>rn_score_array := Some sc'\<rparr>)
       }
   }"

definition add_score :: "'s::plus list \<Rightarrow> nat \<Rightarrow> 's rowid_list_node \<Rightarrow> nat \<Rightarrow> 's list option" where
  "add_score slot k p i =
     (case rn_score_array p of
        None \<Rightarrow> Some slot
      | Some sc \<Rightarrow> do {
          v \<leftarrow> rd sc (i mod ROWID_ARRAY_SIZE);
          old \<leftarrow> rd slot (k mod ROWID_ARRAY_SIZE);
          wr slot (k mod ROWID_ARRAY_SIZE) (old + v)
        })"

definition merge_entry ::
    "'s::{zero,plus} rowid_list_node \<Rightarrow> nat \<Rightarrow> 's rowid_list_node \<Rightarrow> nat \<Rightarrow> 's rowid_list_node \<Rightarrow> nat \<Rightarrow>
       's rowid_list_node option" where
  "merge_entry r k p i q j = do {
     x \<leftarrow> rd (rn_rowid_array p) (i mod ROWID_ARRAY_SIZE);
     xs \<leftarrow> wr (rn_rowid_array r) (k mod ROWID_ARRAY_SIZE) x;
     let r1 = r\<lparr>rn_rowid_array := xs\<rparr>;
     if rn_score_array p \<noteq> None \<or> rn_score_array q \<noteq> None
     then do {
       sc1 \<leftarrow> add_score (score_slot r1) k p i;
       sc2 \<leftarrow> add_score sc1 k q j;
       Some (r1\<lparr>rn_score_array := Some sc2\<rparr>)
     }
     else Some r1
   }"

text \<open>A full block is followed by a fresh one at once, also behind the last entry.\<close>

definition roll ::
    "'s rowid_list_node list \<Rightarrow> 's rowid_list_node \<Rightarrow> nat \<Rightarrow>
       's rowid_list_node list \<times> 's rowid_list_node" where
  "roll rs r k = (if k mod ROWID_ARRAY_SIZE = 0 then (rs @ [r], blank_node) else (rs, r))"

section \<open>Union\<close>

function union_loop ::
    "'s::{zero,plus} rowid_list \<Rightarrow> 's rowid_list \<Rightarrow> nat \<Rightarrow> nat \<Rightarrow> nat \<Rightarrow> nat \<Rightarrow>
       's rowid_list_node list \<Rightarrow> 's rowid_list_node \<Rightarrow> nat \<Rightarrow>
       (nat \<times> nat \<times> nat \<times> nat \<times> 's rowid_list_node list \<times> 's rowid_list_node \<times> nat) option" where
  "union_loop a b p i q j rs r k =
     (if i < unat (rl_rowid_num a) \<and> j < unat (rl_rowid_num b)
      then do {
        pn \<leftarrow> rd (rl_nodes a) p;
        qn \<leftarrow> rd (rl_nodes b) q;
        x \<leftarrow> rd (rn_rowid_array pn) (i mod ROWID_ARRAY_SIZE);
        y \<leftarrow> rd (rn_rowid_array qn) (j mod ROWID_ARRAY_SIZE);
        if x > y
        then do {
          r' \<leftarrow> copy_entry r k pn i;
          let (rs', r'') = roll rs r' (Suc k);
          union_loop a b (next_block (Suc i) p) (Suc i) q j rs' r'' (Suc k)
        }
        else if x < y
        then do {
          r' \<leftarrow> copy_entry r k qn j;
          let (rs', r'') = roll rs r' (Suc k);
          union_loop a b p i (next_block (Suc j) q) (Suc j) rs' r'' (Suc k)
        }
        else do {
          r' \<leftarrow> merge_entry r k pn i qn j;
          let (rs', r'') = roll rs r' (Suc k);
          union_loop a b (next_block (Suc i) p) (Suc i) (next_block (Suc j) q) (Suc j) rs' r'' (Suc k)
        }
      }
      else Some (p, i, q, j, rs, r, k))"
  by pat_completeness auto
termination
  by (relation "measure (\<lambda>(a, b, p, i, q, j, rs, r, k).
      (unat (rl_rowid_num a) - i) + (unat (rl_rowid_num b) - j))") auto

function rest_loop ::
    "'s::zero rowid_list \<Rightarrow> nat \<Rightarrow> nat \<Rightarrow> 's rowid_list_node list \<Rightarrow> 's rowid_list_node \<Rightarrow> nat \<Rightarrow>
       ('s rowid_list_node list \<times> 's rowid_list_node \<times> nat) option" where
  "rest_loop l q j rs r k =
     (if j < unat (rl_rowid_num l)
      then do {
        qn \<leftarrow> rd (rl_nodes l) q;
        r' \<leftarrow> copy_entry r k qn j;
        let (rs', r'') = roll rs r' (Suc k);
        rest_loop l (next_block (Suc j) q) (Suc j) rs' r'' (Suc k)
      }
      else Some (rs, r, k))"
  by pat_completeness auto
termination
  by (relation "measure (\<lambda>(l, q, j, rs, r, k). unat (rl_rowid_num l) - j)") auto

declare union_loop.simps [simp del] rest_loop.simps [simp del]

definition rl_empty :: "'s rowid_list option \<Rightarrow> bool" where
  "rl_empty l = (case l of None \<Rightarrow> True | Some l \<Rightarrow> rl_rowid_num l = 0)"

definition rowid_union ::
    "'s::{zero,plus} rowid_list option \<Rightarrow> 's rowid_list option \<Rightarrow> 's rowid_list option option" where
  "rowid_union lista listb =
     (if rl_empty lista then Some listb
      else if rl_empty listb then Some lista
      else do {
        a \<leftarrow> lista;
        b \<leftarrow> listb;
        (p, i, q, j, rs, r, k) \<leftarrow> union_loop a b 0 0 0 0 [] blank_node 0;
        (rs', r', k') \<leftarrow> (if j = unat (rl_rowid_num b) then rest_loop a p i rs r k
                         else rest_loop b q j rs r k);
        Some (Some \<lparr>rl_rowid_num = word_of_nat k', rl_nodes = rs' @ [r'], rl_tail = Some (length rs')\<rparr>)
      })"

section \<open>Intersection\<close>

function intersection_loop ::
    "'s::{zero,plus} rowid_list \<Rightarrow> 's rowid_list \<Rightarrow> nat \<Rightarrow> nat \<Rightarrow> nat \<Rightarrow> nat \<Rightarrow>
       's rowid_list_node list \<Rightarrow> 's rowid_list_node \<Rightarrow> nat \<Rightarrow>
       ('s rowid_list_node list \<times> 's rowid_list_node \<times> nat) option" where
  "intersection_loop a b p i q j rs r k =
     (if i < unat (rl_rowid_num a) \<and> j < unat (rl_rowid_num b)
      then do {
        pn \<leftarrow> rd (rl_nodes a) p;
        qn \<leftarrow> rd (rl_nodes b) q;
        x \<leftarrow> rd (rn_rowid_array pn) (i mod ROWID_ARRAY_SIZE);
        y \<leftarrow> rd (rn_rowid_array qn) (j mod ROWID_ARRAY_SIZE);
        if x > y then intersection_loop a b (next_block (Suc i) p) (Suc i) q j rs r k
        else if x < y then intersection_loop a b p i (next_block (Suc j) q) (Suc j) rs r k
        else do {
          r' \<leftarrow> merge_entry r k pn i qn j;
          let (rs', r'') = roll rs r' (Suc k);
          intersection_loop a b (next_block (Suc i) p) (Suc i) (next_block (Suc j) q) (Suc j) rs' r'' (Suc k)
        }
      }
      else Some (rs, r, k))"
  by pat_completeness auto
termination
  by (relation "measure (\<lambda>(a, b, p, i, q, j, rs, r, k).
      (unat (rl_rowid_num a) - i) + (unat (rl_rowid_num b) - j))") auto

declare intersection_loop.simps [simp del]

definition clear_list :: "'s rowid_list \<Rightarrow> 's rowid_list" where
  "clear_list l = l\<lparr>rl_rowid_num := 0, rl_nodes := [], rl_tail := None\<rparr>"

definition rowid_intersection ::
    "'s::{zero,plus} rowid_list option \<Rightarrow> 's rowid_list option \<Rightarrow> 's rowid_list option option" where
  "rowid_intersection lista listb =
     (if rl_empty lista then Some lista
      else if rl_empty listb then Some listb
      else do {
        a \<leftarrow> lista;
        b \<leftarrow> listb;
        (rs, r, k) \<leftarrow> intersection_loop a b 0 0 0 0 [] blank_node 0;
        if k = 0 then Some (Some (clear_list a))
        else Some (Some \<lparr>rl_rowid_num = word_of_nat k, rl_nodes = rs @ [r], rl_tail = Some (length rs)\<rparr>)
      })"

section \<open>Difference\<close>

function minus_loop ::
    "nat \<Rightarrow> 's rowid_list \<Rightarrow> 's rowid_list_node list \<Rightarrow> nat \<Rightarrow> nat \<Rightarrow> nat \<Rightarrow> nat \<Rightarrow> nat \<Rightarrow> nat option \<Rightarrow> nat \<Rightarrow>
       ('s rowid_list_node list \<times> nat \<times> nat \<times> nat \<times> nat option \<times> nat) option" where
  "minus_loop n b ns p i q j result pre k =
     (if i < n \<and> j < unat (rl_rowid_num b)
      then do {
        x \<leftarrow> block_get ns p i;
        y \<leftarrow> block_get (rl_nodes b) q j;
        if x > y
        then do {
          ns' \<leftarrow> block_set ns result k x;
          minus_loop n b ns' (next_block (Suc i) p) (Suc i) q j (next_block (Suc k) result)
            (if Suc k mod ROWID_ARRAY_SIZE = 0 then Some result else pre) (Suc k)
        }
        else if x < y
        then minus_loop n b ns p i (next_block (Suc j) q) (Suc j) result pre k
        else minus_loop n b ns (next_block (Suc i) p) (Suc i) (next_block (Suc j) q) (Suc j) result pre k
      }
      else Some (ns, p, i, result, pre, k))"
  by pat_completeness auto
termination
  by (relation "measure (\<lambda>(n, b, ns, p, i, q, j, result, pre, k). (n - i) + (unat (rl_rowid_num b) - j))") auto

function minus_rest_loop ::
    "nat \<Rightarrow> 's rowid_list_node list \<Rightarrow> nat \<Rightarrow> nat \<Rightarrow> nat \<Rightarrow> nat option \<Rightarrow> nat \<Rightarrow>
       ('s rowid_list_node list \<times> nat \<times> nat option \<times> nat) option" where
  "minus_rest_loop n ns p i result pre k =
     (if i < n
      then do {
        x \<leftarrow> block_get ns p i;
        ns' \<leftarrow> block_set ns result k x;
        minus_rest_loop n ns' (next_block (Suc i) p) (Suc i) (next_block (Suc k) result)
          (if Suc k mod ROWID_ARRAY_SIZE = 0 then Some result else pre) (Suc k)
      }
      else Some (ns, result, pre, k))"
  by pat_completeness auto
termination
  by (relation "measure (\<lambda>(n, ns, p, i, result, pre, k). n - i)") auto

declare minus_loop.simps [simp del] minus_rest_loop.simps [simp del]

definition rowid_minus ::
    "'s rowid_list option \<Rightarrow> 's rowid_list option \<Rightarrow> 's rowid_list option option" where
  "rowid_minus lista listb =
     (if rl_empty lista \<or> rl_empty listb then Some lista
      else do {
        a \<leftarrow> lista;
        b \<leftarrow> listb;
        (ns, p, i, result, pre, k) \<leftarrow>
          minus_loop (unat (rl_rowid_num a)) b (rl_nodes a) 0 0 0 0 0 None 0;
        (ns', result', pre', k') \<leftarrow> minus_rest_loop (unat (rl_rowid_num a)) ns p i result pre k;
        if k' = 0 then Some (Some (clear_list a))
        else do {
          t \<leftarrow> (if k' mod ROWID_ARRAY_SIZE = 0 then pre' else Some result');
          n \<leftarrow> rd ns' t;
          Some (Some (a\<lparr>rl_nodes := take (Suc t) ns', rl_rowid_num := word_of_nat k', rl_tail := Some t\<rparr>))
        }
      })"


section \<open>Full-text combination\<close>

definition score_get :: "'s rowid_list_node list \<Rightarrow> nat \<Rightarrow> nat \<Rightarrow> 's option" where
  "score_get ns p i = do { n \<leftarrow> rd ns p; sc \<leftarrow> rn_score_array n; rd sc (i mod ROWID_ARRAY_SIZE) }"

definition score_set ::
    "'s rowid_list_node list \<Rightarrow> nat \<Rightarrow> nat \<Rightarrow> 's \<Rightarrow> 's rowid_list_node list option" where
  "score_set ns p i v = do {
     n \<leftarrow> rd ns p;
     sc \<leftarrow> rn_score_array n;
     sc' \<leftarrow> wr sc (i mod ROWID_ARRAY_SIZE) v;
     wr ns p (n\<lparr>rn_score_array := Some sc'\<rparr>)
   }"

function hence_loop ::
    "nat \<Rightarrow> 's::plus rowid_list \<Rightarrow> 's rowid_list_node list \<Rightarrow> nat \<Rightarrow> nat \<Rightarrow> nat \<Rightarrow> nat \<Rightarrow> nat \<Rightarrow> nat \<Rightarrow>
       ('s rowid_list_node list \<times> nat \<times> nat) option" where
  "hence_loop n b ns p i q j r k =
     (if i < n \<and> j < unat (rl_rowid_num b)
      then do {
        x \<leftarrow> block_get ns p i;
        y \<leftarrow> block_get (rl_nodes b) q j;
        if x > y
        then do {
          ns1 \<leftarrow> block_set ns r k x;
          s \<leftarrow> score_get ns1 p i;
          ns2 \<leftarrow> score_set ns1 r k s;
          hence_loop n b ns2 (next_block (Suc i) p) (Suc i) q j (next_block (Suc k) r) (Suc k)
        }
        else if x < y
        then hence_loop n b ns p i (next_block (Suc j) q) (Suc j) r k
        else do {
          ns1 \<leftarrow> block_set ns r k x;
          s \<leftarrow> score_get ns1 p i;
          t \<leftarrow> score_get (rl_nodes b) q j;
          ns2 \<leftarrow> score_set ns1 r k (s + t);
          hence_loop n b ns2 (next_block (Suc i) p) (Suc i) (next_block (Suc j) q) (Suc j)
            (next_block (Suc k) r) (Suc k)
        }
      }
      else Some (ns, r, k))"
  by pat_completeness auto
termination
  by (relation "measure (\<lambda>(n, b, ns, p, i, q, j, r, k). (n - i) + (unat (rl_rowid_num b) - j))") auto

declare hence_loop.simps [simp del]

definition rowid_fulltext_hence ::
    "'s::plus rowid_list option \<Rightarrow> 's rowid_list option \<Rightarrow> 's rowid_list option option" where
  "rowid_fulltext_hence lista listb =
     (if rl_empty lista then Some lista
      else if rl_empty listb then Some lista
      else do {
        a \<leftarrow> lista;
        b \<leftarrow> listb;
        (ns, r, k) \<leftarrow> hence_loop (unat (rl_rowid_num a)) b (rl_nodes a) 0 0 0 0 0 0;
        if k = 0 then Some (Some (clear_list a))
        else Some (Some (a\<lparr>rl_nodes := ns, rl_rowid_num := word_of_nat k, rl_tail := block_ptr ns r\<rparr>))
      })"

section \<open>Scores\<close>

function setscore_loop ::
    "nat \<Rightarrow> 's::zero \<Rightarrow> 's rowid_list_node list \<Rightarrow> nat \<Rightarrow> nat \<Rightarrow> 's rowid_list_node list option" where
  "setscore_loop n score ns p i =
     (if i < n
      then do {
        nd \<leftarrow> rd ns p;
        sc \<leftarrow> wr (score_slot nd) (i mod ROWID_ARRAY_SIZE) score;
        ns' \<leftarrow> wr ns p (nd\<lparr>rn_score_array := Some sc\<rparr>);
        setscore_loop n score ns' (next_block (Suc i) p) (Suc i)
      }
      else Some ns)"
  by pat_completeness auto
termination
  by (relation "measure (\<lambda>(n, score, ns, p, i). n - i)") auto

declare setscore_loop.simps [simp del]

definition rowid_list_setscore ::
    "'s::zero rowid_list option \<Rightarrow> 's \<Rightarrow> 's rowid_list option option" where
  "rowid_list_setscore id_list score =
     (case id_list of
        None \<Rightarrow> Some None
      | Some l \<Rightarrow> do {
          ns \<leftarrow> setscore_loop (unat (rl_rowid_num l)) score (rl_nodes l) 0 0;
          Some (Some (l\<lparr>rl_nodes := ns\<rparr>))
        })"

section \<open>Segments\<close>

record 's segment_query_rowids =
  sq_sid :: u16
  sq_max_docid :: u32
  sq_rowids :: "'s rowid_list option"

text \<open>The loop the four operations share.  The new element's \<^verbatim>\<open>max_docid\<close> stays zero, the walk
  ends with the shorter list, and the inner \<^term>\<open>None\<close> is the NULL result for segments that
  do not match.\<close>

fun seg_zip_loop ::
    "('s rowid_list option \<Rightarrow> 's rowid_list option \<Rightarrow> 's rowid_list option option) \<Rightarrow>
       's segment_query_rowids list \<Rightarrow> 's segment_query_rowids list \<Rightarrow> 's segment_query_rowids list \<Rightarrow>
       's segment_query_rowids list option option" where
  "seg_zip_loop f (qa # as) (qb # bs) rlist =
     (if sq_sid qa \<noteq> sq_sid qb then Some None
      else do {
        l \<leftarrow> f (sq_rowids qa) (sq_rowids qb);
        seg_zip_loop f as bs (rlist @ [\<lparr>sq_sid = sq_sid qa, sq_max_docid = 0, sq_rowids = l\<rparr>])
      })"
| "seg_zip_loop f _ _ rlist = Some (Some rlist)"

definition seg_rowid_union ::
    "'s::{zero,plus} segment_query_rowids list option \<Rightarrow> 's segment_query_rowids list option \<Rightarrow>
       's segment_query_rowids list option option" where
  "seg_rowid_union lista listb =
     (case (lista, listb) of
        (Some as, Some bs) \<Rightarrow> seg_zip_loop rowid_union as bs []
      | _ \<Rightarrow> Some None)"

definition seg_rowid_intersection ::
    "'s::{zero,plus} segment_query_rowids list option \<Rightarrow> 's segment_query_rowids list option \<Rightarrow>
       's segment_query_rowids list option option" where
  "seg_rowid_intersection lista listb =
     (case (lista, listb) of
        (Some as, Some bs) \<Rightarrow> seg_zip_loop rowid_intersection as bs []
      | _ \<Rightarrow> Some None)"

definition seg_rowid_minus ::
    "'s segment_query_rowids list option \<Rightarrow> 's segment_query_rowids list option \<Rightarrow>
       's segment_query_rowids list option option" where
  "seg_rowid_minus lista listb =
     (case (lista, listb) of
        (Some as, Some bs) \<Rightarrow> seg_zip_loop rowid_minus as bs []
      | _ \<Rightarrow> Some None)"

definition seg_rowid_fulltext_hence ::
    "'s::plus segment_query_rowids list option \<Rightarrow> 's segment_query_rowids list option \<Rightarrow>
       's segment_query_rowids list option option" where
  "seg_rowid_fulltext_hence lista listb =
     (case (lista, listb) of
        (Some as, Some bs) \<Rightarrow> seg_zip_loop rowid_fulltext_hence as bs []
      | _ \<Rightarrow> Some None)"

text \<open>The count is kept in an \<^verbatim>\<open>int32_t\<close>.\<close>

fun seg_count_loop :: "'s segment_query_rowids list \<Rightarrow> u32 \<Rightarrow> u32" where
  "seg_count_loop [] c = c"
| "seg_count_loop (q # qs) c =
     seg_count_loop qs (case sq_rowids q of None \<Rightarrow> c | Some l \<Rightarrow> c + rl_rowid_num l)"

definition seg_rowid_count :: "'s segment_query_rowids list option \<Rightarrow> int" where
  "seg_rowid_count seglist = (case seglist of None \<Rightarrow> 0 | Some qs \<Rightarrow> sint (seg_count_loop qs 0))"

fun seg_setscore_loop ::
    "'s::zero segment_query_rowids list \<Rightarrow> 's \<Rightarrow> 's segment_query_rowids list option" where
  "seg_setscore_loop [] score = Some []"
| "seg_setscore_loop (q # qs) score = do {
     l \<leftarrow> rowid_list_setscore (sq_rowids q) score;
     qs' \<leftarrow> seg_setscore_loop qs score;
     Some (q\<lparr>sq_rowids := l\<rparr> # qs')
   }"

definition seg_rowid_setscore ::
    "'s::zero segment_query_rowids list option \<Rightarrow> 's \<Rightarrow> 's segment_query_rowids list option option" where
  "seg_rowid_setscore seglist score =
     (case seglist of None \<Rightarrow> Some None | Some qs \<Rightarrow> map_option Some (seg_setscore_loop qs score))"

end
