(* ===== verification/Set_Laws.thy ===== *)
theory Set_Laws
  imports Set_Operator
begin

text \<open>
  Correctness of the set operations of \<open>Set_Operator\<close>: on strictly descending lists the
  block-wise loops compute the set union, intersection and difference, again strictly
  descending, with the scores combined entry by entry; and the segment-wise operations do so
  per segment.
\<close>

section \<open>Blocks as lists of scored numbers\<close>

definition node_view :: "'s::zero rowid_list_node \<Rightarrow> (u32 \<times> 's) list" where
  "node_view n = zip (rn_rowid_array n) (score_slot n)"

definition view :: "'s::zero rowid_list_node list \<Rightarrow> (u32 \<times> 's) list" where
  "view ns = concat (map node_view ns)"

definition rl_view :: "'s::zero rowid_list \<Rightarrow> (u32 \<times> 's) list" where
  "rl_view l = take (unat (rl_rowid_num l)) (view (rl_nodes l))"

lemma length_score_slot: "node_ok n \<Longrightarrow> length (score_slot n) = ROWID_ARRAY_SIZE"
  by (auto simp: node_ok_def score_slot_def split: option.splits)

lemma length_node_view: "node_ok n \<Longrightarrow> length (node_view n) = ROWID_ARRAY_SIZE"
  by (simp add: node_view_def length_score_slot) (simp add: node_ok_def)

lemma view_simps [simp]:
  "view [] = []" "view (n # ns) = node_view n @ view ns" "view (xs @ ys) = view xs @ view ys"
  by (simp_all add: view_def)

lemma length_view: "list_all node_ok ns \<Longrightarrow> length (view ns) = ROWID_ARRAY_SIZE * length ns"
  by (induction ns) (simp_all add: length_node_view)

lemma map_fst_node_view: "node_ok n \<Longrightarrow> map fst (node_view n) = rn_rowid_array n"
  using length_score_slot [of n] by (simp add: node_view_def node_ok_def)

lemma map_fst_view: "list_all node_ok ns \<Longrightarrow> map fst (view ns) = flat ns"
  by (induction ns) (simp_all add: map_fst_node_view)

lemma map_fst_rl_view: "rl_ok l \<Longrightarrow> map fst (rl_view l) = rl_ids l"
  by (simp add: rl_view_def rl_ids_def rl_ok_def map_fst_view flip: take_map)

section \<open>The list under construction\<close>

definition acc_ok :: "'s::zero rowid_list_node list \<Rightarrow> 's rowid_list_node \<Rightarrow> nat \<Rightarrow> bool" where
  "acc_ok rs r k \<longleftrightarrow> list_all node_ok (rs @ [r]) \<and> length rs = k div ROWID_ARRAY_SIZE \<and>
     (\<forall>j. k mod ROWID_ARRAY_SIZE \<le> j \<and> j < ROWID_ARRAY_SIZE \<longrightarrow> score_slot r ! j = 0)"

definition acc_view :: "'s::zero rowid_list_node list \<Rightarrow> 's rowid_list_node \<Rightarrow> nat \<Rightarrow> (u32 \<times> 's) list" where
  "acc_view rs r k = view rs @ take (k mod ROWID_ARRAY_SIZE) (node_view r)"

lemma acc_start: "acc_ok [] blank_node 0" "acc_view [] blank_node 0 = []"
  by (simp_all add: acc_ok_def acc_view_def score_slot_def blank_node_def node_ok_def)

lemma acc_ok_blank: "score_slot blank_node = replicate ROWID_ARRAY_SIZE 0"
  by (simp add: score_slot_def blank_node_def)

lemma length_acc_view:
  assumes "acc_ok rs r k"
  shows "length (acc_view rs r k) = k"
  using assms by (simp add: acc_ok_def acc_view_def length_view length_node_view min_def)
    (use mod_less_divisor [of 256 k] in linarith)

text \<open>Writing one entry and moving on: the view grows by that entry.\<close>

lemma acc_emit:
  assumes acc: "acc_ok rs r k" and r': "node_ok r'"
    and arr: "rn_rowid_array r' = (rn_rowid_array r)[k mod ROWID_ARRAY_SIZE := x]"
    and sc: "score_slot r' = (score_slot r)[k mod ROWID_ARRAY_SIZE := v]"
    and roll: "roll rs r' (Suc k) = (rs', r'')"
  shows "acc_ok rs' r'' (Suc k) \<and> acc_view rs' r'' (Suc k) = acc_view rs r k @ [(x, v)]"
proof -
  let ?m = "k mod 256"
  have m: "?m < 256" by simp
  have ok: "list_all node_ok rs" "node_ok r" "length rs = k div 256"
    "\<And>j. ?m \<le> j \<Longrightarrow> j < 256 \<Longrightarrow> score_slot r ! j = 0" using acc by (auto simp: acc_ok_def)
  have nv: "node_view r' = (node_view r)[?m := (x, v)]"
    unfolding node_view_def arr sc by (simp add: update_zip)
  have tk: "take (Suc ?m) (node_view r') = take ?m (node_view r) @ [(x, v)]"
    unfolding nv using length_node_view [OF ok(2)] by (simp add: take_Suc_conv_app_nth)
  show ?thesis
  proof (cases "Suc k mod 256 = 0")
    case True
    then have s: "Suc ?m = 256" "Suc k div 256 = Suc (k div 256)"
      by (simp_all add: mod_Suc div_Suc split: if_splits)
    have "take 256 (node_view r') = node_view r'" using length_node_view [OF r'] by simp
    with tk s(1) have "node_view r' = take ?m (node_view r) @ [(x, v)]" by simp
    moreover have "rs' = rs @ [r']" "r'' = blank_node" using roll True by (simp_all add: roll_def)
    ultimately show ?thesis
      using True ok r' s(2) by (simp add: acc_ok_def acc_view_def acc_ok_blank)
  next
    case False
    then have s: "Suc k mod 256 = Suc ?m" "Suc k div 256 = k div 256"
      by (simp_all add: mod_Suc div_Suc split: if_splits)
    have "rs' = rs" "r'' = r'" using roll False by (simp_all add: roll_def)
    then show ?thesis
      using s ok r' tk sc length_score_slot [OF ok(2)] by (simp add: acc_ok_def acc_view_def)
  qed
qed

section \<open>Input entries\<close>

definition rl_score :: "'s rowid_list \<Rightarrow> nat \<Rightarrow> 's option" where
  "rl_score l i = map_option (\<lambda>sc. sc ! (i mod ROWID_ARRAY_SIZE))
     (rn_score_array (rl_nodes l ! (i div ROWID_ARRAY_SIZE)))"

definition sval :: "'s::zero option \<Rightarrow> 's" where
  "sval s = (case s of None \<Rightarrow> 0 | Some v \<Rightarrow> v)"

lemma length_rl_view [simp]: "rl_ok l \<Longrightarrow> length (rl_view l) = unat (rl_rowid_num l)"
  by (auto simp: rl_view_def rl_ok_def length_view length_flat)

lemma rl_view_nth:
  assumes "rl_ok l" and "i < unat (rl_rowid_num l)"
  shows "rl_view l ! i = (rl_ids l ! i, sval (rl_score l i))"
proof -
  have ns: "list_all node_ok (rl_nodes l)" "i < 256 * length (rl_nodes l)"
    using assms by (auto simp: rl_ok_def length_flat)
  have p: "i div 256 < length (rl_nodes l)" using ns(2) by (rule block_of_index)
  let ?n = "rl_nodes l ! (i div 256)"
  have n: "node_ok ?n" using ns(1) p by (simp add: list_all_length)
  have "list_all (\<lambda>xs. length xs = 256) (map node_view (rl_nodes l))"
    using ns(1) by (simp add: list_all_length length_node_view)
  from concat_nth_blocks [OF this] have "view (rl_nodes l) ! i = node_view ?n ! (i mod 256)"
    using ns(2) p by (simp add: view_def)
  also have "\<dots> = (rn_rowid_array ?n ! (i mod 256), score_slot ?n ! (i mod 256))"
    using n length_score_slot [OF n] by (simp add: node_view_def node_ok_def)
  also have "rn_rowid_array ?n ! (i mod 256) = rl_ids l ! i"
    using assms(2) flat_nth [OF ns] by (simp add: rl_ids_def)
  also have "score_slot ?n ! (i mod 256) = sval (rl_score l i)"
    by (simp add: score_slot_def rl_score_def sval_def split: option.splits)
  finally show ?thesis using assms(2) by (simp add: rl_view_def)
qed

lemma drop_rl_view:
  "rl_ok l \<Longrightarrow> i < unat (rl_rowid_num l) \<Longrightarrow>
    drop i (rl_view l) = (rl_ids l ! i, sval (rl_score l i)) # drop (Suc i) (rl_view l)"
  by (subst Cons_nth_drop_Suc [symmetric]) (simp_all add: rl_view_nth)

text \<open>The node an in-range position names, and what reading there gives.\<close>

lemma rl_node:
  assumes "rl_ok l" and "i < unat (rl_rowid_num l)"
  obtains n where "rd (rl_nodes l) (i div ROWID_ARRAY_SIZE) = Some n" and "node_ok n"
    and "rd (rn_rowid_array n) (i mod ROWID_ARRAY_SIZE) = Some (rl_ids l ! i)"
    and "rl_score l i = map_option (\<lambda>sc. sc ! (i mod ROWID_ARRAY_SIZE)) (rn_score_array n)"
proof -
  have ok: "list_all node_ok (rl_nodes l)" "i < length (flat (rl_nodes l))"
    using assms by (simp_all add: rl_ok_def)
  have "i < 256 * length (rl_nodes l)" using ok by (simp add: length_flat)
  then have p: "i div 256 < length (rl_nodes l)" by (rule block_of_index)
  let ?n = "rl_nodes l ! (i div 256)"
  have n: "rd (rl_nodes l) (i div 256) = Some ?n" "node_ok ?n"
    using p ok(1) by (simp_all add: rd_def list_all_length)
  have "rd (rn_rowid_array ?n) (i mod 256) = Some (rl_ids l ! i)"
    using rl_get [OF assms] n(1) by (simp add: block_get_def)
  then show ?thesis using n by (intro that) (simp_all add: rl_score_def)
qed

section \<open>Emitting\<close>

lemma score_slot_set: "score_slot (r\<lparr>rn_score_array := Some sc\<rparr>) = sc"
  by (simp add: score_slot_def)

lemma score_slot_array [simp]: "score_slot (r\<lparr>rn_rowid_array := xs\<rparr>) = score_slot r"
  by (simp add: score_slot_def)

lemma node_ok_updates:
  assumes "node_ok r" and "length xs = ROWID_ARRAY_SIZE" and "length sc = ROWID_ARRAY_SIZE"
  shows "node_ok (r\<lparr>rn_rowid_array := xs\<rparr>)" and "node_ok (r\<lparr>rn_rowid_array := xs, rn_score_array := Some sc\<rparr>)"
  using assms by (simp_all add: node_ok_def)

lemma acc_slot_zero: "acc_ok rs r k \<Longrightarrow> (score_slot r)[k mod ROWID_ARRAY_SIZE := 0] = score_slot r"
  by (simp add: acc_ok_def list_update_same_conv length_score_slot)

lemma copy_entry_emits:
  assumes acc: "acc_ok rs r k" and p: "node_ok p"
    and x: "rd (rn_rowid_array p) (i mod ROWID_ARRAY_SIZE) = Some x"
    and s: "s = map_option (\<lambda>sc. sc ! (i mod ROWID_ARRAY_SIZE)) (rn_score_array p)"
  obtains r' rs' r'' where "copy_entry r k p i = Some r'" and "roll rs r' (Suc k) = (rs', r'')"
    and "acc_ok rs' r'' (Suc k)" and "acc_view rs' r'' (Suc k) = acc_view rs r k @ [(x, sval s)]"
proof -
  let ?m = "k mod 256" and ?xs = "(rn_rowid_array r)[k mod 256 := x]"
  have r: "node_ok r" "length (rn_rowid_array r) = 256" "length (score_slot r) = 256"
    using acc by (auto simp: acc_ok_def length_score_slot) (simp add: node_ok_def)
  define r' where "r' = (case rn_score_array p of None \<Rightarrow> r\<lparr>rn_rowid_array := ?xs\<rparr>
    | Some sc \<Rightarrow> r\<lparr>rn_rowid_array := ?xs, rn_score_array := Some ((score_slot r)[?m := sc ! (i mod 256)])\<rparr>)"
  have "copy_entry r k p i = Some r'"
    using x r p
    by (auto simp: copy_entry_def mem_simps r'_def node_ok_def split: option.splits)
  moreover have "node_ok r'" using r by (auto simp: r'_def node_ok_updates split: option.splits)
  moreover have "rn_rowid_array r' = ?xs" by (simp add: r'_def split: option.splits)
  moreover have "score_slot r' = (score_slot r)[?m := sval s]"
    using acc_slot_zero [OF acc]
    by (auto simp: r'_def s sval_def score_slot_set split: option.splits)
  moreover obtain rs' r'' where "roll rs r' (Suc k) = (rs', r'')" by fastforce
  ultimately show ?thesis using that acc_emit [OF acc] by blast
qed

lemma merge_entry_emits:
  fixes r :: "'s::monoid_add rowid_list_node"
  assumes acc: "acc_ok rs r k" and p: "node_ok p" and q: "node_ok q"
    and x: "rd (rn_rowid_array p) (i mod ROWID_ARRAY_SIZE) = Some x"
    and s: "s = map_option (\<lambda>sc. sc ! (i mod ROWID_ARRAY_SIZE)) (rn_score_array p)"
    and t: "t = map_option (\<lambda>sc. sc ! (j mod ROWID_ARRAY_SIZE)) (rn_score_array q)"
  obtains r' rs' r'' where "merge_entry r k p i q j = Some r'" and "roll rs r' (Suc k) = (rs', r'')"
    and "acc_ok rs' r'' (Suc k)" and "acc_view rs' r'' (Suc k) = acc_view rs r k @ [(x, sval s + sval t)]"
proof -
  let ?m = "k mod 256" and ?xs = "(rn_rowid_array r)[k mod 256 := x]"
  have r: "node_ok r" "length (rn_rowid_array r) = 256" "length (score_slot r) = 256"
    using acc by (auto simp: acc_ok_def length_score_slot) (simp add: node_ok_def)
  have z: "score_slot r ! ?m = 0" using acc by (simp add: acc_ok_def)
  define r' where "r' = (if rn_score_array p = None \<and> rn_score_array q = None
    then r\<lparr>rn_rowid_array := ?xs\<rparr>
    else r\<lparr>rn_rowid_array := ?xs, rn_score_array := Some ((score_slot r)[?m := sval s + sval t])\<rparr>)"
  have "merge_entry r k p i q j = Some r'"
    using x r p q z
    by (auto simp: merge_entry_def add_score_def mem_simps r'_def node_ok_def s t sval_def
        split: option.splits)
  moreover have "node_ok r'" using r by (auto simp: r'_def node_ok_updates)
  moreover have "rn_rowid_array r' = ?xs" by (simp add: r'_def)
  moreover have "score_slot r' = (score_slot r)[?m := sval s + sval t]"
    using acc_slot_zero [OF acc] by (auto simp: r'_def s t sval_def score_slot_set)
  moreover obtain rs' r'' where "roll rs r' (Suc k) = (rs', r'')" by fastforce
  ultimately show ?thesis using that acc_emit [OF acc] by blast
qed

section \<open>Reference merges\<close>

fun merge_union :: "(u32 \<times> 's::plus) list \<Rightarrow> (u32 \<times> 's) list \<Rightarrow> (u32 \<times> 's) list" where
  "merge_union ((x, v) # xs) ((y, w) # ys) =
     (if x > y then (x, v) # merge_union xs ((y, w) # ys)
      else if x < y then (y, w) # merge_union ((x, v) # xs) ys
      else (x, v + w) # merge_union xs ys)"
| "merge_union [] ys = ys"
| "merge_union xs [] = xs"

fun merge_inter :: "(u32 \<times> 's::plus) list \<Rightarrow> (u32 \<times> 's) list \<Rightarrow> (u32 \<times> 's) list" where
  "merge_inter ((x, v) # xs) ((y, w) # ys) =
     (if x > y then merge_inter xs ((y, w) # ys)
      else if x < y then merge_inter ((x, v) # xs) ys
      else (x, v + w) # merge_inter xs ys)"
| "merge_inter _ _ = []"

lemma merge_union_Nil2 [simp]: "merge_union xs [] = xs"
  by (cases xs) simp_all

lemma merge_inter_Nil2 [simp]: "merge_inter xs [] = []"
  by (cases xs) simp_all

lemma rest_loop_copies:
  assumes "rl_ok l" and "acc_ok rs r k" and "j \<le> unat (rl_rowid_num l)"
  shows "\<exists>rs' r' k'. rest_loop l (j div ROWID_ARRAY_SIZE) j rs r k = Some (rs', r', k') \<and>
    acc_ok rs' r' k' \<and> acc_view rs' r' k' = acc_view rs r k @ drop j (rl_view l)"
  using assms
proof (induction "unat (rl_rowid_num l) - j" arbitrary: rs r k j)
  case 0
  then show ?case by (subst rest_loop.simps) simp
next
  case (Suc d)
  then have j: "j < unat (rl_rowid_num l)" by simp
  obtain n where n: "rd (rl_nodes l) (j div 256) = Some n" "node_ok n"
    "rd (rn_rowid_array n) (j mod 256) = Some (rl_ids l ! j)"
    "rl_score l j = map_option (\<lambda>sc. sc ! (j mod 256)) (rn_score_array n)"
    using rl_node [OF Suc.prems(1) j] .
  from copy_entry_emits [OF Suc.prems(2) n(2,3,4)] obtain r' rs1 r1 where
    e: "copy_entry r k n j = Some r'" "roll rs r' (Suc k) = (rs1, r1)" "acc_ok rs1 r1 (Suc k)"
    "acc_view rs1 r1 (Suc k) = acc_view rs r k @ [(rl_ids l ! j, sval (rl_score l j))]" .
  from Suc.hyps(1) [OF _ Suc.prems(1) e(3), of "Suc j"] Suc.hyps(2) j
  show ?case
    by (subst rest_loop.simps)
      (simp add: n(1) e next_block_div drop_rl_view [OF Suc.prems(1) j])
qed

lemma union_loop_merges:
  fixes a :: "'s::monoid_add rowid_list"
  assumes "rl_ok a" and "rl_ok b" and "acc_ok rs r k"
    and "i \<le> unat (rl_rowid_num a)" and "j \<le> unat (rl_rowid_num b)"
  shows "\<exists>i' j' rs' r' k'.
    union_loop a b (i div ROWID_ARRAY_SIZE) i (j div ROWID_ARRAY_SIZE) j rs r k =
      Some (i' div ROWID_ARRAY_SIZE, i', j' div ROWID_ARRAY_SIZE, j', rs', r', k') \<and>
    acc_ok rs' r' k' \<and> i' \<le> unat (rl_rowid_num a) \<and> j' \<le> unat (rl_rowid_num b) \<and>
    (i' = unat (rl_rowid_num a) \<or> j' = unat (rl_rowid_num b)) \<and>
    acc_view rs r k @ merge_union (drop i (rl_view a)) (drop j (rl_view b)) =
      acc_view rs' r' k' @ merge_union (drop i' (rl_view a)) (drop j' (rl_view b))"
  using assms(3-5)
proof (induction "(unat (rl_rowid_num a) - i) + (unat (rl_rowid_num b) - j)" arbitrary: rs r k i j
    rule: less_induct)
  case less
  let ?goal = "\<lambda>i j rs r k. \<exists>i' j' rs' r' k'.
    union_loop a b (i div 256) i (j div 256) j rs r k =
      Some (i' div 256, i', j' div 256, j', rs', r', k') \<and>
    acc_ok rs' r' k' \<and> i' \<le> unat (rl_rowid_num a) \<and> j' \<le> unat (rl_rowid_num b) \<and>
    (i' = unat (rl_rowid_num a) \<or> j' = unat (rl_rowid_num b)) \<and>
    acc_view rs r k @ merge_union (drop i (rl_view a)) (drop j (rl_view b)) =
      acc_view rs' r' k' @ merge_union (drop i' (rl_view a)) (drop j' (rl_view b))"
  show ?case
  proof (cases "i < unat (rl_rowid_num a) \<and> j < unat (rl_rowid_num b)")
    case False
    with less.prems show ?thesis by (subst union_loop.simps) auto
  next
    case True
    then have i: "i < unat (rl_rowid_num a)" and j: "j < unat (rl_rowid_num b)" by simp_all
    obtain p where p: "rd (rl_nodes a) (i div 256) = Some p" "node_ok p"
      "rd (rn_rowid_array p) (i mod 256) = Some (rl_ids a ! i)"
      "rl_score a i = map_option (\<lambda>sc. sc ! (i mod 256)) (rn_score_array p)"
      using rl_node [OF assms(1) i] .
    obtain q where q: "rd (rl_nodes b) (j div 256) = Some q" "node_ok q"
      "rd (rn_rowid_array q) (j mod 256) = Some (rl_ids b ! j)"
      "rl_score b j = map_option (\<lambda>sc. sc ! (j mod 256)) (rn_score_array q)"
      using rl_node [OF assms(2) j] .
    note step = union_loop.simps [of a b "i div 256" i "j div 256" j rs r k]
      drop_rl_view [OF assms(1) i] drop_rl_view [OF assms(2) j] p(1,3) q(1,3) i j next_block_div
    consider "rl_ids a ! i > rl_ids b ! j" | "rl_ids a ! i < rl_ids b ! j" | "rl_ids a ! i = rl_ids b ! j"
      by fastforce
    then show ?thesis
    proof cases
      case 1
      from copy_entry_emits [OF less.prems(1) p(2-4)] obtain r' rs1 r1 where
        e: "copy_entry r k p i = Some r'" "roll rs r' (Suc k) = (rs1, r1)" "acc_ok rs1 r1 (Suc k)"
        "acc_view rs1 r1 (Suc k) = acc_view rs r k @ [(rl_ids a ! i, sval (rl_score a i))]" .
      have "?goal (Suc i) j rs1 r1 (Suc k)" using i j by (intro less.hyps e) simp_all
      with 1 show ?thesis by (simp add: step e)
    next
      case 2
      from copy_entry_emits [OF less.prems(1) q(2-4)] obtain r' rs1 r1 where
        e: "copy_entry r k q j = Some r'" "roll rs r' (Suc k) = (rs1, r1)" "acc_ok rs1 r1 (Suc k)"
        "acc_view rs1 r1 (Suc k) = acc_view rs r k @ [(rl_ids b ! j, sval (rl_score b j))]" .
      have "?goal i (Suc j) rs1 r1 (Suc k)" using i j by (intro less.hyps e) simp_all
      with 2 show ?thesis by (simp add: step e less_not_sym)
    next
      case 3
      from merge_entry_emits [OF less.prems(1) p(2) q(2) p(3,4) q(4)] obtain r' rs1 r1 where
        e: "merge_entry r k p i q j = Some r'" "roll rs r' (Suc k) = (rs1, r1)" "acc_ok rs1 r1 (Suc k)"
        "acc_view rs1 r1 (Suc k) =
          acc_view rs r k @ [(rl_ids a ! i, sval (rl_score a i) + sval (rl_score b j))]" .
      have "?goal (Suc i) (Suc j) rs1 r1 (Suc k)" using i j by (intro less.hyps e) simp_all
      with 3 show ?thesis by (simp add: step e)
    qed
  qed
qed

lemma intersection_loop_merges:
  fixes a :: "'s::monoid_add rowid_list"
  assumes "rl_ok a" and "rl_ok b" and "acc_ok rs r k"
    and "i \<le> unat (rl_rowid_num a)" and "j \<le> unat (rl_rowid_num b)"
  shows "\<exists>rs' r' k'.
    intersection_loop a b (i div ROWID_ARRAY_SIZE) i (j div ROWID_ARRAY_SIZE) j rs r k = Some (rs', r', k') \<and>
    acc_ok rs' r' k' \<and>
    acc_view rs' r' k' = acc_view rs r k @ merge_inter (drop i (rl_view a)) (drop j (rl_view b))"
  using assms(3-5)
proof (induction "(unat (rl_rowid_num a) - i) + (unat (rl_rowid_num b) - j)" arbitrary: rs r k i j
    rule: less_induct)
  case less
  let ?goal = "\<lambda>i j rs r k. \<exists>rs' r' k'.
    intersection_loop a b (i div 256) i (j div 256) j rs r k = Some (rs', r', k') \<and>
    acc_ok rs' r' k' \<and>
    acc_view rs' r' k' = acc_view rs r k @ merge_inter (drop i (rl_view a)) (drop j (rl_view b))"
  show ?case
  proof (cases "i < unat (rl_rowid_num a) \<and> j < unat (rl_rowid_num b)")
    case False
    with less.prems have "drop i (rl_view a) = [] \<or> drop j (rl_view b) = []"
      using assms(1,2) by auto
    with False less.prems(1) show ?thesis by (subst intersection_loop.simps) auto
  next
    case True
    then have i: "i < unat (rl_rowid_num a)" and j: "j < unat (rl_rowid_num b)" by simp_all
    obtain p where p: "rd (rl_nodes a) (i div 256) = Some p" "node_ok p"
      "rd (rn_rowid_array p) (i mod 256) = Some (rl_ids a ! i)"
      "rl_score a i = map_option (\<lambda>sc. sc ! (i mod 256)) (rn_score_array p)"
      using rl_node [OF assms(1) i] .
    obtain q where q: "rd (rl_nodes b) (j div 256) = Some q" "node_ok q"
      "rd (rn_rowid_array q) (j mod 256) = Some (rl_ids b ! j)"
      "rl_score b j = map_option (\<lambda>sc. sc ! (j mod 256)) (rn_score_array q)"
      using rl_node [OF assms(2) j] .
    note step = intersection_loop.simps [of a b "i div 256" i "j div 256" j rs r k]
      drop_rl_view [OF assms(1) i] drop_rl_view [OF assms(2) j] p(1,3) q(1,3) i j next_block_div
    consider "rl_ids a ! i > rl_ids b ! j" | "rl_ids a ! i < rl_ids b ! j" | "rl_ids a ! i = rl_ids b ! j"
      by fastforce
    then show ?thesis
    proof cases
      case 1
      have "?goal (Suc i) j rs r k" using i j by (intro less.hyps less.prems) simp_all
      with 1 show ?thesis by (simp add: step)
    next
      case 2
      have "?goal i (Suc j) rs r k" using i j by (intro less.hyps less.prems) simp_all
      with 2 show ?thesis by (simp add: step less_not_sym)
    next
      case 3
      from merge_entry_emits [OF less.prems(1) p(2) q(2) p(3,4) q(4)] obtain r' rs1 r1 where
        e: "merge_entry r k p i q j = Some r'" "roll rs r' (Suc k) = (rs1, r1)" "acc_ok rs1 r1 (Suc k)"
        "acc_view rs1 r1 (Suc k) =
          acc_view rs r k @ [(rl_ids a ! i, sval (rl_score a i) + sval (rl_score b j))]" .
      have "?goal (Suc i) (Suc j) rs1 r1 (Suc k)" using i j by (intro less.hyps e) simp_all
      with 3 show ?thesis by (simp add: step e)
    qed
  qed
qed

text \<open>The list built from the finished blocks and the current one.\<close>

lemma acc_list:
  assumes "acc_ok rs r k" and "k < 2 ^ 32"
  defines "l \<equiv> \<lparr>rl_rowid_num = word_of_nat k, rl_nodes = rs @ [r], rl_tail = Some (length rs)\<rparr>"
  shows "rl_ok l" and "rl_view l = acc_view rs r k"
proof -
  have ok: "list_all node_ok rs" "node_ok r" "length rs = k div 256" using assms(1) by (auto simp: acc_ok_def)
  have u: "unat (rl_rowid_num l) = k" using assms(2) by (simp add: l_def unat_word_of_nat_u32)
  have k: "k = 256 * (k div 256) + k mod 256" by simp
  have lv: "length (view rs) = 256 * (k div 256)" using ok by (simp add: length_view)
  have "length (flat (rl_nodes l)) = 256 * (k div 256) + 256"
    using ok length_flat [of "rs @ [r]"] by (simp add: l_def)
  moreover have "k \<le> 256 * (k div 256) + 256" by simp
  ultimately show "rl_ok l" using ok u by (simp add: rl_ok_def l_def)
  have "take k (view rs @ node_view r) = view rs @ take (k - length (view rs)) (node_view r)"
    using lv by simp
  also have "k - length (view rs) = k mod 256" using lv by (simp add: minus_mult_div_eq_mod)
  finally show "rl_view l = acc_view rs r k" using u by (simp add: rl_view_def acc_view_def l_def)
qed

section \<open>Descending lists as sets\<close>

abbreviation desc :: "u32 list \<Rightarrow> bool" where
  "desc \<equiv> sorted_wrt (>)"

definition score_in :: "(u32 \<times> 's::zero) list \<Rightarrow> u32 \<Rightarrow> 's" where
  "score_in xs x = sval (map_of xs x)"

lemma score_in_simps [simp]:
  "score_in [] x = 0" "score_in ((y, v) # xs) x = (if x = y then v else score_in xs x)"
  by (simp_all add: score_in_def sval_def)

lemma score_in_absent: "x \<notin> fst ` set xs \<Longrightarrow> score_in xs x = 0"
  by (simp add: score_in_def sval_def map_of_eq_None_iff [THEN iffD2])

lemma merge_union_set: "fst ` set (merge_union xs ys) = fst ` set xs \<union> fst ` set ys"
  by (induction xs ys rule: merge_union.induct) auto

lemma desc_Cons: "desc (map fst ((x, v) # xs)) \<longleftrightarrow> (\<forall>y\<in>fst ` set xs. y < x) \<and> desc (map fst xs)"
  by simp

lemma below_trans: "\<forall>z\<in>S. z < x \<Longrightarrow> x < y \<Longrightarrow> \<forall>z\<in>S. z < (y :: u32)"
  by (meson order.strict_trans)

lemma merge_union_desc:
  "desc (map fst xs) \<Longrightarrow> desc (map fst ys) \<Longrightarrow> desc (map fst (merge_union xs ys))"
proof (induction xs ys rule: merge_union.induct)
  case (1 x v xs y w ys)
  have a: "\<forall>z\<in>fst ` set xs. z < x" "desc (map fst xs)" and b: "\<forall>z\<in>fst ` set ys. z < y" "desc (map fst ys)"
    using "1.prems" unfolding desc_Cons by simp_all
  consider "x > y" | "x < y" | "x = y" using linorder_less_linear [of x y] by blast
  then show ?case
  proof cases
    case 1
    have "\<forall>z\<in>fst ` set (merge_union xs ((y, w) # ys)). z < x"
      unfolding merge_union_set using a b(1) 1 below_trans [OF b(1) 1] by (simp add: ball_Un)
    with 1 show ?thesis using "1.IH"(1) [OF 1 a(2) "1.prems"(2)] by simp
  next
    case 2
    have "\<forall>z\<in>fst ` set (merge_union ((x, v) # xs) ys). z < y"
      unfolding merge_union_set using b(1) 2 below_trans [OF a(1) 2] by (simp add: ball_Un)
    with 2 less_not_sym [OF 2] show ?thesis using "1.IH"(2) [OF _ 2 "1.prems"(1) b(2)] by simp
  next
    case 3
    have "\<forall>z\<in>fst ` set (merge_union xs ys). z < x" unfolding merge_union_set using a b 3 by (simp add: ball_Un)
    with 3 show ?thesis using "1.IH"(3) [OF _ _ a(2) b(2)] by simp
  qed
qed simp_all

lemma merge_union_score:
  fixes xs :: "(u32 \<times> 's::monoid_add) list"
  shows "desc (map fst xs) \<Longrightarrow> desc (map fst ys) \<Longrightarrow>
    score_in (merge_union xs ys) z = score_in xs z + score_in ys z"
proof (induction xs ys rule: merge_union.induct)
  case (1 x v xs y w ys)
  have a: "\<forall>z\<in>fst ` set xs. z < x" "desc (map fst xs)" and b: "\<forall>z\<in>fst ` set ys. z < y" "desc (map fst ys)"
    using "1.prems" unfolding desc_Cons by simp_all
  consider "x > y" | "x < y" | "x = y" using linorder_less_linear [of x y] by blast
  then show ?case
  proof cases
    case 1
    have "score_in ys x = 0" "x \<noteq> y" using b(1) 1 by (auto intro!: score_in_absent dest: order.asym)
    with 1 show ?thesis using "1.IH"(1) [OF 1 a(2) "1.prems"(2)] by simp
  next
    case 2
    have "score_in xs y = 0" "x \<noteq> y" using a(1) 2 by (auto intro!: score_in_absent dest: order.asym)
    with 2 less_not_sym [OF 2] show ?thesis using "1.IH"(2) [OF _ 2 "1.prems"(1) b(2)] by simp
  next
    case 3
    with "1.IH"(3) [OF _ _ a(2) b(2)] show ?thesis by simp
  qed
qed simp_all

lemma merge_inter_set:
  "desc (map fst xs) \<Longrightarrow> desc (map fst ys) \<Longrightarrow>
    fst ` set (merge_inter xs ys) = fst ` set xs \<inter> fst ` set ys"
proof (induction xs ys rule: merge_inter.induct)
  case (1 x v xs y w ys)
  have a: "\<forall>z\<in>fst ` set xs. z < x" "desc (map fst xs)" and b: "\<forall>z\<in>fst ` set ys. z < y" "desc (map fst ys)"
    using "1.prems" unfolding desc_Cons by simp_all
  consider "x > y" | "x < y" | "x = y" using linorder_less_linear [of x y] by blast
  then show ?case
  proof cases
    case 1
    have "x \<noteq> y" "x \<notin> fst ` set ys" using 1 below_trans [OF b(1) 1] by auto
    then have "fst ` set ((x, v) # xs) \<inter> fst ` set ((y, w) # ys) = fst ` set xs \<inter> fst ` set ((y, w) # ys)"
      by (simp add: Int_insert_left)
    with 1 "1.IH"(1) [OF 1 a(2) "1.prems"(2)] show ?thesis by simp
  next
    case 2
    have "x \<noteq> y" "y \<notin> fst ` set xs" using 2 below_trans [OF a(1) 2] by auto
    then have "fst ` set ((x, v) # xs) \<inter> fst ` set ((y, w) # ys) = fst ` set ((x, v) # xs) \<inter> fst ` set ys"
      by (simp add: Int_insert_right)
    with 2 less_not_sym [OF 2] "1.IH"(2) [OF _ 2 "1.prems"(1) b(2)] show ?thesis by simp
  next
    case 3
    have "x \<notin> fst ` set xs" using a(1) by blast
    with 3 "1.IH"(3) [OF _ _ a(2) b(2)] show ?thesis by auto
  qed
qed simp_all

lemma merge_inter_desc:
  "desc (map fst xs) \<Longrightarrow> desc (map fst ys) \<Longrightarrow> desc (map fst (merge_inter xs ys))"
proof (induction xs ys rule: merge_inter.induct)
  case (1 x v xs y w ys)
  show ?case
  proof (cases "x = y")
    case True
    have "\<forall>z\<in>fst ` set (merge_inter xs ys). z < x"
      using "1.prems" unfolding desc_Cons by (simp add: merge_inter_set ball_simps) blast
    with True 1 show ?thesis by simp
  next
    case False
    with 1 show ?thesis by simp
  qed
qed simp_all

lemma merge_inter_score:
  fixes xs :: "(u32 \<times> 's::monoid_add) list"
  shows "desc (map fst xs) \<Longrightarrow> desc (map fst ys) \<Longrightarrow> z \<in> fst ` set xs \<Longrightarrow> z \<in> fst ` set ys \<Longrightarrow>
    score_in (merge_inter xs ys) z = score_in xs z + score_in ys z"
proof (induction xs ys rule: merge_inter.induct)
  case (1 x v xs y w ys)
  have a: "\<forall>z\<in>fst ` set xs. z < x" "desc (map fst xs)" and b: "\<forall>z\<in>fst ` set ys. z < y" "desc (map fst ys)"
    using "1.prems" unfolding desc_Cons by simp_all
  have z: "z = x \<or> z \<in> fst ` set xs" "z = y \<or> z \<in> fst ` set ys" using "1.prems"(3,4) by simp_all
  consider "x > y" | "x < y" | "x = y" using linorder_less_linear [of x y] by blast
  then show ?case
  proof cases
    case 1
    then have "z < x" using z(2) below_trans [OF b(1) 1] by blast
    then have "z \<noteq> x" "z \<in> fst ` set xs" using z(1) by auto
    with 1 show ?thesis using "1.IH"(1) [OF 1 a(2) "1.prems"(2) _ "1.prems"(4)] by simp
  next
    case 2
    then have "z < y" using z(1) below_trans [OF a(1) 2] by blast
    then have "z \<noteq> y" "z \<in> fst ` set ys" using z(2) by auto
    with 2 less_not_sym [OF 2] show ?thesis using "1.IH"(2) [OF _ 2 "1.prems"(1) b(2) "1.prems"(3)] by simp
  next
    case 3
    with z a(1) b(1) "1.IH"(3) [OF _ _ a(2) b(2)] show ?thesis by auto
  qed
qed simp_all

lemma desc_distinct: "desc xs \<Longrightarrow> distinct xs"
  by (induction xs) auto

text \<open>A descending list that avoids the reserved number holds less than \<open>2 ^ 32\<close> entries, so its
  count fits the counter.\<close>

lemma desc_fits:
  assumes "desc xs" and "(- 1) \<notin> set xs"
  shows "length xs < 2 ^ 32"
proof -
  have "length xs = card (set xs)" using assms(1) by (simp add: desc_distinct distinct_card)
  also have "\<dots> < card (UNIV :: u32 set)" using assms(2) by (intro psubset_card_mono) auto
  also have "\<dots> = 2 ^ 32" by (simp add: card_word)
  finally show ?thesis .
qed

section \<open>Difference in place\<close>

fun merge_minus :: "u32 list \<Rightarrow> u32 list \<Rightarrow> u32 list" where
  "merge_minus (x # xs) (y # ys) =
     (if x > y then x # merge_minus xs (y # ys)
      else if x < y then merge_minus (x # xs) ys
      else merge_minus xs ys)"
| "merge_minus xs _ = xs"

lemma merge_minus_filter:
  "desc xs \<Longrightarrow> desc ys \<Longrightarrow> merge_minus xs ys = filter (\<lambda>x. x \<notin> set ys) xs"
proof (induction xs ys rule: merge_minus.induct)
  case (1 x xs y ys)
  have a: "\<forall>z\<in>set xs. z < x" "desc xs" and b: "\<forall>z\<in>set ys. z < y" "desc ys"
    using "1.prems" by simp_all
  consider "x > y" | "x < y" | "x = y" using linorder_less_linear [of x y] by blast
  then show ?case
  proof cases
    case 1
    have "x \<noteq> y" "x \<notin> set ys" using 1 below_trans [OF b(1) 1] by auto
    with 1 "1.IH"(1) [OF 1 a(2) "1.prems"(2)] show ?thesis by simp
  next
    case 2
    have "\<forall>z\<in>set (x # xs). z \<noteq> y" using 2 below_trans [OF a(1) 2] by auto
    then have "filter (\<lambda>z. z \<notin> set (y # ys)) (x # xs) = filter (\<lambda>z. z \<notin> set ys) (x # xs)"
      by (intro filter_cong) auto
    with 2 less_not_sym [OF 2] "1.IH"(2) [OF _ 2 "1.prems"(1) b(2)] show ?thesis by simp
  next
    case 3
    have "\<forall>z\<in>set xs. z \<noteq> y" using a(1) 3 by auto
    then have "filter (\<lambda>z. z \<notin> set (y # ys)) xs = filter (\<lambda>z. z \<notin> set ys) xs"
      by (intro filter_cong) auto
    with 3 "1.IH"(3) [OF _ _ a(2) b(2)] show ?thesis by simp
  qed
qed simp_all

text \<open>Before reading position \<open>i\<close> of the first list \<open>xs\<close>, \<open>k\<close> numbers have been kept in front.\<close>

definition minus_inv ::
    "'s list option list \<Rightarrow> u32 list \<Rightarrow> 's rowid_list_node list \<Rightarrow> nat \<Rightarrow> nat option \<Rightarrow> nat \<Rightarrow>
       u32 list \<Rightarrow> bool" where
  "minus_inv ss xs ns i pre k out \<longleftrightarrow>
     list_all node_ok ns \<and> map rn_score_array ns = ss \<and> length xs \<le> length (flat ns) \<and> i \<le> length xs \<and> k \<le> i \<and>
     (\<forall>m. i \<le> m \<and> m < length xs \<longrightarrow> flat ns ! m = xs ! m) \<and> take k (flat ns) = out \<and>
     pre = (if k < ROWID_ARRAY_SIZE then None else Some (k div ROWID_ARRAY_SIZE - 1))"

lemma minus_inv_get:
  "minus_inv ss xs ns i pre k out \<Longrightarrow> i < length xs \<Longrightarrow>
    block_get ns (i div ROWID_ARRAY_SIZE) i = Some (xs ! i)"
  using block_get_flat [of ns i] by (simp add: minus_inv_def)

lemma minus_inv_skip:
  "minus_inv ss xs ns i pre k out \<Longrightarrow> i < length xs \<Longrightarrow> minus_inv ss xs ns (Suc i) pre k out"
  by (simp add: minus_inv_def)

lemma minus_pre_step:
  "(if Suc k mod 256 = 0 then Some (k div 256)
    else if k < 256 then None else Some (k div 256 - 1)) =
   (if Suc k < 256 then None else Some (Suc k div 256 - 1))"
proof (cases "Suc k mod 256 = 0")
  case True
  then have "Suc k div 256 = Suc (k div 256)" by (simp add: div_Suc)
  moreover have "\<not> Suc k < 256" using True by (cases "Suc k < 256") simp_all
  ultimately show ?thesis using True by simp
next
  case False
  then have "Suc k div 256 = k div 256" by (simp add: div_Suc)
  moreover have "k < 256 \<longleftrightarrow> Suc k < 256" using False by (cases "Suc k = 256") auto
  ultimately show ?thesis using False by simp
qed

lemma minus_inv_keep:
  assumes inv: "minus_inv ss xs ns i pre k out" and i: "i < length xs"
  obtains ns' where "block_set ns (k div ROWID_ARRAY_SIZE) k x = Some ns'"
    and "minus_inv ss xs ns' (Suc i)
      (if Suc k mod ROWID_ARRAY_SIZE = 0 then Some (k div ROWID_ARRAY_SIZE) else pre) (Suc k) (out @ [x])"
proof -
  have k: "k < length (flat ns)" "k \<le> i" and ok: "list_all node_ok ns"
    using inv i by (simp_all add: minus_inv_def)
  from block_set_flat [OF ok k(1)] obtain ns' where
    s: "block_set ns (k div 256) k x = Some ns'" "flat ns' = (flat ns)[k := x]" "list_all node_ok ns'"
      "map rn_score_array ns' = map rn_score_array ns" .
  have t: "take (Suc k) (flat ns') = out @ [x]"
    unfolding s(2) using k inv by (simp add: take_Suc_conv_app_nth minus_inv_def)
  define P where "P = (if Suc k mod 256 = 0 then Some (k div 256) else pre)"
  have "pre = (if k < 256 then None else Some (k div 256 - 1))" using inv by (simp add: minus_inv_def)
  then have P: "P = (if Suc k < 256 then None else Some (Suc k div 256 - 1))"
    unfolding P_def using minus_pre_step [of k] by (simp only:)
  have "minus_inv ss xs ns' (Suc i) P (Suc k) (out @ [x])"
    using inv i k s(2-4) t P by (simp add: minus_inv_def)
  with s(1) show ?thesis unfolding P_def by (rule that)
qed

lemma minus_rest_loop_keeps:
  assumes "minus_inv ss xs ns i pre k out"
  shows "\<exists>ns' pre' k'. minus_rest_loop (length xs) ns (i div ROWID_ARRAY_SIZE) i (k div ROWID_ARRAY_SIZE) pre k =
      Some (ns', k' div ROWID_ARRAY_SIZE, pre', k') \<and>
    minus_inv ss xs ns' (length xs) pre' k' (out @ drop i xs)"
  using assms
proof (induction "length xs - i" arbitrary: ns i pre k out)
  case 0
  then show ?case by (subst minus_rest_loop.simps) (auto simp: minus_inv_def)
next
  case (Suc d)
  then have i: "i < length xs" by simp
  from minus_inv_keep [OF Suc.prems i] obtain ns' where
    s: "block_set ns (k div 256) k (xs ! i) = Some ns'"
    "minus_inv ss xs ns' (Suc i) (if Suc k mod 256 = 0 then Some (k div 256) else pre) (Suc k)
      (out @ [xs ! i])" .
  note Cons_nth_drop_Suc [OF i, symmetric]
  with Suc.hyps(1) [OF _ s(2)] Suc.hyps(2) i show ?case
    by (subst minus_rest_loop.simps)
      (simp add: minus_inv_get [OF Suc.prems i] s(1) next_block_div)
qed

lemma minus_loop_keeps:
  assumes b: "rl_ok b" and "minus_inv ss xs ns i pre k out" and "j \<le> unat (rl_rowid_num b)"
  shows "\<exists>ns' i' pre' k' out'.
    minus_loop (length xs) b ns (i div ROWID_ARRAY_SIZE) i (j div ROWID_ARRAY_SIZE) j (k div ROWID_ARRAY_SIZE) pre k =
      Some (ns', i' div ROWID_ARRAY_SIZE, i', k' div ROWID_ARRAY_SIZE, pre', k') \<and>
    minus_inv ss xs ns' i' pre' k' out' \<and>
    out' @ drop i' xs = out @ merge_minus (drop i xs) (drop j (rl_ids b))"
  using assms(2,3)
proof (induction "(length xs - i) + (unat (rl_rowid_num b) - j)" arbitrary: ns i pre k out j
    rule: less_induct)
  case less
  let ?goal = "\<lambda>ns i j pre k out. \<exists>ns' i' pre' k' out'.
    minus_loop (length xs) b ns (i div 256) i (j div 256) j (k div 256) pre k =
      Some (ns', i' div 256, i', k' div 256, pre', k') \<and>
    minus_inv ss xs ns' i' pre' k' out' \<and>
    out' @ drop i' xs = out @ merge_minus (drop i xs) (drop j (rl_ids b))"
  show ?case
  proof (cases "i < length xs \<and> j < unat (rl_rowid_num b)")
    case False
    then have "merge_minus (drop i xs) (drop j (rl_ids b)) = drop i xs"
      using b by (cases "drop i xs"; cases "drop j (rl_ids b)") auto
    with False less.prems(1) show ?thesis by (subst minus_loop.simps) auto
  next
    case True
    then have i: "i < length xs" and j: "j < unat (rl_rowid_num b)" by simp_all
    have jb: "j < length (rl_ids b)" using b j by simp
    note step = minus_loop.simps [of "length xs" b ns "i div 256" i "j div 256" j "k div 256" pre k]
      minus_inv_get [OF less.prems(1) i] rl_get [OF b j] i j next_block_div
      Cons_nth_drop_Suc [OF i, symmetric] Cons_nth_drop_Suc [OF jb, symmetric]
    consider "xs ! i > rl_ids b ! j" | "xs ! i < rl_ids b ! j" | "xs ! i = rl_ids b ! j"
      using linorder_less_linear [of "xs ! i"] by blast
    then show ?thesis
    proof cases
      case 1
      from minus_inv_keep [OF less.prems(1) i] obtain ns' where
        s: "block_set ns (k div 256) k (xs ! i) = Some ns'"
        "minus_inv ss xs ns' (Suc i) (if Suc k mod 256 = 0 then Some (k div 256) else pre) (Suc k)
          (out @ [xs ! i])" .
      have "?goal ns' (Suc i) j (if Suc k mod 256 = 0 then Some (k div 256) else pre) (Suc k) (out @ [xs ! i])"
        using i j by (intro less.hyps s) simp_all
      with 1 show ?thesis by (simp add: step s split del: if_split)
    next
      case 2
      have "?goal ns i (Suc j) pre k out" using i j by (intro less.hyps less.prems) simp_all
      with 2 less_not_sym [OF 2] show ?thesis by (simp add: step)
    next
      case 3
      have "?goal ns (Suc i) (Suc j) pre k out"
        using i j by (intro less.hyps minus_inv_skip [OF less.prems(1)]) simp_all
      with 3 show ?thesis by (simp add: step)
    qed
  qed
qed

section \<open>Full-text combination in place\<close>

text \<open>Every block has a score array; without one the loop would follow a null pointer.\<close>

definition scored :: "'s rowid_list_node list \<Rightarrow> bool" where
  "scored ns \<longleftrightarrow> list_all (\<lambda>n. node_ok n \<and> rn_score_array n \<noteq> None) ns"

lemma scored_ok: "scored ns \<Longrightarrow> list_all node_ok ns"
  by (auto simp: scored_def list_all_iff)

fun merge_hence :: "(u32 \<times> 's::plus) list \<Rightarrow> (u32 \<times> 's) list \<Rightarrow> (u32 \<times> 's) list" where
  "merge_hence ((x, v) # xs) ((y, w) # ys) =
     (if x > y then (x, v) # merge_hence xs ((y, w) # ys)
      else if x < y then merge_hence ((x, v) # xs) ys
      else (x, v + w) # merge_hence xs ys)"
| "merge_hence _ _ = []"

lemma view_update:
  assumes "list_all node_ok ns" and "p < length ns" and "node_view n' = (node_view (ns ! p))[k := e]" and "k < ROWID_ARRAY_SIZE"
  shows "view (ns[p := n']) = (view ns)[ROWID_ARRAY_SIZE * p + k := e]"
  using assms
proof (induction ns arbitrary: p)
  case (Cons n ns)
  show ?case
  proof (cases p)
    case 0
    with Cons.prems show ?thesis by (simp add: list_update_append length_node_view)
  next
    case (Suc q)
    with Cons show ?thesis by (simp add: list_update_append length_node_view)
  qed
qed simp

text \<open>One entry of a scored chain: reading gives its number and score, writing the number back
  changes nothing, and a new score goes to the same place.\<close>

lemma scored_entry:
  assumes ns: "scored ns" and i: "i < length (view ns)" and e: "view ns ! i = (x, v)"
  shows "block_get ns (i div ROWID_ARRAY_SIZE) i = Some x" and "block_set ns (i div ROWID_ARRAY_SIZE) i x = Some ns"
    and "score_get ns (i div ROWID_ARRAY_SIZE) i = Some v"
    and "\<exists>ns'. score_set ns (i div ROWID_ARRAY_SIZE) i w = Some ns' \<and> scored ns' \<and> view ns' = (view ns)[i := (x, w)]"
proof -
  let ?p = "i div 256" and ?k = "i mod 256"
  have i': "i < 256 * length ns" using i length_view [OF scored_ok [OF ns]] by simp
  then have p: "?p < length ns" by (rule block_of_index)
  define n where "n = ns ! ?p"
  obtain sc where n: "node_ok n" "rn_score_array n = Some sc" "length (rn_rowid_array n) = 256" "length sc = 256"
    using ns p by (auto simp: scored_def list_all_length n_def node_ok_def split: option.splits)
  have "list_all (\<lambda>xs. length xs = 256) (map node_view ns)"
    using scored_ok [OF ns] by (simp add: list_all_length length_node_view)
  from concat_nth_blocks [OF this] have "view ns ! i = node_view n ! ?k" using i' p by (simp add: view_def n_def)
  then have xv: "rn_rowid_array n ! ?k = x" "sc ! ?k = v" using e n by (simp_all add: node_view_def score_slot_def)
  show "block_get ns ?p i = Some x" "score_get ns ?p i = Some v"
    using p n xv by (simp_all add: block_get_def score_get_def mem_simps flip: n_def)
  show "block_set ns ?p i x = Some ns"
  proof -
    have "(rn_rowid_array n)[?k := x] = rn_rowid_array n" using xv(1) list_update_id by metis
    moreover have "ns[?p := n] = ns" by (simp add: n_def)
    ultimately show ?thesis using p n by (simp add: block_set_def mem_simps flip: n_def)
  qed
  let ?n = "n\<lparr>rn_score_array := Some (sc[?k := w])\<rparr>"
  have "node_view ?n = (node_view n)[?k := (x, w)]"
    using n xv(1) list_update_id [of "rn_rowid_array n" ?k] by (simp add: node_view_def score_slot_def update_zip)
  then have "view (ns[?p := ?n]) = (view ns)[i := (x, w)]"
    using view_update [OF scored_ok [OF ns] p, of ?n ?k "(x, w)"] by (simp add: n_def)
  moreover have "scored (ns[?p := ?n])"
    using ns n p by (auto simp: scored_def list_all_length nth_list_update node_ok_def)
  moreover have "score_set ns ?p i w = Some (ns[?p := ?n])" using p n by (simp add: score_set_def mem_simps flip: n_def)
  ultimately show "\<exists>ns'. score_set ns ?p i w = Some ns' \<and> scored ns' \<and> view ns' = (view ns)[i := (x, w)]" by blast
qed

lemma hence_loop_merges:
  assumes b: "rl_ok b" "scored (rl_nodes b)" and "scored ns" and "i \<le> n" and "n \<le> length (view ns)" and "j \<le> unat (rl_rowid_num b)"
  shows "\<exists>ns' k. hence_loop n b ns (i div ROWID_ARRAY_SIZE) i (j div ROWID_ARRAY_SIZE) j (i div ROWID_ARRAY_SIZE) i =
      Some (ns', k div ROWID_ARRAY_SIZE, k) \<and> scored ns' \<and> k \<le> n \<and> n \<le> length (view ns') \<and>
    take k (view ns') = take i (view ns) @ merge_hence (drop i (take n (view ns))) (drop j (rl_view b))"
  using assms(3-)
proof (induction "(n - i) + (unat (rl_rowid_num b) - j)" arbitrary: ns i j rule: less_induct)
  case less
  let ?goal = "\<lambda>ns i j. \<exists>ns' k. hence_loop n b ns (i div 256) i (j div 256) j (i div 256) i = Some (ns', k div 256, k) \<and>
    scored ns' \<and> k \<le> n \<and> n \<le> length (view ns') \<and>
    take k (view ns') = take i (view ns) @ merge_hence (drop i (take n (view ns))) (drop j (rl_view b))"
  show ?case
  proof (cases "i < n \<and> j < unat (rl_rowid_num b)")
    case False
    then have "merge_hence (drop i (take n (view ns))) (drop j (rl_view b)) = []" using b(1) by auto
    with False less.prems show ?thesis by (subst hence_loop.simps) auto
  next
    case True
    then have i: "i < n" "i < length (view ns)" and j: "j < unat (rl_rowid_num b)" "j < length (view (rl_nodes b))"
      using less.prems b(1) by (auto simp: rl_ok_def length_view length_flat)
    obtain x v where x: "view ns ! i = (x, v)" by force
    obtain y w where y: "view (rl_nodes b) ! j = (y, w)" by force
    note ex = scored_entry [OF less.prems(1) i(2) x] and ey = scored_entry [OF b(2) j(2) y]
    have dx: "drop i (take n (view ns)) = (x, v) # drop (Suc i) (take n (view ns))"
      using i x by (subst Cons_nth_drop_Suc [symmetric]) simp_all
    have dy: "drop j (rl_view b) = (y, w) # drop (Suc j) (rl_view b)"
      using j b(1) y by (subst Cons_nth_drop_Suc [symmetric]) (simp_all add: rl_view_def)
    have keep: "take (Suc i) ((view ns)[i := (x, u)]) = take i (view ns) @ [(x, u)]"
      "drop (Suc i) (take n ((view ns)[i := (x, u)])) = drop (Suc i) (take n (view ns))" for u
      using i by (simp_all add: take_Suc_conv_app_nth drop_take)
    note step = hence_loop.simps [of n b ns "i div 256" i "j div 256" j "i div 256" i] i(1) j(1) ex(1-3) ey(1,3) next_block_div dx dy
    consider "x > y" | "x < y" | "x = y" using linorder_less_linear [of x y] by blast
    then show ?thesis
    proof cases
      case 1
      obtain ns' where s: "score_set ns (i div 256) i v = Some ns'" "scored ns'" "view ns' = (view ns)[i := (x, v)]" using ex(4) by blast
      have "?goal ns' (Suc i) j" using i j s(2,3) less.prems(3,4) by (intro less.hyps) simp_all
      with 1 show ?thesis by (simp add: step s(1,3) keep)
    next
      case 2
      have "?goal ns i (Suc j)" using i j less.prems by (intro less.hyps) simp_all
      with 2 less_not_sym [OF 2] show ?thesis by (simp add: step)
    next
      case 3
      obtain ns' where s: "score_set ns (i div 256) i (v + w) = Some ns'" "scored ns'" "view ns' = (view ns)[i := (x, v + w)]"
        using ex(4) by blast
      have "?goal ns' (Suc i) (Suc j)" using i j s(2,3) less.prems(3,4) by (intro less.hyps) simp_all
      with 3 [symmetric] show ?thesis by (simp add: step s(1,3) keep)
    qed
  qed
qed

lemma merge_hence_filter:
  fixes xs ys :: "(u32 \<times> 's::monoid_add) list"
  assumes "desc (map fst xs)" and "desc (map fst ys)"
  shows "merge_hence xs ys =
    map (\<lambda>(x, v). (x, v + score_in ys x)) (filter (\<lambda>(x, v). \<exists>y\<in>fst ` set ys. y \<le> x) xs)"
  using assms
proof (induction xs ys rule: merge_hence.induct)
  case (1 x v xs y w ys)
  have a: "\<forall>z\<in>fst ` set xs. z < x" "desc (map fst xs)" and b: "\<forall>z\<in>fst ` set ys. z < y" "desc (map fst ys)"
    using "1.prems" by auto
  have skip: "map (\<lambda>(x, v). (x, v + score_in ys x)) (filter (\<lambda>(x, v). \<exists>y\<in>fst ` set ys. y \<le> x) zs) =
      map (\<lambda>(x, v). (x, v + score_in ((y, w) # ys) x)) (filter (\<lambda>(x, v). \<exists>y\<in>fst ` set ((y, w) # ys). y \<le> x) zs)"
    if "\<forall>z\<in>fst ` set zs. z < y" for zs :: "(u32 \<times> 's) list"
    using that by (induction zs) (simp, fastforce simp: not_le [symmetric] split: prod.splits)
  consider "x > y" | "x < y" | "x = y" using linorder_less_linear [of x y] by blast
  then show ?case
  proof cases
    case 1
    then have "x \<notin> fst ` set ((y, w) # ys)" using b(1) by auto
    then have "score_in ((y, w) # ys) x = 0" by (rule score_in_absent)
    with 1 "1.IH"(1) [OF 1 a(2) "1.prems"(2)] show ?thesis by (auto intro: less_imp_le)
  next
    case 2
    have "\<forall>z\<in>fst ` set ((x, v) # xs). z < y" using 2 below_trans [OF a(1) 2] by auto
    from skip [OF this] have "merge_hence ((x, v) # xs) ys = map (\<lambda>(x, v). (x, v + score_in ((y, w) # ys) x))
        (filter (\<lambda>(x, v). \<exists>y\<in>fst ` set ((y, w) # ys). y \<le> x) ((x, v) # xs))"
      using "1.IH"(2) [OF less_not_sym [OF 2] 2 "1.prems"(1) b(2)] by (simp only:)
    with 2 less_not_sym [OF 2] show ?thesis by simp
  next
    case 3
    have "\<forall>z\<in>fst ` set xs. z < y" using a(1) 3 by simp
    from skip [OF this] have "merge_hence xs ys = map (\<lambda>(x, v). (x, v + score_in ((y, w) # ys) x))
        (filter (\<lambda>(x, v). \<exists>y\<in>fst ` set ((y, w) # ys). y \<le> x) xs)"
      using "1.IH"(3) [OF _ _ a(2) b(2)] 3 by simp
    with 3 show ?thesis by simp
  qed
qed simp_all

end
