(* ===== verification/Set_Results.thy ===== *)
theory Set_Results
  imports Set_Laws
begin

text \<open>
  The set operations of \<open>Set_Operator\<close> as operations on sets of document numbers, and the
  contract \<open>set_operation\<close> from which the operations on lists of segments follow at once for
  union, intersection and difference.
\<close>

section \<open>What a list of document numbers denotes\<close>

text \<open>Numbers stay below a segment's row limit, itself a 32-bit number, so the largest 32-bit
  number never occurs.\<close>

definition rl_set_ok :: "'s rowid_list \<Rightarrow> bool" where
  "rl_set_ok l \<longleftrightarrow> rl_ok l \<and> desc (rl_ids l) \<and> - 1 \<notin> set (rl_ids l)"

definition set_ok :: "'s rowid_list option \<Rightarrow> bool" where
  "set_ok l = (case l of None \<Rightarrow> True | Some l \<Rightarrow> rl_set_ok l)"

definition members :: "'s rowid_list option \<Rightarrow> u32 set" where
  "members l = (case l of None \<Rightarrow> {} | Some l \<Rightarrow> set (rl_ids l))"

definition score_at :: "'s::zero rowid_list option \<Rightarrow> u32 \<Rightarrow> 's" where
  "score_at l x = (case l of None \<Rightarrow> 0 | Some l \<Rightarrow> score_in (rl_view l) x)"

lemma set_simps [simp]:
  "set_ok None" "set_ok (Some l) = rl_set_ok l" "members None = {}" "members (Some l) = set (rl_ids l)"
  by (simp_all add: set_ok_def members_def)

lemma score_at_simps [simp]: "score_at None x = 0" "score_at (Some l) x = score_in (rl_view l) x"
  by (simp_all add: score_at_def)

lemma rl_empty_members: "rl_empty l \<Longrightarrow> members l = {}"
  by (auto simp: rl_empty_def rl_ids_def split: option.splits)

lemma rl_empty_score: "rl_empty l \<Longrightarrow> score_at l x = 0"
  by (auto simp: rl_empty_def rl_view_def split: option.splits)

lemmas rl_empty_denotes = rl_empty_members rl_empty_score

lemma rl_view_set: "rl_ok l \<Longrightarrow> fst ` set (rl_view l) = set (rl_ids l)"
  by (metis list.set_map map_fst_rl_view)

lemma rl_view_desc: "rl_set_ok l \<Longrightarrow> desc (map fst (rl_view l))"
  by (simp add: rl_set_ok_def map_fst_rl_view)

lemma built_list:
  assumes "acc_ok rs r k" and "desc (map fst (acc_view rs r k))" and "- 1 \<notin> fst ` set (acc_view rs r k)"
  defines "l \<equiv> \<lparr>rl_rowid_num = word_of_nat k, rl_nodes = rs @ [r], rl_tail = Some (length rs)\<rparr>"
  shows "rl_set_ok l" and "rl_view l = acc_view rs r k" and "set (rl_ids l) = fst ` set (acc_view rs r k)"
proof -
  have "k < 2 ^ 32" using desc_fits [OF assms(2)] assms(3) length_acc_view [OF assms(1)] by simp
  note l = acc_list [OF assms(1) this, folded l_def]
  show "rl_view l = acc_view rs r k" by (rule l(2))
  with l(1) show "set (rl_ids l) = fst ` set (acc_view rs r k)" by (simp flip: rl_view_set)
  with l assms(2,3) show "rl_set_ok l"
    by (simp add: rl_set_ok_def flip: map_fst_rl_view)
qed

section \<open>Union\<close>

lemma rowid_union_denotes:
  fixes a :: "'s::monoid_add rowid_list option"
  assumes "set_ok a" and "set_ok b"
  shows "\<exists>c. rowid_union a b = Some c \<and> set_ok c \<and> members c = members a \<union> members b \<and>
    (\<forall>x. score_at c x = score_at a x + score_at b x)"
proof (cases "rl_empty a \<or> rl_empty b")
  case True
  with assms show ?thesis by (auto simp: rowid_union_def rl_empty_denotes)
next
  case False
  then obtain a' b' where ab: "a = Some a'" "b = Some b'" by (cases a; cases b) (auto simp: rl_empty_def)
  then have s: "rl_set_ok a'" "rl_set_ok b'" and ok: "rl_ok a'" "rl_ok b'"
    using assms by (simp_all add: rl_set_ok_def)
  have m: "fst ` set (merge_union (rl_view a') (rl_view b')) = members a \<union> members b"
    using ok ab by (simp add: merge_union_set rl_view_set)
  from union_loop_merges [OF ok acc_start(1), of 0 0] obtain i j rs r k where
    u: "union_loop a' b' 0 0 0 0 [] blank_node 0 = Some (i div 256, i, j div 256, j, rs, r, k)"
    "acc_ok rs r k" "i \<le> unat (rl_rowid_num a')" "j \<le> unat (rl_rowid_num b')"
    "i = unat (rl_rowid_num a') \<or> j = unat (rl_rowid_num b')"
    "merge_union (rl_view a') (rl_view b') =
      acc_view rs r k @ merge_union (drop i (rl_view a')) (drop j (rl_view b'))"
    by (auto simp: acc_start)
  obtain rs' r' k' where rest:
    "(if j = unat (rl_rowid_num b') then rest_loop a' (i div 256) i rs r k
      else rest_loop b' (j div 256) j rs r k) = Some (rs', r', k')" "acc_ok rs' r' k'"
    "acc_view rs' r' k' = merge_union (rl_view a') (rl_view b')"
    using rest_loop_copies [OF ok(1) u(2,3)] rest_loop_copies [OF ok(2) u(2,4)] u(5,6) ok
    by (cases "j = unat (rl_rowid_num b')") auto
  let ?c = "\<lparr>rl_rowid_num = word_of_nat k', rl_nodes = rs' @ [r'], rl_tail = Some (length rs')\<rparr>"
  have "rowid_union a b = Some (Some ?c)"
    using False u(1) rest(1) by (simp add: rowid_union_def ab)
  moreover have "rl_set_ok ?c" "rl_view ?c = merge_union (rl_view a') (rl_view b')"
    "set (rl_ids ?c) = members a \<union> members b"
    using built_list [OF rest(2)] m s ab unfolding rest(3)
    by (auto simp: merge_union_desc rl_view_desc rl_set_ok_def)
  ultimately show ?thesis
    using s ab by (intro exI [of _ "Some ?c"]) (simp add: merge_union_score rl_view_desc)
qed

section \<open>Intersection\<close>

lemma clear_list_denotes [simp]: "rl_set_ok (clear_list l)" "rl_ids (clear_list l) = []"
  by (simp_all add: clear_list_def rl_set_ok_def rl_ok_def rl_ids_def)

lemma rowid_intersection_denotes:
  fixes a :: "'s::monoid_add rowid_list option"
  assumes "set_ok a" and "set_ok b"
  shows "\<exists>c. rowid_intersection a b = Some c \<and> set_ok c \<and> members c = members a \<inter> members b \<and>
    (\<forall>x \<in> members c. score_at c x = score_at a x + score_at b x)"
proof (cases "rl_empty a \<or> rl_empty b")
  case True
  with assms show ?thesis by (auto simp: rowid_intersection_def rl_empty_denotes)
next
  case False
  then obtain a' b' where ab: "a = Some a'" "b = Some b'" by (cases a; cases b) (auto simp: rl_empty_def)
  then have s: "rl_set_ok a'" "rl_set_ok b'" and ok: "rl_ok a'" "rl_ok b'"
    using assms by (simp_all add: rl_set_ok_def)
  let ?m = "merge_inter (rl_view a') (rl_view b')"
  have m: "fst ` set ?m = members a \<inter> members b"
    using ok s ab by (simp add: merge_inter_set rl_view_set rl_view_desc)
  from intersection_loop_merges [OF ok acc_start(1), of 0 0] obtain rs r k where
    u: "intersection_loop a' b' 0 0 0 0 [] blank_node 0 = Some (rs, r, k)" "acc_ok rs r k"
    "acc_view rs r k = ?m"
    by (auto simp: acc_start)
  let ?c = "\<lparr>rl_rowid_num = word_of_nat k, rl_nodes = rs @ [r], rl_tail = Some (length rs)\<rparr>"
  have c: "rl_set_ok ?c" "rl_view ?c = ?m" "set (rl_ids ?c) = members a \<inter> members b"
    using built_list [OF u(2)] m s ab unfolding u(3)
    by (auto simp: merge_inter_desc rl_view_desc rl_set_ok_def)
  show ?thesis
  proof (cases "k = 0")
    case True
    then have "members a \<inter> members b = {}" using length_acc_view [OF u(2)] m u(3) by simp
    with True False u(1) show ?thesis by (simp add: rowid_intersection_def ab)
  next
    case k: False
    have "rowid_intersection a b = Some (Some ?c)"
      using False u(1) k by (simp add: rowid_intersection_def ab)
    then show ?thesis
      using c s ab ok merge_inter_score [OF rl_view_desc rl_view_desc, OF s]
      by (intro exI [of _ "Some ?c"]) (auto simp: rl_view_set)
  qed
qed

section \<open>Difference\<close>

text \<open>The first list with the kept numbers, cut behind the last block they need.\<close>

lemma cut_list:
  assumes inv: "minus_inv (map rn_score_array (rl_nodes a)) xs ns i pre k out"
    and k: "0 < k" "k < 2 ^ 32"
  obtains t n where "(if k mod ROWID_ARRAY_SIZE = 0 then pre else Some (k div ROWID_ARRAY_SIZE)) = Some t"
    and "rd ns t = Some n"
    and "let c = a\<lparr>rl_nodes := take (Suc t) ns, rl_rowid_num := word_of_nat k, rl_tail := Some t\<rparr> in
      rl_ok c \<and> rl_ids c = out \<and> (\<forall>m < k. rl_score c m = rl_score a m)"
proof -
  define t where "t = (k - 1) div 256"
  have ns: "list_all node_ok ns" "k \<le> length (flat ns)" "take k (flat ns) = out"
    "map rn_score_array ns = map rn_score_array (rl_nodes a)"
    using inv by (auto simp: minus_inv_def)
  obtain h where h: "k = Suc h" using k(1) by (cases k) auto
  have t: "(if k mod 256 = 0 then pre else Some (k div 256)) = Some t"
  proof (cases "k mod 256 = 0")
    case True
    then have "k div 256 = Suc t" "\<not> k < 256" using h by (auto simp: t_def div_Suc dest: dvd_imp_le)
    with True inv show ?thesis by (simp add: minus_inv_def)
  next
    case False
    with h show ?thesis by (simp add: t_def div_Suc)
  qed
  have "h < 256 * length ns" using ns(1,2) h by (simp add: length_flat)
  then have tn: "t < length ns" using block_of_index [of h] by (simp add: t_def h)
  let ?c = "a\<lparr>rl_nodes := take (Suc t) ns, rl_rowid_num := word_of_nat k, rl_tail := Some t\<rparr>"
  have u: "unat (rl_rowid_num ?c) = k" using k by (simp add: unat_word_of_nat_u32)
  have ok: "list_all node_ok (take (Suc t) ns)" using ns(1) by (auto simp: list_all_iff dest: in_set_takeD)
  have "k \<le> 256 * Suc t" using h by (simp add: t_def)
  also have "\<dots> = length (flat (take (Suc t) ns))" using length_flat [OF ok] tn by simp
  finally have le: "k \<le> length (flat (take (Suc t) ns))" .
  have "flat ns = flat (take (Suc t) ns) @ flat (drop (Suc t) ns)"
    by (metis append_take_drop_id flat_simps(3))
  then have "take k (flat (take (Suc t) ns)) = out" using ns(3) le by simp
  moreover have "rl_score ?c m = rl_score a m" if "m < k" for m
  proof -
    have "m div 256 \<le> t" unfolding t_def using that h by (intro div_le_mono) simp
    moreover from this have "rn_score_array (ns ! (m div 256)) = rn_score_array (rl_nodes a ! (m div 256))"
      using ns(4) tn by (metis le_less_trans length_map nth_map)
    ultimately show ?thesis by (simp add: rl_score_def)
  qed
  ultimately have "let c = ?c in rl_ok c \<and> rl_ids c = out \<and> (\<forall>m < k. rl_score c m = rl_score a m)"
    using u ok le by (simp add: rl_ok_def rl_ids_def Let_def)
  moreover have "rd ns t = Some (ns ! t)" using tn by (simp add: rd_def)
  ultimately show ?thesis using that t by blast
qed

lemma rowid_minus_denotes:
  assumes "set_ok a" and "set_ok b"
  shows "\<exists>c. rowid_minus a b = Some c \<and> set_ok c \<and> members c = members a - members b \<and>
    (\<forall>a' c'. a = Some a' \<and> c = Some c' \<longrightarrow>
       rl_ids c' = filter (\<lambda>x. x \<notin> members b) (rl_ids a') \<and>
       (\<forall>m < unat (rl_rowid_num c'). rl_score c' m = rl_score a' m))"
proof (cases "rl_empty a \<or> rl_empty b")
  case True
  then have "members a = {} \<or> members b = {}" using rl_empty_members by blast
  moreover have "rl_ids a' = []" if "members (Some a') = {}" for a' using that by simp
  ultimately show ?thesis using True assms(1)
    by (intro exI [of _ a]) (auto simp: rowid_minus_def filter_empty_conv)
next
  case False
  then obtain a' b' where ab: "a = Some a'" "b = Some b'" by (cases a; cases b) (auto simp: rl_empty_def)
  then have s: "rl_set_ok a'" "rl_set_ok b'" and ok: "rl_ok a'" "rl_ok b'"
    using assms by (simp_all add: rl_set_ok_def)
  let ?out = "filter (\<lambda>x. x \<notin> set (rl_ids b')) (rl_ids a')"
  let ?inv = "minus_inv (map rn_score_array (rl_nodes a')) (rl_ids a')"
  have "?inv (rl_nodes a') 0 None 0 []"
    using ok(1) by (auto simp: minus_inv_def rl_ok_def rl_ids_def)
  from minus_loop_keeps [OF ok(2) this, of 0] obtain ns i pre k out where
    l: "minus_loop (unat (rl_rowid_num a')) b' (rl_nodes a') 0 0 0 0 0 None 0 =
      Some (ns, i div 256, i, k div 256, pre, k)" "?inv ns i pre k out"
      "out @ drop i (rl_ids a') = ?out"
    using ok s by (auto simp: rl_set_ok_def merge_minus_filter)
  from minus_rest_loop_keeps [OF l(2)] obtain ns' pre' k' where
    r: "minus_rest_loop (unat (rl_rowid_num a')) ns (i div 256) i (k div 256) pre k =
      Some (ns', k' div 256, pre', k')" "?inv ns' (length (rl_ids a')) pre' k' ?out"
    using ok(1) l(3) by auto
  have out: "desc ?out" "- 1 \<notin> set ?out" using s by (auto simp: rl_set_ok_def sorted_wrt_filter)
  have "take k' (flat ns') = ?out" "k' \<le> length (flat ns')" using r(2) by (auto simp: minus_inv_def)
  then have k': "k' = length ?out" by (metis length_take min.absorb2)
  show ?thesis
  proof (cases "k' = 0")
    case True
    then have "?out = []" using k' by simp
    moreover from this have "members a - members b = {}" by (auto simp: ab filter_empty_conv)
    moreover have "rowid_minus a b = Some (Some (clear_list a'))"
      using False l(1) r(1) True by (simp add: rowid_minus_def ab)
    ultimately show ?thesis using ab by (intro exI [of _ "Some (clear_list a')"]) (simp, simp add: clear_list_def)
  next
    case k: False
    have lt: "0 < k'" "k' < 2 ^ 32" using k desc_fits [OF out] k' by simp_all
    from cut_list [OF r(2) lt] obtain t n where t: "(if k' mod 256 = 0 then pre' else Some (k' div 256)) = Some t" "rd ns' t = Some n"
      "let c = a'\<lparr>rl_nodes := take (Suc t) ns', rl_rowid_num := word_of_nat k', rl_tail := Some t\<rparr> in
        rl_ok c \<and> rl_ids c = ?out \<and> (\<forall>m < k'. rl_score c m = rl_score a' m)"
      .
    let ?c = "a'\<lparr>rl_nodes := take (Suc t) ns', rl_rowid_num := word_of_nat k', rl_tail := Some t\<rparr>"
    have "rowid_minus a b = Some (Some ?c)"
      using False l(1) r(1) k t(1,2) by (simp add: rowid_minus_def ab)
    moreover have "rl_ok ?c" "rl_ids ?c = ?out" "\<forall>m < k'. rl_score ?c m = rl_score a' m"
      using t(3) by (simp_all add: Let_def)
    moreover have "unat (rl_rowid_num ?c) = k'"
      using lt by (simp add: unat_word_of_nat_u32)
    ultimately show ?thesis using out ab
      by (intro exI [of _ "Some ?c"]) (auto simp: rl_set_ok_def)
  qed
qed

section \<open>Segments\<close>

text \<open>
  The contract of an operation on lists: it never fails on well-formed lists, its result is
  well-formed, and whether a number is in the result depends on where it was before, with
  nothing coming from nothing.
\<close>

locale set_operation =
  fixes oper :: "'s rowid_list option \<Rightarrow> 's rowid_list option \<Rightarrow> 's rowid_list option option"
    and keep :: "bool \<Rightarrow> bool \<Rightarrow> bool"
  assumes oper_law: "set_ok a \<Longrightarrow> set_ok b \<Longrightarrow>
      \<exists>c. oper a b = Some c \<and> set_ok c \<and> (\<forall>x. x \<in> members c \<longleftrightarrow> keep (x \<in> members a) (x \<in> members b))"
    and keep_law: "\<not> keep False False"
begin

lemma zip_loop:
  assumes "map sq_sid as = map sq_sid bs" and "list_all (\<lambda>q. set_ok (sq_rowids q)) as"
    and "list_all (\<lambda>q. set_ok (sq_rowids q)) bs"
  shows "\<exists>cs. seg_zip_loop oper as bs rs = Some (Some (rs @ cs)) \<and> map sq_sid cs = map sq_sid as \<and>
    list_all (\<lambda>q. set_ok (sq_rowids q)) cs \<and>
    (\<forall>i < length as. \<forall>x. x \<in> members (sq_rowids (cs ! i)) \<longleftrightarrow>
       keep (x \<in> members (sq_rowids (as ! i))) (x \<in> members (sq_rowids (bs ! i))))"
  using assms
proof (induction as arbitrary: bs rs)
  case Nil
  then show ?case by simp
next
  case (Cons qa as)
  then obtain qb bs' where bs: "bs = qb # bs'" "sq_sid qb = sq_sid qa" "map sq_sid as = map sq_sid bs'"
    by (cases bs) auto
  obtain c where c: "oper (sq_rowids qa) (sq_rowids qb) = Some c" "set_ok c"
    "\<forall>x. x \<in> members c \<longleftrightarrow> keep (x \<in> members (sq_rowids qa)) (x \<in> members (sq_rowids qb))"
    using oper_law [of "sq_rowids qa" "sq_rowids qb"] Cons.prems bs(1) by auto
  let ?q = "\<lparr>sq_sid = sq_sid qa, sq_max_docid = 0, sq_rowids = c\<rparr>"
  obtain cs where cs: "seg_zip_loop oper as bs' (rs @ [?q]) = Some (Some ((rs @ [?q]) @ cs))"
    "map sq_sid cs = map sq_sid as" "list_all (\<lambda>q. set_ok (sq_rowids q)) cs"
    "\<forall>i < length as. \<forall>x. x \<in> members (sq_rowids (cs ! i)) \<longleftrightarrow>
       keep (x \<in> members (sq_rowids (as ! i))) (x \<in> members (sq_rowids (bs' ! i)))"
    using Cons.IH [OF bs(3), of "rs @ [?q]"] Cons.prems bs(1) by auto
  show ?case
    using bs c cs by (intro exI [of _ "?q # cs"]) (simp add: All_less_Suc2)
qed

end

text \<open>A document of the table is named by its segment and its number there.\<close>

definition docs :: "'s segment_query_rowids list \<Rightarrow> (u16 \<times> u32) set" where
  "docs qs = {(sq_sid q, x) |q x. q \<in> set qs \<and> x \<in> members (sq_rowids q)}"

definition segs_ok :: "'s segment_query_rowids list \<Rightarrow> bool" where
  "segs_ok qs \<longleftrightarrow> distinct (map sq_sid qs) \<and> list_all (\<lambda>q. set_ok (sq_rowids q)) qs"

lemma docs_nth:
  assumes "distinct (map sq_sid qs)" and "i < length qs"
  shows "(sq_sid (qs ! i), x) \<in> docs qs \<longleftrightarrow> x \<in> members (sq_rowids (qs ! i))"
proof -
  have "q = qs ! i" if "q \<in> set qs" "sq_sid q = sq_sid (qs ! i)" for q
    using assms that by (auto simp: distinct_map inj_on_def)
  then show ?thesis using assms(2) by (auto simp: docs_def)
qed

lemma docs_sid: "d \<in> docs qs \<Longrightarrow> fst d \<in> set (map sq_sid qs)"
  by (auto simp: docs_def)

context set_operation
begin

lemma zip_docs:
  assumes "map sq_sid as = map sq_sid bs" and "segs_ok as" and "segs_ok bs"
  shows "\<exists>cs. seg_zip_loop oper as bs [] = Some (Some cs) \<and> segs_ok cs \<and>
    map sq_sid cs = map sq_sid as \<and> (\<forall>d. d \<in> docs cs \<longleftrightarrow> keep (d \<in> docs as) (d \<in> docs bs))"
proof -
  obtain cs where cs: "seg_zip_loop oper as bs [] = Some (Some cs)" "map sq_sid cs = map sq_sid as"
    "list_all (\<lambda>q. set_ok (sq_rowids q)) cs"
    "\<And>i x. i < length as \<Longrightarrow> x \<in> members (sq_rowids (cs ! i)) \<longleftrightarrow>
       keep (x \<in> members (sq_rowids (as ! i))) (x \<in> members (sq_rowids (bs ! i)))"
    using zip_loop [OF assms(1), of "[]"] assms(2,3) by (auto simp: segs_ok_def)
  have d: "distinct (map sq_sid cs)" "distinct (map sq_sid bs)" "distinct (map sq_sid as)"
    using cs(2) assms by (simp_all add: segs_ok_def)
  have len: "length cs = length as" "length bs = length as"
    using cs(2) assms(1) by (metis length_map)+
  have "d \<in> docs cs \<longleftrightarrow> keep (d \<in> docs as) (d \<in> docs bs)" for d
  proof (cases "fst d \<in> set (map sq_sid as)")
    case True
    then obtain i where i: "i < length as" "fst d = sq_sid (as ! i)" by (auto simp: in_set_conv_nth)
    then have "fst d = sq_sid (bs ! i)" "fst d = sq_sid (cs ! i)"
      using assms(1) cs(2) len by (metis nth_map)+
    with i docs_nth [OF d(1), of i "snd d"] docs_nth [OF d(2), of i "snd d"]
      docs_nth [OF d(3), of i "snd d"] len cs(4) [OF i(1), of "snd d"]
    show ?thesis by (cases d) simp
  next
    case False
    then have "d \<notin> docs as" "d \<notin> docs bs" "d \<notin> docs cs"
      using assms(1) cs(2) docs_sid by metis+
    then show ?thesis by (simp add: keep_law)
  qed
  with cs d(1) show ?thesis by (auto simp: segs_ok_def)
qed

end

interpretation un: set_operation "rowid_union :: 's::monoid_add rowid_list option \<Rightarrow> _" "(\<or>)"
  by unfold_locales (use rowid_union_denotes in fast, simp)

interpretation it: set_operation "rowid_intersection :: 's::monoid_add rowid_list option \<Rightarrow> _" "(\<and>)"
  by unfold_locales (use rowid_intersection_denotes in fast, simp)

interpretation mi: set_operation "rowid_minus :: 's rowid_list option \<Rightarrow> _" "\<lambda>p q. p \<and> \<not> q"
  by unfold_locales (use rowid_minus_denotes in fast, simp)

section \<open>Properties\<close>

text \<open>A one-block list of scored numbers, for instances.\<close>

definition sample :: "(u32 \<times> 's::zero) list \<Rightarrow> 's rowid_list" where
  "sample xs = \<lparr>rl_rowid_num = word_of_nat (length xs),
     rl_nodes = [\<lparr>rn_rowid_array = map fst xs @ replicate (ROWID_ARRAY_SIZE - length xs) 0,
       rn_score_array = Some (map snd xs @ replicate (ROWID_ARRAY_SIZE - length xs) 0)\<rparr>],
     rl_tail = Some 0\<rparr>"

lemma sample_denotes:
  assumes "length xs \<le> ROWID_ARRAY_SIZE"
  shows "rl_ok (sample xs)" and "rl_ids (sample xs) = map fst xs" and "rl_view (sample xs) = xs"
    and "rl_set_ok (sample xs) \<longleftrightarrow> desc (map fst xs) \<and> - 1 \<notin> fst ` set xs"
    and "m < length xs \<Longrightarrow> rl_score (sample xs) m = Some (snd (xs ! m))"
proof -
  have u: "unat (rl_rowid_num (sample xs)) = length xs"
    using assms by (simp add: sample_def unat_word_of_nat_u32)
  show ok: "rl_ok (sample xs)" using assms u by (simp add: rl_ok_def node_ok_def) (simp add: sample_def node_ok_def)
  show ids: "rl_ids (sample xs) = map fst xs" using u by (simp add: rl_ids_def) (simp add: sample_def)
  show "rl_view (sample xs) = xs"
    using u by (simp add: rl_view_def) (simp add: sample_def node_view_def score_slot_def zip_map_fst_snd)
  show "rl_set_ok (sample xs) \<longleftrightarrow> desc (map fst xs) \<and> - 1 \<notin> fst ` set xs"
    using ok ids by (simp add: rl_set_ok_def)
  show "rl_score (sample xs) m = Some (snd (xs ! m))" if "m < length xs"
    using that assms by (simp add: rl_score_def sample_def nth_append)
qed

text \<open>C11: Union of two descending lists never fails; the result is a well-formed descending list
  of exactly the numbers of both, and the score of every number is the sum of its scores in
  the two lists (a list without scores counts as zero).\<close>

theorem rowid_union_is_set_union:
  fixes a :: "'s::monoid_add rowid_list option"
  assumes "set_ok a" and "set_ok b"
  shows "\<exists>c. rowid_union a b = Some c \<and> set_ok c \<and> members c = members a \<union> members b \<and>
    (\<forall>x. score_at c x = score_at a x + score_at b x)"
  by (rule rowid_union_denotes [OF assms])

text \<open>C12: Intersection never fails; the result is a well-formed descending list of exactly the
  common numbers, each with the sum of its two scores.\<close>

theorem rowid_intersection_is_set_intersection:
  fixes a :: "'s::monoid_add rowid_list option"
  assumes "set_ok a" and "set_ok b"
  shows "\<exists>c. rowid_intersection a b = Some c \<and> set_ok c \<and> members c = members a \<inter> members b \<and>
    (\<forall>x \<in> members c. score_at c x = score_at a x + score_at b x)"
  by (rule rowid_intersection_denotes [OF assms])

text \<open>C13: Difference, computed in the first list's own blocks, never fails; the result is a
  well-formed descending list of exactly the numbers of the first list that the second lacks,
  in their old order.  The scores do not move with the numbers: position \<open>m\<close> of the result has
  the score that position \<open>m\<close> of the first list had.\<close>

theorem rowid_minus_is_set_difference:
  assumes "set_ok (Some a)" and "set_ok b"
  shows "\<exists>c. rowid_minus (Some a) b = Some (Some c) \<and> set_ok (Some c) \<and>
    members (Some c) = members (Some a) - members b \<and>
    rl_ids c = filter (\<lambda>x. x \<notin> members b) (rl_ids a) \<and>
    (\<forall>m < unat (rl_rowid_num c). rl_score c m = rl_score a m)"
proof -
  obtain c where c: "rowid_minus (Some a) b = Some c" "set_ok c" "members c = members (Some a) - members b"
    "\<And>c'. c = Some c' \<Longrightarrow> rl_ids c' = filter (\<lambda>x. x \<notin> members b) (rl_ids a) \<and>
       (\<forall>m < unat (rl_rowid_num c'). rl_score c' m = rl_score a m)"
    using rowid_minus_denotes [OF assms] by blast
  have "c \<noteq> None"
    using c(1) by (auto simp: rowid_minus_def bind_eq_Some_conv split: if_splits prod.splits)
  with c show ?thesis by auto
qed

text \<open>C10: On segment lists that name the same distinct segments in the same order, the segment
  operations return, for the same segments, the union, intersection and difference of the two
  sets of documents.\<close>

theorem seg_operations_are_set_operations:
  fixes as bs :: "'s::monoid_add segment_query_rowids list"
  assumes "map sq_sid as = map sq_sid bs" and "segs_ok as" and "segs_ok bs"
  shows "(\<exists>cs. seg_rowid_union (Some as) (Some bs) = Some (Some cs) \<and> segs_ok cs \<and>
      map sq_sid cs = map sq_sid as \<and> docs cs = docs as \<union> docs bs) \<and>
    (\<exists>cs. seg_rowid_intersection (Some as) (Some bs) = Some (Some cs) \<and> segs_ok cs \<and>
      map sq_sid cs = map sq_sid as \<and> docs cs = docs as \<inter> docs bs) \<and>
    (\<exists>cs. seg_rowid_minus (Some as) (Some bs) = Some (Some cs) \<and> segs_ok cs \<and>
      map sq_sid cs = map sq_sid as \<and> docs cs = docs as - docs bs)"
  using un.zip_docs [OF assms] it.zip_docs [OF assms] mi.zip_docs [OF assms]
  by (auto simp: seg_rowid_union_def seg_rowid_intersection_def seg_rowid_minus_def)

text \<open>C36: The full-text combination means to add the second list's scores to the first list.  On
  descending lists whose blocks have scores it never fails, and what it leaves of the first
  list are the numbers down to the smallest one of the second list, each with its score plus
  the score the second list has for it: the loop ends with the second list, and the rest of
  the first one, all numbers below, is lost.\<close>

theorem rowid_fulltext_hence_drops_rest:
  fixes a b :: "'s::monoid_add rowid_list"
  assumes "rl_set_ok a" and "rl_set_ok b" and "scored (rl_nodes a)" and "scored (rl_nodes b)" and "rl_rowid_num b \<noteq> 0"
  shows "\<exists>c. rowid_fulltext_hence (Some a) (Some b) = Some (Some c) \<and> rl_ok c \<and>
    rl_view c = map (\<lambda>(x, v). (x, v + score_in (rl_view b) x)) (filter (\<lambda>(x, v). \<exists>y\<in>set (rl_ids b). y \<le> x) (rl_view a))"
proof (cases "rl_rowid_num a = 0")
  case True
  then have "rl_view a = []" by (simp add: rl_view_def)
  then show ?thesis using True assms(1) by (intro exI [of _ a]) (simp add: rowid_fulltext_hence_def rl_empty_def rl_set_ok_def)
next
  case False
  have ok: "rl_ok a" "rl_ok b" using assms(1,2) by (simp_all add: rl_set_ok_def)
  let ?n = "unat (rl_rowid_num a)"
  have n: "?n \<le> length (view (rl_nodes a))" using ok(1) by (auto simp: rl_ok_def length_view length_flat)
  obtain ns k where l: "hence_loop ?n b (rl_nodes a) 0 0 0 0 0 0 = Some (ns, k div 256, k)" "scored ns" "k \<le> ?n" "?n \<le> length (view ns)"
    "take k (view ns) = merge_hence (rl_view a) (rl_view b)"
    using hence_loop_merges [OF ok(2) assms(4,3), of 0 ?n 0] n by (auto simp: rl_view_def)
  have m: "merge_hence (rl_view a) (rl_view b) = map (\<lambda>(x, v). (x, v + score_in (rl_view b) x))
      (filter (\<lambda>(x, v). \<exists>y\<in>set (rl_ids b). y \<le> x) (rl_view a))"
    using merge_hence_filter [OF rl_view_desc [OF assms(1)] rl_view_desc [OF assms(2)]] rl_view_set [OF ok(2)] by simp
  define c where "c = (if k = 0 then clear_list a else a\<lparr>rl_nodes := ns, rl_rowid_num := word_of_nat k, rl_tail := block_ptr ns (k div 256)\<rparr>)"
  have r: "rowid_fulltext_hence (Some a) (Some b) = Some (Some c)"
    using l(1) assms(5) False by (simp add: rowid_fulltext_hence_def rl_empty_def c_def)
  have u: "unat (word_of_nat k :: u32) = k" using l(3) u32_bound [of "rl_rowid_num a"] by (intro unat_word_of_nat_u32) linarith
  have "rl_ok c \<and> rl_view c = take k (view ns)"
  proof (cases "k = 0")
    case True
    then show ?thesis by (simp add: c_def rl_view_def) (simp add: clear_list_def rl_ok_def)
  next
    case False
    then show ?thesis using u l(2-4) scored_ok [OF l(2)] length_view [OF scored_ok [OF l(2)]] length_flat [OF scored_ok [OF l(2)]]
      by (simp add: c_def rl_view_def rl_ok_def)
  qed
  with r l(5) m show ?thesis by auto
qed

section \<open>Instances\<close>

theorem rowid_fulltext_hence_drops_rest_witness:
  "\<exists>c. rowid_fulltext_hence (Some (sample [(7, 1), (6, 4), (5, 2 :: nat)])) (Some (sample [(6, 8)])) = Some (Some c) \<and>
     rl_view c = [(7, 1), (6, 12)]"
proof -
  let ?a = "sample [(7, 1), (6, 4), (5, 2 :: nat)]" and ?b = "sample [(6, 8 :: nat)]"
  have "scored (rl_nodes ?a)" "scored (rl_nodes ?b)" "rl_rowid_num ?b \<noteq> 0"
    by (simp_all add: scored_def sample_def node_ok_def)
  from rowid_fulltext_hence_drops_rest [OF _ _ this] show ?thesis by (auto simp: sample_denotes)
qed

theorem rowid_union_is_set_union_witness:
  "\<exists>c. rowid_union (Some (sample [(7, 1), (5, 2 :: nat)])) (Some (sample [(6, 8), (5, 3)])) = Some c \<and>
    members c = {7, 6, 5} \<and> score_at c 5 = 5"
proof -
  have "set_ok (Some (sample [(7, 1), (5, 2 :: nat)]))" "set_ok (Some (sample [(6, 8), (5, 3 :: nat)]))"
    by (simp_all add: sample_denotes)
  from rowid_union_is_set_union [OF this] show ?thesis by (auto simp: sample_denotes)
qed

theorem rowid_intersection_is_set_intersection_witness:
  "\<exists>c. rowid_intersection (Some (sample [(7, 1), (5, 2 :: nat)])) (Some (sample [(6, 8), (5, 3)])) = Some c \<and>
    members c = {5} \<and> score_at c 5 = 5"
proof -
  have "set_ok (Some (sample [(7, 1), (5, 2 :: nat)]))" "set_ok (Some (sample [(6, 8), (5, 3 :: nat)]))"
    by (simp_all add: sample_denotes)
  from rowid_intersection_is_set_intersection [OF this] show ?thesis by (auto simp: sample_denotes)
qed

text \<open>The difference of 7 (score 1), 5 (score 2) and 7 is 5, with the score of 7.\<close>

theorem rowid_minus_is_set_difference_witness:
  "\<exists>c. rowid_minus (Some (sample [(7, 1), (5, 2 :: nat)])) (Some (sample [(7, 0)])) = Some (Some c) \<and>
    rl_ids c = [5] \<and> rl_score c 0 = Some 1"
proof -
  have "set_ok (Some (sample [(7, 1), (5, 2 :: nat)]))" "set_ok (Some (sample [(7, 0 :: nat)]))"
    by (simp_all add: sample_denotes)
  from rowid_minus_is_set_difference [OF this] obtain c where
    c: "rowid_minus (Some (sample [(7, 1), (5, 2 :: nat)])) (Some (sample [(7, 0)])) = Some (Some c)"
    "rl_set_ok c" "rl_ids c = [5]" "\<forall>m < unat (rl_rowid_num c). rl_score c m = rl_score (sample [(7, 1), (5, 2)]) m"
    by (auto simp: sample_denotes)
  have "unat (rl_rowid_num c) = 1" using c(2,3) length_rl_ids [of c] by (simp add: rl_set_ok_def)
  with c show ?thesis by (simp add: sample_denotes)
qed

theorem seg_operations_are_set_operations_witness:
  "\<exists>cs. seg_rowid_minus (Some [\<lparr>sq_sid = 3, sq_max_docid = 9, sq_rowids = Some (sample [(7, 1), (5, 2 :: nat)])\<rparr>])
      (Some [\<lparr>sq_sid = 3, sq_max_docid = 9, sq_rowids = Some (sample [(7, 0)])\<rparr>]) = Some (Some cs) \<and>
    docs cs = {(3, 5)}"
proof -
  let ?as = "[\<lparr>sq_sid = 3, sq_max_docid = 9, sq_rowids = Some (sample [(7, 1), (5, 2 :: nat)])\<rparr>]"
  let ?bs = "[\<lparr>sq_sid = 3, sq_max_docid = 9, sq_rowids = Some (sample [(7, 0 :: nat)])\<rparr>]"
  have h: "map sq_sid ?as = map sq_sid ?bs" "segs_ok ?as" "segs_ok ?bs"
    by (simp_all add: segs_ok_def sample_denotes)
  have "docs ?as = {(3, 7), (3, 5)}" "docs ?bs = {(3, 7)}" by (auto simp: docs_def sample_denotes)
  then have d: "docs ?as - docs ?bs = {(3, 5)}" by (simp only:) simp
  from seg_operations_are_set_operations [OF h, unfolded d] show ?thesis by blast
qed

end
