(* ===== verification/Raw_Mem.thy ===== *)
theory Raw_Mem
  imports Mile_Prelude
begin

text \<open>
  Packed little-endian integers in a byte region: reading and writing a field of a packed
  struct at a byte offset.  An access outside the region is \<^term>\<open>None\<close>.
\<close>

definition get_le :: "nat \<Rightarrow> u8 list \<Rightarrow> nat \<Rightarrow> 'a::len word option" where
  "get_le n m off = map_option le_word (rd_range m off n)"

definition put_le :: "nat \<Rightarrow> u8 list \<Rightarrow> nat \<Rightarrow> 'a::len word \<Rightarrow> u8 list option" where
  "put_le n m off w = wr_range m off (le_bytes n w)"

abbreviation get32 :: "u8 list \<Rightarrow> nat \<Rightarrow> u32 option" where "get32 \<equiv> get_le 4"
abbreviation put32 :: "u8 list \<Rightarrow> nat \<Rightarrow> u32 \<Rightarrow> u8 list option" where "put32 \<equiv> put_le 4"
abbreviation get64 :: "u8 list \<Rightarrow> nat \<Rightarrow> u64 option" where "get64 \<equiv> get_le 8"
abbreviation put64 :: "u8 list \<Rightarrow> nat \<Rightarrow> u64 \<Rightarrow> u8 list option" where "put64 \<equiv> put_le 8"

definition zero_range :: "u8 list \<Rightarrow> nat \<Rightarrow> nat \<Rightarrow> u8 list option" where
  "zero_range m off n = wr_range m off (replicate n 0)"

named_theorems raw_simps \<open>reading a packed field after a write\<close>

lemma put_le_some:
  assumes "off + n \<le> length m"
  obtains m' where "put_le n m off w = Some m'" and "length m' = length m"
proof -
  obtain m' where m': "wr_range m off (le_bytes n w) = Some m'" using assms by (simp add: wr_range_def)
  then show ?thesis using that wr_range_length [OF m'] by (simp add: put_le_def)
qed

lemma get_le_some: "off + n \<le> length m \<Longrightarrow> \<exists>w. get_le n m off = Some w"
  by (simp add: get_le_def rd_range_def)

lemma get_le_bound: "get_le n m off = Some w \<Longrightarrow> off + n \<le> length m"
  by (auto simp: get_le_def rd_range_def split: if_splits)

lemma put_le_length [raw_simps]: "put_le n m off w = Some m' \<Longrightarrow> length m' = length m"
  unfolding put_le_def by (rule wr_range_length)

lemma get_put_same:
  fixes w :: "'a::len word"
  assumes "put_le n m off w = Some m'" and "LENGTH('a) = 8 * n"
  shows "get_le n m' off = Some w"
  using assms rd_wr_range_same [of m off "le_bytes n w" m' n]
  by (simp add: put_le_def get_le_def le_word_le_bytes)

lemma get_put_other:
  "put_le n m off w = Some m' \<Longrightarrow> off' + k \<le> off \<or> off + n \<le> off' \<Longrightarrow> get_le k m' off' = get_le k m off'"
  unfolding put_le_def get_le_def by (subst rd_wr_range_disjoint) auto

lemma get_put32_same [raw_simps]: "put32 m off w = Some m' \<Longrightarrow> get32 m' off = Some w"
  by (rule get_put_same) simp_all

lemma get_put64_same [raw_simps]: "put64 m off w = Some m' \<Longrightarrow> get64 m' off = Some w"
  by (rule get_put_same) simp_all

lemma zero_range_some:
  assumes "off + n \<le> length m"
  obtains m' where "zero_range m off n = Some m'" and "length m' = length m"
proof -
  obtain m' where m': "wr_range m off (replicate n 0) = Some m'" using assms by (simp add: wr_range_def)
  then show ?thesis using that wr_range_length [OF m'] by (simp add: zero_range_def)
qed

lemma zero_range_length: "zero_range m off n = Some m' \<Longrightarrow> length m' = length m"
  unfolding zero_range_def by (rule wr_range_length)

lemma get_zero_other:
  "zero_range m off n = Some m' \<Longrightarrow> off' + k \<le> off \<or> off + n \<le> off' \<Longrightarrow> get_le k m' off' = get_le k m off'"
  unfolding zero_range_def get_le_def by (subst rd_wr_range_disjoint) auto

lemma le_word_zeros: "le_word (replicate n 0) = 0"
  by (induction n) simp_all

lemma get_zero_inside:
  assumes "zero_range m off n = Some m'" and "off \<le> off'" and "off' + k \<le> off + n"
  shows "get_le k m' off' = Some 0"
proof -
  have len: "length m' = length m" "off + n \<le> length m"
    using zero_range_length [OF assms(1)] assms(1) by (auto simp: zero_range_def wr_range_def split: if_splits)
  have "take k (drop off' m') = replicate k 0"
    using assms(2,3) len nth_wr_range [OF assms(1) [unfolded zero_range_def]]
    by (intro nth_equalityI) auto
  with assms len show ?thesis by (simp add: get_le_def rd_range_def le_word_zeros)
qed

end
