(* ===== verification/Region.thy ===== *)
theory Region
  imports File_Op Raw_Mem
begin

text \<open>
  The life of a mapped index file as the document lists and the hash indexes handle it: while
  its segment is filling, the region is private memory read from the file and flushed back;
  once the segment is full it is a shared mapping.  The configuration \<^verbatim>\<open>mile_conf\<close> and what
  the system answers to each call are the parameter \<open>env\<close>; the transfers of a file are given
  per file name, since no operation opens a file twice.
\<close>

section \<open>Environment\<close>

record env =
  ev_os :: os
  ev_io :: "string \<Rightarrow> io list"
  ev_clock :: "string \<Rightarrow> nat list"
  ev_page :: nat
  ev_all_mmap :: bool
  ev_disk_write_limit :: nat

definition obind :: "'a outcome \<Rightarrow> ('a \<Rightarrow> 'b outcome) \<Rightarrow> 'b outcome" where
  "obind m k = (case m of Ret x \<Rightarrow> k x | Trap \<Rightarrow> Trap | Blocked \<Rightarrow> Blocked)"

lemma obind_simps [simp]: "obind (Ret x) k = k x" "obind Trap k = Trap" "obind Blocked k = Blocked"
  by (simp_all add: obind_def)

section \<open>Operations\<close>

text \<open>Mapping or reading a region; the assertion that this succeeded traps.\<close>

definition region_open ::
    "env \<Rightarrow> file_system \<Rightarrow> bool \<Rightarrow> string \<Rightarrow> u32 \<Rightarrow> (u8 list \<times> file_system) outcome" where
  "region_open ev fs full name sz =
     obind
       (if full \<or> ev_all_mmap ev then Ret (get_mmap_memory (ev_os ev) fs name sz)
        else alloc_file_memory (ev_os ev) (ev_io ev name) fs name sz)
       (\<lambda>(mem, fs'). case mem of None \<Rightarrow> Trap | Some m \<Rightarrow> Ret (m, fs'))"

definition region_flush ::
    "env \<Rightarrow> file_system \<Rightarrow> string \<Rightarrow> u8 list option \<Rightarrow> nat \<Rightarrow> (int \<times> file_system) outcome" where
  "region_flush ev fs name mem limit =
     flush_memory (ev_os ev) (ev_clock ev name) (ev_io ev name) (ev_page ev) fs name mem limit"

definition region_sync ::
    "env \<Rightarrow> file_system \<Rightarrow> bool \<Rightarrow> string \<Rightarrow> u8 list option \<Rightarrow> nat \<Rightarrow> (int \<times> file_system) outcome" where
  "region_sync ev fs full name mem limit =
     (case mem of
        None \<Rightarrow> Ret (0, fs)
      | Some m \<Rightarrow> if full \<or> ev_all_mmap ev then Ret (0, msync_file fs name m)
                  else region_flush ev fs name mem limit)"

text \<open>Mapping the file over the private region: from then on the region is the file.\<close>

definition switch_mmaped_file ::
    "os \<Rightarrow> file_system \<Rightarrow> string \<Rightarrow> u8 list option \<Rightarrow> u32 \<Rightarrow> int \<times> u8 list option \<times> file_system" where
  "switch_mmaped_file os fs name mem sz =
     (case mem of
        None \<Rightarrow> (0, None, fs)
      | Some m \<Rightarrow>
          (case open_file os fs name of
             None \<Rightarrow> (- 1, mem, fs)
           | Some (f, fs1) \<Rightarrow>
               if sz \<noteq> 0 \<and> os_mmap os name then (0, Some (take (unat sz) (fd_content f)), fs1)
               else (- 1, mem, fs1)))"

definition region_switch ::
    "env \<Rightarrow> file_system \<Rightarrow> string \<Rightarrow> u8 list option \<Rightarrow> u32 \<Rightarrow> (int \<times> u8 list option \<times> file_system) outcome" where
  "region_switch ev fs name mem sz =
     obind (region_flush ev fs name mem (ev_disk_write_limit ev)) (\<lambda>(r, fs1).
       if r \<noteq> 0 then Ret (ERROR_MMAP_SWITCH, mem, fs1)
       else (case switch_mmaped_file (ev_os ev) fs1 name mem sz of
               (r', mem', fs2) \<Rightarrow>
                 if r' \<noteq> 0 then Ret (ERROR_MMAP_SWITCH, mem', fs2)
                 else Ret (MILE_RETURN_SUCCESS, mem', fs2)))"

section \<open>Restart\<close>

text \<open>A system that lets the calls for a file through: no failure, no interrupt, every transfer
  moves something, and there are enough of them.\<close>

definition env_ok :: "env \<Rightarrow> string \<Rightarrow> nat \<Rightarrow> bool" where
  "env_ok ev name n \<longleftrightarrow> os_ok (ev_os ev) name \<and> n < length (ev_io ev name) \<and>
     list_all (\<lambda>r. case r of Xfer k \<Rightarrow> 0 < k | _ \<Rightarrow> False) (ev_io ev name)"

lemma alloc_read_loop_exact:
  assumes "list_all (\<lambda>r. case r of Xfer k \<Rightarrow> 0 < k | _ \<Rightarrow> False) s" and "sz < length got + length s"
    and "fd_pos f = length got" and "got = take (length got) (fd_content f)" and "length got \<le> sz"
  shows "alloc_read_loop s sz got f = Ret (Some (take sz (fd_content f)))"
  using assms
proof (induction s arbitrary: got f)
  case Nil
  then show ?case by simp
next
  case (Cons r s)
  then obtain k where r: "r = Xfer k" "0 < k" by (cases r) auto
  let ?n = "min k (sz - length got)"
  let ?bs = "take ?n (drop (length got) (fd_content f))"
  let ?f = "f\<lparr>fd_pos := length got + length ?bs\<rparr>"
  have rd: "fd_read f ?n = (?bs, ?f)" using Cons.prems(3) by (simp add: fd_read_def Let_def)
  consider "length got = sz" | "length got < sz" "?bs = []" | "length got < sz" "?bs \<noteq> []"
    using Cons.prems(5) by linarith
  then show ?case
  proof cases
    case 1
    then show ?thesis using Cons.prems(4) r by simp
  next
    case 2
    then have "length (fd_content f) \<le> length got" using r(2) by auto
    then have "take sz (fd_content f) = got" using 2(1) Cons.prems(4) by simp
    with 2 rd r show ?thesis by simp
  next
    case 3
    define bs where "bs = ?bs"
    have "take (length bs) (drop (length got) (fd_content f)) = bs" by (simp add: bs_def min_def)
    then have g: "take (length (got @ bs)) (fd_content f) = got @ bs"
      using Cons.prems(4) by (simp only: length_append take_add)
    have ne: "bs \<noteq> []" using 3(2) by (simp only: bs_def not_False_eq_True)
    then have "0 < length bs" by simp
    moreover have "length bs \<le> sz - length got" by (simp add: bs_def)
    ultimately have "sz < length (got @ bs) + length s" "length (got @ bs) \<le> sz"
      using Cons.prems(2) 3(1) by (simp_all, linarith+)
    then have "alloc_read_loop s sz (got @ bs) (f\<lparr>fd_pos := length got + length bs\<rparr>) =
        Ret (Some (take sz (fd_content f)))"
      using Cons.prems(1) g Cons.IH [of "got @ bs" "f\<lparr>fd_pos := length got + length bs\<rparr>"] by simp
    with 3(1) ne rd [folded bs_def] r show ?thesis by simp
  qed
qed

lemma progress_ge: "list_all (\<lambda>r. case r of Xfer k \<Rightarrow> 0 < k | _ \<Rightarrow> False) s \<Longrightarrow> length s \<le> progress s"
  by (induction s) (auto split: io.splits)

lemma region_open_ok:
  assumes "env_ok ev name (unat sz)" and "0 < unat sz" and "unat sz < 2147483648"
  obtains fs' where "region_open ev fs full name sz = Ret (pad_to (unat sz) (file_bytes fs name), fs')"
    and "\<And>n. n \<noteq> name \<Longrightarrow> fs' n = fs n"
proof (cases "full \<or> ev_all_mmap ev")
  case True
  with assms show ?thesis
    by (intro that [of "fs(name \<mapsto> file_bytes fs name @ replicate (unat sz - length (file_bytes fs name)) 0)"])
      (auto simp: region_open_def env_ok_def get_mmap_memory_small)
next
  case False
  have "alloc_read_loop (ev_io ev name) (unat sz) [] \<lparr>fd_content = file_bytes fs name, fd_pos = 0\<rparr> =
      Ret (Some (take (unat sz) (file_bytes fs name)))"
    using assms(1) by (subst alloc_read_loop_exact) (auto simp: env_ok_def)
  moreover have "sz \<noteq> 0" "os_mmap (ev_os ev) name" "os_ok (ev_os ev) name"
    using assms by (auto simp: env_ok_def os_ok_def)
  ultimately show ?thesis using False
    by (intro that [of "fs(name \<mapsto> file_bytes fs name)"])
      (auto simp: region_open_def alloc_file_memory_def open_file_ok pad_to_def min_def)
qed

lemma region_sync_ok:
  assumes "env_ok ev name (length m)" and "length m < 2 ^ 63"
  shows "region_sync ev fs full name (Some m) 0 = Ret (0, msync_file fs name m)"
proof -
  have "Fail \<notin> set (ev_io ev name)" "Eintr \<notin> set (ev_io ev name)" "length m \<le> progress (ev_io ev name)"
    using assms(1) progress_ge [of "ev_io ev name"] by (auto simp: env_ok_def list_all_iff)
  then show ?thesis using assms
    by (simp add: region_sync_def region_flush_def env_ok_def flush_memory_unlimited msync_file_def)
qed

lemma msync_file_bytes: "file_bytes (msync_file fs name m) name = m @ drop (length m) (file_bytes fs name)"
  by (simp add: msync_file_def file_bytes_def)

lemma region_restart:
  assumes "env_ok ev name (length m)" and "env_ok ev' name (length m)" and "unat sz = length m"
    and "0 < length m" and "length m < 2147483648"
  obtains fs' where "region_open ev' (msync_file fs name m) full name sz = Ret (m, fs')"
    and "\<And>n. n \<noteq> name \<Longrightarrow> fs' n = msync_file fs name m n"
proof -
  obtain fs' where "region_open ev' (msync_file fs name m) full name sz =
      Ret (pad_to (length m) (file_bytes (msync_file fs name m) name), fs')"
    "\<And>n. n \<noteq> name \<Longrightarrow> fs' n = msync_file fs name m n"
    using region_open_ok [of ev' name sz "msync_file fs name m" full] assms by auto
  then show ?thesis by (intro that [of fs']) (simp_all add: msync_file_bytes pad_to_def)
qed

end
