(* ===== verification/Doclist.thy ===== *)
theory Doclist
  imports Region
begin

text \<open>
  Document lists, \<^verbatim>\<open>storage/docdb/doclist.c\<close>: the documents with one hash value form a chain
  of packed (number, next) units in a mapped region, newest first.  A link is the byte offset
  of the next unit; the last unit's link has its top bit set and names the bucket.  In the
  first format the unit of a document is found by its number, in the second by a running
  counter in the first four bytes, which the first format uses for a version.
\<close>

section \<open>State\<close>

abbreviation (input) DATA_STOAGE_VERSION :: u32 where
  "DATA_STOAGE_VERSION \<equiv> 0x80000001"

record doc_row_unit =
  du_doc_id :: u32
  du_next :: u32

record doclist_config =
  dc_work_space :: string
  dc_row_limit :: u32
  dc_is_full :: bool

record doclist_manager =
  dl_file_name :: string
  dl_row_limit :: u32
  dl_version :: u32
  dl_is_full :: bool
  dl_mem :: "u8 list option"

text \<open>The size is computed in 64 bits and passed as \<^verbatim>\<open>uint32_t\<close>.\<close>

definition DOCLIST_MMAP_SIZE :: "doclist_manager \<Rightarrow> u32" where
  "DOCLIST_MMAP_SIZE d = dl_row_limit d * 8 + 4"

section \<open>Units\<close>

definition GET_DOC_ROW_STRUCT :: "u32 \<Rightarrow> nat" where
  "GET_DOC_ROW_STRUCT doc_id = 4 + unat doc_id * 8"

definition GET_OFFSET :: "u32 \<Rightarrow> u32" where
  "GET_OFFSET doc_id = 4 + doc_id * 8"

definition get_unit :: "u8 list \<Rightarrow> nat \<Rightarrow> doc_row_unit option" where
  "get_unit m a = do {
     i \<leftarrow> get32 m a;
     n \<leftarrow> get32 m (a + 4);
     Some \<lparr>du_doc_id = i, du_next = n\<rparr>
   }"

section \<open>Operations\<close>

definition doclist_init ::
    "env \<Rightarrow> file_system \<Rightarrow> doclist_config \<Rightarrow> (doclist_manager \<times> file_system) outcome" where
  "doclist_init ev fs config =
     (case sprintf_name (dc_work_space config @ ''/doclist.idx'') of
        None \<Rightarrow> Trap
      | Some name \<Rightarrow>
          let d = \<lparr>dl_file_name = name, dl_row_limit = dc_row_limit config, dl_version = 0,
                dl_is_full = dc_is_full config, dl_mem = None\<rparr>
          in obind (region_open ev fs (dc_is_full config) name (DOCLIST_MMAP_SIZE d)) (\<lambda>(m, fs').
               case get32 m 0 of
                 None \<Rightarrow> Trap
               | Some v \<Rightarrow>
                   if v = 0
                   then (case put32 m 0 DATA_STOAGE_VERSION of
                           None \<Rightarrow> Trap
                         | Some m' \<Rightarrow> Ret (d\<lparr>dl_mem := Some m', dl_version := DATA_STOAGE_VERSION\<rparr>, fs'))
                   else Ret (d\<lparr>dl_mem := Some m, dl_version := v\<rparr>, fs')))"

definition doclist_init_v2 ::
    "env \<Rightarrow> file_system \<Rightarrow> doclist_config \<Rightarrow> bool \<Rightarrow> u16 \<Rightarrow> (doclist_manager option \<times> file_system) outcome" where
  "doclist_init_v2 ev fs config is_create index =
     (case sprintf_name (dc_work_space config @ ''/doclist.idx.'' @ show_nat (unat index)) of
        None \<Rightarrow> Trap
      | Some name \<Rightarrow>
          if \<not> is_create \<and> fs name = None then Ret (None, fs)
          else
            let d = \<lparr>dl_file_name = name, dl_row_limit = dc_row_limit config, dl_version = 0,
                  dl_is_full = dc_is_full config, dl_mem = None\<rparr>
            in obind (region_open ev fs (dc_is_full config) name (DOCLIST_MMAP_SIZE d)) (\<lambda>(m, fs').
                 Ret (Some (d\<lparr>dl_mem := Some m\<rparr>), fs')))"

definition doclist_insert ::
    "doclist_manager \<Rightarrow> u32 \<Rightarrow> u32 \<Rightarrow> u32 \<Rightarrow> (u32 \<times> doclist_manager) option" where
  "doclist_insert d doc_id head_offset bucket_no = do {
     m \<leftarrow> dl_mem d;
     let a = GET_DOC_ROW_STRUCT doc_id;
     if head_offset = 0
     then do {
       m1 \<leftarrow> zero_range m a 8;
       m2 \<leftarrow> put32 m1 (a + 4) (0x80000000 OR bucket_no);
       m3 \<leftarrow> put32 m2 a doc_id;
       Some (GET_OFFSET doc_id, d\<lparr>dl_mem := Some m3\<rparr>)
     }
     else do {
       h \<leftarrow> get32 m (unat head_offset);
       if doc_id \<le> h then Some (0, d)
       else do {
         m2 \<leftarrow> put32 m (a + 4) head_offset;
         m3 \<leftarrow> put32 m2 a doc_id;
         Some (GET_OFFSET doc_id, d\<lparr>dl_mem := Some m3\<rparr>)
       }
     }
   }"

text \<open>\<^verbatim>\<open>return -1\<close> of a \<^verbatim>\<open>uint32_t\<close>.  The returned offset is computed before the counter moves.\<close>

definition doclist_insert_v2 ::
    "doclist_manager \<Rightarrow> u32 \<Rightarrow> u32 \<Rightarrow> u32 \<Rightarrow> (u32 \<times> doclist_manager) option" where
  "doclist_insert_v2 d doc_id head_offset bucket_no = do {
     m \<leftarrow> dl_mem d;
     cur \<leftarrow> get32 m 0;
     if cur = dl_row_limit d then Some (- 1, d)
     else do {
       let a = GET_DOC_ROW_STRUCT cur;
       r \<leftarrow> (if head_offset = 0
            then do {
              m1 \<leftarrow> zero_range m a 8;
              m2 \<leftarrow> put32 m1 (a + 4) (0x80000000 OR bucket_no);
              Some (Some m2)
            }
            else do {
              h \<leftarrow> get32 m (unat head_offset);
              if doc_id \<le> h then Some None
              else do { m2 \<leftarrow> put32 m (a + 4) head_offset; Some (Some m2) }
            });
       case r of
         None \<Rightarrow> Some (0, d)
       | Some m2 \<Rightarrow> do {
           m3 \<leftarrow> put32 m2 a doc_id;
           m4 \<leftarrow> put32 m3 0 (cur + 1);
           Some (cur * 8 + 4, d\<lparr>dl_mem := Some m4\<rparr>)
         }
     }
   }"

text \<open>The address of the next unit, \<^term>\<open>None\<close> for NULL.  Offsets already count the four leading
  bytes, which this function adds once more; nothing calls it.\<close>

definition doclist_next :: "u32 \<Rightarrow> nat option" where
  "doclist_next next = (if next AND 0x80000000 \<noteq> 0 \<or> next = 0 then None else Some (4 + unat next))"

definition doclist_checkpoint ::
    "env \<Rightarrow> file_system \<Rightarrow> doclist_manager \<Rightarrow> (int \<times> file_system) outcome" where
  "doclist_checkpoint ev fs d =
     region_sync ev fs (dl_is_full d) (dl_file_name d) (dl_mem d) (ev_disk_write_limit ev)"

definition doclist_destroy :: "file_system \<Rightarrow> doclist_manager \<Rightarrow> file_system" where
  "doclist_destroy fs d = fs(dl_file_name d := None)"

definition doclist_release :: "env \<Rightarrow> file_system \<Rightarrow> doclist_manager \<Rightarrow> file_system outcome" where
  "doclist_release ev fs d =
     obind (region_sync ev fs (dl_is_full d) (dl_file_name d) (dl_mem d) 0) (\<lambda>(r, fs'). Ret fs')"

definition doclist_mmap_switch ::
    "env \<Rightarrow> file_system \<Rightarrow> doclist_manager \<Rightarrow> (int \<times> doclist_manager \<times> file_system) outcome" where
  "doclist_mmap_switch ev fs d =
     (if \<not> dl_is_full d \<and> \<not> ev_all_mmap ev
      then obind (region_switch ev fs (dl_file_name d) (dl_mem d) (DOCLIST_MMAP_SIZE d)) (\<lambda>(r, mem, fs').
        if r \<noteq> 0 then Ret (r, d\<lparr>dl_mem := mem\<rparr>, fs')
        else Ret (MILE_RETURN_SUCCESS, d\<lparr>dl_mem := mem, dl_is_full := True\<rparr>, fs'))
      else Ret (MILE_RETURN_SUCCESS, d, fs))"

end
