(* ===== verification/Doc_Chain.thy ===== *)
theory Doc_Chain
  imports Doclist Rowid_List
begin

text \<open>
  Chains of document units and the walk that collects them into a list of document numbers
  (\<^verbatim>\<open>get_rowid_list\<close> of \<^verbatim>\<open>hash_index.c\<close>, repeated in \<^verbatim>\<open>dynamic_hash_index.c\<close>).  The walk
  follows the links it finds, so on a damaged region it may leave the region or never end;
  on a chain it ends and collects exactly the chain.
\<close>

section \<open>The walk\<close>

partial_function (option) get_rowid_list_loop ::
    "u8 list \<Rightarrow> nat \<Rightarrow> 's rowid_list \<Rightarrow> 's rowid_list option" where
  "get_rowid_list_loop m a rowids =
     Option.bind (get_unit m a) (\<lambda>u.
       Option.bind (rowid_list_add rowids (du_doc_id u)) (\<lambda>rowids'.
         if du_next u AND 0x80000000 \<noteq> 0 \<or> du_next u = 0 then Some rowids'
         else get_rowid_list_loop m (unat (du_next u)) rowids'))"

definition get_rowid_list :: "doclist_manager \<Rightarrow> nat \<Rightarrow> 's rowid_list option" where
  "get_rowid_list d a = do { m \<leftarrow> dl_mem d; get_rowid_list_loop m a rowid_list_init }"

section \<open>Links\<close>

lemma top_bit: "x AND 0x80000000 \<noteq> 0 \<longleftrightarrow> 2147483648 \<le> unat (x :: u32)"
proof -
  have e: "(0x80000000 :: u32) = 2 ^ 31" by simp
  have "x AND 0x80000000 \<noteq> 0 \<longleftrightarrow> bit x 31" unfolding e by (simp only: and_exp_eq_0_iff_not_bit not_not)
  also have "\<dots> \<longleftrightarrow> odd (unat x div 2147483648)" 
  proof -
    have "bit x 31 \<longleftrightarrow> bit (unat x) 31" by (simp add: bit_unsigned_iff)
    then show ?thesis by (simp add: bit_iff_odd)
  qed
  also have "\<dots> \<longleftrightarrow> 2147483648 \<le> unat x"
  proof -
    have "unat x div 2147483648 = (if 2147483648 \<le> unat x then 1 else 0)"
      using u32_bound [of x] by (auto intro: div_nat_eqI)
    then show ?thesis by simp
  qed
  finally show ?thesis .
qed

abbreviation (input) UNITS :: nat where
  "UNITS \<equiv> 268435456"

lemma unat_GET_OFFSET: "unat p < UNITS \<Longrightarrow> unat (GET_OFFSET p) = 4 + unat p * 8"
  by (simp add: GET_OFFSET_def unat_word_ariths)

lemma GET_OFFSET_link:
  assumes "unat p < UNITS"
  shows "GET_OFFSET p AND 0x80000000 = 0" and "GET_OFFSET p \<noteq> 0"
    and "unat (GET_OFFSET p) = GET_DOC_ROW_STRUCT p"
proof -
  have "unat (GET_OFFSET p) = 4 + unat p * 8" by (rule unat_GET_OFFSET [OF assms])
  then show "GET_OFFSET p AND 0x80000000 = 0" "GET_OFFSET p \<noteq> 0"
      "unat (GET_OFFSET p) = GET_DOC_ROW_STRUCT p"
    using assms top_bit [of "GET_OFFSET p"] by (auto simp: GET_DOC_ROW_STRUCT_def)
qed

lemma end_link: "(0x80000000 OR b) AND 0x80000000 \<noteq> (0 :: u32)"
proof -
  have "(0x80000000 OR b) AND 0x80000000 = (0x80000000 :: u32)"
    by (rule bit_word_eqI) (auto simp: bit_simps)
  then show ?thesis by simp
qed

section \<open>Chains\<close>

text \<open>A chain is a sequence of (unit number, document number) pairs, newest first.\<close>

fun chain :: "u8 list \<Rightarrow> (u32 \<times> u32) list \<Rightarrow> u32 \<Rightarrow> bool" where
  "chain m [] b \<longleftrightarrow> False"
| "chain m [(p, d)] b \<longleftrightarrow> unat p < UNITS \<and>
     get_unit m (GET_DOC_ROW_STRUCT p) = Some \<lparr>du_doc_id = d, du_next = 0x80000000 OR b\<rparr>"
| "chain m ((p, d) # (q, e) # ps) b \<longleftrightarrow> unat p < UNITS \<and> q < p \<and> e < d \<and>
     get_unit m (GET_DOC_ROW_STRUCT p) = Some \<lparr>du_doc_id = d, du_next = GET_OFFSET q\<rparr> \<and>
     chain m ((q, e) # ps) b"

lemma chain_nonempty: "chain m ps b \<Longrightarrow> ps \<noteq> []"
  by auto

lemma chain_units: "chain m ps b \<Longrightarrow> (p, d) \<in> set ps \<Longrightarrow>
    unat p < UNITS \<and> (\<exists>n. get_unit m (GET_DOC_ROW_STRUCT p) = Some \<lparr>du_doc_id = d, du_next = n\<rparr>)"
  by (induction m ps b rule: chain.induct) auto

lemma chain_head: "chain m ((p, d) # ps) b \<Longrightarrow> get32 m (GET_DOC_ROW_STRUCT p) = Some d"
  by (cases ps) (auto simp: get_unit_def bind_eq_Some_conv)

lemma chain_frame:
  assumes "chain m ps b" and "\<And>p. p \<in> fst ` set ps \<Longrightarrow>
    get_unit m' (GET_DOC_ROW_STRUCT p) = get_unit m (GET_DOC_ROW_STRUCT p)"
  shows "chain m' ps b"
  using assms by (induction m ps b rule: chain.induct) auto

lemma chain_below: "chain m ((p, d) # ps) b \<Longrightarrow> (q, e) \<in> set ps \<Longrightarrow> q < p \<and> e < d"
proof (induction ps arbitrary: p d)
  case (Cons x ps)
  obtain q' e' where x: "x = (q', e')" by (cases x)
  with Cons show ?case by (cases "(q, e) = (q', e')") (auto dest: order.strict_trans)
qed simp

lemma chain_desc: "chain m ps b \<Longrightarrow> sorted_wrt (>) (map snd ps) \<and> sorted_wrt (>) (map fst ps)"
proof (induction m ps b rule: chain.induct)
  case (3 m p d q e ps b)
  have "\<And>q' e'. (q', e') \<in> set ((q, e) # ps) \<Longrightarrow> q' < p \<and> e' < d" using chain_below [OF "3.prems"] by blast
  with 3 show ?case by auto
qed simp_all

lemma get_rowid_list_loop_chain:
  assumes "chain m ps b" and "rl_wf l" and "unat (rl_rowid_num l) + length ps < 4294967296"
  shows "\<exists>l'. get_rowid_list_loop m (GET_DOC_ROW_STRUCT (fst (hd ps))) l = Some l' \<and> rl_wf l' \<and>
    rl_ids l' = rl_ids l @ map snd ps"
  using assms
proof (induction m ps b arbitrary: l rule: chain.induct)
  case (1 m b)
  then show ?case by simp
next
  case (2 m p d b)
  then obtain l' where "rowid_list_add l d = Some l'" "rl_wf l'" "rl_ids l' = rl_ids l @ [d]"
    using rowid_list_add_ids [of l d] by auto
  with 2 show ?case by (subst get_rowid_list_loop.simps) (simp add: end_link)
next
  case (3 m p d q e ps b)
  then obtain l1 where l1: "rowid_list_add l d = Some l1" "rl_wf l1" "rl_ids l1 = rl_ids l @ [d]"
    using rowid_list_add_ids [of l d] by auto
  have "unat (rl_rowid_num l1) = Suc (unat (rl_rowid_num l))"
    using l1(2,3) "3.prems"(2) by (metis length_append_singleton length_rl_ids rl_wf_def)
  then have n: "unat (rl_rowid_num l1) + length ((q, e) # ps) < 4294967296" using "3.prems"(3) by simp
  have q: "unat q < UNITS" using chain_units [of m "(q, e) # ps" b q e] "3.prems"(1) by auto
  from "3.IH" [OF _ l1(2) n] "3.prems"(1) l1 GET_OFFSET_link [OF q] show ?case
    by (subst get_rowid_list_loop.simps) simp
qed

end
