(* ===== verification/Hash.thy ===== *)
theory Hash
  imports Low_Data Raw_Mem Crypt_Table
begin

text \<open>
  Hash values of field values, \<^verbatim>\<open>common/hash.c\<close>.  Strings are hashed with a fixed table;
  numbers are printed and parsed back into an order-keeping 64-bit key.  What \<^verbatim>\<open>sprintf\<close>
  prints for a floating-point value is a parameter.  Text that does not fit its buffer and
  numbers \<^verbatim>\<open>atoi\<close> and \<^verbatim>\<open>atoll\<close> cannot represent are undefined behaviour, \<^term>\<open>None\<close>.
\<close>

section \<open>String hash\<close>

fun hashString_loop :: "u32 \<Rightarrow> u8 list \<Rightarrow> u32 \<Rightarrow> u32 \<Rightarrow> u32 option" where
  "hashString_loop t [] seed1 seed2 = Some seed1"
| "hashString_loop t (k # ks) seed1 seed2 = do {
     let cKey = (ucast k :: u32);
     c \<leftarrow> rd CRYPT_TABLE (unat (push_bit 8 t + cKey));
     let seed1' = c XOR (seed1 + seed2);
     let seed2' = cKey + seed1' + seed2 + push_bit 5 seed2 + 3;
     hashString_loop t ks seed1' seed2'
   }"

definition hashString :: "u8 list \<Rightarrow> u32 \<Rightarrow> u32 option" where
  "hashString szStr dwHashType = hashString_loop dwHashType szStr 0x7FED7FED 0xEEEEEEEE"

definition hashString64 :: "u8 list \<Rightarrow> u64 option" where
  "hashString64 szStr = do {
     hi \<leftarrow> hashString szStr 0;
     lo \<leftarrow> hashString szStr 1;
     Some (push_bit 32 (ucast hi) OR ucast lo)
   }"

section \<open>Parsing\<close>

text \<open>\<^verbatim>\<open>atoi\<close> and \<^verbatim>\<open>atoll\<close>: white space, a sign, digits; the result must be in range.\<close>

definition is_digit :: "char \<Rightarrow> bool" where
  "is_digit c \<longleftrightarrow> 48 \<le> (of_char c :: nat) \<and> (of_char c :: nat) \<le> 57"

definition is_space :: "char \<Rightarrow> bool" where
  "is_space c \<longleftrightarrow> (of_char c :: nat) = 32 \<or> 9 \<le> (of_char c :: nat) \<and> (of_char c :: nat) \<le> 13"

definition digits_value :: "string \<Rightarrow> nat" where
  "digits_value ds = foldl (\<lambda>v c. v * 10 + (of_char c - 48)) 0 ds"

definition parse_int :: "int \<Rightarrow> int \<Rightarrow> string \<Rightarrow> int option" where
  "parse_int lo hi s =
     (let s1 = dropWhile is_space s;
          neg = (s1 \<noteq> [] \<and> hd s1 = CHR ''-'');
          s2 = (if s1 \<noteq> [] \<and> (hd s1 = CHR ''-'' \<or> hd s1 = CHR ''+'') then tl s1 else s1);
          n = int (digits_value (takeWhile is_digit s2));
          v = (if neg then - n else n)
      in if lo \<le> v \<and> v \<le> hi then Some v else None)"

definition atoi :: "string \<Rightarrow> int option" where
  "atoi = parse_int (- (2 ^ 31)) (2 ^ 31 - 1)"

definition atoll :: "string \<Rightarrow> int option" where
  "atoll = parse_int (- (2 ^ 63)) (2 ^ 63 - 1)"

fun strchr :: "string \<Rightarrow> char \<Rightarrow> string option" where
  "strchr [] c = None"
| "strchr (x # xs) c = (if x = c then Some (x # xs) else strchr xs c)"

section \<open>Keys\<close>

text \<open>\<^verbatim>\<open>ISNUM(ch)\<close> is the bare text \<^verbatim>\<open>(ch) >= '0' && (ch) <= '9'\<close>, so \<^verbatim>\<open>!ISNUM(ch)\<close> compares
  the negated character, 0 or 1, with the code of the digit zero.\<close>

definition not_ISNUM :: "nat \<Rightarrow> bool" where
  "not_ISNUM ch \<longleftrightarrow> (if ch = 0 then 1 else 0 :: nat) \<ge> 48 \<and> ch \<le> 57"

text \<open>The character behind the pointer, zero at the end of the text and behind it, where the
  buffer was cleared.\<close>

definition char_at :: "string \<Rightarrow> nat \<Rightarrow> nat" where
  "char_at s i = (if i < length s then of_char (s ! i) else 0)"

function check_float_loop :: "string \<Rightarrow> nat \<Rightarrow> bool \<Rightarrow> bool" where
  "check_float_loop s i point =
     (if char_at s i \<noteq> 0
      then if not_ISNUM (char_at s i)
           then if \<not> point \<and> (char_at s i = 46 \<or> char_at s i = 58) \<and>
                    48 \<le> char_at s (Suc i) \<and> char_at s (Suc i) \<le> 57
                then check_float_loop s (Suc i) True
                else False
           else check_float_loop s (Suc i) point
      else True)"
  by pat_completeness auto
termination
  by (relation "measure (\<lambda>(s, i, point). length s - i)") (auto simp: char_at_def split: if_splits)

declare check_float_loop.simps [simp del]

definition float_key :: "string \<Rightarrow> u64 option" where
  "float_key szValue = do {
     let szRight = (case strchr szValue CHR ''.'' of None \<Rightarrow> strchr szValue CHR '':'' | Some r \<Rightarrow> Some r);
     l \<leftarrow> atoi szValue;
     let nKeyHash = push_bit 32 (word_of_int l :: u64);
     case szRight of
       Some (_ # c # r) \<Rightarrow> do { f \<leftarrow> atoi (c # r); Some (nKeyHash OR word_of_int f) }
     | _ \<Rightarrow> Some nKeyHash
   }"

text \<open>The text of a number; a string goes to the table hash before anything else.\<close>

definition get_hash :: "string \<Rightarrow> field_types \<Rightarrow> u64 option" where
  "get_hash szText eType = (
     let bNegative = (char_at szText 0 = 45);
         szValue = (if bNegative then tl szText else szText)
     in if (eType = HI_TYPE_FLOAT \<or> eType = HI_TYPE_DOUBLE) \<and> not_ISNUM (char_at szValue 0) then Some 0
        else if (eType = HI_TYPE_FLOAT \<or> eType = HI_TYPE_DOUBLE) \<and> \<not> check_float_loop szValue 1 False
        then Some 0xFFFFFFFFFFFFFFFF
        else do {
          nKeyHash \<leftarrow> (if eType = HI_TYPE_FLOAT \<or> eType = HI_TYPE_DOUBLE then float_key szValue
                      else map_option word_of_int (atoll szValue));
          Some (if bNegative then NOT nKeyHash AND 0x7FFFFFFFFFFFFFFF else nKeyHash OR 0x8000000000000000)
        })"

abbreviation (input) MAX_HASH_LEN :: nat where
  "MAX_HASH_LEN \<equiv> 128"

definition sprintf_hash :: "string \<Rightarrow> string option" where
  "sprintf_hash s = (if length s < MAX_HASH_LEN then Some s else None)"

text \<open>The values are read at the width of the type, with the signedness of the casts in the
  source: \<^verbatim>\<open>%d\<close> of a \<^verbatim>\<open>uint16_t\<close> prints 0 to 65535, \<^verbatim>\<open>%u\<close> of an \<^verbatim>\<open>int16_t\<close> the sign-extended
  32-bit value.\<close>

definition get_hash_value ::
    "(u8 list \<Rightarrow> string) \<Rightarrow> (u8 list \<Rightarrow> string) \<Rightarrow> low_data \<Rightarrow> u64 option" where
  "get_hash_value fmt_f fmt_lf d =
     (if ld_len d = 0 \<or> ld_type d = HI_TYPE_NULL then hashString64 []
      else if ld_type d = HI_TYPE_STRING then do { bs \<leftarrow> ld_bytes d; hashString64 bs }
      else do {
        text \<leftarrow>
          (if ld_type d = HI_TYPE_TINY then do { w \<leftarrow> get_le 1 (ld_data d) 0; Some (Some (show_int (sint (w :: u8)))) }
           else if ld_type d = HI_TYPE_SHORT then do { w \<leftarrow> get_le 2 (ld_data d) 0; Some (Some (show_int (uint (w :: u16)))) }
           else if ld_type d = HI_TYPE_UNSIGNED_SHORT
           then do { w \<leftarrow> get_le 2 (ld_data d) 0; Some (Some (show_int (uint (scast (w :: u16) :: u32)))) }
           else if ld_type d = HI_TYPE_LONG then do { w \<leftarrow> get32 (ld_data d) 0; Some (Some (show_int (sint w))) }
           else if ld_type d = HI_TYPE_UNSIGNED_LONG then do { w \<leftarrow> get32 (ld_data d) 0; Some (Some (show_int (uint w))) }
           else if ld_type d = HI_TYPE_LONGLONG then do { w \<leftarrow> get64 (ld_data d) 0; Some (Some (show_int (sint w))) }
           else if ld_type d = HI_TYPE_UNSIGNED_LONGLONG
           then do { w \<leftarrow> get64 (ld_data d) 0; Some (Some (show_int (uint w))) }
           else if ld_type d = HI_TYPE_FLOAT then do { bs \<leftarrow> rd_range (ld_data d) 0 4; Some (Some (fmt_f bs)) }
           else if ld_type d = HI_TYPE_DOUBLE then do { bs \<leftarrow> rd_range (ld_data d) 0 8; Some (Some (fmt_lf bs)) }
           else Some None);
        case text of
          None \<Rightarrow> Some (- 1)
        | Some t \<Rightarrow> do { to_hash \<leftarrow> sprintf_hash t; get_hash to_hash (ld_type d) }
      })"

section \<open>The string hash reads inside its table\<close>

lemma length_CRYPT_TABLE: "length CRYPT_TABLE = 1280"
  by (simp add: CRYPT_TABLE_def)

lemma hashString_loop_some: "t \<le> 3 \<Longrightarrow> \<exists>h. hashString_loop t ks s1 s2 = Some h"
proof (induction ks arbitrary: s1 s2)
  case (Cons k ks)
  have "unat t \<le> 3" using Cons.prems by (simp add: word_le_nat_alt)
  moreover have "unat (ucast k :: u32) < 256"
    using unsigned_less [where ?'a = nat, of k] by (simp add: unsigned_ucast_eq take_bit_nat_eq_self)
  ultimately have "unat (push_bit 8 t + ucast k) < length CRYPT_TABLE"
    by (simp add: length_CRYPT_TABLE push_bit_eq_mult unat_word_ariths)
  with Cons show ?case by (simp add: rd_def Let_def)
qed simp

lemma hashString64_some: "\<exists>h. hashString64 bs = Some h"
proof -
  obtain a b where "hashString bs 0 = Some a" "hashString bs 1 = Some b"
    unfolding hashString_def using hashString_loop_some [of 0 bs] hashString_loop_some [of 1 bs] by fastforce
  then show ?thesis by (simp add: hashString64_def)
qed

section \<open>Printing and parsing back\<close>

lemma digit_char:
  fixes n :: nat
  assumes "n < 10"
  shows "is_digit (char_of (48 + n))" and "of_char (char_of (48 + n) :: char) = 48 + n"
proof -
  have "(of_char (char_of (48 + n) :: char) :: nat) = 48 + n" using assms by (simp add: of_char_of)
  then show "is_digit (char_of (48 + n))" "of_char (char_of (48 + n) :: char) = 48 + n"
    using assms by (simp_all add: is_digit_def)
qed

lemma digits_value_snoc: "digits_value (ds @ [c]) = digits_value ds * 10 + (of_char c - 48)"
  by (simp add: digits_value_def)

lemma show_nat_digits: "list_all is_digit (show_nat n) \<and> digits_value (show_nat n) = n \<and> show_nat n \<noteq> []"
proof (induction n rule: less_induct)
  case (less n)
  show ?case
  proof (cases "n < 10")
    case True
    then show ?thesis by (simp add: show_nat.simps [of n] digit_char digits_value_def)
  next
    case False
    then have "list_all is_digit (show_nat (n div 10))" "digits_value (show_nat (n div 10)) = n div 10"
      using less.IH [of "n div 10"] by simp_all
    with False show ?thesis
      by (simp add: show_nat.simps [of n] digit_char digits_value_snoc)
  qed
qed

lemma digit_not_special: "is_digit c \<Longrightarrow> \<not> is_space c \<and> c \<noteq> CHR ''-'' \<and> c \<noteq> CHR ''+''"
  by (auto simp: is_digit_def is_space_def)

lemma parse_show_nat:
  "parse_int lo hi (show_nat n) = (if lo \<le> int n \<and> int n \<le> hi then Some (int n) else None)"
proof -
  obtain c cs where s: "show_nat n = c # cs" using show_nat_digits [of n] by (cases "show_nat n") auto
  have d: "is_digit c" "list_all is_digit cs" using show_nat_digits [of n] s by simp_all
  have t: "takeWhile is_digit cs = cs" using d(2) by (metis list_all_iff takeWhile_eq_all_conv)
  have "digits_value (takeWhile is_digit (c # cs)) = n"
    unfolding takeWhile.simps t using d(1) show_nat_digits [of n] s by simp
  with d(1) digit_not_special [OF d(1)] s show ?thesis by (simp add: parse_int_def Let_def)
qed

lemma length_show_nat: "n < 10 ^ Suc k \<Longrightarrow> length (show_nat n) \<le> Suc k"
proof (induction k arbitrary: n)
  case 0
  then show ?case by (simp add: show_nat.simps [of n])
next
  case (Suc k)
  have "n div 10 < 10 ^ Suc k" using Suc.prems by (simp add: div_less_iff_less_mult)
  from Suc.IH [OF this] show ?case by (simp add: show_nat.simps [of n])
qed

section \<open>Integer keys\<close>

definition int_key :: "int \<Rightarrow> int" where
  "int_key v = (if v < 0 then 2 ^ 63 - 1 + v else 2 ^ 63 + v)"

lemma key_nonneg:
  assumes "0 \<le> v" and "v < 2 ^ 63"
  shows "uint ((word_of_int v :: u64) OR 0x8000000000000000) = 2 ^ 63 + v"
proof -
  have "(word_of_int v :: u64) AND 0x8000000000000000 = 0"
  proof -
    have e: "(0x8000000000000000 :: u64) = 2 ^ 63" by simp
    have "v div 2 ^ 63 = 0" using assms by (simp add: div_pos_pos_trivial)
    then have "\<not> bit v 63" by (simp add: bit_iff_odd)
    then have "\<not> bit (word_of_int v :: u64) 63" by (simp add: bit_word_of_int_iff)
    then show ?thesis unfolding e by (simp only: and_exp_eq_0_iff_not_bit not_False_eq_True)
  qed
  then have "(word_of_int v :: u64) OR 0x8000000000000000 = word_of_int v + 0x8000000000000000"
    by (rule disjunctive_add_eq_or [symmetric])
  moreover have "uint (word_of_int v + 0x8000000000000000 :: u64) = 2 ^ 63 + v"
    using assms by (simp add: uint_word_ariths uint_word_of_int)
  ultimately show ?thesis by simp
qed

lemma key_negative:
  assumes "0 \<le> v" and "v < 2 ^ 63"
  shows "uint (NOT (word_of_int v :: u64) AND 0x7FFFFFFFFFFFFFFF) = 2 ^ 63 - 1 - v"
proof -
  have e: "(0x7FFFFFFFFFFFFFFF :: u64) = mask 63" by (simp add: mask_eq_exp_minus_1)
  have n: "NOT (word_of_int v :: u64) = word_of_int (- v - 1)" by (simp add: not_eq_complement)
  have "uint (NOT (word_of_int v :: u64) AND mask 63) = take_bit 63 (uint (word_of_int (- v - 1) :: u64))"
    unfolding n by (simp add: unsigned_take_bit_eq flip: take_bit_eq_mask)
  also have "\<dots> = (- v - 1) mod 2 ^ 63"
    unfolding uint_word_of_int take_bit_eq_mod by (rule mod_mod_cancel) simp
  also have "\<dots> = ((- v - 1) + 2 ^ 63) mod 2 ^ 63" by (simp only: mod_add_self2)
  also have "\<dots> = 2 ^ 63 - 1 - v" using assms by (subst mod_pos_pos_trivial) simp_all
  finally show ?thesis unfolding e .
qed

lemma show_nat_not_minus: "char_at (show_nat n) 0 \<noteq> 45"
proof -
  obtain c cs where s: "show_nat n = c # cs" using show_nat_digits [of n] by (cases "show_nat n") auto
  have "is_digit c" using show_nat_digits [of n] s by simp
  with s show ?thesis by (simp add: char_at_def is_digit_def)
qed

lemma get_hash_int:
  assumes "eType \<noteq> HI_TYPE_FLOAT" and "eType \<noteq> HI_TYPE_DOUBLE" and "- (2 ^ 63) < v" and "v < 2 ^ 63"
  shows "\<exists>h. get_hash (show_int v) eType = Some h \<and> uint h = int_key v"
proof (cases "v < 0")
  case True
  have n: "0 \<le> - v" "- v < 2 ^ 63" using True assms(3) by simp_all
  have "atoll (show_nat (nat (- v))) = Some (- v)"
    using n by (simp add: atoll_def parse_show_nat)
  moreover have "uint (NOT (word_of_int (- v) :: u64) AND 0x7FFFFFFFFFFFFFFF) = int_key v"
    using key_negative [OF n] True by (simp add: int_key_def)
  ultimately show ?thesis using True assms(1,2)
    by (simp add: get_hash_def show_int_def char_at_def Let_def)
next
  case False
  have "atoll (show_nat (nat v)) = Some v" using False assms(4) by (simp add: atoll_def parse_show_nat)
  moreover have "uint ((word_of_int v :: u64) OR 0x8000000000000000) = int_key v"
    using key_nonneg [of v] False assms(4) by (simp add: int_key_def)
  ultimately show ?thesis using False assms(1,2) show_nat_not_minus [of "nat v"]
    by (simp add: get_hash_def show_int_def Let_def)
qed

lemma length_show_int:
  assumes "- (2 ^ 64) < v" and "v < 2 ^ 64"
  shows "length (show_int v) < MAX_HASH_LEN"
proof -
  have "- v < 10 ^ Suc 19" "v < 10 ^ Suc 19" using assms by simp_all
  then have "nat (- v) < 10 ^ Suc 19" "nat v < 10 ^ Suc 19"
    by (metis nat_less_numeral_power_cancel_iff)+
  then have "length (show_nat (nat (- v))) \<le> Suc 19" "length (show_nat (nat v)) \<le> Suc 19"
    by (simp_all only: length_show_nat)
  then show ?thesis by (simp add: show_int_def)
qed

text \<open>The value a stored integer has for the type it is stored as.\<close>

definition stored_int :: "low_data \<Rightarrow> int option" where
  "stored_int d =
     (if ld_type d = HI_TYPE_TINY then map_option (\<lambda>w. sint (w :: u8)) (get_le 1 (ld_data d) 0)
      else if ld_type d = HI_TYPE_SHORT then map_option (\<lambda>w. sint (w :: u16)) (get_le 2 (ld_data d) 0)
      else if ld_type d = HI_TYPE_UNSIGNED_SHORT then map_option (\<lambda>w. uint (w :: u16)) (get_le 2 (ld_data d) 0)
      else if ld_type d = HI_TYPE_LONG then map_option sint (get32 (ld_data d) 0)
      else if ld_type d = HI_TYPE_UNSIGNED_LONG then map_option uint (get32 (ld_data d) 0)
      else if ld_type d = HI_TYPE_LONGLONG then map_option sint (get64 (ld_data d) 0)
      else if ld_type d = HI_TYPE_UNSIGNED_LONGLONG then map_option uint (get64 (ld_data d) 0)
      else None)"

text \<open>The number that is printed for it: the casts of the two 16-bit types have the wrong sign.\<close>

definition printed_int :: "field_types \<Rightarrow> int \<Rightarrow> int" where
  "printed_int t v =
     (if t = HI_TYPE_SHORT then v mod 2 ^ 16
      else if t = HI_TYPE_UNSIGNED_SHORT \<and> 2 ^ 15 \<le> v then v + (2 ^ 32 - 2 ^ 16)
      else v)"

lemma short_printed: "uint (w :: u16) = sint w mod 2 ^ 16"
  using uint_sint [of w] by (simp add: take_bit_eq_mod)

lemma unsigned_short_printed:
  "uint (scast (w :: u16) :: u32) = (if 2 ^ 15 \<le> uint w then uint w + (2 ^ 32 - 2 ^ 16) else uint w)"
proof -
  have w: "0 \<le> uint w" "uint w < 65536" using uint_lt2p [of w] by simp_all
  have c: "uint (scast w :: u32) = sint w mod 4294967296" using uint_word_of_int [where 'a = 32, of "sint w"] by simp
  have s: "sint w = (uint w + 32768) mod 65536 - 32768"
    using w by (simp add: sint_uint signed_take_bit_eq_take_bit_shift take_bit_eq_mod)
  show ?thesis
  proof (cases "32768 \<le> uint w")
    case True
    have "(uint w - 32768 + 65536) mod 65536 = uint w - 32768"
      unfolding mod_add_self2 using w True by (intro mod_pos_pos_trivial) linarith+
    then have "sint w = uint w - 65536" using s by (simp add: add.commute)
    moreover have "(uint w - 65536 + 4294967296) mod 4294967296 = uint w - 65536 + 4294967296"
      using w True by (intro mod_pos_pos_trivial) linarith+
    ultimately have "uint (scast w :: u32) = uint w - 65536 + 4294967296" using c mod_add_self2 by metis
    then show ?thesis using True by simp
  next
    case False
    have "(uint w + 32768) mod 65536 = uint w + 32768" using w False by (intro mod_pos_pos_trivial) linarith+
    then have "sint w = uint w" using s by simp
    moreover have "uint w mod 4294967296 = uint w" using w by (intro mod_pos_pos_trivial) linarith+
    ultimately show ?thesis using c False by simp
  qed
qed

lemma printed_int_range:
  assumes "stored_int d = Some v" and "- (2 ^ 63) \<le> v" and "v < 2 ^ 63"
  shows "- (2 ^ 63) \<le> printed_int (ld_type d) v" and "printed_int (ld_type d) v < 2 ^ 63"
    and "ld_type d \<noteq> HI_TYPE_SHORT \<Longrightarrow> v \<le> printed_int (ld_type d) v"
proof -
  have "v < 2 ^ 16" if "ld_type d = HI_TYPE_UNSIGNED_SHORT"
    using that assms(1) uint_lt2p [where 'a = 16] by (auto simp: stored_int_def)
  moreover have "0 \<le> v mod 2 ^ 16" "v mod 2 ^ 16 < 2 ^ 16" by simp_all
  ultimately show "- (2 ^ 63) \<le> printed_int (ld_type d) v" "printed_int (ld_type d) v < 2 ^ 63"
    using assms(2,3) by (auto simp: printed_int_def)
  show "v \<le> printed_int (ld_type d) v" if "ld_type d \<noteq> HI_TYPE_SHORT" using that by (simp add: printed_int_def)
qed

lemma get_hash_value_int:
  assumes v: "stored_int d = Some v" and "ld_len d \<noteq> 0" and "- (2 ^ 63) < v" and "v < 2 ^ 63"
  shows "\<exists>h. get_hash_value fmt_f fmt_lf d = Some h \<and> uint h = int_key (printed_int (ld_type d) v)"
proof -
  let ?p = "printed_int (ld_type d) v"
  have p: "- (2 ^ 63) < ?p" "?p < 2 ^ 63"
    using printed_int_range [OF v] assms(3,4) by (cases "ld_type d = HI_TYPE_SHORT"; force simp: printed_int_def)+
  have f: "ld_type d \<noteq> HI_TYPE_FLOAT" "ld_type d \<noteq> HI_TYPE_DOUBLE"
    using v by (auto simp: stored_int_def split: if_splits)
  obtain h where h: "get_hash (show_int ?p) (ld_type d) = Some h" "uint h = int_key ?p"
    using get_hash_int [OF f p] by blast
  have "sprintf_hash (show_int ?p) = Some (show_int ?p)"
    using length_show_int [of ?p] p by (simp add: sprintf_hash_def)
  with h v assms(2) show ?thesis
    by (auto simp: get_hash_value_def stored_int_def printed_int_def short_printed unsigned_short_printed
        simp del: One_nat_def split: if_splits)
qed

text \<open>The types whose values are hashed as they are.\<close>

definition hashed_as_stored :: "field_types \<Rightarrow> bool" where
  "hashed_as_stored t \<longleftrightarrow> t \<noteq> HI_TYPE_SHORT \<and> t \<noteq> HI_TYPE_UNSIGNED_SHORT \<and> t \<noteq> HI_TYPE_UNSIGNED_LONGLONG"

lemma stored_int_range:
  assumes "stored_int d = Some v" and "hashed_as_stored (ld_type d)"
  shows "v < 2 ^ 63" and "printed_int (ld_type d) v = v"
proof -
  consider w :: u8 where "v = sint w" | w :: u32 where "v = sint w" | w :: u32 where "v = uint w"
    | w :: u64 where "v = sint w"
    using assms by (auto simp: stored_int_def hashed_as_stored_def split: if_splits)
  then show "v < 2 ^ 63"
  proof cases
    case (1 w)
    then show ?thesis using sint_less [of w] by simp
  next
    case (2 w)
    then show ?thesis using sint_less [of w] by simp
  next
    case (3 w)
    have "v < 4294967296" using 3 uint_lt2p [of w] by simp
    then show ?thesis by simp
  next
    case (4 w)
    then show ?thesis using sint_less [of w] by simp
  qed
  show "printed_int (ld_type d) v = v" using assms(2) by (simp add: printed_int_def hashed_as_stored_def)
qed

lemma printed_int_unsigned_short:
  "printed_int HI_TYPE_UNSIGNED_SHORT v < printed_int HI_TYPE_UNSIGNED_SHORT w \<longleftrightarrow> v < w"
  by (auto simp: printed_int_def)

lemma printed_int_inj:
  assumes "stored_int d = Some v" and "stored_int e = Some w" and "ld_type e = ld_type d"
  shows "printed_int (ld_type d) v = printed_int (ld_type e) w \<longleftrightarrow> v = w"
proof (cases "ld_type d = HI_TYPE_SHORT")
  case True
  then obtain x y :: u16 where "v = sint x" "w = sint y" using assms by (auto simp: stored_int_def)
  moreover have "sint x mod 2 ^ 16 = sint y mod 2 ^ 16 \<longleftrightarrow> sint x = sint y"
    unfolding short_printed [symmetric] by (auto dest: unsigned_word_eqI signed_word_eqI)
  ultimately show ?thesis using True assms(3) by (simp add: printed_int_def)
next
  case False
  then show ?thesis using assms(3) by (auto simp: printed_int_def)
qed

lemma short_negative_last:
  assumes "ld_type d = HI_TYPE_SHORT" and "ld_type e = HI_TYPE_SHORT" and "0 \<le> v" and "w < 0"
    and "stored_int d = Some v" and "stored_int e = Some w"
  shows "printed_int (ld_type d) v < printed_int (ld_type e) w"
proof -
  obtain x y :: u16 where xy: "v = sint x" "w = sint y" using assms by (auto simp: stored_int_def)
  have "v < 2 ^ 15" "- (2 ^ 15) \<le> w" using sint_less [of x] sint_greater_eq [of y] xy by simp_all
  then have "v mod 2 ^ 16 = v" "(w + 2 ^ 16) mod 2 ^ 16 = w + 2 ^ 16"
    using assms(3,4) by (intro mod_pos_pos_trivial; simp)+
  then show ?thesis using assms \<open>v < 2 ^ 15\<close> \<open>- (2 ^ 15) \<le> w\<close> by (simp add: printed_int_def)
qed

section \<open>Properties\<close>

text \<open>C37: The hash of an integer field of any of the seven integer types is not zero, which the
  hash indexes use for an empty bucket, and orders fields by the numbers that are printed
  for them.  So it keeps the order of the values, and tells different values apart, for all types but
  the 16-bit ones; unsigned 16-bit values keep their order among each other but from 32768 on
  differ from the same value in another type; signed 16-bit values are told apart among each
  other, but every negative one sorts above all others.  The two smallest 64-bit values
  are excluded, and the unsigned ones from 2 ^ 63 on, for which \<^verbatim>\<open>atoll\<close> is undefined.\<close>

theorem get_hash_value_orders_integers:
  assumes "stored_int d = Some v" and "stored_int e = Some w" and "ld_len d \<noteq> 0" and "ld_len e \<noteq> 0"
    and "- (2 ^ 63) + 1 < v" and "- (2 ^ 63) + 1 < w" and "v < 2 ^ 63" and "w < 2 ^ 63"
  shows "\<exists>h k. get_hash_value fmt_f fmt_lf d = Some h \<and> get_hash_value fmt_f fmt_lf e = Some k \<and> h \<noteq> 0 \<and>
    (h < k \<longleftrightarrow> printed_int (ld_type d) v < printed_int (ld_type e) w) \<and>
    (h = k \<longleftrightarrow> printed_int (ld_type d) v = printed_int (ld_type e) w) \<and>
    ({ld_type d, ld_type e} \<inter> {HI_TYPE_SHORT, HI_TYPE_UNSIGNED_SHORT} = {} \<longrightarrow> (h < k \<longleftrightarrow> v < w) \<and> (h = k \<longleftrightarrow> v = w)) \<and>
    (ld_type d = ld_type e \<longrightarrow> (h = k \<longleftrightarrow> v = w)) \<and>
    (ld_type d = HI_TYPE_UNSIGNED_SHORT \<and> ld_type e = HI_TYPE_UNSIGNED_SHORT \<longrightarrow> (h < k \<longleftrightarrow> v < w)) \<and>
    (ld_type d = HI_TYPE_SHORT \<and> ld_type e = HI_TYPE_SHORT \<and> 0 \<le> v \<and> w < 0 \<longrightarrow> h < k)"
proof -
  let ?p = "printed_int (ld_type d) v" and ?q = "printed_int (ld_type e) w"
  obtain h k where hk: "get_hash_value fmt_f fmt_lf d = Some h" "uint h = int_key ?p"
    "get_hash_value fmt_f fmt_lf e = Some k" "uint k = int_key ?q"
    using get_hash_value_int [OF assms(1,3)] get_hash_value_int [OF assms(2,4)] assms(5-8) by force
  have pq: "- (2 ^ 63) + 1 < ?p" "- (2 ^ 63) + 1 < ?q"
    using assms(5,6) by (auto simp: printed_int_def intro: less_le_trans [of _ 0])
  then have o: "h < k \<longleftrightarrow> ?p < ?q" "h = k \<longleftrightarrow> ?p = ?q" "h \<noteq> 0"
    unfolding word_less_def word_uint_eq_iff hk(2,4) int_key_def by (auto split: if_splits)
  moreover have "?p < ?q" if "ld_type d = HI_TYPE_SHORT" "ld_type e = HI_TYPE_SHORT" "0 \<le> v" "w < 0"
    using that assms(1,2) by (intro short_negative_last)
  moreover have "?p = v \<and> ?q = w" if "{ld_type d, ld_type e} \<inter> {HI_TYPE_SHORT, HI_TYPE_UNSIGNED_SHORT} = {}"
    using that by (auto simp: printed_int_def)
  ultimately show ?thesis
    using hk(1,3) printed_int_inj [OF assms(1,2)] printed_int_unsigned_short by (intro exI [of _ h] exI [of _ k]) auto
qed

text \<open>An unsigned 64-bit value from 2 ^ 63 on is printed as it is, but \<^verbatim>\<open>atoll\<close> cannot represent it.\<close>

lemma get_hash_value_past_atoll:
  assumes "ld_type d = HI_TYPE_UNSIGNED_LONGLONG" and "ld_len d \<noteq> 0" and "stored_int d = Some v" and "2 ^ 63 \<le> v"
  shows "get_hash_value fmt_f fmt_lf d = None"
proof -
  obtain w where w: "get64 (ld_data d) 0 = Some w" "v = uint w" using assms(1,3) by (auto simp: stored_int_def)
  have "length (show_int v) < MAX_HASH_LEN" using w(2) uint_lt2p [of w] assms(4) by (intro length_show_int) auto
  moreover have "atoll (show_nat (nat v)) = None" using assms(4) by (simp add: atoll_def parse_show_nat)
  ultimately show ?thesis using assms w show_nat_not_minus [of "nat v"]
    by (simp add: get_hash_value_def sprintf_hash_def show_int_def get_hash_def Let_def)
qed

text \<open>C38: The 64-bit value \<open>- 2 ^ 63 + 1\<close> hashes to zero, the mark of an empty bucket, so an
  index loses every row with that value; the smallest value is not representable for
  \<^verbatim>\<open>atoll\<close> at all.\<close>

theorem get_hash_value_zero_key:
  assumes "ld_type d = HI_TYPE_LONGLONG" and "ld_len d = 8"
  shows "(get64 (ld_data d) 0 = Some 0x8000000000000001 \<longrightarrow> get_hash_value fmt_f fmt_lf d = Some 0) \<and>
    (get64 (ld_data d) 0 = Some 0x8000000000000000 \<longrightarrow> get_hash_value fmt_f fmt_lf d = None)"
proof (intro conjI impI)
  assume "get64 (ld_data d) 0 = Some 0x8000000000000001"
  then have "stored_int d = Some (- (2 ^ 63) + 1)" using assms by (simp add: stored_int_def)
  from get_hash_value_int [OF this] assms obtain h where
    "get_hash_value fmt_f fmt_lf d = Some h" "uint h = 0" by (auto simp: int_key_def printed_int_def)
  then show "get_hash_value fmt_f fmt_lf d = Some 0" by (simp add: uint_0_iff)
next
  assume "get64 (ld_data d) 0 = Some 0x8000000000000000"
  moreover have "atoll (show_nat (2 ^ 63)) = None" by (simp add: atoll_def parse_show_nat)
  ultimately show "get_hash_value fmt_f fmt_lf d = None"
    using assms by (simp add: get_hash_value_def sprintf_hash_def show_int_def get_hash_def char_at_def Let_def)
qed

text \<open>The text of a \<^verbatim>\<open>double\<close> is printed into 128 bytes without a bound: a value whose decimal
  text is longer, as that of any value from \<open>10 ^ 121\<close> on, overruns the buffer.\<close>

theorem get_hash_value_double_overruns:
  assumes "ld_type d = HI_TYPE_DOUBLE" and "ld_len d \<noteq> 0" and "rd_range (ld_data d) 0 8 = Some bs"
    and "MAX_HASH_LEN \<le> length (fmt_lf bs)"
  shows "get_hash_value fmt_f fmt_lf d = None"
  using assms by (simp add: get_hash_value_def sprintf_hash_def)

text \<open>The digit test of the float key is dead: \<^verbatim>\<open>!ISNUM(c)\<close> negates only the character, so any
  text passes, and a text with no digits gets the key of zero.\<close>

theorem get_hash_accepts_non_numbers:
  "get_hash ''nan'' HI_TYPE_DOUBLE = get_hash ''0.000000'' HI_TYPE_DOUBLE \<and>
   get_hash ''nan'' HI_TYPE_DOUBLE = Some 0x8000000000000000"
  by (simp add: get_hash_def float_key_def check_float_loop.simps not_ISNUM_def char_at_def atoi_def parse_int_def
      is_space_def is_digit_def digits_value_def Let_def)

section \<open>Instances\<close>

definition long_value :: "u64 \<Rightarrow> low_data" where
  "long_value w = \<lparr>ld_field_name = [], ld_type = HI_TYPE_LONGLONG, ld_data = le_bytes 8 w, ld_len = 8\<rparr>"

lemma long_value_simps [simp]:
  "get64 (ld_data (long_value w)) 0 = Some w" "ld_type (long_value w) = HI_TYPE_LONGLONG"
  "ld_len (long_value w) = 8" "stored_int (long_value w) = Some (sint w)"
  "hashed_as_stored HI_TYPE_LONGLONG"
  by (simp_all add: long_value_def get_le_def rd_range_def stored_int_def hashed_as_stored_def)

definition short_value :: "u16 \<Rightarrow> low_data" where
  "short_value w = \<lparr>ld_field_name = [], ld_type = HI_TYPE_SHORT, ld_data = le_bytes 2 w, ld_len = 2\<rparr>"

lemma short_value_simps [simp]:
  "ld_type (short_value w) = HI_TYPE_SHORT" "ld_len (short_value w) = 2" "stored_int (short_value w) = Some (sint w)"
  by (simp_all add: short_value_def get_le_def rd_range_def stored_int_def)

theorem get_hash_value_orders_integers_witness:
  "(\<exists>h k. get_hash_value (\<lambda>_. []) (\<lambda>_. []) (long_value (- 3)) = Some h \<and>
    get_hash_value (\<lambda>_. []) (\<lambda>_. []) (long_value 2) = Some k \<and> h < k \<and> h \<noteq> 0) \<and>
   (\<exists>h k. get_hash_value (\<lambda>_. []) (\<lambda>_. []) (short_value 2) = Some h \<and>
    get_hash_value (\<lambda>_. []) (\<lambda>_. []) (short_value (- 3)) = Some k \<and> h < k)"
  using get_hash_value_orders_integers [of "long_value (- 3)" "- 3" "long_value 2" 2 "\<lambda>_. []" "\<lambda>_. []"]
    get_hash_value_orders_integers [of "short_value 2" 2 "short_value (- 3)" "- 3" "\<lambda>_. []" "\<lambda>_. []"]
  by auto

theorem get_hash_value_zero_key_witness:
  "get_hash_value (\<lambda>_. []) (\<lambda>_. []) (long_value 0x8000000000000001) = Some 0 \<and>
   get_hash_value (\<lambda>_. []) (\<lambda>_. []) (long_value 0x8000000000000000) = None"
  using get_hash_value_zero_key [of "long_value 0x8000000000000001" "\<lambda>_. []" "\<lambda>_. []"]
    get_hash_value_zero_key [of "long_value 0x8000000000000000" "\<lambda>_. []" "\<lambda>_. []"]
  by simp

text \<open>The decimal text of \<open>10 ^ 300\<close> has 301 digits before the point.\<close>

theorem get_hash_value_double_overruns_witness:
  "get_hash_value (\<lambda>_. []) (\<lambda>_. CHR ''1'' # replicate 300 CHR ''0'' @ ''.000000'')
    \<lparr>ld_field_name = [], ld_type = HI_TYPE_DOUBLE, ld_data = le_bytes 8 (0x7E37E43C8800759C :: u64), ld_len = 8\<rparr> = None"
  by (rule get_hash_value_double_overruns) (simp_all add: rd_range_def)

end
