(* ===== verification/Probe.thy ===== *)
theory Probe
  imports Mile_Prelude
begin

text \<open>
  Linear probing, the loop that the hash indexes share: look at the bucket of the hash value,
  then at the following ones, around the table, until a bucket answers, the start comes up
  again or, in the dynamic index, a limit of steps is reached.  A table of size zero divides
  by zero.
\<close>

section \<open>The loop\<close>

definition probe_left :: "nat \<Rightarrow> nat \<Rightarrow> nat \<Rightarrow> nat" where
  "probe_left n loc i = (if i < n then (loc + (n - Suc i)) mod n else n)"

lemma probe_left_decreases:
  assumes "loc < n" and "Suc i mod n \<noteq> loc"
  shows "probe_left n loc (Suc i mod n) < probe_left n loc i"
proof (cases "Suc i < n")
  case True
  then have i: "Suc i mod n = Suc i" by simp
  show ?thesis
  proof (cases "loc \<le> i")
    case True
    then have "loc + (n - Suc i) < n" "loc + (n - Suc (Suc i)) < n" using \<open>Suc i < n\<close> by simp_all
    with \<open>Suc i < n\<close> show ?thesis by (simp add: probe_left_def)
  next
    case False
    then have *: "Suc i < loc" using assms(2) i by simp
    then have e: "loc + (n - Suc i) = n + (loc - Suc i)" "loc + (n - Suc (Suc i)) = n + (loc - Suc (Suc i))"
      using \<open>Suc i < n\<close> by simp_all
    have "(loc + (n - Suc i)) mod n = loc - Suc i" "(loc + (n - Suc (Suc i))) mod n = loc - Suc (Suc i)"
      unfolding e mod_add_self1 using assms(1) by simp_all
    with \<open>Suc i < n\<close> * show ?thesis unfolding i probe_left_def by simp
  qed
next
  case False
  show ?thesis
  proof (cases "Suc i = n")
    case True
    then have "0 < loc" using assms by (cases loc) simp_all
    then have e: "loc + (n - Suc 0) = n + (loc - 1)" using assms(1) by simp
    have "(loc + (n - Suc 0)) mod n = loc - 1" unfolding e mod_add_self1 using assms(1) by simp
    with True \<open>0 < loc\<close> assms(1) show ?thesis by (simp add: probe_left_def)
  next
    case no: False
    have "Suc i mod n < n" using assms(1) by simp
    then show ?thesis using False no assms(1) by (simp add: probe_left_def)
  qed
qed

function probe_loop ::
    "nat option \<Rightarrow> nat \<Rightarrow> nat \<Rightarrow> (nat \<Rightarrow> 'r option option) \<Rightarrow> nat \<Rightarrow> nat \<Rightarrow> 'r option option" where
  "probe_loop limit n loc body i count =
     (if loc < n
      then do {
        r \<leftarrow> body i;
        case r of
          Some x \<Rightarrow> Some (Some x)
        | None \<Rightarrow>
            let i' = Suc i mod n in
            if (case limit of None \<Rightarrow> False | Some k \<Rightarrow> count \<ge> k) then Some None
            else if i' = loc then Some None
            else probe_loop limit n loc body i' (Suc count)
      }
      else None)"
  by pat_completeness auto
termination
  by (relation "measure (\<lambda>(limit, n, loc, body, i, count). probe_left n loc i)")
    (auto simp: probe_left_decreases)

declare probe_loop.simps [simp del]

section \<open>What it finds\<close>

text \<open>The bucket at distance \<open>k\<close> from the start.\<close>

definition slot :: "nat \<Rightarrow> nat \<Rightarrow> nat \<Rightarrow> nat" where
  "slot n loc k = (loc + k) mod n"

lemma slot_0 [simp]: "loc < n \<Longrightarrow> slot n loc 0 = loc"
  by (simp add: slot_def)

lemma slot_less: "loc < n \<Longrightarrow> slot n loc k < n"
  by (simp add: slot_def)

lemma slot_Suc: "slot n loc (Suc k) = Suc (slot n loc k) mod n"
  by (simp add: slot_def mod_Suc_eq)

lemma slot_inj:
  assumes "loc < n" and "j < n" and "k < n" and "slot n loc j = slot n loc k"
  shows "j = k"
proof -
  have r: "slot n loc i = (if loc + i < n then loc + i else loc + i - n)" if "i < n" for i
    using that assms(1) by (simp add: slot_def mod_if)
  show ?thesis using assms(2-4) r [of j] r [of k] assms(1) by (auto split: if_splits)
qed

lemma slot_surj: "loc < n \<Longrightarrow> i < n \<Longrightarrow> \<exists>k < n. slot n loc k = i"
proof -
  assume *: "loc < n" "i < n"
  have "slot n loc (if loc \<le> i then i - loc else i + n - loc) = i"
    using * by (simp add: slot_def)
  then show ?thesis using * by (intro exI [of _ "if loc \<le> i then i - loc else i + n - loc"]) auto
qed

lemma slot_round: "loc < n \<Longrightarrow> k < n \<Longrightarrow> slot n loc (Suc k) = loc \<longleftrightarrow> Suc k = n"
  using slot_inj [of loc n "Suc k" 0] by (cases "Suc k = n") (auto simp: slot_def)

text \<open>The loop stops at the first bucket that answers, if it comes within the limit.\<close>

lemma probe_loop_hit:
  assumes "loc < n" and "k < n" and "body (slot n loc k) = Some (Some x)"
    and "\<And>j. j < k \<Longrightarrow> body (slot n loc j) = Some None"
    and "\<And>m. limit = Some m \<Longrightarrow> k \<le> m"
  shows "probe_loop limit n loc body loc 0 = Some (Some x)"
proof -
  have "probe_loop limit n loc body (slot n loc s) s = Some (Some x)" if "s \<le> k" for s
    using that
  proof (induction "k - s" arbitrary: s)
    case 0
    then show ?case using assms(1,3) by (subst probe_loop.simps) simp
  next
    case (Suc d)
    then have s: "s < k" by simp
    have "slot n loc (Suc s) \<noteq> loc" using slot_round [of loc n s] assms(1,2) s by simp
    moreover have "\<not> (case limit of None \<Rightarrow> False | Some m \<Rightarrow> s \<ge> m)"
      using assms(5) s by (auto split: option.splits)
    moreover have "probe_loop limit n loc body (slot n loc (Suc s)) (Suc s) = Some (Some x)"
      using Suc by simp
    ultimately show ?case using assms(1) assms(4) [OF s]
      by (subst probe_loop.simps) (simp add: slot_Suc)
  qed
  from this [of 0] show ?thesis using assms(1) by simp
qed

text \<open>What it returns comes from some bucket.\<close>

lemma probe_loop_returns: "probe_loop limit n loc body i count = Some (Some x) \<Longrightarrow> \<exists>j. body j = Some (Some x)"
proof (induction limit n loc body i count rule: probe_loop.induct)
  case (1 limit n loc body i count)
  then obtain r where r: "loc < n" "body i = Some r" by (subst (asm) probe_loop.simps) (auto simp: bind_eq_Some_conv split: if_splits)
  show ?case
  proof (cases r)
    case None
    then have "probe_loop limit n loc body (Suc i mod n) (Suc count) = Some (Some x)"
      "\<not> (case limit of None \<Rightarrow> False | Some k \<Rightarrow> k \<le> count)" "Suc i mod n \<noteq> loc"
      using "1.prems" r by (subst (asm) probe_loop.simps; auto simp: Let_def split: if_splits)+
    then show ?thesis using "1.IH" [OF r(1), of None "Suc i mod n"] r(2) None by simp
  next
    case (Some y)
    with "1.prems" r show ?thesis by (subst (asm) probe_loop.simps) auto
  qed
qed

text \<open>It comes back empty-handed when no bucket within the limit answers.\<close>

lemma probe_loop_miss:
  assumes "loc < n" and "\<And>j. j < n \<Longrightarrow> (\<And>m. limit = Some m \<Longrightarrow> j \<le> m) \<Longrightarrow> body (slot n loc j) = Some None"
  shows "probe_loop limit n loc body loc 0 = Some None"
proof -
  have "probe_loop limit n loc body (slot n loc s) s = Some None"
    if "s < n" "\<And>m. limit = Some m \<Longrightarrow> s \<le> m" for s
    using that
  proof (induction "n - s" arbitrary: s)
    case (Suc d)
    have b: "body (slot n loc s) = Some None" using assms(2) Suc.prems by blast
    show ?case
    proof (cases "(case limit of None \<Rightarrow> False | Some m \<Rightarrow> s \<ge> m) \<or> Suc s = n")
      case True
      then show ?thesis using b assms(1) slot_round [of loc n s] Suc.prems(1)
        by (subst probe_loop.simps) (auto simp: slot_Suc [symmetric])
    next
      case False
      then have "probe_loop limit n loc body (slot n loc (Suc s)) (Suc s) = Some None"
        using Suc by (intro Suc.hyps) (auto split: option.splits)
      then show ?thesis using b assms(1) False slot_round [of loc n s] Suc.prems(1)
        by (subst probe_loop.simps) (auto simp: slot_Suc [symmetric])
    qed
  qed simp
  from this [of 0] show ?thesis using assms(1) by simp
qed

end
