(* ===== verification/Hash_Index.thy ===== *)
theory Hash_Index
  imports Doc_Chain Hash Probe
begin

text \<open>
  The hash index of a column, \<^verbatim>\<open>storage/docdb/hash_index.c\<close>: an open-addressing table of packed
  (hash value, offset) buckets, one more bucket for null values, and the document chains the
  offsets lead to.  The mutex only serialises checkpoint, release and switch, so a call of one
  of them is one step here.
\<close>

section \<open>State\<close>

record hash_index_config =
  hc_work_space :: string
  hc_row_limit :: u32
  hc_is_full :: bool

record hash_index_manager =
  hi_hashmod :: u32
  hi_limit :: u32
  hi_file_name :: string
  hi_mem :: "u8 list option"
  hi_is_full :: bool
  hi_doclist :: doclist_manager

definition HASH_INDEX_MMAP_SIZE :: "hash_index_manager \<Rightarrow> u32" where
  "HASH_INDEX_MMAP_SIZE h = (hi_hashmod h + 1) * 12"

text \<open>A bucket is eight bytes of hash value and four of offset.\<close>

definition hb_hash_value :: "u8 list \<Rightarrow> nat \<Rightarrow> u64 option" where
  "hb_hash_value m i = get64 m (i * 12)"

definition hb_offset :: "u8 list \<Rightarrow> nat \<Rightarrow> u32 option" where
  "hb_offset m i = get32 m (i * 12 + 8)"

definition set_hash_value :: "u8 list \<Rightarrow> nat \<Rightarrow> u64 \<Rightarrow> u8 list option" where
  "set_hash_value m i v = put64 m (i * 12) v"

definition set_offset :: "u8 list \<Rightarrow> nat \<Rightarrow> u32 \<Rightarrow> u8 list option" where
  "set_offset m i v = put32 m (i * 12 + 8) v"

section \<open>Opening\<close>

definition hash_index_init ::
    "env \<Rightarrow> file_system \<Rightarrow> hash_index_config \<Rightarrow> (hash_index_manager \<times> file_system) outcome" where
  "hash_index_init ev fs config =
     (case sprintf_name (hc_work_space config @ ''/hash.idx'') of
        None \<Rightarrow> Trap
      | Some name \<Rightarrow>
          obind (region_open ev fs (hc_is_full config) name ((hc_row_limit config + 1) * 12)) (\<lambda>(m, fs1).
            obind (doclist_init ev fs1
                \<lparr>dc_work_space = hc_work_space config, dc_row_limit = hc_row_limit config,
                 dc_is_full = hc_is_full config\<rparr>)
              (\<lambda>(d, fs2).
                Ret (\<lparr>hi_hashmod = hc_row_limit config, hi_limit = hc_row_limit config, hi_file_name = name,
                  hi_mem = Some m, hi_is_full = hc_is_full config, hi_doclist = d\<rparr>, fs2))))"

section \<open>Insertion\<close>

text \<open>Hanging a document on an empty bucket: the offset is written before the hash value.\<close>

definition insert_new ::
    "hash_index_manager \<Rightarrow> u8 list \<Rightarrow> nat \<Rightarrow> u64 \<Rightarrow> u32 \<Rightarrow> (int \<times> hash_index_manager) option" where
  "insert_new h m i hash_value docid = do {
     (offset, d) \<leftarrow> doclist_insert (hi_doclist h) docid 0 (word_of_nat i);
     if offset = 0 then Some (ERROR_INSERT_REPEAT, h\<lparr>hi_doclist := d\<rparr>)
     else do {
       m1 \<leftarrow> set_offset m i offset;
       m2 \<leftarrow> set_hash_value m1 i hash_value;
       Some (MILE_RETURN_SUCCESS, h\<lparr>hi_mem := Some m2, hi_doclist := d\<rparr>)
     }
   }"

definition insert_more ::
    "hash_index_manager \<Rightarrow> u8 list \<Rightarrow> nat \<Rightarrow> u32 \<Rightarrow> (int \<times> hash_index_manager) option" where
  "insert_more h m i docid = do {
     old \<leftarrow> hb_offset m i;
     (offset, d) \<leftarrow> doclist_insert (hi_doclist h) docid old (word_of_nat i);
     if offset = 0 then Some (ERROR_INSERT_REPEAT, h\<lparr>hi_doclist := d\<rparr>)
     else do {
       m1 \<leftarrow> set_offset m i offset;
       Some (MILE_RETURN_SUCCESS, h\<lparr>hi_mem := Some m1, hi_doclist := d\<rparr>)
     }
   }"

text \<open>A further null value: the result of the document list is stored unchecked.\<close>

definition insert_null_more ::
    "hash_index_manager \<Rightarrow> u8 list \<Rightarrow> nat \<Rightarrow> u32 \<Rightarrow> (int \<times> hash_index_manager) option" where
  "insert_null_more h m i docid = do {
     old \<leftarrow> hb_offset m i;
     (offset, d) \<leftarrow> doclist_insert (hi_doclist h) docid old (word_of_nat i);
     m1 \<leftarrow> set_offset m i offset;
     Some (MILE_RETURN_SUCCESS, h\<lparr>hi_mem := Some m1, hi_doclist := d\<rparr>)
   }"

definition insert_body ::
    "hash_index_manager \<Rightarrow> u8 list \<Rightarrow> u64 \<Rightarrow> u32 \<Rightarrow> nat \<Rightarrow> (int \<times> hash_index_manager) option option" where
  "insert_body h m hash_value docid i = do {
     v \<leftarrow> hb_hash_value m i;
     if v = 0 then map_option Some (insert_new h m i hash_value docid)
     else if v = hash_value then map_option Some (insert_more h m i docid)
     else Some None
   }"

definition hash_index_insert ::
    "(u8 list \<Rightarrow> string) \<Rightarrow> (u8 list \<Rightarrow> string) \<Rightarrow> hash_index_manager \<Rightarrow> low_data \<Rightarrow> u32 \<Rightarrow>
       (int \<times> hash_index_manager) option" where
  "hash_index_insert fmt_f fmt_lf h data docid = do {
     hash_value \<leftarrow> get_hash_value fmt_f fmt_lf data;
     m \<leftarrow> hi_mem h;
     let n = unat (hi_hashmod h);
     if ld_len data = 0
     then do {
       v \<leftarrow> hb_hash_value m n;
       if v = 0 then insert_new h m n hash_value docid
       else insert_null_more h m n docid
     }
     else do {
       r \<leftarrow> probe_loop None n (unat hash_value mod n) (insert_body h m hash_value docid) (unat hash_value mod n) 0;
       case r of None \<Rightarrow> Some (ERROR_HASH_CONFLICT, h) | Some x \<Rightarrow> Some x
     }
   }"

section \<open>Queries\<close>

text \<open>The outer \<^term>\<open>None\<close> is a fault, the inner one the NULL result.\<close>

definition query_body ::
    "hash_index_manager \<Rightarrow> u8 list \<Rightarrow> u64 \<Rightarrow> nat \<Rightarrow> 's rowid_list option option option" where
  "query_body h m hash_value i = do {
     v \<leftarrow> hb_hash_value m i;
     if v = 0 then Some (Some None)
     else if v = hash_value
     then do { offset \<leftarrow> hb_offset m i; l \<leftarrow> get_rowid_list (hi_doclist h) (unat offset); Some (Some (Some l)) }
     else Some None
   }"

definition hash_index_query ::
    "(u8 list \<Rightarrow> string) \<Rightarrow> (u8 list \<Rightarrow> string) \<Rightarrow> hash_index_manager \<Rightarrow> low_data \<Rightarrow> 's rowid_list option option" where
  "hash_index_query fmt_f fmt_lf h data = do {
     m \<leftarrow> hi_mem h;
     let n = unat (hi_hashmod h);
     if ld_len data = 0
     then do {
       v \<leftarrow> hb_hash_value m n;
       if v = 0 then Some None
       else do { offset \<leftarrow> hb_offset m n; l \<leftarrow> get_rowid_list (hi_doclist h) (unat offset); Some (Some l) }
     }
     else do {
       hash_value \<leftarrow> get_hash_value fmt_f fmt_lf data;
       r \<leftarrow> probe_loop None n (unat hash_value mod n) (query_body h m hash_value) (unat hash_value mod n) 0;
       Some (case r of None \<Rightarrow> None | Some x \<Rightarrow> x)
     }
   }"

section \<open>Recovery\<close>

text \<open>The loops run over the bucket and document numbers in the order of the source.\<close>

fun clear_offsets :: "u8 list \<Rightarrow> u32 \<Rightarrow> nat list \<Rightarrow> u8 list option" where
  "clear_offsets m max_offset [] = Some m"
| "clear_offsets m max_offset (i # is) = do {
     off \<leftarrow> hb_offset m i;
     m' \<leftarrow> (if off \<ge> max_offset then set_offset m i 0 else Some m);
     clear_offsets m' max_offset is
   }"

partial_function (option) chain_end :: "u8 list \<Rightarrow> doc_row_unit \<Rightarrow> doc_row_unit option" where
  "chain_end dm doc =
     (if du_next doc AND 0x80000000 \<noteq> 0 then Some doc
      else Option.bind (get_unit dm (unat (du_next doc))) (\<lambda>doc'. chain_end dm doc'))"

fun rehang :: "u8 list \<Rightarrow> u8 list \<Rightarrow> nat list \<Rightarrow> u8 list option" where
  "rehang m dm [] = Some m"
| "rehang m dm (i # is) = do {
     doc \<leftarrow> get_unit dm (4 + i * 8);
     if du_doc_id doc = 0 \<and> du_next doc = 0 then rehang m dm is
     else do {
       last \<leftarrow> chain_end dm doc;
       let bucket_no = unat (du_next last AND 0x7fffffff);
       let offset = (word_of_nat (i * 8 + 4) :: u32);
       old \<leftarrow> hb_offset m bucket_no;
       m' \<leftarrow> (if old < offset then set_offset m bucket_no offset else Some m);
       rehang m' dm is
     }
   }"

fun clear_empty :: "u8 list \<Rightarrow> nat list \<Rightarrow> u8 list option" where
  "clear_empty m [] = Some m"
| "clear_empty m (i # is) = do {
     off \<leftarrow> hb_offset m i;
     m' \<leftarrow> (if off = 0 then set_hash_value m i 0 else Some m);
     clear_empty m' is
   }"

definition hash_index_recover ::
    "hash_index_manager \<Rightarrow> u32 \<Rightarrow> (int \<times> hash_index_manager) option" where
  "hash_index_recover h docid =
     (let d = hi_doclist h in
      if dl_version d \<noteq> DATA_STOAGE_VERSION then Some (0, h)
      else do {
        m \<leftarrow> hi_mem h;
        dm \<leftarrow> dl_mem d;
        dm1 \<leftarrow> zero_range dm (4 + unat docid * 8) (unat (dl_row_limit d - docid) * 8);
        let max_offset = 8 * docid + 4;
        let buckets = [0..<unat (hi_hashmod h + 1)];
        m1 \<leftarrow> clear_offsets m max_offset buckets;
        m2 \<leftarrow> (if docid > 0 then rehang m1 dm1 (rev [0..<unat docid]) else Some m1);
        m3 \<leftarrow> clear_empty m2 buckets;
        Some (0, h\<lparr>hi_mem := Some m3, hi_doclist := d\<lparr>dl_mem := Some dm1\<rparr>\<rparr>)
      })"

section \<open>Closing\<close>

definition hash_index_destroy :: "file_system \<Rightarrow> hash_index_manager \<Rightarrow> file_system" where
  "hash_index_destroy fs h = (doclist_destroy fs (hi_doclist h))(hi_file_name h := None)"

definition hash_index_release :: "env \<Rightarrow> file_system \<Rightarrow> hash_index_manager \<Rightarrow> file_system outcome" where
  "hash_index_release ev fs h =
     obind (doclist_release ev fs (hi_doclist h)) (\<lambda>fs1.
       obind (region_sync ev fs1 (hi_is_full h) (hi_file_name h) (hi_mem h) 0) (\<lambda>(r, fs2). Ret fs2))"

definition hash_index_checkpoint :: "env \<Rightarrow> file_system \<Rightarrow> hash_index_manager \<Rightarrow> file_system outcome" where
  "hash_index_checkpoint ev fs h =
     obind (doclist_checkpoint ev fs (hi_doclist h)) (\<lambda>(r, fs1).
       obind (region_sync ev fs1 (hi_is_full h) (hi_file_name h) (hi_mem h) (ev_disk_write_limit ev))
         (\<lambda>(r, fs2). Ret fs2))"

definition hash_index_mmap_switch ::
    "env \<Rightarrow> file_system \<Rightarrow> hash_index_manager \<Rightarrow> (int \<times> hash_index_manager \<times> file_system) outcome" where
  "hash_index_mmap_switch ev fs h =
     (if \<not> hi_is_full h \<and> \<not> ev_all_mmap ev
      then obind (region_switch ev fs (hi_file_name h) (hi_mem h) (HASH_INDEX_MMAP_SIZE h)) (\<lambda>(r, mem, fs1).
        if r \<noteq> 0 then Ret (ERROR_MMAP_SWITCH, h\<lparr>hi_mem := mem\<rparr>, fs1)
        else obind (doclist_mmap_switch ev fs1 (hi_doclist h)) (\<lambda>(r', d, fs2).
          if r' \<noteq> 0 then Ret (ERROR_MMAP_SWITCH, h\<lparr>hi_mem := mem, hi_doclist := d\<rparr>, fs2)
          else Ret (MILE_RETURN_SUCCESS, h\<lparr>hi_mem := mem, hi_doclist := d, hi_is_full := True\<rparr>, fs2)))
      else Ret (MILE_RETURN_SUCCESS, h, fs))"

end
