(* ===== verification/Dyhash_Index.thy ===== *)
theory Dyhash_Index
  imports Hash_Index Set_Operator
begin

text \<open>
  The growing hash index of a full-text column, \<^verbatim>\<open>storage/docdb/dynamic_hash_index.c\<close>: a chain
  of open-addressing tables, each with its own document list in the second format.  A document
  goes into the last table; when that one is full or the probe gets too long, a new table is
  appended.  A query unites the answers of all tables.  The linked list of tables is a list
  here, its last element the \<^verbatim>\<open>tail\<close>.
\<close>

section \<open>State\<close>

abbreviation (input) DOC_MULTIPLE_NUM :: nat where "DOC_MULTIPLE_NUM \<equiv> 2"
abbreviation (input) CONFLICT_RETRY_NUM :: nat where "CONFLICT_RETRY_NUM \<equiv> 100"

record dyhash_index_config =
  yc_work_space :: string
  yc_row_limit :: u32
  yc_is_full :: bool

record dyhash_signleindex_config =
  ys_index :: u16
  ys_work_space :: string
  ys_hash_mod :: u32
  ys_is_full :: bool
  ys_is_create :: bool

record dyhash_single_index =
  ds_hashmod :: u32
  ds_limit :: u32
  ds_index :: u16
  ds_file_name :: string
  ds_mem :: "u8 list option"
  ds_doclist :: doclist_manager

record dyhash_index_manager =
  dy_singles :: "dyhash_single_index list"
  dy_work_space :: string
  dy_hashmod :: u32
  dy_is_full :: bool

definition DYHASH_INDEX_MMAP_SIZE :: "dyhash_single_index \<Rightarrow> u32" where
  "DYHASH_INDEX_MMAP_SIZE s = ds_hashmod s * 16"

text \<open>A bucket is eight bytes of hash value, four of count and four of offset.\<close>

definition db_hash_value :: "u8 list \<Rightarrow> nat \<Rightarrow> u64 option" where
  "db_hash_value m i = get64 m (i * 16)"

definition db_count :: "u8 list \<Rightarrow> nat \<Rightarrow> u32 option" where
  "db_count m i = get32 m (i * 16 + 8)"

definition db_offset :: "u8 list \<Rightarrow> nat \<Rightarrow> u32 option" where
  "db_offset m i = get32 m (i * 16 + 12)"

definition set_db_hash_value :: "u8 list \<Rightarrow> nat \<Rightarrow> u64 \<Rightarrow> u8 list option" where
  "set_db_hash_value m i v = put64 m (i * 16) v"

definition set_db_count :: "u8 list \<Rightarrow> nat \<Rightarrow> u32 \<Rightarrow> u8 list option" where
  "set_db_count m i v = put32 m (i * 16 + 8) v"

definition set_db_offset :: "u8 list \<Rightarrow> nat \<Rightarrow> u32 \<Rightarrow> u8 list option" where
  "set_db_offset m i v = put32 m (i * 16 + 12) v"

definition add_db_count :: "u8 list \<Rightarrow> nat \<Rightarrow> u8 list option" where
  "add_db_count m i = do { c \<leftarrow> db_count m i; set_db_count m i (c + 1) }"

section \<open>Opening\<close>

definition create_single_index ::
    "env \<Rightarrow> file_system \<Rightarrow> dyhash_signleindex_config \<Rightarrow> (dyhash_single_index option \<times> file_system) outcome" where
  "create_single_index ev fs config =
     (case sprintf_name (ys_work_space config @ ''/hash.idx.'' @ show_nat (unat (ys_index config))) of
        None \<Rightarrow> Trap
      | Some name \<Rightarrow>
          if \<not> ys_is_create config \<and> fs name = None then Ret (None, fs)
          else
            obind (region_open ev fs (ys_is_full config) name (ys_hash_mod config * 16)) (\<lambda>(m, fs1).
              obind (doclist_init_v2 ev fs1
                  \<lparr>dc_work_space = ys_work_space config, dc_row_limit = ys_hash_mod config * 2,
                   dc_is_full = ys_is_full config\<rparr> (ys_is_create config) (ys_index config))
                (\<lambda>(d, fs2). case d of
                   None \<Rightarrow> Ret (None, fs2)
                 | Some d \<Rightarrow> Ret (Some \<lparr>ds_hashmod = ys_hash_mod config, ds_limit = ys_hash_mod config,
                     ds_index = ys_index config, ds_file_name = name, ds_mem = Some m, ds_doclist = d\<rparr>, fs2))))"

text \<open>The loop counts in sixteen bits and ends at the first missing file; \<^term>\<open>None\<close> means that it
  does not end.\<close>

partial_function (option) dyhash_init_loop ::
    "env \<Rightarrow> dyhash_index_config \<Rightarrow> file_system \<Rightarrow> u16 \<Rightarrow> dyhash_single_index list \<Rightarrow>
       (dyhash_single_index list option \<times> file_system) outcome option" where
  "dyhash_init_loop ev config fs i acc =
     (case create_single_index ev fs \<lparr>ys_index = i, ys_work_space = yc_work_space config,
         ys_hash_mod = yc_row_limit config, ys_is_full = yc_is_full config, ys_is_create = (i = 1)\<rparr> of
        Trap \<Rightarrow> Some Trap
      | Blocked \<Rightarrow> Some Blocked
      | Ret r \<Rightarrow>
          (if fst r = None
           then Some (Ret (if i = 1 then None else Some acc, snd r))
           else dyhash_init_loop ev config (snd r) (i + 1) (acc @ [the (fst r)])))"

definition dyhash_index_init ::
    "env \<Rightarrow> file_system \<Rightarrow> dyhash_index_config \<Rightarrow> (dyhash_index_manager option \<times> file_system) outcome option" where
  "dyhash_index_init ev fs config = do {
     r \<leftarrow> dyhash_init_loop ev config fs 1 [];
     Some (obind r (\<lambda>(singles, fs').
       Ret (map_option (\<lambda>ss. \<lparr>dy_singles = ss, dy_work_space = yc_work_space config,
         dy_hashmod = yc_row_limit config, dy_is_full = yc_is_full config\<rparr>) singles, fs')))
   }"

section \<open>One table\<close>

text \<open>The result of the document list: \<open>- 1\<close> means full, \<open>0\<close> that the document is not newer.\<close>

definition single_new ::
    "dyhash_single_index \<Rightarrow> u8 list \<Rightarrow> nat \<Rightarrow> u64 \<Rightarrow> u32 \<Rightarrow> (int \<times> dyhash_single_index) option" where
  "single_new s m i hash_value docid = do {
     (offset, d) \<leftarrow> doclist_insert_v2 (ds_doclist s) docid 0 (word_of_nat i);
     if offset = - 1 then Some (1, s\<lparr>ds_doclist := d\<rparr>)
     else if offset = 0 then Some (0, s\<lparr>ds_doclist := d\<rparr>)
     else do {
       m1 \<leftarrow> set_db_offset m i offset;
       m2 \<leftarrow> set_db_hash_value m1 i hash_value;
       m3 \<leftarrow> add_db_count m2 i;
       Some (MILE_RETURN_SUCCESS, s\<lparr>ds_mem := Some m3, ds_doclist := d\<rparr>)
     }
   }"

definition single_more ::
    "dyhash_single_index \<Rightarrow> u8 list \<Rightarrow> nat \<Rightarrow> u32 \<Rightarrow> (int \<times> dyhash_single_index) option" where
  "single_more s m i docid = do {
     old \<leftarrow> db_offset m i;
     (offset, d) \<leftarrow> doclist_insert_v2 (ds_doclist s) docid old (word_of_nat i);
     if offset = - 1 then Some (1, s\<lparr>ds_doclist := d\<rparr>)
     else if offset = 0 then Some (0, s\<lparr>ds_doclist := d\<rparr>)
     else do {
       m1 \<leftarrow> set_db_offset m i offset;
       m2 \<leftarrow> add_db_count m1 i;
       Some (MILE_RETURN_SUCCESS, s\<lparr>ds_mem := Some m2, ds_doclist := d\<rparr>)
     }
   }"

definition single_insert_body ::
    "dyhash_single_index \<Rightarrow> u8 list \<Rightarrow> u64 \<Rightarrow> u32 \<Rightarrow> nat \<Rightarrow> (int \<times> dyhash_single_index) option option" where
  "single_insert_body s m hash_value docid i = do {
     v \<leftarrow> db_hash_value m i;
     if v = 0 then map_option Some (single_new s m i hash_value docid)
     else if v = hash_value then map_option Some (single_more s m i docid)
     else Some None
   }"

definition insert_single ::
    "(u8 list \<Rightarrow> string) \<Rightarrow> (u8 list \<Rightarrow> string) \<Rightarrow> dyhash_single_index \<Rightarrow> low_data \<Rightarrow> u32 \<Rightarrow>
       (int \<times> dyhash_single_index) option" where
  "insert_single fmt_f fmt_lf s data docid =
     (if ld_len data = 0 then Some (- 1, s)
      else do {
        hash_value \<leftarrow> get_hash_value fmt_f fmt_lf data;
        m \<leftarrow> ds_mem s;
        let n = unat (ds_hashmod s);
        r \<leftarrow> probe_loop (Some CONFLICT_RETRY_NUM) n (unat hash_value mod n)
          (single_insert_body s m hash_value docid) (unat hash_value mod n) 0;
        case r of None \<Rightarrow> Some (1, s) | Some x \<Rightarrow> Some x
      })"

text \<open>The probe of a query and of a count stops after \<^verbatim>\<open>DOC_MULTIPLE_NUM\<close> steps.\<close>

definition single_query_body ::
    "dyhash_single_index \<Rightarrow> u8 list \<Rightarrow> u64 \<Rightarrow> nat \<Rightarrow> 's rowid_list option option option" where
  "single_query_body s m hash_value i = do {
     v \<leftarrow> db_hash_value m i;
     if v = 0 then Some (Some None)
     else if v = hash_value
     then do { offset \<leftarrow> db_offset m i; l \<leftarrow> get_rowid_list (ds_doclist s) (unat offset); Some (Some (Some l)) }
     else Some None
   }"

definition query_single ::
    "(u8 list \<Rightarrow> string) \<Rightarrow> (u8 list \<Rightarrow> string) \<Rightarrow> dyhash_single_index \<Rightarrow> low_data \<Rightarrow> 's rowid_list option option" where
  "query_single fmt_f fmt_lf s data =
     (if ld_len data = 0 then Some None
      else do {
        hash_value \<leftarrow> get_hash_value fmt_f fmt_lf data;
        m \<leftarrow> ds_mem s;
        let n = unat (ds_hashmod s);
        r \<leftarrow> probe_loop (Some DOC_MULTIPLE_NUM) n (unat hash_value mod n)
          (single_query_body s m hash_value) (unat hash_value mod n) 0;
        Some (case r of None \<Rightarrow> None | Some x \<Rightarrow> x)
      })"

definition single_count_body :: "u8 list \<Rightarrow> u64 \<Rightarrow> nat \<Rightarrow> u32 option option" where
  "single_count_body m hash_value i = do {
     v \<leftarrow> db_hash_value m i;
     if v = 0 then Some (Some 0)
     else if v = hash_value then do { c \<leftarrow> db_count m i; Some (Some c) }
     else Some None
   }"

definition count_query ::
    "(u8 list \<Rightarrow> string) \<Rightarrow> (u8 list \<Rightarrow> string) \<Rightarrow> dyhash_single_index \<Rightarrow> low_data \<Rightarrow> u32 option" where
  "count_query fmt_f fmt_lf s data =
     (if ld_len data = 0 then Some 0
      else do {
        hash_value \<leftarrow> get_hash_value fmt_f fmt_lf data;
        m \<leftarrow> ds_mem s;
        let n = unat (ds_hashmod s);
        r \<leftarrow> probe_loop (Some DOC_MULTIPLE_NUM) n (unat hash_value mod n)
          (single_count_body m hash_value) (unat hash_value mod n) 0;
        Some (case r of None \<Rightarrow> 0 | Some c \<Rightarrow> c)
      })"

section \<open>Recovery of a table\<close>

text \<open>The first unit whose document is to go; \<^term>\<open>Some None\<close> if there is none.\<close>

fun find_unit :: "u8 list \<Rightarrow> u32 \<Rightarrow> nat list \<Rightarrow> nat option option" where
  "find_unit dm docid [] = Some None"
| "find_unit dm docid (i # is) = do {
     d \<leftarrow> get32 dm (4 + i * 8);
     if d \<ge> docid then Some (Some i) else find_unit dm docid is
   }"

fun clear_db_offsets :: "u8 list \<Rightarrow> u32 \<Rightarrow> nat list \<Rightarrow> u8 list option" where
  "clear_db_offsets m max_offset [] = Some m"
| "clear_db_offsets m max_offset (i # is) = do {
     off \<leftarrow> db_offset m i;
     m' \<leftarrow> (if off \<ge> max_offset then set_db_offset m i 0 else Some m);
     clear_db_offsets m' max_offset is
   }"

text \<open>The last unit of a chain and the number of links to it.\<close>

partial_function (option) chain_count :: "u8 list \<Rightarrow> doc_row_unit \<Rightarrow> u32 \<Rightarrow> (doc_row_unit \<times> u32) option" where
  "chain_count dm doc cnt =
     (if du_next doc AND 0x80000000 \<noteq> 0 then Some (doc, cnt)
      else Option.bind (get_unit dm (unat (du_next doc))) (\<lambda>doc'. chain_count dm doc' (cnt + 1)))"

fun single_rehang :: "u8 list \<Rightarrow> u8 list \<Rightarrow> nat list \<Rightarrow> u8 list option" where
  "single_rehang m dm [] = Some m"
| "single_rehang m dm (i # is) = do {
     doc \<leftarrow> get_unit dm (4 + i * 8);
     if du_doc_id doc = 0 \<and> du_next doc = 0 then single_rehang m dm is
     else do {
       (last, cnt) \<leftarrow> chain_count dm doc 0;
       let bucket_no = unat (du_next last AND 0x7fffffff);
       let offset = (word_of_nat (i * 8 + 4) :: u32);
       old \<leftarrow> db_offset m bucket_no;
       m' \<leftarrow> (if old < offset
              then do { m1 \<leftarrow> set_db_count m bucket_no (cnt + 1); set_db_offset m1 bucket_no offset }
              else Some m);
       single_rehang m' dm is
     }
   }"

fun clear_db_empty :: "u8 list \<Rightarrow> nat list \<Rightarrow> u8 list option" where
  "clear_db_empty m [] = Some m"
| "clear_db_empty m (i # is) = do {
     off \<leftarrow> db_offset m i;
     m' \<leftarrow> (if off = 0 then do { m1 \<leftarrow> set_db_hash_value m i 0; set_db_count m1 i 0 } else Some m);
     clear_db_empty m' is
   }"

definition recover_single :: "dyhash_single_index \<Rightarrow> u32 \<Rightarrow> (int \<times> dyhash_single_index) option" where
  "recover_single s docid = do {
     let d = ds_doclist s;
     dm \<leftarrow> dl_mem d;
     r \<leftarrow> find_unit dm docid [0..<unat (dl_row_limit d)];
     case r of
       None \<Rightarrow> Some (0, s)
     | Some del \<Rightarrow> do {
         m \<leftarrow> ds_mem s;
         dm1 \<leftarrow> put32 dm 0 (word_of_nat del);
         dm2 \<leftarrow> zero_range dm1 (4 + del * 8) ((unat (dl_row_limit d) - del) * 8);
         let buckets = [0..<unat (ds_hashmod s)];
         m1 \<leftarrow> clear_db_offsets m (8 * word_of_nat del + 4) buckets;
         m2 \<leftarrow> (if del > 0 then single_rehang m1 dm2 (rev [0..<del]) else Some m1);
         m3 \<leftarrow> clear_db_empty m2 buckets;
         Some (0, s\<lparr>ds_mem := Some m3, ds_doclist := d\<lparr>dl_mem := Some dm2\<rparr>\<rparr>)
       }
   }"

section \<open>The index\<close>

definition dyhash_index_insert ::
    "(u8 list \<Rightarrow> string) \<Rightarrow> (u8 list \<Rightarrow> string) \<Rightarrow> env \<Rightarrow> file_system \<Rightarrow> dyhash_index_manager \<Rightarrow> low_data \<Rightarrow> u32 \<Rightarrow>
       (int \<times> dyhash_index_manager \<times> file_system) outcome" where
  "dyhash_index_insert fmt_f fmt_lf ev fs y data docid =
     (case dy_singles y of
        [] \<Rightarrow> Trap
      | _ \<Rightarrow>
          let tail = last (dy_singles y); front = butlast (dy_singles y) in
          case insert_single fmt_f fmt_lf tail data docid of
            None \<Rightarrow> Trap
          | Some (ret, tail') \<Rightarrow>
              if ret \<noteq> 1 then Ret (ret, y\<lparr>dy_singles := front @ [tail']\<rparr>, fs)
              else obind (create_single_index ev fs \<lparr>ys_index = ds_index tail' + 1, ys_work_space = dy_work_space y,
                  ys_hash_mod = dy_hashmod y, ys_is_full = False, ys_is_create = True\<rparr>) (\<lambda>(single, fs1).
                case single of
                  None \<Rightarrow> Ret (- 1, y\<lparr>dy_singles := front @ [tail']\<rparr>, fs1)
                | Some s \<Rightarrow>
                    (case insert_single fmt_f fmt_lf s data docid of
                       None \<Rightarrow> Trap
                     | Some (ret', s') \<Rightarrow> Ret (ret', y\<lparr>dy_singles := front @ [tail', s']\<rparr>, fs1))))"

fun dyhash_query_loop ::
    "(u8 list \<Rightarrow> string) \<Rightarrow> (u8 list \<Rightarrow> string) \<Rightarrow> low_data \<Rightarrow> dyhash_single_index list \<Rightarrow>
       's::{zero,plus} rowid_list option \<Rightarrow> 's rowid_list option option" where
  "dyhash_query_loop fmt_f fmt_lf data [] result = Some result"
| "dyhash_query_loop fmt_f fmt_lf data (s # ss) result = do {
     temp \<leftarrow> query_single fmt_f fmt_lf s data;
     result' \<leftarrow> rowid_union result temp;
     dyhash_query_loop fmt_f fmt_lf data ss result'
   }"

definition dyhash_index_query ::
    "(u8 list \<Rightarrow> string) \<Rightarrow> (u8 list \<Rightarrow> string) \<Rightarrow> dyhash_index_manager \<Rightarrow> low_data \<Rightarrow>
       's::{zero,plus} rowid_list option option" where
  "dyhash_index_query fmt_f fmt_lf y data = dyhash_query_loop fmt_f fmt_lf data (dy_singles y) None"

fun dyhash_count_loop ::
    "(u8 list \<Rightarrow> string) \<Rightarrow> (u8 list \<Rightarrow> string) \<Rightarrow> low_data \<Rightarrow> dyhash_single_index list \<Rightarrow> u32 \<Rightarrow> u32 option" where
  "dyhash_count_loop fmt_f fmt_lf data [] result = Some result"
| "dyhash_count_loop fmt_f fmt_lf data (s # ss) result = do {
     c \<leftarrow> count_query fmt_f fmt_lf s data;
     dyhash_count_loop fmt_f fmt_lf data ss (result + c)
   }"

definition dyhash_index_count_query ::
    "(u8 list \<Rightarrow> string) \<Rightarrow> (u8 list \<Rightarrow> string) \<Rightarrow> dyhash_index_manager \<Rightarrow> low_data \<Rightarrow> u32 option" where
  "dyhash_index_count_query fmt_f fmt_lf y data = dyhash_count_loop fmt_f fmt_lf data (dy_singles y) 0"

fun dyhash_recover_loop ::
    "u32 \<Rightarrow> dyhash_single_index list \<Rightarrow> int \<Rightarrow> (int \<times> dyhash_single_index list) option" where
  "dyhash_recover_loop docid [] ret = Some (ret, [])"
| "dyhash_recover_loop docid (s # ss) ret = do {
     (r, s') \<leftarrow> recover_single s docid;
     (ret', ss') \<leftarrow> dyhash_recover_loop docid ss (if r = - 1 then - 1 else ret);
     Some (ret', s' # ss')
   }"

definition dyhash_index_recover :: "dyhash_index_manager \<Rightarrow> u32 \<Rightarrow> (int \<times> dyhash_index_manager) option" where
  "dyhash_index_recover y docid = do {
     (ret, ss) \<leftarrow> dyhash_recover_loop docid (dy_singles y) 0;
     Some (ret, y\<lparr>dy_singles := ss\<rparr>)
   }"

section \<open>Closing\<close>

fun dyhash_release_loop :: "env \<Rightarrow> bool \<Rightarrow> file_system \<Rightarrow> dyhash_single_index list \<Rightarrow> file_system outcome" where
  "dyhash_release_loop ev full fs [] = Ret fs"
| "dyhash_release_loop ev full fs (s # ss) =
     obind (doclist_release ev fs (ds_doclist s)) (\<lambda>fs1.
       obind (region_sync ev fs1 full (ds_file_name s) (ds_mem s) 0) (\<lambda>(r, fs2). dyhash_release_loop ev full fs2 ss))"

definition dyhash_index_release :: "env \<Rightarrow> file_system \<Rightarrow> dyhash_index_manager \<Rightarrow> file_system outcome" where
  "dyhash_index_release ev fs y = dyhash_release_loop ev (dy_is_full y) fs (dy_singles y)"

text \<open>Unlike the plain index, a checkpoint flushes without a write limit.\<close>

fun dyhash_checkpoint_loop :: "env \<Rightarrow> bool \<Rightarrow> file_system \<Rightarrow> dyhash_single_index list \<Rightarrow> file_system outcome" where
  "dyhash_checkpoint_loop ev full fs [] = Ret fs"
| "dyhash_checkpoint_loop ev full fs (s # ss) =
     obind (doclist_checkpoint ev fs (ds_doclist s)) (\<lambda>(r', fs1).
       obind (region_sync ev fs1 full (ds_file_name s) (ds_mem s) 0) (\<lambda>(r, fs2). dyhash_checkpoint_loop ev full fs2 ss))"

definition dyhash_index_checkpoint :: "env \<Rightarrow> file_system \<Rightarrow> dyhash_index_manager \<Rightarrow> file_system outcome" where
  "dyhash_index_checkpoint ev fs y = dyhash_checkpoint_loop ev (dy_is_full y) fs (dy_singles y)"

text \<open>The index counts as full from the first table on, before the others are switched.\<close>

fun dyhash_switch_loop ::
    "env \<Rightarrow> file_system \<Rightarrow> dyhash_single_index list \<Rightarrow> bool \<Rightarrow>
       (int \<times> bool \<times> dyhash_single_index list \<times> file_system) outcome" where
  "dyhash_switch_loop ev fs [] full = Ret (MILE_RETURN_SUCCESS, full, [], fs)"
| "dyhash_switch_loop ev fs (s # ss) full =
     obind (region_switch ev fs (ds_file_name s) (ds_mem s) (DYHASH_INDEX_MMAP_SIZE s)) (\<lambda>(r, mem, fs1).
       let s1 = s\<lparr>ds_mem := mem\<rparr> in
       if r \<noteq> 0 then Ret (ERROR_MMAP_SWITCH, full, s1 # ss, fs1)
       else obind (doclist_mmap_switch ev fs1 (ds_doclist s1)) (\<lambda>(r', d, fs2).
         let s2 = s1\<lparr>ds_doclist := d\<rparr> in
         if r' \<noteq> 0 then Ret (ERROR_MMAP_SWITCH, full, s2 # ss, fs2)
         else obind (dyhash_switch_loop ev fs2 ss True) (\<lambda>(r'', full', ss', fs3). Ret (r'', full', s2 # ss', fs3))))"

definition dyhash_index_mmap_switch ::
    "env \<Rightarrow> file_system \<Rightarrow> dyhash_index_manager \<Rightarrow> (int \<times> dyhash_index_manager \<times> file_system) outcome" where
  "dyhash_index_mmap_switch ev fs y =
     (if \<not> dy_is_full y \<and> \<not> ev_all_mmap ev
      then obind (dyhash_switch_loop ev fs (dy_singles y) (dy_is_full y)) (\<lambda>(r, full, ss, fs').
        Ret (r, y\<lparr>dy_singles := ss, dy_is_full := full\<rparr>, fs'))
      else Ret (MILE_RETURN_SUCCESS, y, fs))"

end
