(* ===== verification/Hash_Laws.thy ===== *)
theory Hash_Laws
  imports Hash_Index
begin

text \<open>
  The hash index as a table of buckets: bucket \<open>i\<close> holds a hash value and the documents with
  that value, newest first.  Lemmas for each operation on that table; \<open>Hash_Results\<close> turns
  them into statements about keys.
\<close>

section \<open>Writing buckets\<close>

lemma set_offset_frame:
  assumes "i < k" and "length m = k * 12"
  obtains m' where "set_offset m i v = Some m'" and "length m' = length m"
    and "\<And>j. hb_offset m' j = (if j = i then Some v else hb_offset m j)"
    and "\<And>j. hb_hash_value m' j = hb_hash_value m j"
proof -
  have "i * 12 + 8 + 4 \<le> length m" using assms by simp
  then obtain m' where m': "put32 m (i * 12 + 8) v = Some m'" "length m' = length m" by (rule put_le_some)
  have "hb_offset m' j = (if j = i then Some v else hb_offset m j)" for j
  proof (cases "j = i")
    case False
    then have "j * 12 + 8 + 4 \<le> i * 12 + 8 \<or> i * 12 + 8 + 4 \<le> j * 12 + 8" by linarith
    with False show ?thesis unfolding hb_offset_def by (simp add: get_put_other [OF m'(1)])
  qed (simp add: hb_offset_def get_put32_same [OF m'(1)])
  moreover have "hb_hash_value m' j = hb_hash_value m j" for j
  proof -
    have "j * 12 + 8 \<le> i * 12 + 8 \<or> i * 12 + 8 + 4 \<le> j * 12" by (cases "j \<le> i") auto
    then show ?thesis unfolding hb_hash_value_def by (rule get_put_other [OF m'(1)])
  qed
  ultimately show ?thesis using m' that by (simp add: set_offset_def)
qed

lemma set_hash_value_frame:
  assumes "i < k" and "length m = k * 12"
  obtains m' where "set_hash_value m i v = Some m'" and "length m' = length m"
    and "\<And>j. hb_hash_value m' j = (if j = i then Some v else hb_hash_value m j)"
    and "\<And>j. hb_offset m' j = hb_offset m j"
proof -
  have "i * 12 + 8 \<le> length m" using assms by simp
  then obtain m' where m': "put64 m (i * 12) v = Some m'" "length m' = length m" by (rule put_le_some)
  have "hb_hash_value m' j = (if j = i then Some v else hb_hash_value m j)" for j
  proof (cases "j = i")
    case False
    then have "j * 12 + 8 \<le> i * 12 \<or> i * 12 + 8 \<le> j * 12" by linarith
    with False show ?thesis unfolding hb_hash_value_def by (simp add: get_put_other [OF m'(1)])
  qed (simp add: hb_hash_value_def get_put64_same [OF m'(1)])
  moreover have "hb_offset m' j = hb_offset m j" for j
  proof -
    have "j * 12 + 8 + 4 \<le> i * 12 \<or> i * 12 + 8 \<le> j * 12 + 8" by (cases "j < i") auto
    then show ?thesis unfolding hb_offset_def by (rule get_put_other [OF m'(1)])
  qed
  ultimately show ?thesis using m' that by (simp add: set_hash_value_def)
qed

section \<open>Writing units\<close>

lemma unit_in_region: "unat p < n \<Longrightarrow> length dm = 4 + n * 8 \<Longrightarrow> GET_DOC_ROW_STRUCT p + 8 \<le> length dm"
  by (simp add: GET_DOC_ROW_STRUCT_def)

lemma units_disjoint:
  assumes "q \<noteq> p"
  shows "GET_DOC_ROW_STRUCT q + 8 \<le> GET_DOC_ROW_STRUCT p \<or> GET_DOC_ROW_STRUCT p + 8 \<le> GET_DOC_ROW_STRUCT q"
proof -
  have "unat q \<noteq> unat p" using assms unsigned_word_eqI by metis
  then have "unat q < unat p \<or> unat p < unat q" by linarith
  then show ?thesis by (auto simp: GET_DOC_ROW_STRUCT_def)
qed

lemma get_unit_frame:
  assumes "\<And>a. a \<in> {GET_DOC_ROW_STRUCT q, GET_DOC_ROW_STRUCT q + 4} \<Longrightarrow> get32 dm' a = get32 dm a"
  shows "get_unit dm' (GET_DOC_ROW_STRUCT q) = get_unit dm (GET_DOC_ROW_STRUCT q)"
  using assms by (simp add: get_unit_def)

lemma put_unit_frame:
  assumes "put32 dm (GET_DOC_ROW_STRUCT p + 4) x = Some dm1" and "put32 dm1 (GET_DOC_ROW_STRUCT p) y = Some dm2"
  shows "get_unit dm2 (GET_DOC_ROW_STRUCT p) = Some \<lparr>du_doc_id = y, du_next = x\<rparr>"
    and "q \<noteq> p \<Longrightarrow> get_unit dm2 (GET_DOC_ROW_STRUCT q) = get_unit dm (GET_DOC_ROW_STRUCT q)"
    and "length dm2 = length dm" and "get32 dm2 0 = get32 dm 0"
proof -
  let ?a = "GET_DOC_ROW_STRUCT p"
  have "get32 dm2 (?a + 4) = get32 dm1 (?a + 4)" by (rule get_put_other [OF assms(2)]) simp
  then show "get_unit dm2 ?a = Some \<lparr>du_doc_id = y, du_next = x\<rparr>"
    by (simp add: get_unit_def get_put32_same [OF assms(1)] get_put32_same [OF assms(2)])
  have other: "get32 dm2 a = get32 dm a" if "a + 4 \<le> ?a \<or> ?a + 8 \<le> a" for a
  proof -
    have "get32 dm2 a = get32 dm1 a" by (rule get_put_other [OF assms(2)]) (use that in auto)
    also have "\<dots> = get32 dm a" by (rule get_put_other [OF assms(1)]) (use that in auto)
    finally show ?thesis .
  qed
  show "get_unit dm2 (GET_DOC_ROW_STRUCT q) = get_unit dm (GET_DOC_ROW_STRUCT q)" if "q \<noteq> p"
  proof (rule get_unit_frame)
    have "GET_DOC_ROW_STRUCT q + 8 \<le> ?a \<or> ?a + 8 \<le> GET_DOC_ROW_STRUCT q" using that by (rule units_disjoint)
    then show "get32 dm2 a = get32 dm a" if "a \<in> {GET_DOC_ROW_STRUCT q, GET_DOC_ROW_STRUCT q + 4}" for a
      using that by (intro other) auto
  qed
  show "length dm2 = length dm" using put_le_length [OF assms(1)] put_le_length [OF assms(2)] by simp
  show "get32 dm2 0 = get32 dm 0" by (rule other) (simp add: GET_DOC_ROW_STRUCT_def)
qed

lemma doclist_insert_unit:
  assumes "dl_mem d = Some dm" and "length dm = 4 + n * 8" and "unat p < n" and "n < UNITS"
    and "head = 0 \<or> (\<exists>e. get32 dm (unat head) = Some e \<and> e < p)"
  obtains dm' where "doclist_insert d p head b = Some (GET_OFFSET p, d\<lparr>dl_mem := Some dm'\<rparr>)"
    and "get_unit dm' (GET_DOC_ROW_STRUCT p) =
      Some \<lparr>du_doc_id = p, du_next = (if head = 0 then 0x80000000 OR b else head)\<rparr>"
    and "\<And>q. q \<noteq> p \<Longrightarrow> get_unit dm' (GET_DOC_ROW_STRUCT q) = get_unit dm (GET_DOC_ROW_STRUCT q)"
    and "length dm' = length dm" and "get32 dm' 0 = get32 dm 0"
proof -
  let ?a = "GET_DOC_ROW_STRUCT p"
  have a: "?a + 8 \<le> length dm" using assms(2,3) by (rule unit_in_region [rotated])
  show ?thesis
  proof (cases "head = 0")
    case True
    obtain z where z: "zero_range dm ?a 8 = Some z" "length z = length dm" using a by (rule zero_range_some)
    obtain dm1 where 1: "put32 z (?a + 4) (0x80000000 OR b) = Some dm1" "length dm1 = length z"
      by (rule put_le_some [of "?a + 4" 4 z]) (use a z(2) in simp)
    obtain dm2 where 2: "put32 dm1 ?a p = Some dm2"
      by (rule put_le_some [of ?a 4 dm1]) (use a z(2) 1(2) in simp)
    note f = put_unit_frame [OF 1(1) 2]
    have "get_unit z (GET_DOC_ROW_STRUCT q) = get_unit dm (GET_DOC_ROW_STRUCT q)" if "q \<noteq> p" for q
    proof (rule get_unit_frame)
      have "GET_DOC_ROW_STRUCT q + 8 \<le> ?a \<or> ?a + 8 \<le> GET_DOC_ROW_STRUCT q" using that by (rule units_disjoint)
      then show "get32 z c = get32 dm c" if "c \<in> {GET_DOC_ROW_STRUCT q, GET_DOC_ROW_STRUCT q + 4}" for c
        using that by (intro get_zero_other [OF z(1)]) auto
    qed
    moreover have "get32 z 0 = get32 dm 0"
      by (rule get_zero_other [OF z(1)]) (simp add: GET_DOC_ROW_STRUCT_def)
    moreover have "doclist_insert d p head b = Some (GET_OFFSET p, d\<lparr>dl_mem := Some dm2\<rparr>)"
      using True assms(1) z(1) 1(1) 2 by (simp add: doclist_insert_def)
    ultimately show ?thesis using that [of dm2] f True z(2) by simp
  next
    case False
    then obtain e where e: "get32 dm (unat head) = Some e" "\<not> p \<le> e" using assms(5) by auto
    obtain dm1 where 1: "put32 dm (?a + 4) head = Some dm1" "length dm1 = length dm"
      by (rule put_le_some [of "?a + 4" 4 dm]) (use a in simp)
    obtain dm2 where 2: "put32 dm1 ?a p = Some dm2"
      by (rule put_le_some [of ?a 4 dm1]) (use a 1(2) in simp)
    have "doclist_insert d p head b = Some (GET_OFFSET p, d\<lparr>dl_mem := Some dm2\<rparr>)"
      using False assms(1) e 1(1) 2 by (simp add: doclist_insert_def)
    then show ?thesis using that [of dm2] put_unit_frame [OF 1(1) 2] False by simp
  qed
qed

section \<open>The table of buckets\<close>

type_synonym table = "nat \<Rightarrow> u64 \<times> u32 list"

definition head_offset :: "u32 list \<Rightarrow> u32" where
  "head_offset ds = (case ds of [] \<Rightarrow> 0 | d # _ \<Rightarrow> GET_OFFSET d)"

definition bucket_rep :: "nat \<Rightarrow> u8 list \<Rightarrow> u8 list \<Rightarrow> nat \<Rightarrow> u64 \<times> u32 list \<Rightarrow> bool" where
  "bucket_rep n m dm i b \<longleftrightarrow> hb_hash_value m i = Some (fst b) \<and> hb_offset m i = Some (head_offset (snd b)) \<and>
     (snd b = [] \<longleftrightarrow> fst b = 0) \<and> (\<forall>d \<in> set (snd b). unat d < n) \<and>
     (snd b \<noteq> [] \<longrightarrow> chain dm (map (\<lambda>d. (d, d)) (snd b)) (word_of_nat i))"

text \<open>A unit that belongs to no bucket is zero.\<close>

definition unused_zero :: "nat \<Rightarrow> u8 list \<Rightarrow> table \<Rightarrow> bool" where
  "unused_zero n dm B \<longleftrightarrow> (\<forall>p. unat p < n \<and> (\<forall>i \<le> n. p \<notin> set (snd (B i))) \<longrightarrow>
     get_unit dm (GET_DOC_ROW_STRUCT p) = Some \<lparr>du_doc_id = 0, du_next = 0\<rparr>)"

definition table_rep :: "nat \<Rightarrow> u8 list \<Rightarrow> u8 list \<Rightarrow> table \<Rightarrow> bool" where
  "table_rep n m dm B \<longleftrightarrow> 0 < n \<and> n < UNITS \<and> length m = Suc n * 12 \<and> length dm = 4 + n * 8 \<and>
     get32 dm 0 = Some DATA_STOAGE_VERSION \<and> (\<forall>i \<le> n. bucket_rep n m dm i (B i)) \<and> unused_zero n dm B \<and>
     (\<forall>i \<le> n. \<forall>j \<le> n. i \<noteq> j \<longrightarrow> set (snd (B i)) \<inter> set (snd (B j)) = {})"

definition index_ok :: "hash_index_manager \<Rightarrow> bool" where
  "index_ok h \<longleftrightarrow> dl_row_limit (hi_doclist h) = hi_hashmod h \<and> dl_version (hi_doclist h) = DATA_STOAGE_VERSION"

definition hi_table :: "hash_index_manager \<Rightarrow> table \<Rightarrow> bool" where
  "hi_table h B \<longleftrightarrow> index_ok h \<and>
     (case (hi_mem h, dl_mem (hi_doclist h)) of
        (Some m, Some dm) \<Rightarrow> table_rep (unat (hi_hashmod h)) m dm B
      | _ \<Rightarrow> False)"

lemma hi_tableE:
  assumes "hi_table h B"
  obtains m dm where "hi_mem h = Some m" and "dl_mem (hi_doclist h) = Some dm" and "index_ok h"
    and "table_rep (unat (hi_hashmod h)) m dm B"
  using assms by (auto simp: hi_table_def split: option.splits)

lemma table_bucket: "table_rep n m dm B \<Longrightarrow> i \<le> n \<Longrightarrow> bucket_rep n m dm i (B i)"
  unfolding table_rep_def by blast

lemma bucket_empty: "bucket_rep n m dm i b \<Longrightarrow> snd b = [] \<longleftrightarrow> fst b = 0"
  unfolding bucket_rep_def by blast

lemma table_empty: "table_rep n m dm B \<Longrightarrow> i \<le> n \<Longrightarrow> snd (B i) = [] \<longleftrightarrow> fst (B i) = 0"
  by (rule bucket_empty [OF table_bucket])

lemma head_offset_simps [simp]: "head_offset [] = 0" "head_offset (d # ds) = GET_OFFSET d"
  by (simp_all add: head_offset_def)

lemma head_offset_0:
  assumes "\<forall>d \<in> set ds. unat d < n" and "n < UNITS"
  shows "head_offset ds = 0 \<longleftrightarrow> ds = []"
  using assms GET_OFFSET_link(2) by (cases ds) auto

lemma chain_hd:
  assumes "chain dm (map (\<lambda>d. (d, d)) (d # ds)) b"
  shows "get32 dm (unat (head_offset (d # ds))) = Some d"
proof -
  have "unat d < UNITS" using chain_units [OF assms, of d d] by simp
  then show ?thesis using chain_head [of dm d d "map (\<lambda>d. (d, d)) ds" b] assms GET_OFFSET_link(3) by simp
qed

text \<open>Hanging the newest document on a bucket.\<close>

lemma chain_push:
  assumes "ds \<noteq> [] \<Longrightarrow> chain dm (map (\<lambda>d. (d, d)) ds) (word_of_nat i)" and "\<forall>e \<in> set ds. e < d" and "unat d < UNITS"
    and "get_unit dm' (GET_DOC_ROW_STRUCT d) =
      Some \<lparr>du_doc_id = d, du_next = (if head_offset ds = 0 then 0x80000000 OR word_of_nat i else head_offset ds)\<rparr>"
    and "\<And>q. q \<noteq> d \<Longrightarrow> get_unit dm' (GET_DOC_ROW_STRUCT q) = get_unit dm (GET_DOC_ROW_STRUCT q)"
  shows "chain dm' (map (\<lambda>d. (d, d)) (d # ds)) (word_of_nat i)"
proof (cases ds)
  case Nil
  with assms(3,4) show ?thesis by simp
next
  case (Cons e es)
  have c: "chain dm (map (\<lambda>d. (d, d)) ds) (word_of_nat i)" using assms(1) Cons by simp
  have "chain dm' (map (\<lambda>d. (d, d)) ds) (word_of_nat i)"
    using c by (rule chain_frame) (use assms(2,5) in auto)
  moreover have "unat e < UNITS" using chain_units [OF c, of e e] Cons by simp
  ultimately show ?thesis using assms Cons GET_OFFSET_link(2) [of e] by simp
qed

text \<open>A document newer than all present ones, within the row limit.\<close>

definition newest :: "nat \<Rightarrow> table \<Rightarrow> u32 \<Rightarrow> bool" where
  "newest n B d \<longleftrightarrow> unat d < n \<and> (\<forall>j \<le> n. \<forall>e \<in> set (snd (B j)). e < d)"

lemma newestD: "newest n B d \<Longrightarrow> j \<le> n \<Longrightarrow> e \<in> set (snd (B j)) \<Longrightarrow> e < d" "newest n B d \<Longrightarrow> unat d < n"
  by (simp_all add: newest_def)

lemma table_push:
  assumes rep: "table_rep n m dm B" and i: "i \<le> n" and newest: "newest n B d" and v: "v \<noteq> 0"
    and m': "length m' = length m" "\<And>j. hb_offset m' j = (if j = i then Some (GET_OFFSET d) else hb_offset m j)"
      "\<And>j. hb_hash_value m' j = (if j = i then Some v else hb_hash_value m j)"
    and dm': "get_unit dm' (GET_DOC_ROW_STRUCT d) = Some \<lparr>du_doc_id = d, du_next =
        (if head_offset (snd (B i)) = 0 then 0x80000000 OR word_of_nat i else head_offset (snd (B i)))\<rparr>"
      "\<And>q. q \<noteq> d \<Longrightarrow> get_unit dm' (GET_DOC_ROW_STRUCT q) = get_unit dm (GET_DOC_ROW_STRUCT q)"
      "length dm' = length dm" "get32 dm' 0 = get32 dm 0"
  shows "table_rep n m' dm' (B(i := (v, d # snd (B i))))"
proof -
  note new = newestD(1) [OF newest] and d = newestD(2) [OF newest]
  let ?B = "B(i := (v, d # snd (B i)))"
  have n: "0 < n" "n < UNITS" "length m = Suc n * 12" "length dm = 4 + n * 8"
    and ver: "get32 dm 0 = Some DATA_STOAGE_VERSION" and b: "\<And>j. j \<le> n \<Longrightarrow> bucket_rep n m dm j (B j)" and z: "unused_zero n dm B"
    and disj: "\<And>j k. j \<le> n \<Longrightarrow> k \<le> n \<Longrightarrow> j \<noteq> k \<Longrightarrow> set (snd (B j)) \<inter> set (snd (B k)) = {}"
    using rep unfolding table_rep_def by blast+
  have fresh: "d \<notin> set (snd (B j))" if "j \<le> n" for j using new [OF that] by blast
  have "bucket_rep n m' dm' j (?B j)" if j: "j \<le> n" for j
  proof (cases "j = i")
    case True
    have old: "chain dm (map (\<lambda>d. (d, d)) (snd (B i))) (word_of_nat i)" if "snd (B i) \<noteq> []"
      using b [OF i] that by (simp add: bucket_rep_def)
    have "\<forall>e \<in> set (snd (B i)). e < d" "unat d < UNITS" using new [OF i] d n(2) by (blast, linarith)
    from chain_push [OF old this dm'(1,2)]
    have "chain dm' (map (\<lambda>d. (d, d)) (d # snd (B i))) (word_of_nat i)" .
    then show ?thesis using True v m' d b [OF i] by (simp add: bucket_rep_def)
  next
    case False
    have "chain dm' (map (\<lambda>d. (d, d)) (snd (B j))) (word_of_nat j)" if "snd (B j) \<noteq> []"
    proof (rule chain_frame)
      show "chain dm (map (\<lambda>d. (d, d)) (snd (B j))) (word_of_nat j)" using b [OF j] that by (simp add: bucket_rep_def)
      show "get_unit dm' (GET_DOC_ROW_STRUCT p) = get_unit dm (GET_DOC_ROW_STRUCT p)"
        if "p \<in> fst ` set (map (\<lambda>d. (d, d)) (snd (B j)))" for p
        using that fresh [OF j] by (intro dm'(2)) auto
    qed
    then show ?thesis using False m' b [OF j] by (simp add: bucket_rep_def)
  qed
  moreover have "unused_zero n dm' ?B"
  proof -
    have "get_unit dm' (GET_DOC_ROW_STRUCT p) = Some \<lparr>du_doc_id = 0, du_next = 0\<rparr>"
      if p: "unat p < n" "\<forall>j \<le> n. p \<notin> set (snd (?B j))" for p
    proof -
      have "p \<noteq> d" using p(2) i by auto
      moreover have "\<forall>j \<le> n. p \<notin> set (snd (B j))"
        using p(2) by (metis fun_upd_apply list.set_intros(2) snd_conv)
      ultimately show ?thesis using z p(1) by (simp add: unused_zero_def dm'(2))
    qed
    then show ?thesis by (simp add: unused_zero_def)
  qed
  moreover have "set (snd (?B j)) \<inter> set (snd (?B k)) = {}" if "j \<le> n" "k \<le> n" "j \<noteq> k" for j k
    using disj [OF that] fresh [OF that(1)] fresh [OF that(2)] that(3) by (auto split: if_splits)
  ultimately show ?thesis using n m'(1) dm'(3,4) ver by (simp add: table_rep_def)
qed

text \<open>The document list accepts the newest document of any bucket.\<close>

lemma table_insert:
  assumes rep: "table_rep n m dm B" and i: "i \<le> n" and newest: "newest n B d" and D: "dl_mem D = Some dm"
  obtains dm' where "doclist_insert D d (head_offset (snd (B i))) (word_of_nat i) =
      Some (GET_OFFSET d, D\<lparr>dl_mem := Some dm'\<rparr>)"
    and "get_unit dm' (GET_DOC_ROW_STRUCT d) = Some \<lparr>du_doc_id = d, du_next =
        (if head_offset (snd (B i)) = 0 then 0x80000000 OR word_of_nat i else head_offset (snd (B i)))\<rparr>"
    and "\<And>q. q \<noteq> d \<Longrightarrow> get_unit dm' (GET_DOC_ROW_STRUCT q) = get_unit dm (GET_DOC_ROW_STRUCT q)"
    and "length dm' = length dm" and "get32 dm' 0 = get32 dm 0"
proof -
  note new = newestD(1) [OF newest] and d = newestD(2) [OF newest]
  have n: "n < UNITS" "length dm = 4 + n * 8" and b: "bucket_rep n m dm i (B i)"
    using rep i unfolding table_rep_def by blast+
  have "head_offset (snd (B i)) = 0 \<or> (\<exists>e. get32 dm (unat (head_offset (snd (B i)))) = Some e \<and> e < d)"
  proof (cases "snd (B i)")
    case (Cons e es)
    then have "chain dm (map (\<lambda>d. (d, d)) (e # es)) (word_of_nat i)" using b by (simp add: bucket_rep_def)
    from chain_hd [OF this] show ?thesis using new [OF i, of e] Cons by auto
  qed simp
  from doclist_insert_unit [OF D n(2) d n(1) this, of "word_of_nat i"] that show ?thesis by blast
qed

end
