(* ===== verification/Posting.thy ===== *)
theory Posting
  imports Rowid_List
begin

text \<open>
  What an index over one column promises: it maps each key to the documents that hold it,
  newest first.  The contract \<open>posting_index\<close> names the three operations a segment calls
  (insert a document, query a value, recover up to a document number); loading a sequence of
  documents and replaying after a crash are proved once from it.
\<close>

section \<open>Answers\<close>

text \<open>What a query returns: NULL for no document, otherwise a list of the documents.\<close>

definition answers :: "'s rowid_list option \<Rightarrow> u32 list \<Rightarrow> bool" where
  "answers r ds \<longleftrightarrow> (case r of None \<Rightarrow> ds = [] | Some l \<Rightarrow> ds \<noteq> [] \<and> rl_wf l \<and> rl_ids l = ds)"

definition docs_below :: "u32 \<Rightarrow> u32 list \<Rightarrow> u32 list" where
  "docs_below d = filter (\<lambda>e. e < d)"

lemma set_docs_below [simp]: "set (docs_below d ds) = {e \<in> set ds. e < d}"
  by (auto simp: docs_below_def)

lemma docs_below_simps [simp]:
  "docs_below d [] = []" "docs_below d (e # ds) = (if e < d then e # docs_below d ds else docs_below d ds)"
  by (simp_all add: docs_below_def)

lemma docs_below_all: "\<forall>e \<in> set ds. e < d \<Longrightarrow> docs_below d ds = ds"
  by (simp add: docs_below_def)

lemma docs_below_empty: "docs_below d ds = [] \<longleftrightarrow> (\<forall>e \<in> set ds. \<not> e < d)"
  by (auto simp: docs_below_def filter_empty_conv)

text \<open>The documents of a load that hold a key, newest first.\<close>

definition docs_with :: "('v \<Rightarrow> 'k) \<Rightarrow> ('v \<times> u32) list \<Rightarrow> 'k \<Rightarrow> u32 list" where
  "docs_with key xs k = rev (map snd (filter (\<lambda>(v, d). key v = k) xs))"

lemma docs_with_snoc:
  "docs_with key (xs @ [(v, d)]) = (docs_with key xs)(key v := d # docs_with key xs (key v))"
  by (auto simp: docs_with_def)

lemma docs_with_Nil [simp]: "docs_with key [] = (\<lambda>_. [])"
  by (simp add: docs_with_def fun_eq_iff)

lemma docs_with_set: "e \<in> set (docs_with key xs k) \<Longrightarrow> e \<in> snd ` set xs"
  by (force simp: docs_with_def)

lemma docs_with_below:
  assumes "\<forall>(v, e) \<in> set xs. e < d" and "\<forall>(v, e) \<in> set ys. \<not> e < d"
  shows "docs_below d (docs_with key (xs @ ys) k) = docs_with key xs k"
proof -
  have "docs_below d (docs_with key xs k) = docs_with key xs k"
    using assms(1) by (intro docs_below_all) (force dest: docs_with_set)
  moreover have "docs_below d (docs_with key ys k) = []"
    using assms(2) unfolding docs_below_empty by (force dest: docs_with_set)
  ultimately show ?thesis by (simp add: docs_below_def docs_with_def)
qed

section \<open>Loading\<close>

text \<open>Inserting one document after the other, as long as none is refused.\<close>

fun load :: "('i \<Rightarrow> 'v \<Rightarrow> u32 \<Rightarrow> (int \<times> 'i) option) \<Rightarrow> 'i \<Rightarrow> ('v \<times> u32) list \<Rightarrow> (int \<times> 'i) option" where
  "load ins i [] = Some (0, i)"
| "load ins i ((v, d) # xs) = do { (r, i') \<leftarrow> ins i v d; if r \<noteq> 0 then Some (r, i') else load ins i' xs }"

text \<open>Ascending document numbers within the capacity, with values that can be indexed.\<close>

definition loadable :: "('v \<Rightarrow> bool) \<Rightarrow> u32 \<Rightarrow> ('v \<times> u32) list \<Rightarrow> bool" where
  "loadable valid n xs \<longleftrightarrow> list_all (\<lambda>(v, d). valid v \<and> d < n) xs \<and> sorted_wrt (<) (map snd xs)"

locale posting_index =
  fixes rep :: "'i \<Rightarrow> ('k \<Rightarrow> u32 list) \<Rightarrow> bool"
    and cap :: "'i \<Rightarrow> u32"
    and key :: "'v \<Rightarrow> 'k"
    and valid :: "'v \<Rightarrow> bool"
    and ins :: "'i \<Rightarrow> 'v \<Rightarrow> u32 \<Rightarrow> (int \<times> 'i) option"
    and qry :: "'i \<Rightarrow> 'v \<Rightarrow> 's rowid_list option option"
    and cut_back :: "'i \<Rightarrow> u32 \<Rightarrow> (int \<times> 'i) option"
  assumes ins_ok: "rep i P \<Longrightarrow> valid v \<Longrightarrow> d < cap i \<Longrightarrow> \<forall>k. \<forall>e \<in> set (P k). e < d \<Longrightarrow>
      \<exists>i'. ins i v d = Some (0, i') \<and> rep i' (P(key v := d # P (key v))) \<and> cap i' = cap i"
    and qry_ok: "rep i P \<Longrightarrow> valid v \<Longrightarrow> \<exists>r. qry i v = Some r \<and> answers r (P (key v))"
    and cut_back_ok: "rep i P \<Longrightarrow> d \<le> cap i \<Longrightarrow>
      \<exists>i'. cut_back i d = Some (0, i') \<and> rep i' (\<lambda>k. docs_below d (P k)) \<and> cap i' = cap i"
begin

lemma load_more:
  assumes "rep i (docs_with key xs)" and "loadable valid (cap i) (xs @ ys)"
  shows "\<exists>i'. load ins i ys = Some (0, i') \<and> rep i' (docs_with key (xs @ ys)) \<and> cap i' = cap i"
  using assms
proof (induction ys arbitrary: i xs)
  case (Cons y ys)
  obtain v d where y: "y = (v, d)" by (cases y)
  have v: "valid v" "d < cap i" using Cons.prems(2) y by (auto simp: loadable_def list_all_iff)
  have new: "\<forall>k. \<forall>e \<in> set (docs_with key xs k). e < d"
    using Cons.prems(2) y by (auto simp: loadable_def sorted_wrt_append dest!: docs_with_set)
  from ins_ok [OF Cons.prems(1) v new] obtain i1 where i1: "ins i v d = Some (0, i1)"
    "rep i1 (docs_with key (xs @ [y]))" "cap i1 = cap i" unfolding y docs_with_snoc by blast
  have "loadable valid (cap i1) ((xs @ [y]) @ ys)" using Cons.prems(2) i1(3) by (simp add: loadable_def)
  from Cons.IH [OF i1(2) this] i1 show ?case using y by simp
qed simp

lemma load_query:
  assumes "rep i (\<lambda>_. [])" and "loadable valid (cap i) xs" and "valid v"
  shows "\<exists>i' r. load ins i xs = Some (0, i') \<and> qry i' v = Some r \<and> answers r (docs_with key xs (key v))"
proof -
  obtain i' where "load ins i xs = Some (0, i')" "rep i' (docs_with key xs)"
    using load_more [of i "[]" xs] assms(1,2) by auto
  with qry_ok [OF _ assms(3)] show ?thesis by blast
qed

text \<open>After a crash the index is cut back to the last safe document and the rest is replayed.\<close>

lemma crash_replay:
  assumes "rep i (docs_with key (xs @ ys))" and "loadable valid (cap i) (xs @ zs)" and "d \<le> cap i"
    and "\<forall>(v, e) \<in> set xs. e < d" and "\<forall>(v, e) \<in> set ys. \<not> e < d"
  shows "\<exists>i1 i2. cut_back i d = Some (0, i1) \<and> load ins i1 zs = Some (0, i2) \<and>
    rep i2 (docs_with key (xs @ zs)) \<and> cap i2 = cap i"
proof -
  obtain i1 where i1: "cut_back i d = Some (0, i1)" "rep i1 (\<lambda>k. docs_below d (docs_with key (xs @ ys) k))" "cap i1 = cap i"
    using cut_back_ok [OF assms(1,3)] by blast
  then have "rep i1 (docs_with key xs)" unfolding docs_with_below [OF assms(4,5)] by simp
  moreover have "loadable valid (cap i1) (xs @ zs)" using assms(2) i1(3) by (simp add: loadable_def)
  ultimately obtain i2 where "load ins i1 zs = Some (0, i2)" "rep i2 (docs_with key (xs @ zs))" "cap i2 = cap i1"
    using load_more by blast
  with i1 show ?thesis by auto
qed

end

end
