(* ===== verification/Hash_Results.thy ===== *)
theory Hash_Results
  imports Hash_Laws Set_Results Posting
begin

text \<open>
  The hash index as a map from keys to posting lists: inserting a document adds it to the
  list of its key, a query returns that list, recovery removes the documents from a number
  on.  The contract \<open>posting_index\<close> states this once; crash recovery followed by replay is
  proved from the contract alone.
\<close>

section \<open>Keys and postings\<close>

text \<open>The key of a null value is \<^term>\<open>None\<close>.\<close>

definition posting :: "nat \<Rightarrow> table \<Rightarrow> u64 option \<Rightarrow> u32 list" where
  "posting n B key =
     (case key of
        None \<Rightarrow> snd (B n)
      | Some v \<Rightarrow> if v = 0 then []
                  else (case List.find (\<lambda>i. fst (B i) = v) [0..<n] of None \<Rightarrow> [] | Some i \<Rightarrow> snd (B i)))"

text \<open>Each hash value has one bucket, and every bucket on the way to it was in use before it.\<close>

definition on_path :: "nat \<Rightarrow> table \<Rightarrow> nat \<Rightarrow> nat \<Rightarrow> bool" where
  "on_path n B i k \<longleftrightarrow> k < n \<and> slot n (unat (fst (B i)) mod n) k = i \<and>
     (\<forall>j < k. fst (B (slot n (unat (fst (B i)) mod n) j)) \<noteq> 0 \<and>
        last (snd (B (slot n (unat (fst (B i)) mod n) j))) < last (snd (B i)))"

definition probe_inv :: "nat \<Rightarrow> table \<Rightarrow> bool" where
  "probe_inv n B \<longleftrightarrow>
     (\<forall>i < n. \<forall>j < n. fst (B i) \<noteq> 0 \<and> fst (B i) = fst (B j) \<longrightarrow> i = j) \<and>
     (\<forall>i < n. fst (B i) \<noteq> 0 \<longrightarrow> (\<exists>k. on_path n B i k))"

text \<open>The hash value of a null value, which marks the last bucket as in use.\<close>

definition null_key :: u64 where
  "null_key = 0x7FED7FED7FED7FED"

definition hi_rep :: "hash_index_manager \<Rightarrow> (u64 option \<Rightarrow> u32 list) \<Rightarrow> bool" where
  "hi_rep h P \<longleftrightarrow> (\<exists>B. hi_table h B \<and> probe_inv (unat (hi_hashmod h)) B \<and> P = posting (unat (hi_hashmod h)) B \<and>
     fst (B (unat (hi_hashmod h))) \<in> {0, null_key})"

lemma hi_repI:
  "hi_table h B \<Longrightarrow> probe_inv (unat (hi_hashmod h)) B \<Longrightarrow> fst (B (unat (hi_hashmod h))) \<in> {0, null_key} \<Longrightarrow>
   hi_rep h (posting (unat (hi_hashmod h)) B)"
  unfolding hi_rep_def by blast

lemma probe_inj: "probe_inv n B \<Longrightarrow> i < n \<Longrightarrow> j < n \<Longrightarrow> fst (B i) \<noteq> 0 \<Longrightarrow> fst (B i) = fst (B j) \<Longrightarrow> i = j"
  by (simp add: probe_inv_def)

lemma probe_path: "probe_inv n B \<Longrightarrow> i < n \<Longrightarrow> fst (B i) \<noteq> 0 \<Longrightarrow> \<exists>k. on_path n B i k"
  by (simp add: probe_inv_def)

lemma find_bucket:
  assumes "List.find (\<lambda>i. fst (B i) = v) [0..<n] = Some j"
  shows "j < n" and "fst (B j) = (v :: u64)"
proof -
  obtain k where "k < length [0..<n]" "fst (B ([0..<n] ! k)) = v" "j = [0..<n] ! k"
    using assms unfolding find_Some_iff by blast
  then show "j < n" "fst (B j) = v" by simp_all
qed

lemma posting_at:
  assumes "probe_inv n B" and "i < n" and "fst (B i) = v" and "v \<noteq> 0"
  shows "posting n B (Some v) = snd (B i)"
proof (cases "List.find (\<lambda>i. fst (B i) = v) [0..<n]")
  case None
  then show ?thesis using assms(2,3) by (auto simp: find_None_iff)
next
  case (Some j)
  note j = find_bucket [OF Some]
  have "j = i" by (rule probe_inj [OF assms(1) j(1) assms(2)]) (use j(2) assms(3,4) in simp_all)
  with Some assms(4) show ?thesis by (simp add: posting_def)
qed

lemma posting_absent: "(\<And>i. i < n \<Longrightarrow> fst (B i) \<noteq> v) \<Longrightarrow> posting n B (Some v) = []"
  using find_None_iff [of "\<lambda>i. fst (B i) = v" "[0..<n]"] by (auto simp: posting_def split: option.splits)

lemma posting_null [simp]: "posting n B None = snd (B n)" "posting n B (Some 0) = []"
  by (simp_all add: posting_def)

section \<open>Finding a bucket\<close>

text \<open>The three ways a probe for \<open>v\<close> can go.\<close>

lemma probe_cases:
  assumes inv: "probe_inv n B" and v: "v \<noteq> 0" and n: "0 < n"
  obtains (hit) k where "k < n" "fst (B (slot n (unat v mod n) k)) = v"
      "\<And>j. j < k \<Longrightarrow> fst (B (slot n (unat v mod n) j)) \<notin> {0, v}"
    | (free) k where "k < n" "fst (B (slot n (unat v mod n) k)) = 0"
      "\<And>j. j < k \<Longrightarrow> fst (B (slot n (unat v mod n) j)) \<notin> {0, v}" "\<And>i. i < n \<Longrightarrow> fst (B i) \<noteq> v"
    | (full) "\<And>i. i < n \<Longrightarrow> fst (B i) \<notin> {0, v}"
proof -
  let ?s = "slot n (unat v mod n)"
  have loc: "unat v mod n < n" using n by simp
  show ?thesis
  proof (cases "\<exists>i < n. fst (B i) = v")
    case True
    then obtain i where i: "i < n" "fst (B i) = v" by blast
    then obtain k where k: "on_path n B i k" using probe_path [OF inv] v by blast
    have "?s j \<noteq> i" if "j < k" for j
      using slot_inj [OF loc, of j k] k that i by (auto simp: on_path_def)
    moreover have "fst (B (?s j)) = v \<Longrightarrow> ?s j = i" for j
      using probe_inj [OF inv slot_less [OF loc, of j] i(1)] i(2) v by simp
    ultimately have "fst (B (?s j)) \<notin> {0, v}" if "j < k" for j
      using that k i by (auto simp: on_path_def)
    then show ?thesis using hit [of k] k i by (auto simp: on_path_def)
  next
    case False
    then have absent: "fst (B i) \<noteq> v" if "i < n" for i using that by blast
    show ?thesis
    proof (cases "\<exists>k < n. fst (B (?s k)) = 0")
      case True
      define k where "k = (LEAST k. k < n \<and> fst (B (?s k)) = 0)"
      have k: "k < n \<and> fst (B (?s k)) = 0" unfolding k_def by (rule LeastI_ex) (use True in blast)
      have "fst (B (?s j)) \<noteq> 0" if "j < k" for j
        using not_less_Least [of j "\<lambda>k. k < n \<and> fst (B (?s k)) = 0"] that k k_def by auto
      then show ?thesis using free [of k] k absent slot_less [OF loc] by auto
    next
      case False
      then have "fst (B i) \<noteq> 0" if "i < n" for i using slot_surj [OF loc that] by blast
      then show ?thesis using full absent by blast
    qed
  qed
qed

text \<open>A table with room for a document has a free bucket.\<close>

lemma not_full:
  assumes "table_rep n m dm B" and "newest n B d"
  shows "\<exists>i < n. fst (B i) = 0"
proof (rule ccontr)
  assume "\<not> ?thesis"
  then have ne: "snd (B i) \<noteq> []" if "i < n" for i
    using assms(1) that unfolding table_rep_def bucket_rep_def by (metis less_imp_le_nat)
  have disj: "set (snd (B i)) \<inter> set (snd (B j)) = {}" if "i < n" "j < n" "i \<noteq> j" for i j
    using assms(1) that unfolding table_rep_def by (meson less_imp_le_nat)
  have "inj_on (\<lambda>i. last (snd (B i))) {..<n}"
  proof (rule inj_onI)
    fix i j
    assume "i \<in> {..<n}" "j \<in> {..<n}" "last (snd (B i)) = last (snd (B j))"
    then have "last (snd (B i)) \<in> set (snd (B i)) \<inter> set (snd (B j))" using ne last_in_set by force
    then show "i = j" using disj [of i j] \<open>i \<in> _\<close> \<open>j \<in> _\<close> by blast
  qed
  moreover have "(\<lambda>i. unat (last (snd (B i)))) ` {..<n} \<subseteq> {..<unat d}"
  proof
    fix x
    assume "x \<in> (\<lambda>i. unat (last (snd (B i)))) ` {..<n}"
    then obtain i where "i < n" "x = unat (last (snd (B i)))" by auto
    then show "x \<in> {..<unat d}" using newestD(1) [OF assms(2), of i "last (snd (B i))"] ne [of i] last_in_set
      by (simp add: word_less_nat_alt)
  qed
  ultimately have "card {..<n} \<le> card {..<unat d}"
    by (intro card_inj_on_le [of "\<lambda>i. unat (last (snd (B i)))"]) (auto simp: inj_on_def dest!: unsigned_word_eqI)
  then show False using newestD(2) [OF assms(2)] by simp
qed

section \<open>Insertion\<close>

lemma hi_table_update:
  assumes "hi_table h B" and "table_rep (unat (hi_hashmod h)) m' dm' B'"
  shows "hi_table (h\<lparr>hi_mem := Some m', hi_doclist := (hi_doclist h)\<lparr>dl_mem := Some dm'\<rparr>\<rparr>) B'"
  using assms by (simp add: hi_table_def index_ok_def)

lemma insert_new_table:
  assumes tab: "hi_table h B" and i: "i \<le> unat (hi_hashmod h)" and new: "newest (unat (hi_hashmod h)) B d"
    and e: "snd (B i) = []" and v: "v \<noteq> 0" and m: "hi_mem h = Some m"
  obtains h' where "insert_new h m i v d = Some (0, h')" and "hi_table h' (B(i := (v, [d])))"
    and "hi_hashmod h' = hi_hashmod h"
proof -
  let ?n = "unat (hi_hashmod h)"
  obtain dm where dm: "dl_mem (hi_doclist h) = Some dm" and rep: "table_rep ?n m dm B"
    using tab m by (auto elim: hi_tableE)
  obtain dm' where dm': "doclist_insert (hi_doclist h) d (head_offset (snd (B i))) (word_of_nat i) =
      Some (GET_OFFSET d, (hi_doclist h)\<lparr>dl_mem := Some dm'\<rparr>)"
    "get_unit dm' (GET_DOC_ROW_STRUCT d) = Some \<lparr>du_doc_id = d, du_next =
        (if head_offset (snd (B i)) = 0 then 0x80000000 OR word_of_nat i else head_offset (snd (B i)))\<rparr>"
    "\<And>q. q \<noteq> d \<Longrightarrow> get_unit dm' (GET_DOC_ROW_STRUCT q) = get_unit dm (GET_DOC_ROW_STRUCT q)"
    "length dm' = length dm" "get32 dm' 0 = get32 dm 0"
    using table_insert [OF rep i new dm] by blast
  have len: "length m = Suc ?n * 12" and lim: "?n < UNITS" using rep by (simp_all add: table_rep_def)
  have k: "i < Suc ?n" using i by simp
  obtain m1 where m1: "set_offset m i (GET_OFFSET d) = Some m1" "length m1 = length m"
    "\<And>j. hb_offset m1 j = (if j = i then Some (GET_OFFSET d) else hb_offset m j)"
    "\<And>j. hb_hash_value m1 j = hb_hash_value m j" using set_offset_frame [OF k len] by blast
  obtain m2 where m2: "set_hash_value m1 i v = Some m2" "length m2 = length m1"
    "\<And>j. hb_hash_value m2 j = (if j = i then Some v else hb_hash_value m1 j)"
    "\<And>j. hb_offset m2 j = hb_offset m1 j"
    using set_hash_value_frame [OF k len [folded m1(2)]] by blast
  have "table_rep ?n m2 dm' (B(i := (v, d # snd (B i))))"
    by (rule table_push [OF rep i new v _ _ _ dm'(2-5)]) (simp_all add: m1(2-4) m2(2-4))
  moreover have "GET_OFFSET d \<noteq> 0" using GET_OFFSET_link(2) [of d] newestD(2) [OF new] lim by simp
  ultimately show ?thesis
    using that [of "h\<lparr>hi_mem := Some m2, hi_doclist := (hi_doclist h)\<lparr>dl_mem := Some dm'\<rparr>\<rparr>"]
      dm'(1) m1(1) m2(1) hi_table_update [OF tab] e by (simp add: insert_new_def)
qed

lemma insert_more_table:
  assumes tab: "hi_table h B" and i: "i \<le> unat (hi_hashmod h)" and new: "newest (unat (hi_hashmod h)) B d"
    and e: "snd (B i) \<noteq> []" and m: "hi_mem h = Some m"
  obtains h' where "insert_more h m i d = Some (0, h')" and "insert_null_more h m i d = Some (0, h')"
    and "hi_table h' (B(i := (fst (B i), d # snd (B i))))" and "hi_hashmod h' = hi_hashmod h"
proof -
  let ?n = "unat (hi_hashmod h)"
  obtain dm where dm: "dl_mem (hi_doclist h) = Some dm" and rep: "table_rep ?n m dm B"
    using tab m by (auto elim: hi_tableE)
  obtain dm' where dm': "doclist_insert (hi_doclist h) d (head_offset (snd (B i))) (word_of_nat i) =
      Some (GET_OFFSET d, (hi_doclist h)\<lparr>dl_mem := Some dm'\<rparr>)"
    "get_unit dm' (GET_DOC_ROW_STRUCT d) = Some \<lparr>du_doc_id = d, du_next =
        (if head_offset (snd (B i)) = 0 then 0x80000000 OR word_of_nat i else head_offset (snd (B i)))\<rparr>"
    "\<And>q. q \<noteq> d \<Longrightarrow> get_unit dm' (GET_DOC_ROW_STRUCT q) = get_unit dm (GET_DOC_ROW_STRUCT q)"
    "length dm' = length dm" "get32 dm' 0 = get32 dm 0"
    using table_insert [OF rep i new dm] by blast
  have len: "length m = Suc ?n * 12" and lim: "?n < UNITS" using rep by (simp_all add: table_rep_def)
  have "bucket_rep ?n m dm i (B i)" using rep i by (simp add: table_rep_def)
  then have b: "hb_offset m i = Some (head_offset (snd (B i)))" "hb_hash_value m i = Some (fst (B i))"
    "fst (B i) \<noteq> 0" using e by (auto simp: bucket_rep_def)
  obtain m1 where m1: "set_offset m i (GET_OFFSET d) = Some m1" "length m1 = length m"
    "\<And>j. hb_offset m1 j = (if j = i then Some (GET_OFFSET d) else hb_offset m j)"
    "\<And>j. hb_hash_value m1 j = hb_hash_value m j" using set_offset_frame [of i "Suc ?n" m] i len by auto
  have "table_rep ?n m1 dm' (B(i := (fst (B i), d # snd (B i))))"
    by (rule table_push [OF rep i new b(3) m1(2,3) _ dm'(2-5)]) (simp add: m1(4) b(2))
  moreover have "GET_OFFSET d \<noteq> 0" using GET_OFFSET_link(2) [of d] newestD(2) [OF new] lim by simp
  ultimately show ?thesis
    using that [of "h\<lparr>hi_mem := Some m1, hi_doclist := (hi_doclist h)\<lparr>dl_mem := Some dm'\<rparr>\<rparr>"]
      dm'(1) m1(1) b(1) hi_table_update [OF tab] by (simp add: insert_more_def insert_null_more_def)
qed

text \<open>Adding the newest document to a bucket keeps the table searchable.\<close>

lemma last_push: "last (snd ((B(i := (v, d # snd (B i)))) s)) = (if s = i \<and> snd (B i) = [] then d else last (snd (B s)))"
  by simp

lemma probe_inv_push:
  assumes rep: "table_rep n m dm B" and inv: "probe_inv n B" and i: "i < n" and new: "newest n B d" and v: "v \<noteq> 0"
    and old: "fst (B i) = v \<or> (fst (B i) = 0 \<and> (\<forall>j < n. fst (B j) \<noteq> v))"
    and path: "k < n" "slot n (unat v mod n) k = i" "\<And>j. j < k \<Longrightarrow> fst (B (slot n (unat v mod n) j)) \<noteq> 0"
  shows "probe_inv n (B(i := (v, d # snd (B i))))"
proof -
  let ?B = "B(i := (v, d # snd (B i)))"
  have e: "snd (B s) = [] \<longleftrightarrow> fst (B s) = 0" if "s < n" for s
    using table_empty [OF rep] that by simp
  have inj: "a = b" if "a < n" "b < n" "fst (?B a) \<noteq> 0" "fst (?B a) = fst (?B b)" for a b
  proof -
    have vi: "c = i" if "c < n" "fst (B c) = v" for c
      using old probe_inj [OF inv that(1) i] that v by (elim disjE) simp_all
    consider "a = i" "b = i" | "a = i" "b \<noteq> i" | "a \<noteq> i" "b = i" | "a \<noteq> i" "b \<noteq> i" by blast
    then show ?thesis
    proof cases
      case 2
      then show ?thesis using vi [OF that(2)] that(4) by simp
    next
      case 3
      then show ?thesis using vi [OF that(1)] that(4) by simp
    next
      case 4
      then show ?thesis using probe_inj [OF inv that(1,2)] that(3,4) by simp
    qed simp
  qed
  have "\<exists>k. on_path n ?B a k" if a: "a < n" "fst (?B a) \<noteq> 0" for a
  proof (cases "a = i \<and> fst (B i) = 0")
    case True
    have "on_path n ?B i k"
    proof -
      have p: "slot n (unat v mod n) j \<noteq> i \<and> last (snd (B (slot n (unat v mod n) j))) < d" if j: "j < k" for j
      proof -
        let ?s = "slot n (unat v mod n) j"
        have s: "?s < n" using slot_less [of "unat v mod n" n j] i by simp
        then have "?s \<noteq> i" "snd (B ?s) \<noteq> []" using path(3) [OF j] True e by auto
        then show ?thesis using newestD(1) [OF new, of ?s "last (snd (B ?s))"] s by simp
      qed
      have b: "?B i = (v, [d])" using True e [OF i] by simp
      show ?thesis unfolding on_path_def b fst_conv snd_conv
      proof (intro conjI allI impI)
        fix j
        assume j: "j < k"
        show "fst (?B (slot n (unat v mod n) j)) \<noteq> 0" "last (snd (?B (slot n (unat v mod n) j))) < last [d]"
          using p [OF j] path(3) [OF j] by simp_all
      qed (use path in simp_all)
    qed
    with True show ?thesis by blast
  next
    case False
    then have fa: "fst (?B a) = fst (B a)" "fst (B a) \<noteq> 0" using a old by (cases "a = i"; simp)+
    obtain k' where k': "on_path n B a k'" using probe_path [OF inv a(1) fa(2)] by blast
    let ?s = "\<lambda>j. slot n (unat (fst (B a)) mod n) j"
    have la: "last (snd (?B a)) = last (snd (B a))" using False e [OF i] by auto
    have "fst (?B (?s j)) \<noteq> 0 \<and> last (snd (?B (?s j))) < last (snd (B a))" if "j < k'" for j
    proof -
      have s: "fst (B (?s j)) \<noteq> 0" "last (snd (B (?s j))) < last (snd (B a))"
        using k' that by (auto simp: on_path_def)
      then have "snd (B i) \<noteq> []" if "?s j = i" using that e [OF i] by simp
      with s v show ?thesis by auto
    qed
    then have "on_path n ?B a k'" using k' fa(1) la unfolding on_path_def by (simp only:) blast
    then show ?thesis by blast
  qed
  with inj show ?thesis unfolding probe_inv_def by blast
qed

lemma posting_push:
  assumes "probe_inv n B" and "probe_inv n (B(i := (v, d # snd (B i))))" and i: "i < n" and v: "v \<noteq> 0"
    and old: "fst (B i) = v \<or> (fst (B i) = 0 \<and> snd (B i) = [] \<and> (\<forall>j < n. fst (B j) \<noteq> v))"
  shows "posting n (B(i := (v, d # snd (B i)))) = (posting n B)(Some v := d # posting n B (Some v))"
proof
  fix key
  let ?B = "B(i := (v, d # snd (B i)))"
  show "posting n ?B key = ((posting n B)(Some v := d # posting n B (Some v))) key"
  proof (cases "key = Some v")
    case True
    have "posting n ?B (Some v) = d # snd (B i)" using posting_at [OF assms(2) i, of v] v by simp
    moreover have "posting n B (Some v) = snd (B i)"
      using old posting_at [OF assms(1) i, of v] posting_absent [of n B v] v by auto
    ultimately show ?thesis using True by simp
  next
    case key: False
    consider "key = None" | "key = Some 0" | w where "key = Some w" "w \<noteq> 0" "w \<noteq> v" using key by (cases key) auto
    then show ?thesis
    proof cases
      case (3 w)
      show ?thesis
      proof (cases "\<exists>j < n. fst (B j) = w")
        case True
        then obtain j where j: "j < n" "fst (B j) = w" by blast
        then have "j \<noteq> i" using 3 old by auto
        then show ?thesis
          using 3 j posting_at [OF assms(1) j] posting_at [OF assms(2) j(1), of w] by simp
      next
        case False
        then show ?thesis
          using 3 posting_absent [of n B w] posting_absent [of n ?B w] by auto
      qed
    qed (use i key in auto)
  qed
qed

text \<open>The bucket of the null values lies outside the probed part of the table.\<close>

lemma on_path_null: "0 < n \<Longrightarrow> i < n \<Longrightarrow> on_path n (B(n := x)) i k = on_path n B i k"
proof -
  assume n: "0 < n" "i < n"
  have "slot n (unat (fst (B i)) mod n) j \<noteq> n" for j
    using slot_less [of "unat (fst (B i)) mod n" n j] n by simp
  with n show ?thesis by (simp add: on_path_def)
qed

lemma probe_inv_null: "0 < n \<Longrightarrow> probe_inv n (B(n := x)) = probe_inv n B"
  by (simp add: probe_inv_def on_path_null)

lemma posting_null_push: "posting n (B(n := x)) = (posting n B)(None := snd x)"
proof
  fix key
  have "List.find (\<lambda>i. fst ((B(n := x)) i) = v) [0..<n] = List.find (\<lambda>i. fst (B i) = v) [0..<n]" for v
    by (rule find_cong) auto
  moreover have "List.find (\<lambda>i. fst (B i) = v) [0..<n] \<noteq> Some n" for v
    using find_bucket(1) [of B v n n] by blast
  ultimately show "posting n (B(n := x)) key = ((posting n B)(None := snd x)) key"
    by (auto simp: posting_def split: option.splits)
qed

section \<open>The operations on keys\<close>

definition key_of :: "(u8 list \<Rightarrow> string) \<Rightarrow> (u8 list \<Rightarrow> string) \<Rightarrow> low_data \<Rightarrow> u64 option option" where
  "key_of fmt_f fmt_lf data =
     (if ld_len data = 0 then Some None else map_option Some (get_hash_value fmt_f fmt_lf data))"

lemma null_hash: "ld_len data = 0 \<Longrightarrow> get_hash_value fmt_f fmt_lf data = Some null_key"
  by (simp add: get_hash_value_def hashString64_def hashString_def null_key_def)

lemma null_key_nonzero: "null_key \<noteq> 0"
  by (simp add: null_key_def)

lemma newest_posting:
  assumes "table_rep n m dm B" and "probe_inv n B" and "unat d < n" and "\<And>k e. e \<in> set (posting n B k) \<Longrightarrow> e < d"
  shows "newest n B d"
proof -
  have "e < d" if "j \<le> n" "e \<in> set (snd (B j))" for j e
  proof (cases "j = n")
    case True
    then show ?thesis using assms(4) [of e None] that by simp
  next
    case False
    then have "fst (B j) \<noteq> 0" using table_empty [OF assms(1)] that by force
    then have "posting n B (Some (fst (B j))) = snd (B j)" using posting_at [OF assms(2)] that(1) False by simp
    then show ?thesis using assms(4) [of e "Some (fst (B j))"] that(2) by simp
  qed
  with assms(3) show ?thesis by (simp add: newest_def)
qed

lemma hi_repE:
  assumes "hi_rep h P"
  obtains B m dm where "hi_table h B" and "hi_mem h = Some m" and "dl_mem (hi_doclist h) = Some dm"
    and "table_rep (unat (hi_hashmod h)) m dm B" and "probe_inv (unat (hi_hashmod h)) B"
    and "P = posting (unat (hi_hashmod h)) B" and "fst (B (unat (hi_hashmod h))) \<in> {0, null_key}"
proof -
  obtain B where B: "hi_table h B" "probe_inv (unat (hi_hashmod h)) B" "P = posting (unat (hi_hashmod h)) B"
    "fst (B (unat (hi_hashmod h))) \<in> {0, null_key}"
    using assms by (auto simp: hi_rep_def)
  obtain m dm where "hi_mem h = Some m" "dl_mem (hi_doclist h) = Some dm" "table_rep (unat (hi_hashmod h)) m dm B"
    using B(1) by (rule hi_tableE)
  with B show ?thesis using that by blast
qed

lemma insert_null_rep:
  assumes rep: "hi_rep h P" and len: "ld_len data = 0" and d: "unat d < unat (hi_hashmod h)"
    and new: "\<And>k e. e \<in> set (P k) \<Longrightarrow> e < d"
  obtains h' where "hash_index_insert fmt_f fmt_lf h data d = Some (0, h')" and "hi_rep h' (P(None := d # P None))"
    and "hi_hashmod h' = hi_hashmod h"
proof -
  let ?n = "unat (hi_hashmod h)"
  obtain B m dm where r: "hi_table h B" "hi_mem h = Some m" "table_rep ?n m dm B" "probe_inv ?n B" "P = posting ?n B"
    "fst (B ?n) \<in> {0, null_key}" using rep by (rule hi_repE)
  obtain v where v: "get_hash_value fmt_f fmt_lf data = Some v" "v \<noteq> 0" "v = null_key"
    using null_hash [OF len] null_key_nonzero by blast
  have nw: "newest ?n B d" using newest_posting [OF r(3,4) d] new r(5) by blast
  have n: "0 < ?n" using r(3) by (simp add: table_rep_def)
  have b: "bucket_rep ?n m dm ?n (B ?n)" using table_bucket [OF r(3)] by simp
  then have hv: "hb_hash_value m ?n = Some (fst (B ?n))" by (simp add: bucket_rep_def)
  obtain h' w where h': "hash_index_insert fmt_f fmt_lf h data d = Some (0, h')"
    "hi_table h' (B(?n := (w, d # snd (B ?n))))" "hi_hashmod h' = hi_hashmod h" "w \<in> {0, null_key}"
  proof (cases "snd (B ?n) = []")
    case True
    obtain h' where "insert_new h m ?n v d = Some (0, h')" "hi_table h' (B(?n := (v, [d])))" "hi_hashmod h' = hi_hashmod h"
      using insert_new_table [OF r(1) _ nw True v(2) r(2)] by blast
    then show ?thesis using that [of h' v] True bucket_empty [OF b] hv v(1,3) r(2) len
      by (simp add: hash_index_insert_def)
  next
    case False
    obtain h' where "insert_null_more h m ?n d = Some (0, h')"
      "hi_table h' (B(?n := (fst (B ?n), d # snd (B ?n))))" "hi_hashmod h' = hi_hashmod h"
      using insert_more_table [OF r(1) _ nw False r(2)] by blast
    then show ?thesis using that [of h' "fst (B ?n)"] False bucket_empty [OF b] hv v(1) r(2,6) len
      by (simp add: hash_index_insert_def)
  qed
  moreover have "posting ?n (B(?n := (w, d # snd (B ?n)))) = P(None := d # P None)"
    unfolding r(5) by (simp add: posting_null_push)
  ultimately have "hi_rep h' (P(None := d # P None))"
    using hi_repI [of h' "B(?n := (w, d # snd (B ?n)))"] probe_inv_null [OF n] r(4) by simp
  with h' show ?thesis using that by blast
qed

lemma insert_key_rep:
  assumes rep: "hi_rep h P" and len: "ld_len data \<noteq> 0" and v: "get_hash_value fmt_f fmt_lf data = Some v" "v \<noteq> 0"
    and d: "unat d < unat (hi_hashmod h)" and new: "\<And>k e. e \<in> set (P k) \<Longrightarrow> e < d"
  obtains h' where "hash_index_insert fmt_f fmt_lf h data d = Some (0, h')"
    and "hi_rep h' (P(Some v := d # P (Some v)))" and "hi_hashmod h' = hi_hashmod h"
proof -
  let ?n = "unat (hi_hashmod h)" and ?loc = "unat v mod unat (hi_hashmod h)"
  let ?s = "slot ?n ?loc"
  obtain B m dm where r: "hi_table h B" "hi_mem h = Some m" "table_rep ?n m dm B" "probe_inv ?n B" "P = posting ?n B"
    "fst (B ?n) \<in> {0, null_key}" using rep by (rule hi_repE)
  have nw: "newest ?n B d" using newest_posting [OF r(3,4) d] new r(5) by blast
  have n: "0 < ?n" using r(3) by (simp add: table_rep_def)
  then have loc: "?loc < ?n" by simp
  have hv: "hb_hash_value m i = Some (fst (B i))" if "i < ?n" for i
    using table_bucket [OF r(3), of i] that by (simp add: bucket_rep_def)
  have skip: "insert_body h m v d (?s j) = Some None" if "fst (B (?s j)) \<notin> {0, v}" for j
    using that hv [OF slot_less [OF loc]] by (simp add: insert_body_def)
  obtain k h' where k: "k < ?n" "fst (B (?s k)) = v \<or> (fst (B (?s k)) = 0 \<and> (\<forall>j < ?n. fst (B j) \<noteq> v))"
    "\<And>j. j < k \<Longrightarrow> fst (B (?s j)) \<notin> {0, v}"
    "insert_body h m v d (?s k) = Some (Some (0, h'))" "hi_table h' (B(?s k := (v, d # snd (B (?s k)))))"
    "hi_hashmod h' = hi_hashmod h"
  proof (cases rule: probe_cases [OF r(4) v(2) n])
    case (1 k)
    have i1: "?s k < ?n" by (rule slot_less [OF loc])
    then have i: "?s k < ?n" "snd (B (?s k)) \<noteq> []" using table_empty [OF r(3), of "?s k"] 1(2) v(2) by simp_all
    obtain h' where "insert_more h m (?s k) d = Some (0, h')"
      "hi_table h' (B(?s k := (fst (B (?s k)), d # snd (B (?s k)))))" "hi_hashmod h' = hi_hashmod h"
      using insert_more_table [OF r(1) _ nw i(2) r(2)] i(1) by auto
    then show ?thesis using that [of k h'] 1 v(2) hv [OF i(1)] by (simp add: insert_body_def)
  next
    case (2 k)
    have i1: "?s k < ?n" by (rule slot_less [OF loc])
    then have i: "?s k < ?n" "snd (B (?s k)) = []" using table_empty [OF r(3), of "?s k"] 2(2) by simp_all
    obtain h' where "insert_new h m (?s k) v d = Some (0, h')" "hi_table h' (B(?s k := (v, [d])))"
      "hi_hashmod h' = hi_hashmod h"
      using insert_new_table [OF r(1) _ nw i(2) v(2) r(2)] i(1) by auto
    then show ?thesis using that [of k h'] 2 i(2) hv [OF i(1)] by (simp add: insert_body_def)
  next
    case 3
    then show ?thesis using not_full [OF r(3) nw] by blast
  qed
  have "probe_loop None ?n ?loc (insert_body h m v d) ?loc 0 = Some (Some (0, h'))"
    by (rule probe_loop_hit [where k = k, OF loc k(1)]) (use skip k(3,4) in auto)
  then have "hash_index_insert fmt_f fmt_lf h data d = Some (0, h')"
    using len v(1) r(2) by (simp add: hash_index_insert_def Let_def)
  moreover have "hi_rep h' (P(Some v := d # P (Some v)))"
  proof -
    let ?B = "B(?s k := (v, d # snd (B (?s k))))"
    have i: "?s k < ?n" by (rule slot_less [OF loc])
    have inv: "probe_inv ?n ?B"
      using k(3) by (intro probe_inv_push [OF r(3,4) i nw v(2) k(2) k(1) refl]) auto
    have "posting ?n ?B = P(Some v := d # P (Some v))"
      unfolding r(5) using k(2) table_empty [OF r(3), of "?s k"] i
      by (intro posting_push [OF r(4) inv i v(2)]) auto
    moreover have "?B ?n = B ?n" using i by simp
    ultimately show ?thesis using hi_repI [of h' ?B] inv k(5,6) r(6) by simp
  qed
  ultimately show ?thesis using that k(6) by blast
qed

lemma rl_num_init: "rl_rowid_num rowid_list_init = 0"
  by (simp add: rowid_list_init_def)

lemma bucket_walk:
  assumes "bucket_rep n m dm i b" and "snd b \<noteq> []" and "n < UNITS" and "dl_mem D = Some dm"
  obtains l :: "'s rowid_list" where "hb_offset m i = Some (head_offset (snd b))"
    and "get_rowid_list D (unat (head_offset (snd b))) = Some l" and "rl_wf l" and "rl_ids l = snd b"
proof -
  let ?ps = "map (\<lambda>d. (d, d)) (snd b)"
  have c: "chain dm ?ps (word_of_nat i)" and lim: "\<forall>d \<in> set (snd b). unat d < n"
    using assms(1,2) by (simp_all add: bucket_rep_def)
  have "sorted_wrt (>) (snd b)" using chain_desc [OF c] by (simp add: comp_def)
  then have "distinct (snd b)" by (rule desc_distinct)
  then have "length (snd b) = card (unat ` set (snd b))"
    by (simp add: distinct_card card_image inj_on_def unsigned_word_eqI)
  also have "\<dots> \<le> card {..<n}" using lim by (intro card_mono) auto
  finally have "length ?ps < 4294967296" using assms(3) by simp
  then obtain l :: "'s rowid_list" where l: "get_rowid_list_loop dm (GET_DOC_ROW_STRUCT (fst (hd ?ps))) rowid_list_init = Some l"
    "rl_wf l" "rl_ids l = snd b"
    using get_rowid_list_loop_chain [OF c rl_wf_init(1)] by (auto simp: comp_def rl_num_init)
  obtain e es where e: "snd b = e # es" using assms(2) by (cases "snd b") auto
  have "unat e < UNITS" using lim e assms(3) by simp
  then have "unat (head_offset (snd b)) = GET_DOC_ROW_STRUCT (fst (hd ?ps))" using GET_OFFSET_link(3) e by simp
  with l show ?thesis using that [of l] assms(1,4) by (simp add: get_rowid_list_def bucket_rep_def)
qed

lemma query_null_rep:
  assumes rep: "hi_rep h P" and len: "ld_len data = 0"
  shows "\<exists>r :: 's rowid_list option. hash_index_query fmt_f fmt_lf h data = Some r \<and> answers r (P None)"
proof -
  let ?n = "unat (hi_hashmod h)"
  obtain B m dm where r: "hi_mem h = Some m" "dl_mem (hi_doclist h) = Some dm" "table_rep ?n m dm B"
    "P = posting ?n B" using rep by (rule hi_repE)
  have b: "bucket_rep ?n m dm ?n (B ?n)" using table_bucket [OF r(3)] by simp
  then have hv: "hb_hash_value m ?n = Some (fst (B ?n))" by (simp add: bucket_rep_def)
  show ?thesis
  proof (cases "snd (B ?n) = []")
    case True
    then show ?thesis using bucket_empty [OF b] hv r len by (simp add: hash_index_query_def answers_def)
  next
    case False
    have "?n < UNITS" using r(3) by (simp add: table_rep_def)
    from bucket_walk [OF b False this r(2)] obtain l :: "'s rowid_list" where
      "hb_offset m ?n = Some (head_offset (snd (B ?n)))"
      "get_rowid_list (hi_doclist h) (unat (head_offset (snd (B ?n)))) = Some l" "rl_wf l" "rl_ids l = snd (B ?n)" .
    then show ?thesis using False bucket_empty [OF b] hv r len by (simp add: hash_index_query_def answers_def)
  qed
qed

lemma query_key_rep:
  assumes rep: "hi_rep h P" and len: "ld_len data \<noteq> 0" and v: "get_hash_value fmt_f fmt_lf data = Some v" "v \<noteq> 0"
  shows "\<exists>r :: 's rowid_list option. hash_index_query fmt_f fmt_lf h data = Some r \<and> answers r (P (Some v))"
proof -
  let ?n = "unat (hi_hashmod h)" and ?loc = "unat v mod unat (hi_hashmod h)"
  let ?s = "slot ?n ?loc"
  let ?body = "query_body h (the (hi_mem h)) v :: nat \<Rightarrow> 's rowid_list option option option"
  obtain B m dm where r: "hi_mem h = Some m" "dl_mem (hi_doclist h) = Some dm" "table_rep ?n m dm B"
    "probe_inv ?n B" "P = posting ?n B" using rep by (rule hi_repE)
  have n: "0 < ?n" "?n < UNITS" using r(3) by (simp_all add: table_rep_def)
  then have loc: "?loc < ?n" by simp
  have hv: "hb_hash_value m i = Some (fst (B i))" if "i < ?n" for i
    using table_bucket [OF r(3), of i] that by (simp add: bucket_rep_def)
  have skip: "?body (?s j) = Some None" if "fst (B (?s j)) \<notin> {0, v}" for j
    using that hv [OF slot_less [OF loc]] r(1) by (simp add: query_body_def)
  obtain x where x: "probe_loop None ?n ?loc ?body ?loc 0 = Some x"
    "answers (case x of None \<Rightarrow> None | Some y \<Rightarrow> y) (P (Some v))"
  proof (cases rule: probe_cases [OF r(4) v(2) n(1)])
    case (1 k)
    have i: "?s k < ?n" by (rule slot_less [OF loc])
    then have b: "bucket_rep ?n m dm (?s k) (B (?s k))" and ne: "snd (B (?s k)) \<noteq> []"
      using table_bucket [OF r(3), of "?s k"] table_empty [OF r(3), of "?s k"] 1(2) v(2) by simp_all
    from bucket_walk [OF b ne n(2) r(2)] obtain l :: "'s rowid_list" where l:
      "hb_offset m (?s k) = Some (head_offset (snd (B (?s k))))"
      "get_rowid_list (hi_doclist h) (unat (head_offset (snd (B (?s k))))) = Some l"
      "rl_wf l" "rl_ids l = snd (B (?s k))" .
    have "?body (?s k) = Some (Some (Some l))" using l(1,2) 1(2) v(2) hv [OF i] r(1) by (simp add: query_body_def)
    then have "probe_loop None ?n ?loc ?body ?loc 0 = Some (Some (Some l))"
      by (rule probe_loop_hit [where k = k, OF loc 1(1)]) (use skip 1(3) in auto)
    moreover have "P (Some v) = snd (B (?s k))" unfolding r(5) by (rule posting_at [OF r(4) i 1(2) v(2)])
    ultimately show ?thesis using that l(3,4) ne by (simp add: answers_def)
  next
    case (2 k)
    have "?body (?s k) = Some (Some None)"
      using 2(2) hv [OF slot_less [OF loc]] r(1) by (simp add: query_body_def)
    then have "probe_loop None ?n ?loc ?body ?loc 0 = Some (Some None)"
      by (rule probe_loop_hit [where k = k, OF loc 2(1)]) (use skip 2(3) in auto)
    then show ?thesis using that posting_absent [of ?n B v] 2(4) r(5) by (simp add: answers_def)
  next
    case 3
    have "probe_loop None ?n ?loc ?body ?loc 0 = Some None"
      by (rule probe_loop_miss [OF loc]) (use skip 3 slot_less [OF loc] in auto)
    then show ?thesis using that posting_absent [of ?n B v] 3 r(5) by (simp add: answers_def)
  qed
  then show ?thesis using len v(1) r(1) by (simp add: hash_index_query_def Let_def)
qed

end
