(* ===== verification/Hash_Recover.thy ===== *)
theory Hash_Recover
  imports Hash_Results
begin

text \<open>
  Recovery of the hash index after a crash: \<^verbatim>\<open>hash_index_recover\<close> removes every document from a
  number on.  The loops over the buckets are characterised on the bucket fields, the loop over
  the documents by an invariant on the bucket heads, and the result is again a table whose
  buckets hold the older documents.
\<close>

section \<open>The loops over the buckets\<close>

lemma hb_offset_some: "i < k \<Longrightarrow> length m = k * 12 \<Longrightarrow> \<exists>v. hb_offset m i = Some v"
  unfolding hb_offset_def by (rule get_le_some) simp

lemma clear_offsets_effect:
  assumes "\<forall>i \<in> set is. i < k" and "length m = k * 12" and "0 < mx"
  shows "\<exists>m'. clear_offsets m mx is = Some m' \<and> length m' = length m \<and>
    (\<forall>j. hb_hash_value m' j = hb_hash_value m j) \<and>
    (\<forall>j. hb_offset m' j = (if j \<in> set is then map_option (\<lambda>w. if mx \<le> w then 0 else w) (hb_offset m j)
                           else hb_offset m j))"
  using assms
proof (induction "is" arbitrary: m)
  case (Cons i "is")
  then obtain w where w: "hb_offset m i = Some w" using hb_offset_some [of i k m] by auto
  define x where "x = (if mx \<le> w then 0 else w)"
  obtain m1 where m1: "(if w \<ge> mx then set_offset m i 0 else Some m) = Some m1" "length m1 = length m"
    "\<And>j. hb_offset m1 j = (if j = i then Some x else hb_offset m j)"
    "\<And>j. hb_hash_value m1 j = hb_hash_value m j"
  proof (cases "mx \<le> w")
    case True
    obtain m1 where "set_offset m i 0 = Some m1" "length m1 = length m"
      "\<And>j. hb_offset m1 j = (if j = i then Some 0 else hb_offset m j)"
      "\<And>j. hb_hash_value m1 j = hb_hash_value m j"
      by (rule set_offset_frame [of i k m 0]) (use Cons.prems in auto)
    then show ?thesis using that True by (simp add: x_def)
  next
    case False
    then show ?thesis using that [of m] w by (auto simp: x_def)
  qed
  obtain m' where m': "clear_offsets m1 mx is = Some m'" "length m' = length m1"
    "\<And>j. hb_hash_value m' j = hb_hash_value m1 j"
    "\<And>j. hb_offset m' j = (if j \<in> set is then map_option (\<lambda>w. if mx \<le> w then 0 else w) (hb_offset m1 j)
                            else hb_offset m1 j)"
    using Cons.IH [of m1] Cons.prems m1(2) by auto
  have x: "\<not> mx \<le> x" using Cons.prems(3) by (simp add: x_def not_le)
  show ?case
  proof (intro exI [of _ m'] conjI allI)
    show "clear_offsets m mx (i # is) = Some m'" using w m1(1) m'(1) by simp
  qed (use m' m1 x w in \<open>auto simp: x_def\<close>)
qed simp

lemma clear_empty_effect:
  assumes "\<forall>i \<in> set is. i < k" and "length m = k * 12"
  shows "\<exists>m'. clear_empty m is = Some m' \<and> length m' = length m \<and>
    (\<forall>j. hb_offset m' j = hb_offset m j) \<and>
    (\<forall>j. hb_hash_value m' j = (if j \<in> set is \<and> hb_offset m j = Some 0 then Some 0 else hb_hash_value m j))"
  using assms
proof (induction "is" arbitrary: m)
  case (Cons i "is")
  then obtain w where w: "hb_offset m i = Some w" using hb_offset_some [of i k m] by auto
  obtain m1 where m1: "(if w = 0 then set_hash_value m i 0 else Some m) = Some m1" "length m1 = length m"
    "\<And>j. hb_hash_value m1 j = (if j = i \<and> w = 0 then Some 0 else hb_hash_value m j)"
    "\<And>j. hb_offset m1 j = hb_offset m j"
  proof (cases "w = 0")
    case True
    obtain m1 where "set_hash_value m i 0 = Some m1" "length m1 = length m"
      "\<And>j. hb_hash_value m1 j = (if j = i then Some 0 else hb_hash_value m j)"
      "\<And>j. hb_offset m1 j = hb_offset m j"
      by (rule set_hash_value_frame [of i k m 0]) (use Cons.prems in auto)
    then show ?thesis using that True by simp
  next
    case False
    then show ?thesis using that [of m] by auto
  qed
  obtain m' where m': "clear_empty m1 is = Some m'" "length m' = length m1"
    "\<And>j. hb_offset m' j = hb_offset m1 j"
    "\<And>j. hb_hash_value m' j = (if j \<in> set is \<and> hb_offset m1 j = Some 0 then Some 0 else hb_hash_value m1 j)"
    using Cons.IH [of m1] Cons.prems m1(2) by auto
  show ?case
  proof (intro exI [of _ m'] conjI allI)
    show "clear_empty m (i # is) = Some m'" using w m1(1) m'(1) by simp
  qed (use m' m1 w in auto)
qed simp

section \<open>From a document to its bucket\<close>

lemma chain_end_head:
  "chain m ((p, d) # ps) b \<Longrightarrow>
     \<exists>u l. get_unit m (GET_DOC_ROW_STRUCT p) = Some u \<and> du_next u \<noteq> 0 \<and> chain_end m u = Some l \<and>
       du_next l = 0x80000000 OR b"
proof (induction ps arbitrary: p d)
  case Nil
  have "(0x80000000 OR b :: u32) \<noteq> 0" using end_link [of b] by (metis zero_and_eq)
  with Nil show ?case by (subst chain_end.simps) (simp add: end_link)
next
  case (Cons x ps)
  obtain q e where x: "x = (q, e)" by (cases x)
  with Cons.prems have c: "chain m ((q, e) # ps) b"
    and u: "get_unit m (GET_DOC_ROW_STRUCT p) = Some \<lparr>du_doc_id = d, du_next = GET_OFFSET q\<rparr>" by simp_all
  from Cons.IH [OF c] obtain u' l where l: "get_unit m (GET_DOC_ROW_STRUCT q) = Some u'" "chain_end m u' = Some l"
    "du_next l = 0x80000000 OR b" by blast
  have "unat q < UNITS" using chain_units [OF c, of q e] by simp
  note q = GET_OFFSET_link [OF this]
  have "chain_end m \<lparr>du_doc_id = d, du_next = GET_OFFSET q\<rparr> = Some l"
    using q l by (subst chain_end.simps) simp
  then show ?case using u q(2) l(3) by simp
qed

lemma chain_suffix: "chain m (xs @ ys) b \<Longrightarrow> ys \<noteq> [] \<Longrightarrow> chain m ys b"
proof (induction xs)
  case (Cons x xs)
  then have "chain m (xs @ ys) b" by (cases x; cases "xs @ ys") auto
  with Cons show ?case by simp
qed simp

lemma chain_end_member:
  assumes "chain m ps b" and "(p, d) \<in> set ps"
  shows "\<exists>u l. get_unit m (GET_DOC_ROW_STRUCT p) = Some u \<and> du_next u \<noteq> 0 \<and> chain_end m u = Some l \<and>
    du_next l = 0x80000000 OR b"
proof -
  obtain xs ys where "ps = xs @ (p, d) # ys" using assms(2) by (auto dest: split_list)
  then have "chain m ((p, d) # ys) b" using assms(1) chain_suffix by blast
  then show ?thesis by (rule chain_end_head)
qed

lemma bucket_no: "i < 2147483648 \<Longrightarrow> unat ((0x80000000 OR word_of_nat i :: u32) AND 0x7fffffff) = i"
proof -
  assume i: "i < 2147483648"
  have e: "(0x7fffffff :: u32) = mask 31" by (simp add: mask_eq_decr_exp)
  have "(0x80000000 OR word_of_nat i :: u32) AND 0x7fffffff = word_of_nat i AND 0x7fffffff"
    by (simp add: bit.conj_disj_distrib2)
  then have "unat ((0x80000000 OR word_of_nat i :: u32) AND 0x7fffffff) = unat (take_bit 31 (word_of_nat i :: u32))"
    unfolding e by (simp only: take_bit_eq_mask)
  also have "\<dots> = i" using i by (simp add: unsigned_take_bit_eq take_bit_nat_eq_self unsigned_of_nat)
  finally show ?thesis .
qed

section \<open>The loop over the documents\<close>

text \<open>Bucket \<open>b\<close> is to hold the documents \<open>C b\<close>.  Its head is either cleared or already the newest of
  them, and it is the newest one once the loop has passed that document.\<close>

definition heads_ok :: "nat \<Rightarrow> (nat \<Rightarrow> u32 list) \<Rightarrow> nat \<Rightarrow> u8 list \<Rightarrow> bool" where
  "heads_ok n C j m \<longleftrightarrow> (\<forall>b \<le> n. \<exists>w. hb_offset m b = Some w \<and> w \<in> {0, head_offset (C b)} \<and>
     (C b \<noteq> [] \<longrightarrow> j \<le> unat (hd (C b)) \<longrightarrow> w = head_offset (C b)))"

definition chains_ok :: "nat \<Rightarrow> (nat \<Rightarrow> u32 list) \<Rightarrow> u8 list \<Rightarrow> bool" where
  "chains_ok n C dm \<longleftrightarrow> (\<forall>b \<le> n. C b \<noteq> [] \<longrightarrow> chain dm (map (\<lambda>d. (d, d)) (C b)) (word_of_nat b)) \<and>
     (\<forall>p. unat p < n \<and> (\<forall>b \<le> n. p \<notin> set (C b)) \<longrightarrow>
       get_unit dm (GET_DOC_ROW_STRUCT p) = Some \<lparr>du_doc_id = 0, du_next = 0\<rparr>) \<and>
     (\<forall>b \<le> n. \<forall>c \<le> n. b \<noteq> c \<longrightarrow> set (C b) \<inter> set (C c) = {})"

lemma chains_ok_chain: "chains_ok n C dm \<Longrightarrow> b \<le> n \<Longrightarrow> C b \<noteq> [] \<Longrightarrow> chain dm (map (\<lambda>d. (d, d)) (C b)) (word_of_nat b)"
  by (simp add: chains_ok_def)

lemma chains_ok_disjoint: "chains_ok n C dm \<Longrightarrow> b \<le> n \<Longrightarrow> c \<le> n \<Longrightarrow> b \<noteq> c \<Longrightarrow> p \<in> set (C b) \<Longrightarrow> p \<notin> set (C c)"
  unfolding chains_ok_def by blast

lemma heads_ok_head:
  assumes "heads_ok n C j m" and "b \<le> n"
  obtains w where "hb_offset m b = Some w" and "w \<in> {0, head_offset (C b)}"
    and "C b \<noteq> [] \<Longrightarrow> j \<le> unat (hd (C b)) \<Longrightarrow> w = head_offset (C b)"
  using assms unfolding heads_ok_def by blast

lemma member_below_head:
  assumes "chain dm (map (\<lambda>d. (d, d)) ds) b" and "e \<in> set ds"
  shows "unat e \<le> unat (hd ds)" and "unat (hd ds) < UNITS"
proof -
  obtain d ds' where ds: "ds = d # ds'" using assms(2) by (cases ds) auto
  then have "e = d \<or> e < d" using chain_below [of dm d d "map (\<lambda>d. (d, d)) ds'" b e e] assms by auto
  then show "unat e \<le> unat (hd ds)" using ds by (auto simp: word_less_nat_alt)
  show "unat (hd ds) < UNITS" using chain_units [OF assms(1), of d d] ds by simp
qed

lemma head_passed:
  assumes "heads_ok n C (Suc j) m" and "b \<le> n" and "unat p = j" and "p \<notin> set (C b)"
  shows "\<exists>w. hb_offset m b = Some w \<and> w \<in> {0, head_offset (C b)} \<and>
    (C b \<noteq> [] \<longrightarrow> j \<le> unat (hd (C b)) \<longrightarrow> w = head_offset (C b))"
proof -
  obtain w where w: "hb_offset m b = Some w" "w \<in> {0, head_offset (C b)}"
    "C b \<noteq> [] \<Longrightarrow> Suc j \<le> unat (hd (C b)) \<Longrightarrow> w = head_offset (C b)"
    using heads_ok_head [OF assms(1,2)] by blast
  have "unat (hd (C b)) \<noteq> j" if "C b \<noteq> []"
    using assms(3,4) hd_in_set [OF that] by (metis unsigned_word_eqI)
  then have "Suc j \<le> unat (hd (C b))" if "C b \<noteq> []" "j \<le> unat (hd (C b))" using that by fastforce
  with w show ?thesis by blast
qed

text \<open>One document: it becomes the head of its bucket exactly if that head was cleared.\<close>

lemma rehang_head:
  assumes heads: "heads_ok n C (Suc j) m" and ch: "chain dm (map (\<lambda>d. (d, d)) (C b)) (word_of_nat b)" and b: "b \<le> n"
    and p: "unat p = j" "p \<in> set (C b)" and len: "length m = Suc n * 12"
  obtains old m' where "hb_offset m b = Some old"
    and "(if old < GET_OFFSET p then set_offset m b (GET_OFFSET p) else Some m) = Some m'"
    and "length m' = length m" and "\<And>i. hb_hash_value m' i = hb_hash_value m i"
    and "\<And>i. i \<noteq> b \<Longrightarrow> hb_offset m' i = hb_offset m i" and "hb_offset m' b = Some (head_offset (C b))"
proof -
  obtain w where w: "hb_offset m b = Some w" "w \<in> {0, head_offset (C b)}"
    "Suc j \<le> unat (hd (C b)) \<Longrightarrow> w = head_offset (C b)"
    using heads_ok_head [OF heads b] p(2) by (metis empty_iff empty_set)
  note hd = member_below_head [OF ch p(2)]
  have h: "head_offset (C b) = GET_OFFSET (hd (C b))" using p(2) by (cases "C b") auto
  have u: "unat (GET_OFFSET (hd (C b))) = 4 + unat (hd (C b)) * 8" "unat (GET_OFFSET p) = 4 + j * 8"
    using unat_GET_OFFSET [OF hd(2)] unat_GET_OFFSET [of p] hd p(1) by simp_all
  show ?thesis
  proof (cases "w < GET_OFFSET p")
    case True
    then have "w \<noteq> head_offset (C b)" using u hd(1) p(1) h by (auto simp: word_less_nat_alt)
    then have "unat (hd (C b)) = j" using w(3) hd(1) p(1) by linarith
    then have "hd (C b) = p" using p(1) by (metis unsigned_word_eqI)
    moreover obtain m' where "set_offset m b (GET_OFFSET p) = Some m'" "length m' = length m"
      "\<And>i. hb_offset m' i = (if i = b then Some (GET_OFFSET p) else hb_offset m i)"
      "\<And>i. hb_hash_value m' i = hb_hash_value m i"
      by (rule set_offset_frame [of b "Suc n" m "GET_OFFSET p"]) (use b len in auto)
    ultimately show ?thesis using that [of w m'] w(1) True h by simp
  next
    case False
    have "w \<noteq> 0" using False u(2) by (auto simp: word_less_nat_alt)
    then show ?thesis using that [of w m] w(1,2) False by simp
  qed
qed

lemma rehang_heads:
  assumes "heads_ok n C j m" and "chains_ok n C dm" and "length m = Suc n * 12" and "j \<le> n" and "n < UNITS"
  shows "\<exists>m'. rehang m dm (rev [0..<j]) = Some m' \<and> heads_ok n C 0 m' \<and> length m' = length m \<and>
    (\<forall>i. hb_hash_value m' i = hb_hash_value m i)"
  using assms
proof (induction j arbitrary: m)
  case (Suc j)
  define p where "p = (word_of_nat j :: u32)"
  have p: "unat p = j" using Suc.prems(4,5) by (simp add: p_def unsigned_of_nat take_bit_nat_eq_self)
  have a: "4 + j * 8 = GET_DOC_ROW_STRUCT p" and o: "word_of_nat (j * 8 + 4) = GET_OFFSET p"
    using p by (simp_all add: GET_DOC_ROW_STRUCT_def GET_OFFSET_def p_def)
  show ?case
  proof (cases "\<exists>b \<le> n. p \<in> set (C b)")
    case False
    then have "get_unit dm (4 + j * 8) = Some \<lparr>du_doc_id = 0, du_next = 0\<rparr>"
      using Suc.prems(2,4) p unfolding chains_ok_def a by simp
    moreover have "heads_ok n C j m" unfolding heads_ok_def
    proof (intro allI impI)
      fix b assume b: "b \<le> n"
      then have "p \<notin> set (C b)" using False by blast
      from head_passed [OF Suc.prems(1) b p this] show "\<exists>w. hb_offset m b = Some w \<and>
        w \<in> {0, head_offset (C b)} \<and> (C b \<noteq> [] \<longrightarrow> j \<le> unat (hd (C b)) \<longrightarrow> w = head_offset (C b))" .
    qed
    ultimately show ?thesis using Suc.IH [of m] Suc.prems by simp
  next
    case True
    then obtain b where b: "b \<le> n" "p \<in> set (C b)" by blast
    then have "C b \<noteq> []" by auto
    with Suc.prems(2) b(1) have ch: "chain dm (map (\<lambda>d. (d, d)) (C b)) (word_of_nat b)" by (rule chains_ok_chain)
    obtain u l where u: "get_unit dm (4 + j * 8) = Some u" "du_next u \<noteq> 0" "chain_end dm u = Some l"
      "du_next l = 0x80000000 OR word_of_nat b"
      using chain_end_member [OF ch, of p p] b(2) unfolding a by auto
    have no: "unat (du_next l AND 0x7fffffff) = b" unfolding u(4) by (rule bucket_no) (use b Suc.prems(5) in simp)
    obtain old m1 where m1: "hb_offset m b = Some old"
      "(if old < GET_OFFSET p then set_offset m b (GET_OFFSET p) else Some m) = Some m1" "length m1 = length m"
      "\<And>i. hb_hash_value m1 i = hb_hash_value m i" "\<And>i. i \<noteq> b \<Longrightarrow> hb_offset m1 i = hb_offset m i"
      "hb_offset m1 b = Some (head_offset (C b))"
      using rehang_head [OF Suc.prems(1) ch b(1) p b(2) Suc.prems(3)] by blast
    have "heads_ok n C j m1" unfolding heads_ok_def
    proof (intro allI impI)
      fix i assume i: "i \<le> n"
      show "\<exists>w. hb_offset m1 i = Some w \<and> w \<in> {0, head_offset (C i)} \<and>
          (C i \<noteq> [] \<longrightarrow> j \<le> unat (hd (C i)) \<longrightarrow> w = head_offset (C i))"
      proof (cases "i = b")
        case False
        have "p \<notin> set (C i)" by (rule chains_ok_disjoint [OF Suc.prems(2) b(1) i False [symmetric] b(2)])
        from head_passed [OF Suc.prems(1) i p this] show ?thesis using m1(5) [OF False] by simp
      qed (use m1 in simp)
    qed
    then obtain m' where "rehang m1 dm (rev [0..<j]) = Some m'" "heads_ok n C 0 m'" "length m' = length m1"
      "\<forall>i. hb_hash_value m' i = hb_hash_value m1 i"
      using Suc.IH [of m1] Suc.prems m1(3) by auto
    moreover have "rehang m dm (rev [0..<Suc j]) = rehang m1 dm (rev [0..<j])"
      using u(1-3) no m1(1,2) o by (auto simp: Let_def split: if_splits)
    ultimately show ?thesis using m1 by auto
  qed
qed auto

section \<open>The table after recovery\<close>

definition table_cut :: "u32 \<Rightarrow> table \<Rightarrow> table" where
  "table_cut d B i = (if docs_below d (snd (B i)) = [] then 0 else fst (B i), docs_below d (snd (B i)))"

lemma cut_suffix: "sorted_wrt (>) ds \<Longrightarrow> \<exists>xs. ds = xs @ docs_below d ds"
proof (induction ds)
  case (Cons e ds)
  show ?case
  proof (cases "e < d")
    case True
    then have "docs_below d (e # ds) = e # ds" using Cons.prems by (intro docs_below_all) (auto dest: order.strict_trans)
    then show ?thesis by simp
  next
    case False
    with Cons obtain xs where "ds = xs @ docs_below d ds" by auto
    then have "e # ds = (e # xs) @ docs_below d (e # ds)" using False by simp
    then show ?thesis by blast
  qed
qed simp

lemma cut_last: "sorted_wrt (>) ds \<Longrightarrow> docs_below d ds \<noteq> [] \<Longrightarrow> last (docs_below d ds) = last ds"
proof -
  assume ds: "sorted_wrt (>) ds" "docs_below d ds \<noteq> []"
  obtain xs where "ds = xs @ docs_below d ds" using cut_suffix [OF ds(1)] by blast
  then have "last ds = last (xs @ docs_below d ds)" by (rule arg_cong)
  with ds(2) show ?thesis by simp
qed

lemma cut_nonempty:
  assumes "sorted_wrt (>) ds" and "ds \<noteq> []"
  shows "docs_below d ds \<noteq> [] \<longleftrightarrow> last ds < d"
proof
  assume ne: "docs_below d ds \<noteq> []"
  then have "last (docs_below d ds) \<in> set (docs_below d ds)" by (rule last_in_set)
  then show "last ds < d" unfolding cut_last [OF assms(1) ne] by simp
next
  assume "last ds < d"
  then show "docs_below d ds \<noteq> []" using last_in_set [OF assms(2)] unfolding docs_below_empty by blast
qed

lemma table_desc:
  assumes "table_rep n m dm B" and "i \<le> n"
  shows "sorted_wrt (>) (snd (B i))"
proof (cases "snd (B i) = []")
  case False
  then have "chain dm (map (\<lambda>d. (d, d)) (snd (B i))) (word_of_nat i)"
    using table_bucket [OF assms] by (simp add: bucket_rep_def)
  from chain_desc [OF this] show ?thesis by (simp add: comp_def)
qed simp

lemma cleared_units:
  assumes "zero_range dm (4 + unat d * 8) ((n - unat d) * 8) = Some dm1" and "length dm = 4 + n * 8" and "unat d \<le> n"
  shows "p < d \<Longrightarrow> get_unit dm1 (GET_DOC_ROW_STRUCT p) = get_unit dm (GET_DOC_ROW_STRUCT p)"
    and "\<not> p < d \<Longrightarrow> unat p < n \<Longrightarrow> get_unit dm1 (GET_DOC_ROW_STRUCT p) = Some \<lparr>du_doc_id = 0, du_next = 0\<rparr>"
proof -
  show "get_unit dm1 (GET_DOC_ROW_STRUCT p) = get_unit dm (GET_DOC_ROW_STRUCT p)" if "p < d"
  proof (rule get_unit_frame)
    have "unat p < unat d" using that by (simp add: word_less_nat_alt)
    then show "get32 dm1 a = get32 dm a" if "a \<in> {GET_DOC_ROW_STRUCT p, GET_DOC_ROW_STRUCT p + 4}" for a
      using that by (intro get_zero_other [OF assms(1)]) (auto simp: GET_DOC_ROW_STRUCT_def)
  qed
  show "get_unit dm1 (GET_DOC_ROW_STRUCT p) = Some \<lparr>du_doc_id = 0, du_next = 0\<rparr>" if "\<not> p < d" "unat p < n"
  proof -
    have "unat d \<le> unat p" using that(1) by (simp add: word_less_nat_alt)
    then have "get32 dm1 a = Some 0" if "a \<in> {GET_DOC_ROW_STRUCT p, GET_DOC_ROW_STRUCT p + 4}" for a
      using that \<open>unat p < n\<close> by (intro get_zero_inside [OF assms(1)]) (auto simp: GET_DOC_ROW_STRUCT_def)
    then show ?thesis by (simp add: get_unit_def)
  qed
qed

lemma recover_chains:
  assumes rep: "table_rep n m dm B" and z: "zero_range dm (4 + unat d * 8) ((n - unat d) * 8) = Some dm1" and d: "unat d \<le> n"
  shows "chains_ok n (\<lambda>b. docs_below d (snd (B b))) dm1"
proof -
  have len: "length dm = 4 + n * 8" and unused: "unused_zero n dm B" using rep by (simp_all add: table_rep_def)
  note units = cleared_units [OF z len d]
  have "chain dm1 (map (\<lambda>d. (d, d)) (docs_below d (snd (B b)))) (word_of_nat b)" if b: "b \<le> n" "docs_below d (snd (B b)) \<noteq> []" for b
  proof -
    obtain xs where xs: "snd (B b) = xs @ docs_below d (snd (B b))" using cut_suffix [OF table_desc [OF rep b(1)]] by blast
    have "snd (B b) \<noteq> []" using b(2) by auto
    then have "chain dm (map (\<lambda>d. (d, d)) (snd (B b))) (word_of_nat b)"
      using table_bucket [OF rep b(1)] by (simp add: bucket_rep_def)
    then have "chain dm (map (\<lambda>d. (d, d)) xs @ map (\<lambda>d. (d, d)) (docs_below d (snd (B b)))) (word_of_nat b)"
      using xs by (metis map_append)
    then have "chain dm (map (\<lambda>d. (d, d)) (docs_below d (snd (B b)))) (word_of_nat b)"
      by (rule chain_suffix) (use b(2) in simp)
    then show ?thesis by (rule chain_frame) (auto intro: units(1))
  qed
  moreover have "get_unit dm1 (GET_DOC_ROW_STRUCT p) = Some \<lparr>du_doc_id = 0, du_next = 0\<rparr>"
    if p: "unat p < n" "\<forall>b \<le> n. p \<notin> set (docs_below d (snd (B b)))" for p
  proof (cases "p < d")
    case True
    then have "\<forall>b \<le> n. p \<notin> set (snd (B b))" using p(2) by simp
    then show ?thesis using unused p(1) units(1) [OF True] by (simp add: unused_zero_def)
  next
    case False
    then show ?thesis using p(1) by (rule units(2))
  qed
  moreover have "set (docs_below d (snd (B b))) \<inter> set (docs_below d (snd (B c))) = {}" if "b \<le> n" "c \<le> n" "b \<noteq> c" for b c
  proof -
    have "set (snd (B b)) \<inter> set (snd (B c)) = {}" using rep that unfolding table_rep_def by blast
    then show ?thesis by auto
  qed
  ultimately show ?thesis unfolding chains_ok_def by blast
qed

lemma cleared_heads:
  assumes rep: "table_rep n m dm B" and d: "unat d \<le> n"
    and m1: "\<And>j. j \<le> n \<Longrightarrow> hb_offset m1 j = map_option (\<lambda>w. if 8 * d + 4 \<le> w then 0 else w) (hb_offset m j)"
  shows "heads_ok n (\<lambda>b. docs_below d (snd (B b))) (unat d) m1"
  unfolding heads_ok_def
proof (intro allI impI)
  fix b assume b: "b \<le> n"
  have off: "hb_offset m b = Some (head_offset (snd (B b)))" and lim: "\<forall>e \<in> set (snd (B b)). unat e < n"
    using table_bucket [OF rep b] by (simp_all add: bucket_rep_def)
  have n: "n < UNITS" using rep by (simp add: table_rep_def)
  have mx: "8 * d + 4 = GET_OFFSET d" "unat (GET_OFFSET d) = 4 + unat d * 8"
    using unat_GET_OFFSET [of d] d n by (simp_all add: GET_OFFSET_def algebra_simps)
  define w where "w = (if 8 * d + 4 \<le> head_offset (snd (B b)) then 0 else head_offset (snd (B b)))"
  have "hb_offset m1 b = Some w" using m1 [OF b] off by (simp add: w_def)
  moreover have "w \<in> {0, head_offset (docs_below d (snd (B b)))}"
  proof (cases "snd (B b)")
    case (Cons e es)
    have e: "unat (GET_OFFSET e) = 4 + unat e * 8" using lim Cons n by (intro unat_GET_OFFSET) auto
    show ?thesis
    proof (cases "e < d")
      case True
      have "docs_below d (snd (B b)) = snd (B b)"
        using table_desc [OF rep b] True Cons by (intro docs_below_all) (auto dest: order.strict_trans)
      then show ?thesis by (simp add: w_def)
    next
      case False
      then have "GET_OFFSET d \<le> GET_OFFSET e" using mx(2) e by (simp add: word_le_nat_alt word_less_nat_alt)
      then show ?thesis using Cons mx(1) by (simp add: w_def)
    qed
  qed (simp add: w_def)
  moreover have "hd (docs_below d (snd (B b))) < d" if "docs_below d (snd (B b)) \<noteq> []" using hd_in_set [OF that] by simp
  ultimately show "\<exists>w. hb_offset m1 b = Some w \<and> w \<in> {0, head_offset (docs_below d (snd (B b)))} \<and>
      (docs_below d (snd (B b)) \<noteq> [] \<longrightarrow> unat d \<le> unat (hd (docs_below d (snd (B b)))) \<longrightarrow> w = head_offset (docs_below d (snd (B b))))"
    by (metis not_le word_less_nat_alt)
qed

lemma table_cut_rep:
  assumes rep: "table_rep n m dm B" and ch: "chains_ok n (\<lambda>b. docs_below d (snd (B b))) dm1"
    and len: "length m3 = length m" "length dm1 = length dm" "get32 dm1 0 = get32 dm 0"
    and off: "\<And>b. b \<le> n \<Longrightarrow> hb_offset m3 b = Some (head_offset (docs_below d (snd (B b))))"
    and hv: "\<And>b. b \<le> n \<Longrightarrow> hb_hash_value m3 b = Some (fst (table_cut d B b))"
  shows "table_rep n m3 dm1 (table_cut d B)"
proof -
  have "bucket_rep n m3 dm1 i (table_cut d B i)" if i: "i \<le> n" for i
  proof -
    have "fst (B i) \<noteq> 0" if "docs_below d (snd (B i)) \<noteq> []" using that table_empty [OF rep i] by auto
    moreover have "\<forall>e \<in> set (snd (B i)). unat e < n" using table_bucket [OF rep i] by (simp add: bucket_rep_def)
    ultimately show ?thesis
      using off [OF i] hv [OF i] chains_ok_chain [OF ch i] by (simp add: bucket_rep_def table_cut_def)
  qed
  moreover have "unused_zero n dm1 (table_cut d B)"
    using ch unfolding chains_ok_def unused_zero_def table_cut_def by simp
  moreover have "set (snd (table_cut d B i)) \<inter> set (snd (table_cut d B j)) = {}" if "i \<le> n" "j \<le> n" "i \<noteq> j" for i j
    using chains_ok_disjoint [OF ch that] unfolding table_cut_def by auto
  moreover have "0 < n" "n < UNITS" "length m = Suc n * 12" "length dm = 4 + n * 8" "get32 dm 0 = Some DATA_STOAGE_VERSION"
    using rep by (simp_all add: table_rep_def)
  ultimately show ?thesis using len unfolding table_rep_def by simp
qed

text \<open>Buckets on a path are older than the path's end, so they survive whenever it does.\<close>

lemma probe_inv_cut:
  assumes rep: "table_rep n m dm B" and inv: "probe_inv n B"
  shows "probe_inv n (table_cut d B)"
proof -
  let ?B = "table_cut d B"
  have keep: "fst (?B i) = fst (B i) \<and> last (snd (?B i)) = last (snd (B i))"
    if "i < n" "fst (B i) \<noteq> 0" "last (snd (B i)) < d" for i
  proof -
    have ne: "snd (B i) \<noteq> []" and desc: "sorted_wrt (>) (snd (B i))"
      using table_empty [OF rep, of i] table_desc [OF rep, of i] that(1,2) by simp_all
    have "docs_below d (snd (B i)) \<noteq> []" using that(3) by (simp only: cut_nonempty [OF desc ne])
    then show ?thesis using cut_last [OF desc] by (simp add: table_cut_def)
  qed
  have old: "fst (B i) \<noteq> 0 \<and> last (snd (B i)) < d" if "i < n" "fst (?B i) \<noteq> 0" for i
  proof -
    have c: "docs_below d (snd (B i)) \<noteq> []" "fst (B i) \<noteq> 0" using that(2) by (auto simp: table_cut_def split: if_splits)
    then have "snd (B i) \<noteq> []" by auto
    then show ?thesis using cut_nonempty [OF table_desc [OF rep], of i d] that(1) c by simp
  qed
  have "i = j" if "i < n" "j < n" "fst (?B i) \<noteq> 0" "fst (?B i) = fst (?B j)" for i j
  proof (rule probe_inj [OF inv that(1,2)])
    have "fst (?B j) \<noteq> 0" using that(3,4) by simp
    note o = old [OF that(1,3)] old [OF that(2) this]
    show "fst (B i) \<noteq> 0" using o by blast
    have "fst (?B i) = fst (B i)" "fst (?B j) = fst (B j)" using keep that(1,2) o by blast+
    with that(4) show "fst (B i) = fst (B j)" by simp
  qed
  moreover have "\<exists>k. on_path n ?B i k" if i: "i < n" "fst (?B i) \<noteq> 0" for i
  proof -
    note o = old [OF i]
    obtain k where k: "on_path n B i k" using probe_path [OF inv i(1)] o by blast
    have e: "fst (?B i) = fst (B i)" "last (snd (?B i)) = last (snd (B i))" using keep i(1) o by simp_all
    let ?s = "slot n (unat (fst (B i)) mod n)"
    have "fst (?B (?s j)) \<noteq> 0 \<and> last (snd (?B (?s j))) < last (snd (B i))" if "j < k" for j
    proof -
      have s: "?s j < n" using i(1) by (intro slot_less) simp
      have "fst (B (?s j)) \<noteq> 0" "last (snd (B (?s j))) < last (snd (B i))" using k that by (simp_all add: on_path_def)
      then show ?thesis using keep [OF s] o by (auto dest: order.strict_trans)
    qed
    then have "on_path n ?B i k" using k unfolding on_path_def e by blast
    then show ?thesis by blast
  qed
  ultimately show ?thesis unfolding probe_inv_def by blast
qed

lemma posting_cut:
  assumes rep: "table_rep n m dm B" and inv: "probe_inv n B"
  shows "posting n (table_cut d B) key = docs_below d (posting n B key)"
proof -
  consider "key = None" | "key = Some 0" | v where "key = Some v" "v \<noteq> 0" by (cases key) auto
  then show ?thesis
  proof cases
    case (3 v)
    show ?thesis
    proof (cases "\<exists>i < n. fst (B i) = v")
      case True
      then obtain i where i: "i < n" "fst (B i) = v" by blast
      have p: "posting n B key = snd (B i)" unfolding 3(1) by (rule posting_at [OF inv i 3(2)])
      show ?thesis
      proof (cases "docs_below d (snd (B i)) = []")
        case True
        have "fst (table_cut d B j) \<noteq> v" if "j < n" for j
          using probe_inj [OF inv that i(1)] True i(2) 3(2) by (auto simp: table_cut_def)
        then show ?thesis using posting_absent [of n "table_cut d B" v] 3(1) p True by simp
      next
        case False
        then have "fst (table_cut d B i) = v" "snd (table_cut d B i) = docs_below d (snd (B i))"
          using i(2) by (simp_all add: table_cut_def)
        then show ?thesis using posting_at [OF probe_inv_cut [OF assms] i(1) _ 3(2)] 3(1) p by simp
      qed
    next
      case False
      then have "posting n B key = []" "posting n (table_cut d B) key = []"
        using posting_absent [of n B v] posting_absent [of n "table_cut d B" v] 3 by (auto simp: table_cut_def)
      then show ?thesis by simp
    qed
  qed (simp_all add: table_cut_def)
qed

section \<open>Recovery\<close>

lemma hash_index_recover_rep:
  assumes rep: "hi_rep h P" and d: "docid \<le> hi_hashmod h"
  obtains h' where "hash_index_recover h docid = Some (0, h')" and "hi_rep h' (\<lambda>k. docs_below docid (P k))"
    and "hi_hashmod h' = hi_hashmod h"
proof -
  let ?n = "unat (hi_hashmod h)" and ?D = "hi_doclist h"
  obtain B m dm where r: "hi_table h B" "hi_mem h = Some m" "dl_mem ?D = Some dm" "table_rep ?n m dm B"
    "probe_inv ?n B" "P = posting ?n B" "fst (B ?n) \<in> {0, null_key}" using rep by (rule hi_repE)
  have ok: "dl_row_limit ?D = hi_hashmod h" "dl_version ?D = DATA_STOAGE_VERSION"
    using r(1) by (simp_all add: hi_table_def index_ok_def)
  have n: "?n < UNITS" "length m = Suc ?n * 12" "length dm = 4 + ?n * 8" using r(4) by (simp_all add: table_rep_def)
  have dn: "unat docid \<le> ?n" using d by (simp add: word_le_nat_alt)
  let ?C = "\<lambda>b. docs_below docid (snd (B b))"
  obtain dm1 where z: "zero_range dm (4 + unat docid * 8) ((?n - unat docid) * 8) = Some dm1" "length dm1 = length dm"
    by (rule zero_range_some [of "4 + unat docid * 8" "(?n - unat docid) * 8" dm]) (use dn n(3) in simp)
  have size: "unat (dl_row_limit ?D - docid) = ?n - unat docid" unfolding ok(1) using d by (rule unat_sub)
  have bs: "[0..<unat (hi_hashmod h + 1)] = [0..<Suc ?n]" using n(1) by (simp add: unat_word_ariths)
  have mx: "0 < 8 * docid + (4 :: u32)"
    using unat_GET_OFFSET [of docid] dn n(1) by (simp add: word_less_nat_alt GET_OFFSET_def algebra_simps)
  obtain m1 where m1: "clear_offsets m (8 * docid + 4) [0..<Suc ?n] = Some m1" "length m1 = length m"
    "\<And>j. hb_hash_value m1 j = hb_hash_value m j"
    "\<And>j. j \<le> ?n \<Longrightarrow> hb_offset m1 j = map_option (\<lambda>w. if 8 * docid + 4 \<le> w then 0 else w) (hb_offset m j)"
    using clear_offsets_effect [of "[0..<Suc ?n]" "Suc ?n" m "8 * docid + 4"] n(2) mx by auto
  have ch: "chains_ok ?n ?C dm1" by (rule recover_chains [OF r(4) z(1) dn])
  have "heads_ok ?n ?C (unat docid) m1" using r(4) dn m1(4) by (rule cleared_heads)
  then obtain m2 where m2: "rehang m1 dm1 (rev [0..<unat docid]) = Some m2" "heads_ok ?n ?C 0 m2"
    "length m2 = length m1" "\<forall>i. hb_hash_value m2 i = hb_hash_value m1 i"
    using rehang_heads [OF _ ch _ dn n(1), of m1] m1(2) n(2) by auto
  have off: "hb_offset m2 b = Some (head_offset (?C b))" if "b \<le> ?n" for b
    by (rule heads_ok_head [OF m2(2) that]) (cases "?C b = []"; auto)
  obtain m3 where m3: "clear_empty m2 [0..<Suc ?n] = Some m3" "length m3 = length m2"
    "\<And>j. hb_offset m3 j = hb_offset m2 j"
    "\<And>j. j \<le> ?n \<Longrightarrow> hb_hash_value m3 j = (if hb_offset m2 j = Some 0 then Some 0 else hb_hash_value m2 j)"
    using clear_empty_effect [of "[0..<Suc ?n]" "Suc ?n" m2] n(2) m1(2) m2(3) by auto
  have "hb_hash_value m3 b = Some (fst (table_cut docid B b))" if b: "b \<le> ?n" for b
  proof -
    have "hb_hash_value m b = Some (fst (B b))" "\<forall>e \<in> set (snd (B b)). unat e < ?n"
      using table_bucket [OF r(4) b] by (simp_all add: bucket_rep_def)
    moreover from this have "head_offset (?C b) = 0 \<longleftrightarrow> ?C b = []" using head_offset_0 [of "?C b" ?n] n(1) by simp
    ultimately show ?thesis using m3(4) [OF b] off [OF b] m2(4) m1(3) by (simp add: table_cut_def)
  qed
  moreover have "get32 dm1 0 = get32 dm 0" by (rule get_zero_other [OF z(1)]) simp
  ultimately have "table_rep ?n m3 dm1 (table_cut docid B)"
    using m3(2,3) m2(3) m1(2) z(2) off by (intro table_cut_rep [OF r(4) ch]) simp_all
  moreover have "posting ?n (table_cut docid B) = (\<lambda>k. docs_below docid (P k))"
    unfolding r(6) using posting_cut [OF r(4,5)] by blast
  moreover have "hash_index_recover h docid = Some (0, h\<lparr>hi_mem := Some m3, hi_doclist := ?D\<lparr>dl_mem := Some dm1\<rparr>\<rparr>)"
  proof (cases "docid = 0")
    case True
    then have "m2 = m1" using m2(1) by simp
    then show ?thesis using True ok r(2,3) z(1) size bs m1(1) m3(1) by (simp add: hash_index_recover_def Let_def)
  next
    case False
    then have "0 < docid" by (simp add: word_gt_0)
    then show ?thesis using ok r(2,3) z(1) size bs m1(1) m2(1) m3(1) by (simp add: hash_index_recover_def Let_def)
  qed
  moreover have "hi_rep (h\<lparr>hi_mem := Some m3, hi_doclist := ?D\<lparr>dl_mem := Some dm1\<rparr>\<rparr>) (posting ?n (table_cut docid B))"
    using calculation(1) ok probe_inv_cut [OF r(4,5), of docid]
    by (intro hi_repI [of "h\<lparr>hi_mem := Some m3, hi_doclist := ?D\<lparr>dl_mem := Some dm1\<rparr>\<rparr>", simplified]) (use r(7) in \<open>auto simp: hi_table_def index_ok_def table_cut_def\<close>)
  ultimately show ?thesis
    using that [of "h\<lparr>hi_mem := Some m3, hi_doclist := ?D\<lparr>dl_mem := Some dm1\<rparr>\<rparr>"] by simp
qed

end
