(* ===== verification/Hash_Props.thy ===== *)
theory Hash_Props
  imports Hash_Recover
begin

text \<open>
  Properties of the hash index: it keeps the contract of a posting index from the moment its
  files are created, loading never meets a conflict, recovery with replay and a restart lose
  nothing.
\<close>

section \<open>The contract\<close>

definition hashable :: "(u8 list \<Rightarrow> string) \<Rightarrow> (u8 list \<Rightarrow> string) \<Rightarrow> low_data \<Rightarrow> bool" where
  "hashable fmt_f fmt_lf data \<longleftrightarrow> key_of fmt_f fmt_lf data \<notin> {None, Some (Some 0)}"

definition hash_key :: "(u8 list \<Rightarrow> string) \<Rightarrow> (u8 list \<Rightarrow> string) \<Rightarrow> low_data \<Rightarrow> u64 option" where
  "hash_key fmt_f fmt_lf data = the (key_of fmt_f fmt_lf data)"

lemma hashable_cases:
  assumes "hashable fmt_f fmt_lf data"
  obtains (null) "ld_len data = 0" "hash_key fmt_f fmt_lf data = None"
    | (val) v where "ld_len data \<noteq> 0" "get_hash_value fmt_f fmt_lf data = Some v" "v \<noteq> 0"
        "hash_key fmt_f fmt_lf data = Some v"
  using assms by (auto simp: hashable_def hash_key_def key_of_def split: if_splits)

interpretation hx: posting_index hi_rep hi_hashmod "hash_key fmt_f fmt_lf" "hashable fmt_f fmt_lf"
  "hash_index_insert fmt_f fmt_lf" "hash_index_query fmt_f fmt_lf :: _ \<Rightarrow> _ \<Rightarrow> 's rowid_list option option" hash_index_recover
  for fmt_f fmt_lf
proof
  fix h P data d
  assume rep: "hi_rep h P" and val: "hashable fmt_f fmt_lf data" and d: "d < hi_hashmod h"
    and new: "\<forall>k. \<forall>e \<in> set (P k). e < d"
  have d': "unat d < unat (hi_hashmod h)" using d by (simp add: word_less_nat_alt)
  show "\<exists>h'. hash_index_insert fmt_f fmt_lf h data d = Some (0, h') \<and>
      hi_rep h' (P(hash_key fmt_f fmt_lf data := d # P (hash_key fmt_f fmt_lf data))) \<and> hi_hashmod h' = hi_hashmod h"
    using val
  proof (cases rule: hashable_cases)
    case null
    show ?thesis by (rule insert_null_rep [OF rep null(1) d']) (use new null(2) in auto)
  next
    case (val v)
    show ?thesis by (rule insert_key_rep [OF rep val(1-3) d']) (use new val(4) in auto)
  qed
next
  fix h P data
  assume rep: "hi_rep h P" and val: "hashable fmt_f fmt_lf data"
  show "\<exists>r :: 's rowid_list option. hash_index_query fmt_f fmt_lf h data = Some r \<and> answers r (P (hash_key fmt_f fmt_lf data))"
    using val query_null_rep [OF rep] query_key_rep [OF rep] by (cases rule: hashable_cases) auto
next
  fix h P d
  assume "hi_rep h P" and "d \<le> hi_hashmod h"
  then show "\<exists>h'. hash_index_recover h d = Some (0, h') \<and> hi_rep h' (\<lambda>k. docs_below d (P k)) \<and> hi_hashmod h' = hi_hashmod h"
    by (metis hash_index_recover_rep)
qed

section \<open>A new index\<close>

lemma get_le_zeros: "off + k \<le> n \<Longrightarrow> get_le k (replicate n 0) off = Some 0"
  by (simp add: get_le_def rd_range_def le_word_zeros)

lemma fresh_table:
  assumes "0 < n" and "n < UNITS" and "put32 (replicate (4 + n * 8) 0) 0 DATA_STOAGE_VERSION = Some dm"
  shows "table_rep n (replicate (Suc n * 12) 0) dm (\<lambda>_. (0, []))"
proof -
  have "hb_hash_value (replicate (Suc n * 12) 0) i = Some 0" "hb_offset (replicate (Suc n * 12) 0) i = Some 0" if "i \<le> n" for i
    using that unfolding hb_hash_value_def hb_offset_def by (simp_all add: get_le_zeros)
  moreover have "get_unit dm (GET_DOC_ROW_STRUCT p) = Some \<lparr>du_doc_id = 0, du_next = 0\<rparr>" if "unat p < n" for p
  proof -
    have "get32 dm a = Some 0" if "a \<in> {GET_DOC_ROW_STRUCT p, GET_DOC_ROW_STRUCT p + 4}" for a
    proof -
      have a: "4 \<le> a" "a + 4 \<le> 4 + n * 8" using that \<open>unat p < n\<close> by (auto simp: GET_DOC_ROW_STRUCT_def)
      have "get32 dm a = get32 (replicate (4 + n * 8) 0) a" by (rule get_put_other [OF assms(3)]) (use a in simp)
      also have "\<dots> = Some 0" using a(2) by (rule get_le_zeros)
      finally show ?thesis .
    qed
    then show ?thesis by (simp add: get_unit_def)
  qed
  ultimately show ?thesis
    using assms put_le_length [OF assms(3)] get_put32_same [OF assms(3)]
    by (simp add: table_rep_def bucket_rep_def unused_zero_def)
qed

lemma fresh_postings: "probe_inv n (\<lambda>_. (0, []))" "posting n (\<lambda>_. (0, [])) = (\<lambda>_. [])"
  by (auto simp: probe_inv_def posting_def fun_eq_iff split: option.splits)

text \<open>A system that serves both files of an index with \<open>n\<close> rows.\<close>

definition index_env :: "env \<Rightarrow> string \<Rightarrow> u32 \<Rightarrow> bool" where
  "index_env ev ws n \<longleftrightarrow> env_ok ev (ws @ ''/hash.idx'') (Suc (unat n) * 12) \<and>
     env_ok ev (ws @ ''/doclist.idx'') (4 + unat n * 8) \<and> length ws + 12 < FILENAME_MAX_LENGTH \<and>
     0 < n \<and> Suc (unat n) * 12 < 2147483648"

lemma index_env_sizes:
  assumes "index_env ev ws n"
  shows "unat ((n + 1) * 12) = Suc (unat n) * 12" and "unat (4 + n * 8) = 4 + unat n * 8"
    and "0 < unat n" and "unat n < UNITS" and "Suc (unat n) * 12 < 2147483648"
    and "sprintf_name (ws @ ''/hash.idx'') = Some (ws @ ''/hash.idx'')"
    and "sprintf_name (ws @ ''/doclist.idx'') = Some (ws @ ''/doclist.idx'')"
  using assms by (simp_all add: index_env_def unat_word_ariths word_less_nat_alt sprintf_name_def)

section \<open>Opening and closing\<close>

definition opened :: "hash_index_config \<Rightarrow> u8 list \<Rightarrow> u8 list \<Rightarrow> hash_index_manager" where
  "opened config m dm =
     \<lparr>hi_hashmod = hc_row_limit config, hi_limit = hc_row_limit config,
      hi_file_name = hc_work_space config @ ''/hash.idx'', hi_mem = Some m, hi_is_full = hc_is_full config,
      hi_doclist = \<lparr>dl_file_name = hc_work_space config @ ''/doclist.idx'', dl_row_limit = hc_row_limit config,
        dl_version = DATA_STOAGE_VERSION, dl_is_full = hc_is_full config, dl_mem = Some dm\<rparr>\<rparr>"

lemma hash_index_init_opened:
  assumes env: "index_env ev (hc_work_space config) (hc_row_limit config)"
    and m: "m = pad_to (Suc (unat (hc_row_limit config)) * 12) (file_bytes fs (hc_work_space config @ ''/hash.idx''))"
    and dm0: "dm0 = pad_to (4 + unat (hc_row_limit config) * 8) (file_bytes fs (hc_work_space config @ ''/doclist.idx''))"
    and dm: "(get32 dm0 0 = Some 0 \<and> put32 dm0 0 DATA_STOAGE_VERSION = Some dm) \<or>
      (get32 dm0 0 = Some DATA_STOAGE_VERSION \<and> dm = dm0)"
  shows "\<exists>fs'. hash_index_init ev fs config = Ret (opened config m dm, fs')"
proof -
  note sz = index_env_sizes [OF env]
  have hash: "env_ok ev (hc_work_space config @ ''/hash.idx'') (Suc (unat (hc_row_limit config)) * 12)"
    and doc: "env_ok ev (hc_work_space config @ ''/doclist.idx'') (4 + unat (hc_row_limit config) * 8)"
    using env by (simp_all add: index_env_def)
  obtain fs1 where fs1: "region_open ev fs (hc_is_full config) (hc_work_space config @ ''/hash.idx'')
      ((hc_row_limit config + 1) * 12) = Ret (m, fs1)"
    "\<And>n. n \<noteq> hc_work_space config @ ''/hash.idx'' \<Longrightarrow> fs1 n = fs n"
    by (rule region_open_ok [of ev "hc_work_space config @ ''/hash.idx''" "(hc_row_limit config + 1) * 12" fs
      "hc_is_full config"]) (use hash sz m in simp_all)
  have fb: "file_bytes fs1 (hc_work_space config @ ''/doclist.idx'') = file_bytes fs (hc_work_space config @ ''/doclist.idx'')"
    using fs1(2) by (simp add: file_bytes_def)
  obtain fs2 where fs2: "region_open ev fs1 (hc_is_full config) (hc_work_space config @ ''/doclist.idx'')
      (hc_row_limit config * 8 + 4) = Ret (dm0, fs2)"
    by (rule region_open_ok [of ev "hc_work_space config @ ''/doclist.idx''" "hc_row_limit config * 8 + 4" fs1
      "hc_is_full config"]) (use doc sz dm0 fb in \<open>simp_all add: add.commute\<close>)
  show ?thesis
    using fs1(1) fs2 dm sz(6,7)
    by (auto simp: hash_index_init_def doclist_init_def DOCLIST_MMAP_SIZE_def opened_def)
qed

lemma opened_rep:
  assumes "table_rep (unat (hc_row_limit config)) m dm B" and "probe_inv (unat (hc_row_limit config)) B"
    and "fst (B (unat (hc_row_limit config))) \<in> {0, null_key}"
  shows "hi_rep (opened config m dm) (posting (unat (hc_row_limit config)) B)"
  using hi_repI [of "opened config m dm" B] assms by (simp add: hi_table_def index_ok_def opened_def)

lemma hash_index_init_fresh_opened:
  assumes "index_env ev (hc_work_space config) (hc_row_limit config)"
  obtains m dm fs where "hash_index_init ev (\<lambda>_. None) config = Ret (opened config m dm, fs)"
    and "hi_rep (opened config m dm) (\<lambda>_. [])"
proof -
  let ?n = "unat (hc_row_limit config)"
  have n: "0 < ?n" "?n < UNITS" by (rule index_env_sizes [OF assms])+
  have pad: "pad_to k (file_bytes (\<lambda>_. None) f) = replicate k 0" for k f by (simp add: pad_to_def file_bytes_def)
  obtain dm where dm: "put32 (replicate (4 + ?n * 8) 0) 0 DATA_STOAGE_VERSION = Some dm"
    by (rule put_le_some [of 0 4 "replicate (4 + ?n * 8) 0"]) simp_all
  have z: "get32 (replicate (4 + ?n * 8) 0) 0 = Some 0" by (rule get_le_zeros) simp
  obtain fs where "hash_index_init ev (\<lambda>_. None) config = Ret (opened config (replicate (Suc ?n * 12) 0) dm, fs)"
    using hash_index_init_opened [OF assms refl refl, of "\<lambda>_. None" dm] z dm unfolding pad by blast
  moreover have "hi_rep (opened config (replicate (Suc ?n * 12) 0) dm) (\<lambda>_. [])"
    using opened_rep [OF fresh_table [OF n dm] fresh_postings(1)] unfolding fresh_postings(2) by simp
  ultimately show ?thesis using that by blast
qed

lemma hash_index_init_fresh:
  assumes "index_env ev (hc_work_space config) (hc_row_limit config)"
  obtains h fs where "hash_index_init ev (\<lambda>_. None) config = Ret (h, fs)" and "hi_rep h (\<lambda>_. [])"
    and "hi_hashmod h = hc_row_limit config"
  using hash_index_init_fresh_opened [OF assms] by (metis hash_index_manager.select_convs(1) opened_def)

lemma hash_index_query_cong:
  assumes "hi_mem h = hi_mem h'" and "hi_hashmod h = hi_hashmod h'" and "dl_mem (hi_doclist h) = dl_mem (hi_doclist h')"
  shows "(hash_index_query fmt_f fmt_lf h data :: 's rowid_list option option) = hash_index_query fmt_f fmt_lf h' data"
proof -
  have walk: "(get_rowid_list (hi_doclist h) :: nat \<Rightarrow> 's rowid_list option) = get_rowid_list (hi_doclist h')"
    using assms(3) by (simp add: get_rowid_list_def fun_eq_iff)
  have "(query_body h :: _ \<Rightarrow> _ \<Rightarrow> _ \<Rightarrow> 's rowid_list option option option) = query_body h'"
    by (intro ext) (simp only: query_body_def walk)
  with walk show ?thesis by (simp only: hash_index_query_def assms(1,2))
qed

lemma hash_index_release_files:
  assumes "env_ok ev (hi_file_name h) (length m)" and "env_ok ev (dl_file_name (hi_doclist h)) (length dm)"
    and "hi_mem h = Some m" and "dl_mem (hi_doclist h) = Some dm" and "length m < 2 ^ 63" and "length dm < 2 ^ 63"
  shows "hash_index_release ev fs h =
    Ret (msync_file (msync_file fs (dl_file_name (hi_doclist h)) dm) (hi_file_name h) m)"
  using region_sync_ok [OF assms(1,5)] region_sync_ok [OF assms(2,6)] assms(3,4)
  by (simp add: hash_index_release_def doclist_release_def)

section \<open>What operations leave alone\<close>

definition same_place :: "hash_index_manager \<Rightarrow> hash_index_manager \<Rightarrow> bool" where
  "same_place h h' \<longleftrightarrow> hi_limit h' = hi_limit h \<and> hi_file_name h' = hi_file_name h \<and>
     dl_file_name (hi_doclist h') = dl_file_name (hi_doclist h)"

lemma doclist_insert_place: "doclist_insert d doc off b = Some (r, d') \<Longrightarrow> dl_file_name d' = dl_file_name d"
  by (auto simp: doclist_insert_def bind_eq_Some_conv Let_def split: if_splits)

lemma insert_place:
  "insert_new h m i v d = Some (r, h') \<Longrightarrow> same_place h h'" "insert_more h m i d = Some (r, h') \<Longrightarrow> same_place h h'"
  "insert_null_more h m i d = Some (r, h') \<Longrightarrow> same_place h h'"
  by (auto simp: insert_new_def insert_more_def insert_null_more_def same_place_def bind_eq_Some_conv
      split: if_splits prod.splits dest: doclist_insert_place)

lemma hash_index_insert_place:
  assumes "hash_index_insert fmt_f fmt_lf h data d = Some (r, h')"
  shows "same_place h h'"
proof (cases "ld_len data = 0")
  case True
  with assms show ?thesis
    by (auto simp: hash_index_insert_def bind_eq_Some_conv Let_def split: if_splits dest: insert_place)
next
  case False
  have "same_place h h'" if "insert_body h m v d i = Some (Some (r, h'))" for m v i
    using that by (auto simp: insert_body_def bind_eq_Some_conv split: if_splits dest: insert_place)
  moreover have "same_place h h" by (simp add: same_place_def)
  ultimately show ?thesis using assms False
    by (auto simp: hash_index_insert_def bind_eq_Some_conv Let_def split: option.splits dest!: probe_loop_returns)
qed

lemma hash_index_recover_place: "hash_index_recover h d = Some (r, h') \<Longrightarrow> same_place h h'"
  by (auto simp: hash_index_recover_def same_place_def bind_eq_Some_conv Let_def split: if_splits)

section \<open>Reachable states\<close>

text \<open>The state of an index with the number of the next document.  Documents come in order;
  recovery goes back to an earlier number.\<close>

inductive hash_run ::
    "(u8 list \<Rightarrow> string) \<Rightarrow> (u8 list \<Rightarrow> string) \<Rightarrow> hash_index_config \<Rightarrow> hash_index_manager \<Rightarrow> u32 \<Rightarrow> bool"
  for fmt_f fmt_lf config where
  start: "index_env ev (hc_work_space config) (hc_row_limit config) \<Longrightarrow>
      hash_index_init ev (\<lambda>_. None) config = Ret (h, fs) \<Longrightarrow> hash_run fmt_f fmt_lf config h 0"
| insert: "hash_run fmt_f fmt_lf config h d \<Longrightarrow> hashable fmt_f fmt_lf data \<Longrightarrow> d < hc_row_limit config \<Longrightarrow>
      hash_index_insert fmt_f fmt_lf h data d = Some (r, h') \<Longrightarrow> hash_run fmt_f fmt_lf config h' (d + 1)"
| recover: "hash_run fmt_f fmt_lf config h d \<Longrightarrow> e \<le> d \<Longrightarrow>
      hash_index_recover h e = Some (r, h') \<Longrightarrow> hash_run fmt_f fmt_lf config h' e"

definition hash_inv :: "hash_index_config \<Rightarrow> hash_index_manager \<Rightarrow> u32 \<Rightarrow> bool" where
  "hash_inv config h d \<longleftrightarrow> hi_hashmod h = hc_row_limit config \<and> d \<le> hc_row_limit config \<and>
     (\<exists>P. hi_rep h P \<and> (\<forall>k. \<forall>e \<in> set (P k). e < d))"

lemma hash_inv_insert:
  assumes "hash_inv config h d" and "hashable fmt_f fmt_lf data" and "d < hc_row_limit config"
  shows "\<exists>h'. hash_index_insert fmt_f fmt_lf h data d = Some (0, h') \<and> hash_inv config h' (d + 1)"
proof -
  obtain P where P: "hi_hashmod h = hc_row_limit config" "hi_rep h P" "\<forall>k. \<forall>e \<in> set (P k). e < d"
    using assms(1) by (auto simp: hash_inv_def)
  let ?k = "hash_key fmt_f fmt_lf data"
  obtain h' where h': "hash_index_insert fmt_f fmt_lf h data d = Some (0, h')" "hi_rep h' (P(?k := d # P ?k))"
    "hi_hashmod h' = hi_hashmod h" using hx.ins_ok [OF P(2) assms(2) _ P(3)] assms(3) P(1) by auto
  have "unat d < unat (hc_row_limit config)" using assms(3) by (simp add: word_less_nat_alt)
  then have "Suc (unat d) < 4294967296" "Suc (unat d) \<le> unat (hc_row_limit config)"
    using u32_bound [of "hc_row_limit config"] by linarith+
  then have d1: "d < d + 1" "d + 1 \<le> hc_row_limit config"
    by (simp_all add: word_less_nat_alt word_le_nat_alt unat_word_ariths)
  have "\<forall>k. \<forall>e \<in> set ((P(?k := d # P ?k)) k). e < d + 1"
    using P(3) d1(1) by (auto split: if_splits dest: order.strict_trans)
  with h' P(1) d1(2) show ?thesis by (auto simp: hash_inv_def)
qed

lemma hash_inv_recover:
  assumes "hash_inv config h d" and "e \<le> d"
  shows "\<exists>h'. hash_index_recover h e = Some (0, h') \<and> hash_inv config h' e"
proof -
  obtain P where P: "hi_hashmod h = hc_row_limit config" "hi_rep h P" "d \<le> hc_row_limit config"
    using assms(1) by (auto simp: hash_inv_def)
  have e: "e \<le> hc_row_limit config" using assms(2) P(3) by (rule order.trans)
  obtain h' where "hash_index_recover h e = Some (0, h')" "hi_rep h' (\<lambda>k. docs_below e (P k))" "hi_hashmod h' = hi_hashmod h"
    using hx.cut_back_ok [OF P(2)] e P(1) by auto
  with P(1) e show ?thesis by (auto simp: hash_inv_def)
qed

lemma hash_run_inv: "hash_run fmt_f fmt_lf config h d \<Longrightarrow> hash_inv config h d"
proof (induction rule: hash_run.induct)
  case (start ev h fs)
  obtain h' fs' where "hash_index_init ev (\<lambda>_. None) config = Ret (h', fs')" "hi_rep h' (\<lambda>_. [])"
    "hi_hashmod h' = hc_row_limit config" using hash_index_init_fresh [OF start(1)] by blast
  with start(2) show ?case by (auto simp: hash_inv_def)
next
  case (insert h d data r h')
  with hash_inv_insert [OF insert(5,2,3)] show ?case by auto
next
  case (recover h d e r h')
  with hash_inv_recover [OF recover(4,2)] show ?case by auto
qed

lemma hash_run_place:
  "hash_run fmt_f fmt_lf config h d \<Longrightarrow> hi_limit h = hc_row_limit config \<and>
    hi_file_name h = hc_work_space config @ ''/hash.idx'' \<and>
    dl_file_name (hi_doclist h) = hc_work_space config @ ''/doclist.idx''"
proof (induction rule: hash_run.induct)
  case (start ev h fs)
  obtain m dm fs' where "hash_index_init ev (\<lambda>_. None) config = Ret (opened config m dm, fs')"
    by (rule hash_index_init_fresh_opened [OF start(1)])
  with start(2) have "h = opened config m dm" by simp
  then show ?case by (simp add: opened_def)
next
  case (insert h d data r h')
  with hash_index_insert_place [OF insert(4)] show ?case by (simp add: same_place_def)
next
  case (recover h d e r h')
  with hash_index_recover_place [OF recover(3)] show ?case by (simp add: same_place_def)
qed

section \<open>Properties\<close>

text \<open>C9: In every state the hash index reaches from its creation by inserting documents in order
  and by recoveries, inserting the next document succeeds as long as the row limit is not reached:
  no access leaves the mapped regions, the probe always finds a bucket, so
  \<^verbatim>\<open>ERROR_HASH_CONFLICT\<close> and \<^verbatim>\<open>ERROR_INSERT_REPEAT\<close> are never returned.\<close>

theorem hash_index_insert_safe:
  assumes "hash_run fmt_f fmt_lf config h d" and "hashable fmt_f fmt_lf data" and "d < hc_row_limit config"
  shows "\<exists>h'. hash_index_insert fmt_f fmt_lf h data d = Some (MILE_RETURN_SUCCESS, h')"
  using hash_inv_insert [OF hash_run_inv [OF assms(1)] assms(2,3)] by auto

text \<open>C7: A new index into which documents are loaded answers every query with exactly the documents
  whose value has the queried key, newest first, and with NULL if there is none.\<close>

theorem hash_index_answers:
  assumes "index_env ev (hc_work_space config) (hc_row_limit config)"
    and "loadable (hashable fmt_f fmt_lf) (hc_row_limit config) xs" and "hashable fmt_f fmt_lf data"
  shows "\<exists>h fs h' r. hash_index_init ev (\<lambda>_. None) config = Ret (h, fs) \<and>
    load (hash_index_insert fmt_f fmt_lf) h xs = Some (MILE_RETURN_SUCCESS, h') \<and>
    hash_index_query fmt_f fmt_lf h' data = Some r \<and>
    answers r (docs_with (hash_key fmt_f fmt_lf) xs (hash_key fmt_f fmt_lf data))"
proof -
  obtain h fs where h: "hash_index_init ev (\<lambda>_. None) config = Ret (h, fs)" "hi_rep h (\<lambda>_. [])"
    "hi_hashmod h = hc_row_limit config" using hash_index_init_fresh [OF assms(1)] by blast
  from hx.load_query [OF h(2) _ assms(3), of xs] assms(2) h show ?thesis by (simp only:) blast
qed

text \<open>C6: Recovery forgets exactly the documents from the given number on, so that an index cut back
  after a crash and loaded with the documents once more equals an index that never crashed:
  every query gets the documents of the first load below the number and those of the second.\<close>

theorem hash_index_crash_replay:
  assumes "index_env ev (hc_work_space config) (hc_row_limit config)"
    and "hash_index_init ev (\<lambda>_. None) config = Ret (h, fs)"
    and "load (hash_index_insert fmt_f fmt_lf) h (xs @ ys) = Some (r1, h1)"
    and "loadable (hashable fmt_f fmt_lf) (hc_row_limit config) (xs @ ys)"
    and "loadable (hashable fmt_f fmt_lf) (hc_row_limit config) (xs @ zs)"
    and "d \<le> hc_row_limit config" and "\<forall>(v, e) \<in> set xs. e < d" and "\<forall>(v, e) \<in> set ys. \<not> e < d"
    and "hashable fmt_f fmt_lf data"
  shows "\<exists>h2 h3 r. hash_index_recover h1 d = Some (0, h2) \<and>
    load (hash_index_insert fmt_f fmt_lf) h2 zs = Some (MILE_RETURN_SUCCESS, h3) \<and>
    hash_index_query fmt_f fmt_lf h3 data = Some r \<and>
    answers r (docs_with (hash_key fmt_f fmt_lf) (xs @ zs) (hash_key fmt_f fmt_lf data))"
proof -
  have h: "hi_rep h (\<lambda>_. [])" "hi_hashmod h = hc_row_limit config" using hash_index_init_fresh [OF assms(1)] assms(2) by auto
  then have h1: "hi_rep h1 (docs_with (hash_key fmt_f fmt_lf) (xs @ ys))" "hi_hashmod h1 = hc_row_limit config"
    using hx.load_more [of h fmt_f fmt_lf "[]" "xs @ ys"] assms(3,4) by auto
  obtain h2 h3 where h3: "hash_index_recover h1 d = Some (0, h2)"
    "load (hash_index_insert fmt_f fmt_lf) h2 zs = Some (0, h3)" "hi_rep h3 (docs_with (hash_key fmt_f fmt_lf) (xs @ zs))"
    using hx.crash_replay [OF h1(1) _ _ assms(7,8), of zs] assms(5,6) h1(2) by auto
  with hx.qry_ok [OF h3(3) assms(9)] show ?thesis by blast
qed

text \<open>C8: Releasing the index and opening it again, under either kind of mapping, gives back the same
  table and the same document lists, so every query has the same answer.\<close>

theorem hash_index_restart:
  assumes "index_env ev (hc_work_space config) (hc_row_limit config)"
    and "index_env ev' (hc_work_space config) (hc_row_limit config)"
    and "hash_run fmt_f fmt_lf config h d" and "hashable fmt_f fmt_lf data"
  shows "\<exists>fs1 h' fs2. hash_index_release ev fs h = Ret fs1 \<and> hash_index_init ev' fs1 config = Ret (h', fs2) \<and>
    hi_mem h' = hi_mem h \<and> dl_mem (hi_doclist h') = dl_mem (hi_doclist h) \<and>
    (hash_index_query fmt_f fmt_lf h' data :: 's rowid_list option option) = hash_index_query fmt_f fmt_lf h data"
proof -
  let ?n = "unat (hc_row_limit config)"
  obtain B m dm where r: "hi_mem h = Some m" "dl_mem (hi_doclist h) = Some dm" "table_rep ?n m dm B"
    "hi_hashmod h = hc_row_limit config"
    using hash_run_inv [OF assms(3)] by (auto simp: hash_inv_def elim: hi_repE)
  have t: "length m = Suc ?n * 12" "length dm = 4 + ?n * 8" "get32 dm 0 = Some DATA_STOAGE_VERSION"
    using r(3) by (simp_all add: table_rep_def)
  have n: "Suc ?n * 12 < 2147483648" by (rule index_env_sizes [OF assms(1)])
  let ?fs1 = "msync_file (msync_file fs (hc_work_space config @ ''/doclist.idx'') dm) (hc_work_space config @ ''/hash.idx'') m"
  have rel: "hash_index_release ev fs h = Ret ?fs1"
    using hash_index_release_files [of ev h m dm fs] assms(1) hash_run_place [OF assms(3)] r(1,2) t(1,2) n by (simp add: index_env_def)
  have m: "pad_to (Suc ?n * 12) (file_bytes ?fs1 (hc_work_space config @ ''/hash.idx'')) = m"
    using t(1) by (simp add: msync_file_bytes pad_to_def)
  have dm: "pad_to (4 + ?n * 8) (file_bytes ?fs1 (hc_work_space config @ ''/doclist.idx'')) = dm"
    using t(2) by (simp add: msync_file_def file_bytes_def pad_to_def)
  obtain fs2 where "hash_index_init ev' ?fs1 config = Ret (opened config m dm, fs2)"
    using hash_index_init_opened [OF assms(2) m [symmetric] dm [symmetric], of dm] t(3) by blast
  moreover have "hash_index_query fmt_f fmt_lf (opened config m dm) data = hash_index_query fmt_f fmt_lf h data"
    by (rule hash_index_query_cong) (simp_all add: r opened_def)
  ultimately show ?thesis using rel r(1,2) by (auto simp: opened_def)
qed

definition example_index :: hash_index_manager where
  "example_index = \<lparr>hi_hashmod = 1, hi_limit = 1, hi_file_name = ''h'', hi_mem = Some (replicate 24 0), hi_is_full = False,
     hi_doclist = \<lparr>dl_file_name = ''d'', dl_row_limit = 1, dl_version = DATA_STOAGE_VERSION, dl_is_full = False,
       dl_mem = Some (le_bytes 4 DATA_STOAGE_VERSION @ replicate 8 0)\<rparr>\<rparr>"

definition null_value :: low_data where
  "null_value = \<lparr>ld_field_name = [], ld_type = HI_TYPE_LONGLONG, ld_data = [], ld_len = 0\<rparr>"

text \<open>Inserting a null value for a document that already has one reports success, where any other
  value would give \<^verbatim>\<open>ERROR_INSERT_REPEAT\<close>, and destroys the list of null values: its head becomes
  offset zero, where the region keeps its version, which a query then returns as a document.\<close>

theorem hash_index_null_repeat:
  "(do { (r, h) \<leftarrow> hash_index_insert (\<lambda>_. []) (\<lambda>_. []) example_index null_value 0;
     (r', h') \<leftarrow> hash_index_insert (\<lambda>_. []) (\<lambda>_. []) h null_value 0;
     q \<leftarrow> hash_index_query (\<lambda>_. []) (\<lambda>_. []) h' null_value;
     Some (r, r', map_option rl_ids (q :: nat rowid_list option)) }) = Some (0, 0, Some [DATA_STOAGE_VERSION])"
  by (code_simp, subst get_rowid_list_loop.simps, code_simp)

section \<open>Instances\<close>

definition example_env :: env where
  "example_env = \<lparr>ev_os = \<lparr>os_open = \<lambda>_. True, os_truncate = \<lambda>_ _. True, os_mmap = \<lambda>_. True\<rparr>,
     ev_io = \<lambda>_. replicate 64 (Xfer 8), ev_clock = \<lambda>_. [], ev_page = 4096, ev_all_mmap = False,
     ev_disk_write_limit = 0\<rparr>"

definition example_config :: hash_index_config where
  "example_config = \<lparr>hc_work_space = ''t/x'', hc_row_limit = 3, hc_is_full = False\<rparr>"

lemma example_index_env: "index_env example_env (hc_work_space example_config) (hc_row_limit example_config)"
  by (simp add: index_env_def env_ok_def os_ok_def example_env_def example_config_def list_all_iff)

lemma hashable_int:
  assumes "stored_int d = Some v" and "ld_len d \<noteq> 0" and "- (2 ^ 63) + 1 < v" and "hashed_as_stored (ld_type d)"
  obtains h where "hashable fmt_f fmt_lf d" and "hash_key fmt_f fmt_lf d = Some h" and "uint h = int_key v"
proof -
  obtain h where h: "get_hash_value fmt_f fmt_lf d = Some h" "uint h = int_key v"
    using get_hash_value_int [OF assms(1,2)] stored_int_range [OF assms(1,4)] assms(3) by force
  have "h \<noteq> 0" using h(2) assms(3) by (auto simp: int_key_def split: if_splits)
  with h assms(2) show ?thesis by (intro that) (auto simp: hashable_def hash_key_def key_of_def)
qed

lemma hashable_long [simp]: "- (2 ^ 63) + 1 < sint w \<Longrightarrow> hashable fmt_f fmt_lf (long_value w)"
  by (rule hashable_int [of "long_value w" "sint w"]) auto

lemma hashable_null [simp]: "hashable fmt_f fmt_lf null_value"
  by (simp add: hashable_def key_of_def null_value_def)

lemma hash_key_long:
  assumes "- (2 ^ 63) + 1 < sint w" and "- (2 ^ 63) + 1 < sint x"
  shows "hash_key fmt_f fmt_lf (long_value w) = hash_key fmt_f fmt_lf (long_value x) \<longleftrightarrow> w = x"
proof -
  obtain h where h: "hash_key fmt_f fmt_lf (long_value w) = Some h" "uint h = int_key (sint w)"
    by (rule hashable_int [of "long_value w" "sint w"]) (use assms in auto)
  obtain k where k: "hash_key fmt_f fmt_lf (long_value x) = Some k" "uint k = int_key (sint x)"
    by (rule hashable_int [of "long_value x" "sint x"]) (use assms in auto)
  have "int_key (sint w) = int_key (sint x) \<longleftrightarrow> sint w = sint x"
    unfolding int_key_def using assms by (auto split: if_splits)
  with h k show ?thesis by (metis (no_types, lifting) option.inject signed_word_eqI unsigned_word_eqI)
qed

theorem hash_index_insert_safe_witness:
  "\<exists>h fs h'. hash_index_init example_env (\<lambda>_. None) example_config = Ret (h, fs) \<and>
    hash_index_insert (\<lambda>_. []) (\<lambda>_. []) h (long_value 5) 0 = Some (MILE_RETURN_SUCCESS, h')"
proof -
  obtain h fs where h: "hash_index_init example_env (\<lambda>_. None) example_config = Ret (h, fs)"
    using hash_index_init_fresh [OF example_index_env] by blast
  from hash_index_insert_safe [OF hash_run.start [OF example_index_env h], of "\<lambda>_. []" "\<lambda>_. []" "long_value 5"] h
  show ?thesis by (simp add: example_config_def)
qed

lemma hash_key_null: "hash_key fmt_f fmt_lf null_value = None"
  by (simp add: hash_key_def key_of_def null_value_def)

lemma hash_key_long_null:
  "- (2 ^ 63) + 1 < sint w \<Longrightarrow> hash_key fmt_f fmt_lf null_value \<noteq> hash_key fmt_f fmt_lf (long_value w)"
  unfolding hash_key_null by (rule hashable_int [of "long_value w" "sint w" fmt_f fmt_lf]) auto

theorem hash_index_answers_witness:
  "\<exists>h fs h' (r :: nat rowid_list option). hash_index_init example_env (\<lambda>_. None) example_config = Ret (h, fs) \<and>
    load (hash_index_insert (\<lambda>_. []) (\<lambda>_. [])) h [(long_value 5, 0), (null_value, 1), (long_value 5, 2)] =
      Some (MILE_RETURN_SUCCESS, h') \<and>
    hash_index_query (\<lambda>_. []) (\<lambda>_. []) h' (long_value 5) = Some r \<and> answers r [2, 0]"
proof -
  have l: "loadable (hashable (\<lambda>_. []) (\<lambda>_. [])) (hc_row_limit example_config)
      [(long_value 5, 0), (null_value, 1), (long_value 5, 2)]"
    by (simp add: loadable_def example_config_def)
  have "docs_with (hash_key (\<lambda>_. []) (\<lambda>_. [])) [(long_value 5, 0), (null_value, 1), (long_value 5, 2)]
      (hash_key (\<lambda>_. []) (\<lambda>_. []) (long_value 5)) = [2, 0]"
    by (simp add: docs_with_def hash_key_long_null)
  with hash_index_answers [OF example_index_env l, of "long_value 5", where ?'a = nat] show ?thesis by simp
qed

theorem hash_index_crash_replay_witness:
  "\<exists>h fs h1 h2 h3 (r :: nat rowid_list option). hash_index_init example_env (\<lambda>_. None) example_config = Ret (h, fs) \<and>
    load (hash_index_insert (\<lambda>_. []) (\<lambda>_. [])) h [(long_value 5, 0), (long_value 5, 1)] = Some (0, h1) \<and>
    hash_index_recover h1 1 = Some (0, h2) \<and>
    load (hash_index_insert (\<lambda>_. []) (\<lambda>_. [])) h2 [(null_value, 1), (long_value 5, 2)] = Some (MILE_RETURN_SUCCESS, h3) \<and>
    hash_index_query (\<lambda>_. []) (\<lambda>_. []) h3 (long_value 5) = Some r \<and> answers r [2, 0]"
proof -
  let ?xs = "[(long_value 5, 0)]" and ?ys = "[(long_value 5, 1)]" and ?zs = "[(null_value, 1), (long_value 5, 2)]"
  obtain h fs where h: "hash_index_init example_env (\<lambda>_. None) example_config = Ret (h, fs)" "hi_rep h (\<lambda>_. [])"
    "hi_hashmod h = hc_row_limit example_config" using hash_index_init_fresh [OF example_index_env] by blast
  have xy: "loadable (hashable (\<lambda>_. []) (\<lambda>_. [])) (hc_row_limit example_config) (?xs @ ?ys)"
    and xz: "loadable (hashable (\<lambda>_. []) (\<lambda>_. [])) (hc_row_limit example_config) (?xs @ ?zs)"
    by (simp_all add: loadable_def example_config_def)
  obtain h1 where h1: "load (hash_index_insert (\<lambda>_. []) (\<lambda>_. [])) h (?xs @ ?ys) = Some (0, h1)"
    using hx.load_more [of h "\<lambda>_. []" "\<lambda>_. []" "[]" "?xs @ ?ys"] h xy by auto
  have "docs_with (hash_key (\<lambda>_. []) (\<lambda>_. [])) (?xs @ ?zs) (hash_key (\<lambda>_. []) (\<lambda>_. []) (long_value 5)) = [2, 0]"
    by (simp add: docs_with_def hash_key_long_null)
  moreover have "(1 :: u32) \<le> hc_row_limit example_config" by (simp add: example_config_def)
  ultimately show ?thesis
    using hash_index_crash_replay [OF example_index_env h(1) h1 xy xz, of 1 "long_value 5", where ?'a = nat] h(1) h1 by auto
qed

theorem hash_index_restart_witness:
  "\<exists>h fs fs1 h' fs2. hash_index_init example_env (\<lambda>_. None) example_config = Ret (h, fs) \<and>
    hash_index_release example_env fs h = Ret fs1 \<and>
    hash_index_init (example_env\<lparr>ev_all_mmap := True\<rparr>) fs1 example_config = Ret (h', fs2) \<and> hi_mem h' = hi_mem h"
proof -
  let ?ev' = "example_env\<lparr>ev_all_mmap := True\<rparr>"
  have e: "index_env ?ev' (hc_work_space example_config) (hc_row_limit example_config)"
    by (simp add: index_env_def env_ok_def os_ok_def example_env_def example_config_def list_all_iff)
  obtain h fs where h: "hash_index_init example_env (\<lambda>_. None) example_config = Ret (h, fs)"
    using hash_index_init_fresh [OF example_index_env] by blast
  from hash_index_restart [OF example_index_env e hash_run.start [OF example_index_env h], of "\<lambda>_. []" "\<lambda>_. []"
      "long_value 5" fs, where ?'s = nat] h
  show ?thesis by auto
qed

end
