(* ===== verification/Dyhash_Props.thy ===== *)
theory Dyhash_Props
  imports Dyhash_Index Hash_Props
begin

text \<open>
  Properties of the growing hash index: what an insertion into one table does to the bucket it
  reaches, how far a query looks, and how the answers of the tables are united.
\<close>

section \<open>Writing a bucket\<close>

lemma set_db_offset_frame:
  assumes "set_db_offset m i v = Some m'"
  shows "db_offset m' j = (if j = i then Some v else db_offset m j)" and "db_hash_value m' j = db_hash_value m j"
    and "db_count m' j = db_count m j" and "length m' = length m"
proof -
  note put = assms [unfolded set_db_offset_def]
  have "j * 16 + 12 + 4 \<le> i * 16 + 12 \<or> i * 16 + 12 + 4 \<le> j * 16 + 12" if "j \<noteq> i" using that by arith
  then show "db_offset m' j = (if j = i then Some v else db_offset m j)"
    unfolding db_offset_def using get_put32_same [OF put] get_put_other [OF put, of "j * 16 + 12" 4] by auto
  have "j * 16 + 8 \<le> i * 16 + 12 \<or> i * 16 + 12 + 4 \<le> j * 16" by arith
  then show "db_hash_value m' j = db_hash_value m j" unfolding db_hash_value_def by (rule get_put_other [OF put])
  have "j * 16 + 8 + 4 \<le> i * 16 + 12 \<or> i * 16 + 12 + 4 \<le> j * 16 + 8" by arith
  then show "db_count m' j = db_count m j" unfolding db_count_def by (rule get_put_other [OF put])
  show "length m' = length m" by (rule put_le_length [OF put])
qed

lemma set_db_hash_value_frame:
  assumes "set_db_hash_value m i v = Some m'"
  shows "db_hash_value m' j = (if j = i then Some v else db_hash_value m j)" and "db_offset m' j = db_offset m j"
    and "db_count m' j = db_count m j" and "length m' = length m"
proof -
  note put = assms [unfolded set_db_hash_value_def]
  have "j * 16 + 8 \<le> i * 16 \<or> i * 16 + 8 \<le> j * 16" if "j \<noteq> i" using that by arith
  then show "db_hash_value m' j = (if j = i then Some v else db_hash_value m j)"
    unfolding db_hash_value_def using get_put64_same [OF put] get_put_other [OF put, of "j * 16" 8] by auto
  have "j * 16 + 12 + 4 \<le> i * 16 \<or> i * 16 + 8 \<le> j * 16 + 12" by arith
  then show "db_offset m' j = db_offset m j" unfolding db_offset_def by (rule get_put_other [OF put])
  have "j * 16 + 8 + 4 \<le> i * 16 \<or> i * 16 + 8 \<le> j * 16 + 8" by arith
  then show "db_count m' j = db_count m j" unfolding db_count_def by (rule get_put_other [OF put])
  show "length m' = length m" by (rule put_le_length [OF put])
qed

lemma set_db_count_frame:
  assumes "set_db_count m i v = Some m'"
  shows "db_count m' j = (if j = i then Some v else db_count m j)" and "db_offset m' j = db_offset m j"
    and "db_hash_value m' j = db_hash_value m j" and "length m' = length m"
proof -
  note put = assms [unfolded set_db_count_def]
  have "j * 16 + 8 + 4 \<le> i * 16 + 8 \<or> i * 16 + 8 + 4 \<le> j * 16 + 8" if "j \<noteq> i" using that by arith
  then show "db_count m' j = (if j = i then Some v else db_count m j)"
    unfolding db_count_def using get_put32_same [OF put] get_put_other [OF put, of "j * 16 + 8" 4] by auto
  have "j * 16 + 12 + 4 \<le> i * 16 + 8 \<or> i * 16 + 8 + 4 \<le> j * 16 + 12" by arith
  then show "db_offset m' j = db_offset m j" unfolding db_offset_def by (rule get_put_other [OF put])
  have "j * 16 + 8 \<le> i * 16 + 8 \<or> i * 16 + 8 + 4 \<le> j * 16" by arith
  then show "db_hash_value m' j = db_hash_value m j" unfolding db_hash_value_def by (rule get_put_other [OF put])
  show "length m' = length m" by (rule put_le_length [OF put])
qed

text \<open>The three writes that hang a document on a bucket.\<close>

lemma hang_bucket:
  assumes "i < n" and "length m = n * 16" and "db_count m i = Some c" and "db_hash_value m i = Some w"
  obtains m1 m2 m3 m4 where "set_db_offset m i off = Some m1" and "set_db_hash_value m1 i v = Some m2"
    and "add_db_count m2 i = Some m3" and "add_db_count m1 i = Some m4"
    and "length m3 = length m" and "length m4 = length m"
    and "\<And>j. db_offset m3 j = (if j = i then Some off else db_offset m j)" and "\<And>j. db_offset m4 j = db_offset m3 j"
    and "\<And>j. db_hash_value m3 j = (if j = i then Some v else db_hash_value m j)" and "\<And>j. db_hash_value m4 j = db_hash_value m j"
    and "\<And>j. db_count m3 j = (if j = i then Some (c + 1) else db_count m j)" and "\<And>j. db_count m4 j = db_count m3 j"
proof -
  have b: "i * 16 + 16 \<le> length m" using assms(1,2) by simp
  obtain m1 where 1: "set_db_offset m i off = Some m1" unfolding set_db_offset_def
    by (rule put_le_some [of "i * 16 + 12" 4 m]) (use b in simp)
  note f1 = set_db_offset_frame [OF 1]
  obtain m2 where 2: "set_db_hash_value m1 i v = Some m2" unfolding set_db_hash_value_def
    by (rule put_le_some [of "i * 16" 8 m1]) (use b f1(4) in simp)
  note f2 = set_db_hash_value_frame [OF 2]
  obtain m3 where 3: "set_db_count m2 i (c + 1) = Some m3" unfolding set_db_count_def
    by (rule put_le_some [of "i * 16 + 8" 4 m2]) (use b f1(4) f2(4) in simp)
  obtain m4 where 4: "set_db_count m1 i (c + 1) = Some m4" unfolding set_db_count_def
    by (rule put_le_some [of "i * 16 + 8" 4 m1]) (use b f1(4) in simp)
  note f3 = set_db_count_frame [OF 3] and f4 = set_db_count_frame [OF 4]
  show ?thesis
    by (rule that [OF 1 2, of m3 m4]) (use assms(3) 3 4 in \<open>simp_all add: add_db_count_def f1 f2 f3 f4\<close>)
qed

section \<open>The document list with a counter\<close>

lemma get_unit_counter:
  assumes "put32 dm 0 x = Some dm'"
  shows "get_unit dm' (GET_DOC_ROW_STRUCT q) = get_unit dm (GET_DOC_ROW_STRUCT q)"
  by (rule get_unit_frame, rule get_put_other [OF assms]) (auto simp: GET_DOC_ROW_STRUCT_def)

lemma get_unit_zeroed:
  assumes "zero_range dm (GET_DOC_ROW_STRUCT p) 8 = Some z" and "q \<noteq> p"
  shows "get_unit z (GET_DOC_ROW_STRUCT q) = get_unit dm (GET_DOC_ROW_STRUCT q)"
proof (rule get_unit_frame)
  fix a assume "a \<in> {GET_DOC_ROW_STRUCT q, GET_DOC_ROW_STRUCT q + 4}"
  then show "get32 z a = get32 dm a" using units_disjoint [OF assms(2)] by (intro get_zero_other [OF assms(1)]) auto
qed

lemma doclist_insert_v2_unit:
  assumes "dl_mem d = Some dm" and "length dm = 4 + n * 8" and "unat (dl_row_limit d) = n"
    and "get32 dm 0 = Some cur" and "unat cur < n" and "n < UNITS"
    and "head = 0 \<or> (\<exists>e. get32 dm (unat head) = Some e \<and> e < doc)"
  obtains dm' where "doclist_insert_v2 d doc head b = Some (GET_OFFSET cur, d\<lparr>dl_mem := Some dm'\<rparr>)"
    and "get_unit dm' (GET_DOC_ROW_STRUCT cur) =
      Some \<lparr>du_doc_id = doc, du_next = (if head = 0 then 0x80000000 OR b else head)\<rparr>"
    and "\<And>q. q \<noteq> cur \<Longrightarrow> get_unit dm' (GET_DOC_ROW_STRUCT q) = get_unit dm (GET_DOC_ROW_STRUCT q)"
    and "length dm' = length dm" and "get32 dm' 0 = Some (cur + 1)"
proof -
  let ?a = "GET_DOC_ROW_STRUCT cur" and ?x = "if head = 0 then 0x80000000 OR b else head"
  have a: "?a + 8 \<le> length dm" using assms(2,5) by (rule unit_in_region [rotated])
  have room: "cur \<noteq> dl_row_limit d" using assms(3,5) by auto
  obtain z where z: "(if head = 0 then zero_range dm ?a 8 else Some dm) = Some z" "length z = length dm"
    "\<And>q. q \<noteq> cur \<Longrightarrow> get_unit z (GET_DOC_ROW_STRUCT q) = get_unit dm (GET_DOC_ROW_STRUCT q)"
  proof (cases "head = 0")
    case True
    obtain z where "zero_range dm ?a 8 = Some z" "length z = length dm" using a by (rule zero_range_some)
    then show ?thesis using that [of z] True get_unit_zeroed by simp
  qed (use that [of dm] in simp)
  obtain m1 where 1: "put32 z (?a + 4) ?x = Some m1" "length m1 = length z"
    by (rule put_le_some [of "?a + 4" 4 z]) (use a z(2) in simp)
  obtain m2 where 2: "put32 m1 ?a doc = Some m2" by (rule put_le_some [of ?a 4 m1]) (use a z(2) 1(2) in simp)
  note f = put_unit_frame [OF 1(1) 2]
  obtain m3 where 3: "put32 m2 0 (cur + 1) = Some m3"
    by (rule put_le_some [of 0 4 m2]) (use a z(2) f(3) in simp)
  have "doclist_insert_v2 d doc head b = Some (GET_OFFSET cur, d\<lparr>dl_mem := Some m3\<rparr>)"
    using assms(1,4,7) room z(1) 1(1) 2 3
    by (auto simp: doclist_insert_v2_def Let_def GET_OFFSET_def add.commute not_le split: if_splits)
  then show ?thesis
    using that [of m3] get_unit_counter [OF 3] f z(2,3) get_put32_same [OF 3] put_le_length [OF 3] by simp
qed

section \<open>Insertion and query of one table\<close>

text \<open>The bucket at distance \<open>k\<close> of a hash value \<open>v\<close>, with the chain \<open>ps\<close> of its units, and the way to
  it; the value's bucket may still be free.\<close>

definition reaches :: "dyhash_single_index \<Rightarrow> u8 list \<Rightarrow> u64 \<Rightarrow> nat \<Rightarrow> bool" where
  "reaches s m v k \<longleftrightarrow> v \<noteq> 0 \<and> k < unat (ds_hashmod s) \<and>
     (\<forall>j < k. \<exists>w. db_hash_value m (slot (unat (ds_hashmod s)) (unat v mod unat (ds_hashmod s)) j) = Some w \<and> w \<notin> {0, v})"

definition holds :: "u8 list \<Rightarrow> u8 list \<Rightarrow> nat \<Rightarrow> u64 \<Rightarrow> (u32 \<times> u32) list \<Rightarrow> bool" where
  "holds m dm i v ps \<longleftrightarrow> db_count m i = Some (word_of_nat (length ps)) \<and>
     (if ps = [] then db_hash_value m i = Some 0
      else db_hash_value m i = Some v \<and> db_offset m i = Some (GET_OFFSET (fst (hd ps))) \<and> chain dm ps (word_of_nat i))"

definition table_of :: "dyhash_single_index \<Rightarrow> u8 list \<Rightarrow> u8 list \<Rightarrow> u32 \<Rightarrow> bool" where
  "table_of s m dm cur \<longleftrightarrow> ds_mem s = Some m \<and> length m = unat (ds_hashmod s) * 16 \<and>
     dl_mem (ds_doclist s) = Some dm \<and> length dm = 4 + unat (dl_row_limit (ds_doclist s)) * 8 \<and>
     unat (dl_row_limit (ds_doclist s)) < UNITS \<and> get32 dm 0 = Some cur"

lemma chain_push_unit:
  assumes "ps \<noteq> [] \<Longrightarrow> chain dm ps b" and "\<forall>(p, e) \<in> set ps. p < cur \<and> e < d" and "unat cur < UNITS"
    and "get_unit dm' (GET_DOC_ROW_STRUCT cur) =
      Some \<lparr>du_doc_id = d, du_next = (if ps = [] then 0x80000000 OR b else GET_OFFSET (fst (hd ps)))\<rparr>"
    and "\<And>q. q \<noteq> cur \<Longrightarrow> get_unit dm' (GET_DOC_ROW_STRUCT q) = get_unit dm (GET_DOC_ROW_STRUCT q)"
  shows "chain dm' ((cur, d) # ps) b"
proof (cases ps)
  case Nil
  with assms(3,4) show ?thesis by simp
next
  case (Cons x qs)
  obtain q e where x: "x = (q, e)" by (cases x)
  have "chain dm ps b" using assms(1) Cons by simp
  then have "chain dm' ps b" by (rule chain_frame) (use assms(2,5) in fastforce)
  with assms(2-4) Cons x show ?thesis by simp
qed

text \<open>The document list takes the document, and the chain of the bucket grows by its unit.\<close>

abbreviation (input) head_link :: "(u32 \<times> u32) list \<Rightarrow> u32" where
  "head_link ps \<equiv> if ps = [] then 0 else GET_OFFSET (fst (hd ps))"

lemma hang_unit:
  assumes t: "table_of s m dm cur" and room: "unat cur < unat (dl_row_limit (ds_doclist s))"
    and h: "holds m dm i v ps" and old: "\<forall>(p, e) \<in> set ps. p < cur \<and> e < d"
  obtains dm' where "doclist_insert_v2 (ds_doclist s) d (head_link ps) (word_of_nat i) =
      Some (GET_OFFSET cur, (ds_doclist s)\<lparr>dl_mem := Some dm'\<rparr>)"
    and "chain dm' ((cur, d) # ps) (word_of_nat i)" and "length dm' = length dm" and "get32 dm' 0 = Some (cur + 1)"
proof -
  let ?D = "ds_doclist s"
  have t': "dl_mem ?D = Some dm" "length dm = 4 + unat (dl_row_limit ?D) * 8"
    "unat (dl_row_limit ?D) < UNITS" "get32 dm 0 = Some cur" using t by (simp_all add: table_of_def)
  have cur: "unat cur < UNITS" using room t'(3) by linarith
  have ch: "chain dm ps (word_of_nat i)" if "ps \<noteq> []" using h that by (simp add: holds_def)
  have unit: "head_link ps \<noteq> 0 \<and> get32 dm (unat (head_link ps)) = Some (snd (hd ps)) \<and> snd (hd ps) < d" if ne: "ps \<noteq> []"
  proof -
    obtain p e qs where ps: "ps = (p, e) # qs" using ne by (cases ps) auto
    have "unat p < UNITS" using chain_units [OF ch [OF ne], of p e] ps by simp
    with chain_head [of dm p e qs] ch [OF ne] ps old GET_OFFSET_link [of p] show ?thesis by auto
  qed
  then have pre: "head_link ps = 0 \<or> (\<exists>e. get32 dm (unat (head_link ps)) = Some e \<and> e < d)" by auto
  obtain dm' where dm': "doclist_insert_v2 ?D d (head_link ps) (word_of_nat i) =
      Some (GET_OFFSET cur, ?D\<lparr>dl_mem := Some dm'\<rparr>)"
    "get_unit dm' (GET_DOC_ROW_STRUCT cur) =
      Some \<lparr>du_doc_id = d, du_next = (if head_link ps = 0 then 0x80000000 OR word_of_nat i else head_link ps)\<rparr>"
    "\<And>q. q \<noteq> cur \<Longrightarrow> get_unit dm' (GET_DOC_ROW_STRUCT q) = get_unit dm (GET_DOC_ROW_STRUCT q)"
    "length dm' = length dm" "get32 dm' 0 = Some (cur + 1)"
    using doclist_insert_v2_unit [OF t'(1,2) refl t'(4) room t'(3) pre] by blast
  have "chain dm' ((cur, d) # ps) (word_of_nat i)"
    by (rule chain_push_unit [OF ch old cur _ dm'(3)]) (use dm'(2) unit in auto)
  with dm' show ?thesis using that by blast
qed

lemma single_insert_ok:
  assumes t: "table_of s m dm cur" and room: "unat cur < unat (dl_row_limit (ds_doclist s))"
    and r: "reaches s m v k" and k: "k \<le> CONFLICT_RETRY_NUM"
    and h: "holds m dm (slot (unat (ds_hashmod s)) (unat v mod unat (ds_hashmod s)) k) v ps"
    and old: "\<forall>(p, e) \<in> set ps. p < cur \<and> e < d"
    and v: "get_hash_value fmt_f fmt_lf data = Some v" "ld_len data \<noteq> 0"
  obtains s' m' dm' where "insert_single fmt_f fmt_lf s data d = Some (MILE_RETURN_SUCCESS, s')"
    and "table_of s' m' dm' (cur + 1)" and "reaches s' m' v k" and "ds_hashmod s' = ds_hashmod s"
    and "holds m' dm' (slot (unat (ds_hashmod s)) (unat v mod unat (ds_hashmod s)) k) v ((cur, d) # ps)"
proof -
  let ?n = "unat (ds_hashmod s)" and ?loc = "unat v mod unat (ds_hashmod s)" and ?D = "ds_doclist s"
  let ?i = "slot ?n ?loc k"
  have kn: "k < ?n" and v0: "v \<noteq> 0" using r by (simp_all add: reaches_def)
  then have loc: "?loc < ?n" by simp
  have i: "?i < ?n" by (rule slot_less [OF loc])
  have t': "ds_mem s = Some m" "length m = ?n * 16" "unat (dl_row_limit ?D) < UNITS" using t by (simp_all add: table_of_def)
  have used: "db_hash_value m ?i = Some v" "db_offset m ?i = Some (head_link ps)" if "ps \<noteq> []"
    using h that by (simp_all add: holds_def)
  have free: "db_hash_value m ?i = Some 0" if "ps = []" using h that by (simp add: holds_def)
  obtain c where c: "db_count m ?i = Some c" "c + 1 = word_of_nat (length ((cur, d) # ps))"
    using h by (simp add: holds_def)
  obtain w where w: "db_hash_value m ?i = Some w" using used(1) free by blast
  obtain dm' where dm': "doclist_insert_v2 ?D d (head_link ps) (word_of_nat ?i) =
      Some (GET_OFFSET cur, ?D\<lparr>dl_mem := Some dm'\<rparr>)" "chain dm' ((cur, d) # ps) (word_of_nat ?i)"
    "length dm' = length dm" "get32 dm' 0 = Some (cur + 1)" using hang_unit [OF t room h old] by blast
  obtain m1 m2 m3 m4 where m: "set_db_offset m ?i (GET_OFFSET cur) = Some m1" "set_db_hash_value m1 ?i v = Some m2"
    "add_db_count m2 ?i = Some m3" "add_db_count m1 ?i = Some m4" "length m3 = length m" "length m4 = length m"
    "\<And>j. db_offset m3 j = (if j = ?i then Some (GET_OFFSET cur) else db_offset m j)" "\<And>j. db_offset m4 j = db_offset m3 j"
    "\<And>j. db_hash_value m3 j = (if j = ?i then Some v else db_hash_value m j)" "\<And>j. db_hash_value m4 j = db_hash_value m j"
    "\<And>j. db_count m3 j = (if j = ?i then Some (c + 1) else db_count m j)" "\<And>j. db_count m4 j = db_count m3 j"
    using hang_bucket [OF i t'(2) c(1) w] by blast
  define m' where "m' = (if ps = [] then m3 else m4)"
  let ?s' = "s\<lparr>ds_mem := Some m', ds_doclist := ?D\<lparr>dl_mem := Some dm'\<rparr>\<rparr>"
  have off: "GET_OFFSET cur \<noteq> - 1" "GET_OFFSET cur \<noteq> 0" using GET_OFFSET_link [of cur] room t'(3) by auto
  have hv: "db_hash_value m' j = (if j = ?i then Some v else db_hash_value m j)" for j
    using m(9,10) used(1) by (auto simp: m'_def)
  have "single_insert_body s m v d ?i = Some (Some (0, ?s'))"
    using free used v0 dm'(1) off m(1-4)
    by (cases "ps = []") (simp_all add: single_insert_body_def single_new_def single_more_def m'_def)
  moreover have "single_insert_body s m v d (slot ?n ?loc j) = Some None" if "j < k" for j
    using r that by (auto simp: reaches_def single_insert_body_def)
  ultimately have "probe_loop (Some CONFLICT_RETRY_NUM) ?n ?loc (single_insert_body s m v d) ?loc 0 = Some (Some (0, ?s'))"
    by (intro probe_loop_hit [where k = k, OF loc kn]) (use k in auto)
  then have "insert_single fmt_f fmt_lf s data d = Some (0, ?s')" using v t'(1) by (simp add: insert_single_def Let_def)
  moreover have "table_of ?s' m' dm' (cur + 1)" using t dm'(3,4) m(5,6) by (simp add: table_of_def m'_def)
  moreover have "slot ?n ?loc j \<noteq> ?i" if "j < k" for j using slot_inj [OF loc _ kn, of j] that kn by auto
  then have "reaches ?s' m' v k" using r hv by (simp add: reaches_def)
  moreover have "holds m' dm' ?i v ((cur, d) # ps)" using dm'(2) hv c(2) m(7,8,11,12) by (simp add: holds_def m'_def)
  ultimately show ?thesis using that [of ?s' m' dm'] by simp
qed

lemma chain_length: "chain dm ps b \<Longrightarrow> length ps \<le> UNITS"
proof -
  assume c: "chain dm ps b"
  have d: "distinct (map fst ps)" using chain_desc [OF c] by (intro desc_distinct) simp
  have "unat p < UNITS" if "p \<in> set (map fst ps)" for p using that chain_units [OF c] by auto
  then have "unat ` set (map fst ps) \<subseteq> {..<UNITS}" by auto
  then have "card (unat ` set (map fst ps)) \<le> card {..<UNITS}" by (intro card_mono) auto
  moreover have "inj_on unat (set (map fst ps))" by (rule inj_onI) (rule unsigned_word_eqI)
  then have "card (unat ` set (map fst ps)) = length (map fst ps)" using d by (simp only: card_image distinct_card)
  ultimately show ?thesis by simp
qed

lemma chain_collect:
  assumes c: "chain dm ps b" and "dl_mem D = Some dm"
  obtains l :: "'s rowid_list" where "get_rowid_list D (unat (GET_OFFSET (fst (hd ps)))) = Some l"
    and "rl_wf l" and "rl_ids l = map snd ps"
proof -
  obtain p d qs where ps: "ps = (p, d) # qs" using c by (cases ps) auto
  have "unat p < UNITS" using chain_units [OF c, of p d] ps by simp
  then have "unat (GET_OFFSET (fst (hd ps))) = GET_DOC_ROW_STRUCT (fst (hd ps))" using GET_OFFSET_link(3) ps by simp
  moreover obtain l :: "'s rowid_list" where
    "get_rowid_list_loop dm (GET_DOC_ROW_STRUCT (fst (hd ps))) rowid_list_init = Some l" "rl_wf l" "rl_ids l = map snd ps"
    using get_rowid_list_loop_chain [OF c rl_wf_init(1)] chain_length [OF c] by (auto simp: rl_num_init)
  ultimately show ?thesis using that [of l] assms(2) by (simp add: get_rowid_list_def)
qed

text \<open>Both reading probes behave the same way: they reach the bucket if it is near enough.\<close>

lemma near_probe:
  assumes r: "reaches s m v k" and skip: "\<And>i w. db_hash_value m i = Some w \<Longrightarrow> w \<notin> {0, v} \<Longrightarrow> body i = Some None"
    and hit: "body (slot (unat (ds_hashmod s)) (unat v mod unat (ds_hashmod s)) k) = Some (Some x)"
  shows "probe_loop (Some DOC_MULTIPLE_NUM) (unat (ds_hashmod s)) (unat v mod unat (ds_hashmod s)) body
      (unat v mod unat (ds_hashmod s)) 0 = Some (if k \<le> DOC_MULTIPLE_NUM then Some x else None)"
proof -
  have kn: "k < unat (ds_hashmod s)" using r by (simp add: reaches_def)
  then have loc: "unat v mod unat (ds_hashmod s) < unat (ds_hashmod s)" by simp
  have other: "body (slot (unat (ds_hashmod s)) (unat v mod unat (ds_hashmod s)) j) = Some None" if "j < k" for j
    using r that skip unfolding reaches_def by blast
  show ?thesis
  proof (cases "k \<le> DOC_MULTIPLE_NUM")
    case True
    then show ?thesis using probe_loop_hit [where body = body and limit = "Some 2", OF loc kn hit other] by simp
  next
    case False
    then show ?thesis using probe_loop_miss [OF loc, of "Some 2" body] other by simp
  qed
qed

lemma single_query_ok:
  assumes t: "table_of s m dm cur" and r: "reaches s m v k"
    and h: "holds m dm (slot (unat (ds_hashmod s)) (unat v mod unat (ds_hashmod s)) k) v ps"
    and v: "get_hash_value fmt_f fmt_lf data = Some v" "ld_len data \<noteq> 0"
  shows "\<exists>q :: 's rowid_list option. query_single fmt_f fmt_lf s data = Some q \<and>
      answers q (if k \<le> DOC_MULTIPLE_NUM then map snd ps else [])"
    and "count_query fmt_f fmt_lf s data = Some (if k \<le> DOC_MULTIPLE_NUM then word_of_nat (length ps) else 0)"
proof -
  let ?i = "slot (unat (ds_hashmod s)) (unat v mod unat (ds_hashmod s)) k"
  have t': "ds_mem s = Some m" "dl_mem (ds_doclist s) = Some dm" using t by (simp_all add: table_of_def)
  have v0: "v \<noteq> 0" using r by (simp add: reaches_def)
  have "single_count_body m v ?i = Some (Some (word_of_nat (length ps)))"
    using h v0 by (cases "ps = []") (simp_all add: holds_def single_count_body_def)
  then have "probe_loop (Some DOC_MULTIPLE_NUM) (unat (ds_hashmod s)) (unat v mod unat (ds_hashmod s))
      (single_count_body m v) (unat v mod unat (ds_hashmod s)) 0 =
      Some (if k \<le> DOC_MULTIPLE_NUM then Some (word_of_nat (length ps)) else None)"
    by (intro near_probe [OF r]) (auto simp: single_count_body_def)
  then show "count_query fmt_f fmt_lf s data = Some (if k \<le> DOC_MULTIPLE_NUM then word_of_nat (length ps) else 0)"
    using v t'(1) by (simp add: count_query_def Let_def)
  obtain q :: "'s rowid_list option" where q: "single_query_body s m v ?i = Some (Some q)" "answers q (map snd ps)"
  proof (cases "ps = []")
    case True
    then show ?thesis using that [of None] h by (simp add: holds_def single_query_body_def answers_def)
  next
    case False
    then have c: "db_hash_value m ?i = Some v" "db_offset m ?i = Some (GET_OFFSET (fst (hd ps)))"
      "chain dm ps (word_of_nat ?i)" using h by (simp_all add: holds_def)
    obtain l :: "'s rowid_list" where "get_rowid_list (ds_doclist s) (unat (GET_OFFSET (fst (hd ps)))) = Some l"
      "rl_wf l" "rl_ids l = map snd ps" using chain_collect [OF c(3) t'(2)] by blast
    then show ?thesis using that [of "Some l"] c(1,2) v0 False by (simp add: single_query_body_def answers_def)
  qed
  have "probe_loop (Some DOC_MULTIPLE_NUM) (unat (ds_hashmod s)) (unat v mod unat (ds_hashmod s))
      (single_query_body s m v) (unat v mod unat (ds_hashmod s)) 0 = Some (if k \<le> DOC_MULTIPLE_NUM then Some q else None)"
    by (rule near_probe [OF r]) (use q(1) in \<open>auto simp: single_query_body_def\<close>)
  then show "\<exists>q :: 's rowid_list option. query_single fmt_f fmt_lf s data = Some q \<and>
      answers q (if k \<le> DOC_MULTIPLE_NUM then map snd ps else [])"
    using v t'(1) q(2) by (auto simp: query_single_def Let_def answers_def)
qed

section \<open>Uniting the tables\<close>

text \<open>A table that holds the documents \<open>ps\<close> for a hash value within the reach of queries.\<close>

definition serves :: "u64 \<Rightarrow> dyhash_single_index \<Rightarrow> (u32 \<times> u32) list \<Rightarrow> bool" where
  "serves v s ps \<longleftrightarrow> - 1 \<notin> snd ` set ps \<and> (\<exists>m dm cur k. table_of s m dm cur \<and> reaches s m v k \<and> k \<le> DOC_MULTIPLE_NUM \<and>
     holds m dm (slot (unat (ds_hashmod s)) (unat v mod unat (ds_hashmod s)) k) v ps)"

lemma servesI:
  "table_of s m dm cur \<Longrightarrow> reaches s m v k \<Longrightarrow> k \<le> DOC_MULTIPLE_NUM \<Longrightarrow> - 1 \<notin> snd ` set ps \<Longrightarrow>
   holds m dm (slot (unat (ds_hashmod s)) (unat v mod unat (ds_hashmod s)) k) v ps \<Longrightarrow> serves v s ps"
  unfolding serves_def by blast

lemma answers_denotes:
  assumes "answers q ds" and "desc ds" and "- 1 \<notin> set ds"
  shows "set_ok q" and "members q = set ds"
  using assms by (auto simp: answers_def rl_set_ok_def rl_wf_def split: option.splits)

lemma serves_query:
  assumes "serves v s ps" and v: "get_hash_value fmt_f fmt_lf data = Some v" "ld_len data \<noteq> 0"
  shows "\<exists>q :: 's rowid_list option. query_single fmt_f fmt_lf s data = Some q \<and> set_ok q \<and> members q = snd ` set ps"
proof -
  obtain m dm cur k where t: "table_of s m dm cur" "reaches s m v k" "k \<le> DOC_MULTIPLE_NUM"
    and h: "holds m dm (slot (unat (ds_hashmod s)) (unat v mod unat (ds_hashmod s)) k) v ps" and n: "- 1 \<notin> snd ` set ps"
    using assms(1) by (auto simp: serves_def)
  obtain q :: "'s rowid_list option" where q: "query_single fmt_f fmt_lf s data = Some q" "answers q (map snd ps)"
    using single_query_ok(1) [OF t(1,2) h v] t(3) by auto
  have "desc (map snd ps)"
  proof (cases "ps = []")
    case False
    then have "chain dm ps (word_of_nat (slot (unat (ds_hashmod s)) (unat v mod unat (ds_hashmod s)) k))"
      using h by (simp add: holds_def)
    from chain_desc [OF this] show ?thesis by simp
  qed simp
  with q n answers_denotes [OF q(2)] show ?thesis by auto
qed

lemma dyhash_query_loop_unites:
  fixes result :: "'s::monoid_add rowid_list option"
  assumes "list_all2 (serves v) ss pss" and "set_ok result" and v: "get_hash_value fmt_f fmt_lf data = Some v" "ld_len data \<noteq> 0"
  shows "\<exists>c. dyhash_query_loop fmt_f fmt_lf data ss result = Some c \<and> set_ok c \<and>
    members c = members result \<union> (\<Union>ps \<in> set pss. snd ` set ps)"
  using assms(1,2)
proof (induction ss pss arbitrary: result rule: list_all2_induct)
  case (Cons s ss ps pss)
  obtain q :: "'s rowid_list option" where q: "query_single fmt_f fmt_lf s data = Some q" "set_ok q" "members q = snd ` set ps"
    using serves_query [OF Cons.hyps(1) v] by blast
  obtain c where c: "rowid_union result q = Some c" "set_ok c" "members c = members result \<union> members q"
    using rowid_union_denotes [OF Cons.prems q(2)] by blast
  with Cons.IH [OF c(2)] q show ?case by auto
qed simp

section \<open>Properties\<close>

text \<open>C39: A document inserted into a table of the growing index is found by the next query, in front
  of the earlier documents with the same key, and counted, provided its bucket lies at most
  \<^verbatim>\<open>DOC_MULTIPLE_NUM\<close> steps from the start of the probe.  Insertion accepts buckets up to
  \<^verbatim>\<open>CONFLICT_RETRY_NUM\<close> steps away and reports success for them as well, but no query and no
  count ever looks there.\<close>

theorem dyhash_insert_query:
  assumes "table_of s m dm cur" and "unat cur < unat (dl_row_limit (ds_doclist s))" and "reaches s m v k"
    and "k \<le> CONFLICT_RETRY_NUM"
    and "holds m dm (slot (unat (ds_hashmod s)) (unat v mod unat (ds_hashmod s)) k) v ps"
    and "\<forall>(p, e) \<in> set ps. p < cur \<and> e < d"
    and "get_hash_value fmt_f fmt_lf data = Some v" and "ld_len data \<noteq> 0"
  shows "\<exists>s' (q :: 's rowid_list option). insert_single fmt_f fmt_lf s data d = Some (MILE_RETURN_SUCCESS, s') \<and>
    query_single fmt_f fmt_lf s' data = Some q \<and>
    answers q (if k \<le> DOC_MULTIPLE_NUM then d # map snd ps else []) \<and>
    count_query fmt_f fmt_lf s' data = Some (if k \<le> DOC_MULTIPLE_NUM then word_of_nat (Suc (length ps)) else 0)"
proof -
  obtain s' m' dm' where s': "insert_single fmt_f fmt_lf s data d = Some (MILE_RETURN_SUCCESS, s')"
    "table_of s' m' dm' (cur + 1)" "reaches s' m' v k" "ds_hashmod s' = ds_hashmod s"
    "holds m' dm' (slot (unat (ds_hashmod s')) (unat v mod unat (ds_hashmod s')) k) v ((cur, d) # ps)"
    by (rule single_insert_ok [OF assms]) auto
  obtain q :: "'s rowid_list option" where "query_single fmt_f fmt_lf s' data = Some q"
    "answers q (if k \<le> DOC_MULTIPLE_NUM then map snd ((cur, d) # ps) else [])"
    using single_query_ok(1) [OF s'(2,3,5) assms(7,8)] by blast
  with s'(1) single_query_ok(2) [OF s'(2,3,5) assms(7,8)] show ?thesis
    by (intro exI [of _ s'] exI [of _ q]) (auto split: if_splits)
qed

text \<open>C20: A query of the growing index returns the union of what its tables hold for the key within
  their reach, as one list in descending order without duplicates.\<close>

theorem dyhash_index_query_unites:
  assumes "list_all2 (serves v) (dy_singles y) pss" and "get_hash_value fmt_f fmt_lf data = Some v" and "ld_len data \<noteq> 0"
  shows "\<exists>c :: 's::monoid_add rowid_list option. dyhash_index_query fmt_f fmt_lf y data = Some c \<and> set_ok c \<and>
    members c = (\<Union>ps \<in> set pss. snd ` set ps)"
  using dyhash_query_loop_unites [OF assms(1) _ assms(2,3), of None] by (simp add: dyhash_index_query_def)

section \<open>Instances\<close>

text \<open>A table of four buckets, the first \<open>k\<close> of them taken by other values.\<close>

definition example_table :: "u64 list \<Rightarrow> dyhash_single_index" where
  "example_table vs = \<lparr>ds_hashmod = 4, ds_limit = 4, ds_index = 1, ds_file_name = ''h'',
     ds_mem = Some (concat (map (\<lambda>v. le_bytes 8 v @ le_bytes 4 (0 :: u32) @ le_bytes 4 (0 :: u32)) vs)),
     ds_doclist = \<lparr>dl_file_name = ''d'', dl_row_limit = 8, dl_version = 0, dl_is_full = False,
       dl_mem = Some (replicate 68 0)\<rparr>\<rparr>"

lemma hash_of_zero: "get_hash_value fmt_f fmt_lf (long_value 0) = Some 0x8000000000000000"
proof -
  obtain h where h: "get_hash_value fmt_f fmt_lf (long_value 0) = Some h" "uint h = int_key 0"
    using get_hash_value_int [of "long_value 0" 0 fmt_f fmt_lf] by (auto simp: printed_int_def)
  then have "uint h = uint (0x8000000000000000 :: u64)" by (simp add: int_key_def)
  then have "h = 0x8000000000000000" by (rule word_uint_eqI)
  with h show ?thesis by simp
qed

lemma example_table_of:
  "table_of (example_table [v0, v1, v2, v3])
     (concat (map (\<lambda>v. le_bytes 8 v @ le_bytes 4 (0 :: u32) @ le_bytes 4 (0 :: u32)) [v0, v1, v2, v3])) (replicate 68 0) 0"
  by (simp add: table_of_def example_table_def get_le_zeros)

lemma example_buckets:
  fixes v0 v1 v2 v3 :: u64
  defines "m \<equiv> concat (map (\<lambda>v. le_bytes 8 v @ le_bytes 4 (0 :: u32) @ le_bytes 4 (0 :: u32)) [v0, v1, v2, v3])"
  shows "db_hash_value m 0 = Some v0" "db_hash_value m 1 = Some v1" "db_hash_value m 2 = Some v2"
    "db_hash_value m 3 = Some v3" "db_count m 0 = Some 0" "db_count m 3 = Some 0"
  by (simp_all add: m_def db_hash_value_def db_count_def get_le_def rd_range_def le_word_le_bytes)

lemma all_less_3: "(\<forall>j < 3. P j) \<longleftrightarrow> P 0 \<and> P 1 \<and> P (2 :: nat)"
  by (auto simp: numeral_3_eq_3 numeral_2_eq_2 less_Suc_eq)

theorem dyhash_insert_query_witness:
  "(\<exists>s' (q :: nat rowid_list option).
     insert_single (\<lambda>_. []) (\<lambda>_. []) (example_table [0, 0, 0, 0]) (long_value 0) 7 = Some (MILE_RETURN_SUCCESS, s') \<and>
     query_single (\<lambda>_. []) (\<lambda>_. []) s' (long_value 0) = Some q \<and> answers q [7]) \<and>
   (\<exists>s'. insert_single (\<lambda>_. []) (\<lambda>_. []) (example_table [1, 2, 3, 0]) (long_value 0) 7 = Some (MILE_RETURN_SUCCESS, s') \<and>
     count_query (\<lambda>_. []) (\<lambda>_. []) s' (long_value 0) = Some 0)"
proof
  let ?m = "\<lambda>vs :: u64 list. concat (map (\<lambda>v. le_bytes 8 v @ le_bytes 4 (0 :: u32) @ le_bytes 4 (0 :: u32)) vs)"
  let ?v = "0x8000000000000000 :: u64"
  have n: "unat (ds_hashmod (example_table vs)) = 4" "unat (dl_row_limit (ds_doclist (example_table vs))) = 8" for vs
    by (simp_all add: example_table_def)
  have "reaches (example_table [0, 0, 0, 0]) (?m [0, 0, 0, 0]) ?v 0" "holds (?m [0, 0, 0, 0]) (replicate 68 0) 0 ?v []"
    using example_buckets [of 0 0 0 0] by (simp_all only: reaches_def holds_def n) simp_all
  then show "\<exists>s' (q :: nat rowid_list option).
     insert_single (\<lambda>_. []) (\<lambda>_. []) (example_table [0, 0, 0, 0]) (long_value 0) 7 = Some (MILE_RETURN_SUCCESS, s') \<and>
     query_single (\<lambda>_. []) (\<lambda>_. []) s' (long_value 0) = Some q \<and> answers q [7]"
    using dyhash_insert_query [OF example_table_of, of 0 0 0 0 ?v 0 "[]" 7 "\<lambda>_. []" "\<lambda>_. []" "long_value 0", where ?'s = nat]
      hash_of_zero n by (auto simp: slot_def)
  have "reaches (example_table [1, 2, 3, 0]) (?m [1, 2, 3, 0]) ?v 3" "holds (?m [1, 2, 3, 0]) (replicate 68 0) 3 ?v []"
    using example_buckets [of 1 2 3 0] by (simp_all only: reaches_def holds_def n) (simp_all add: all_less_3 slot_def)
  then show "\<exists>s'. insert_single (\<lambda>_. []) (\<lambda>_. []) (example_table [1, 2, 3, 0]) (long_value 0) 7 = Some (MILE_RETURN_SUCCESS, s') \<and>
     count_query (\<lambda>_. []) (\<lambda>_. []) s' (long_value 0) = Some 0"
    using dyhash_insert_query [OF example_table_of, of 1 2 3 0 ?v 3 "[]" 7 "\<lambda>_. []" "\<lambda>_. []" "long_value 0", where ?'s = nat]
      hash_of_zero n by (auto simp: slot_def)
qed

theorem dyhash_index_query_unites_witness:
  "\<exists>s' (c :: nat rowid_list option).
     insert_single (\<lambda>_. []) (\<lambda>_. []) (example_table [0, 0, 0, 0]) (long_value 0) 7 = Some (MILE_RETURN_SUCCESS, s') \<and>
     dyhash_index_query (\<lambda>_. []) (\<lambda>_. []) \<lparr>dy_singles = [example_table [0, 0, 0, 0], s'], dy_work_space = ''w'',
       dy_hashmod = 4, dy_is_full = False\<rparr> (long_value 0) = Some c \<and> members c = {7}"
proof -
  let ?m = "concat (map (\<lambda>v. le_bytes 8 v @ le_bytes 4 (0 :: u32) @ le_bytes 4 (0 :: u32)) [0 :: u64, 0, 0, 0])"
  let ?s = "example_table [0, 0, 0, 0]" and ?v = "0x8000000000000000 :: u64"
  have n: "unat (ds_hashmod ?s) = 4" "unat (dl_row_limit (ds_doclist ?s)) = 8" by (simp_all add: example_table_def)
  have r: "reaches ?s ?m ?v 0" and h: "holds ?m (replicate 68 0) (slot (unat (ds_hashmod ?s)) (unat ?v mod unat (ds_hashmod ?s)) 0) ?v []"
    using example_buckets [of 0 0 0 0] by (simp_all only: reaches_def holds_def n) (simp_all add: slot_def)
  obtain s' m' dm' where s': "insert_single (\<lambda>_. []) (\<lambda>_. []) ?s (long_value 0) 7 = Some (MILE_RETURN_SUCCESS, s')"
    "table_of s' m' dm' (0 + 1)" "reaches s' m' ?v 0" "ds_hashmod s' = ds_hashmod ?s"
    "holds m' dm' (slot (unat (ds_hashmod ?s)) (unat ?v mod unat (ds_hashmod ?s)) 0) ?v [(0, 7)]"
    by (rule single_insert_ok [OF example_table_of _ r _ h, of 7 "\<lambda>_. []" "\<lambda>_. []" "long_value 0"])
      (use hash_of_zero n in auto)
  have "serves ?v ?s []" by (rule servesI [OF example_table_of r]) (use h in simp_all)
  moreover have "serves ?v s' [(0, 7)]" by (rule servesI [OF s'(2,3)]) (use s'(4,5) in simp_all)
  ultimately have "list_all2 (serves ?v) [?s, s'] [[], [(0, 7)]]" by simp
  with dyhash_index_query_unites [of ?v "\<lparr>dy_singles = [?s, s'], dy_work_space = ''w'', dy_hashmod = 4, dy_is_full = False\<rparr>"
      "[[], [(0, 7)]]" "\<lambda>_. []" "\<lambda>_. []" "long_value 0", where ?'s = nat] s'(1) hash_of_zero
  show ?thesis by auto
qed

end
