(* ===== verification/Dyhash_Open.thy ===== *)
theory Dyhash_Open
  imports Dyhash_Index
begin

text \<open>
  Opening the growing hash index ends: the loop of \<^verbatim>\<open>dyhash_index_init\<close> counts file numbers upwards
  until one is missing, and opening a table never creates the file of another number.
\<close>

section \<open>Files touched by opening a region\<close>

lemma open_file_frame: "open_file os fs name = Some (f, fs') \<Longrightarrow> n \<noteq> name \<Longrightarrow> fs' n = fs n"
  by (auto simp: open_file_def split: if_splits option.splits)

lemma get_mmap_memory_frame: "get_mmap_memory os fs name sz = (m, fs') \<Longrightarrow> n \<noteq> name \<Longrightarrow> fs' n = fs n"
  by (auto simp: get_mmap_memory_def ensure_file_size_def split: option.splits prod.splits if_splits dest: open_file_frame)

lemma alloc_file_memory_frame: "alloc_file_memory os s fs name sz = Ret (m, fs') \<Longrightarrow> n \<noteq> name \<Longrightarrow> fs' n = fs n"
  by (auto simp: alloc_file_memory_def split: option.splits if_splits outcome.splits dest: open_file_frame)

lemma region_open_frame: "region_open ev fs full name sz = Ret (m, fs') \<Longrightarrow> n \<noteq> name \<Longrightarrow> fs' n = fs n"
  by (auto simp: region_open_def obind_def split: outcome.splits option.splits if_splits
      dest: get_mmap_memory_frame alloc_file_memory_frame)

lemma doclist_init_v2_frame:
  assumes "doclist_init_v2 ev fs config c i = Ret (d, fs')" and "n \<noteq> dc_work_space config @ ''/doclist.idx.'' @ show_nat (unat i)"
  shows "fs' n = fs n"
  using assms by (auto simp: doclist_init_v2_def sprintf_name_def obind_def Let_def split: option.splits if_splits outcome.splits
      dest: region_open_frame)

section \<open>File names\<close>

definition table_file :: "string \<Rightarrow> u16 \<Rightarrow> string" where
  "table_file ws i = ws @ ''/hash.idx.'' @ show_nat (unat i)"

lemma show_nat_inj: "show_nat a = show_nat b \<Longrightarrow> a = b"
  using show_nat_digits [of a] show_nat_digits [of b] by metis

lemma table_file_inj: "table_file ws i = table_file ws j \<longleftrightarrow> i = j"
  using show_nat_inj [of "unat i" "unat j"] by (auto simp: table_file_def simp flip: word_unat_eq_iff)

lemma doclist_not_table: "ws @ ''/doclist.idx.'' @ show_nat a \<noteq> table_file ws j"
  by (simp add: table_file_def)

lemma create_single_index_frame:
  assumes "create_single_index ev fs config = Ret (r, fs')" and "j \<noteq> ys_index config"
  shows "fs' (table_file (ys_work_space config) j) = fs (table_file (ys_work_space config) j)"
proof -
  let ?n = "table_file (ys_work_space config) j"
  let ?ws = "ys_work_space config" and ?i = "ys_index config"
  consider "fs' = fs" | m fs1 full sz d dc c where "region_open ev fs full (table_file ?ws ?i) sz = Ret (m, fs1)"
    "doclist_init_v2 ev fs1 dc c ?i = Ret (d, fs')" "dc_work_space dc = ?ws"
    using assms(1)
    by (fastforce simp: create_single_index_def sprintf_name_def table_file_def obind_def split: option.splits if_splits outcome.splits)
  then show ?thesis
  proof cases
    case (2 m fs1 full sz d dc c)
    have "fs1 ?n = fs ?n" using region_open_frame [OF 2(1)] assms(2) table_file_inj by metis
    moreover have "fs' ?n = fs1 ?n" using doclist_init_v2_frame [OF 2(2)] doclist_not_table 2(3) by metis
    ultimately show ?thesis by simp
  qed simp
qed

lemma create_single_index_number:
  "create_single_index ev fs config = Ret (Some s, fs') \<Longrightarrow> ds_index s = ys_index config"
  by (auto simp: create_single_index_def obind_def split: option.splits if_splits outcome.splits)

lemma create_single_index_missing:
  "\<not> ys_is_create config \<Longrightarrow> fs (table_file (ys_work_space config) (ys_index config)) = None \<Longrightarrow>
     create_single_index ev fs config \<in> {Trap, Ret (None, fs)}"
  by (auto simp: create_single_index_def sprintf_name_def table_file_def split: option.splits)

section \<open>The loop\<close>

text \<open>What the loop returns: the tables have the numbers from one on, and fewer than \<open>n\<close>.\<close>

definition numbered :: "nat \<Rightarrow> (dyhash_single_index list option \<times> file_system) outcome \<Rightarrow> bool" where
  "numbered n r \<longleftrightarrow> (\<forall>ss fs. r = Ret (Some ss, fs) \<longrightarrow> (\<exists>k. 1 < k \<and> k \<le> n \<and> map (\<lambda>s. unat (ds_index s)) ss = [1..<k]))"

lemma dyhash_init_loop_returns:
  assumes "fs (table_file (yc_work_space config) n) = None" and "1 < n" and "1 \<le> i" and "i \<le> n"
    and "map (\<lambda>s. unat (ds_index s)) acc = [1..<unat i]"
  shows "\<exists>r. dyhash_init_loop ev config fs i acc = Some r \<and> numbered (unat n) r"
  using assms
proof (induction "unat n - unat i" arbitrary: i fs acc rule: less_induct)
  case less
  let ?c = "\<lparr>ys_index = i, ys_work_space = yc_work_space config, ys_hash_mod = yc_row_limit config,
    ys_is_full = yc_is_full config, ys_is_create = (i = 1)\<rparr>"
  note step = dyhash_init_loop.simps [of ev config fs i acc]
  show ?case
  proof (cases "create_single_index ev fs ?c")
    case (Ret p)
    obtain s fs' where p: "p = (s, fs')" by (cases p)
    show ?thesis
    proof (cases s)
      case None
      have "1 < unat i" if "i \<noteq> 1"
      proof -
        have "unat i \<noteq> 1" using that by (metis unat_1 word_unat_eq_iff)
        moreover have "1 \<le> unat i" using less.prems(3) by (simp add: word_le_nat_alt)
        ultimately show ?thesis by linarith
      qed
      then have "numbered (unat n) (Ret (if i = 1 then None else Some acc, fs'))"
        using less.prems(4,5) by (auto simp: numbered_def word_le_nat_alt)
      then show ?thesis using step Ret p None by simp
    next
      case (Some s')
      have "n \<noteq> 1" using less.prems(2) by auto
      then have "i \<noteq> n" using create_single_index_missing [of ?c fs ev] less.prems(1) Ret p Some by auto
      then have lt: "i < n" using less.prems(4) by simp
      then have i: "unat i < unat n" by (simp add: word_less_nat_alt)
      moreover have "unat n < 65536" using unsigned_less [of n] by simp
      ultimately have "Suc (unat i) < 65536" by linarith
      then have ui: "unat (i + 1) = Suc (unat i)" by (simp add: unat_word_ariths)
      have "fs' (table_file (yc_work_space config) n) = None"
        using create_single_index_frame [of ev fs ?c s fs' n] Ret p lt less.prems(1) by simp
      moreover have "1 \<le> i + 1" "i + 1 \<le> n" using i ui by (simp_all add: word_le_nat_alt)
      moreover have "map (\<lambda>s. unat (ds_index s)) (acc @ [s']) = [1..<unat (i + 1)]"
        using less.prems(3,5) create_single_index_number [of ev fs ?c s' fs'] Ret p Some ui by (simp add: word_le_nat_alt)
      moreover have "unat n - unat (i + 1) < unat n - unat i" using i ui by linarith
      ultimately obtain r where "dyhash_init_loop ev config fs' (i + 1) (acc @ [s']) = Some r" "numbered (unat n) r"
        using less.hyps [of "i + 1" fs' "acc @ [s']"] less.prems(2) by blast
      then show ?thesis using step Ret p Some by simp
    qed
  qed (simp_all add: step numbered_def)
qed

section \<open>Properties\<close>

text \<open>C21: If the file of some table number is missing, opening a growing index returns, whatever the
  calls to the system do; and if it returns an index, its tables are those of the numbers from one
  on, without a gap, up to a number before the missing one.\<close>

theorem dyhash_index_init_returns:
  assumes "fs (table_file (yc_work_space config) n) = None" and "1 < n"
  shows "\<exists>r. dyhash_index_init ev fs config = Some r \<and> (\<forall>y fs'. r = Ret (Some y, fs') \<longrightarrow>
    (\<exists>k. 1 < k \<and> k \<le> unat n \<and> map (\<lambda>s. unat (ds_index s)) (dy_singles y) = [1..<k]))"
proof -
  obtain r where r: "dyhash_init_loop ev config fs 1 [] = Some r" "numbered (unat n) r"
    using dyhash_init_loop_returns [of fs config n 1 "[]" ev] assms less_imp_le [OF assms(2)] by auto
  have "\<exists>k. 1 < k \<and> k \<le> unat n \<and> map (\<lambda>s. unat (ds_index s)) (dy_singles y) = [1..<k]"
    if "obind r (\<lambda>(ss, fs'). Ret (map_option (\<lambda>ss. \<lparr>dy_singles = ss, dy_work_space = yc_work_space config,
      dy_hashmod = yc_row_limit config, dy_is_full = yc_is_full config\<rparr>) ss, fs')) = Ret (Some y, fs')" for y fs'
    using that r(2) by (cases r) (auto simp: numbered_def)
  with r(1) show ?thesis by (auto simp: dyhash_index_init_def)
qed

theorem dyhash_index_init_returns_witness:
  "\<exists>r. dyhash_index_init \<lparr>ev_os = \<lparr>os_open = \<lambda>_. True, os_truncate = \<lambda>_ _. True, os_mmap = \<lambda>_. True\<rparr>, ev_io = \<lambda>_. [], ev_clock = \<lambda>_. [],
      ev_page = 4096, ev_all_mmap = True, ev_disk_write_limit = 0\<rparr> (\<lambda>_. None) \<lparr>yc_work_space = ''w'', yc_row_limit = 2, yc_is_full = False\<rparr> = Some r"
  by (rule exE [OF dyhash_index_init_returns [of "\<lambda>_. None" _ 2]]) auto

end
