(* ===== verification/Filter_Compress.thy ===== *)
theory Filter_Compress
  imports Filter_Index Raw_Mem Probe
begin

text \<open>
  The compressed form of a fixed-length filter column that is no longer written to,
  \<^verbatim>\<open>storage/docdb/filtercompress.c\<close>.  Three layouts: the values cut to their real length
  (0), a dictionary with an index of one, two or four bytes per document (1), and for exactly
  two values one bit per document (2).  A fault is \<^term>\<open>None\<close>.  The information file is
  addressed by \<^verbatim>\<open>uint32_t\<close> pointers, so its fields are at the bytes 0, 16, 32, 48 and 52.
\<close>

section \<open>State\<close>

record filter_compress_manager =
  fz_index_file_name :: string
  fz_data_file_name :: string
  fz_info_file_name :: string
  fz_null_file_name :: string
  fz_index :: "u8 list option"
  fz_data :: "u8 list option"
  fz_bitmap_index :: "bitmark_manager option"
  fz_bitmark :: "bitmark_manager option"
  fz_info :: "u8 list"
  fz_n_row :: u32
  fz_n_value :: u32
  fz_unit_size :: u32
  fz_idx_size :: u8
  fz_index_type :: u8

record bucket_entry =
  be_value :: u64
  be_pos :: int

datatype compress_result = Failed | Not_worthwhile | Compressed filter_compress_manager

section \<open>Opening\<close>

definition compress_bitmark ::
    "os \<Rightarrow> file_system \<Rightarrow> string \<Rightarrow> string \<Rightarrow> u32 \<Rightarrow> (bitmark_manager \<times> file_system) option" where
  "compress_bitmark os fs work_space name n =
     bitmark_init os fs \<lparr>bc_work_space = work_space, bc_bitmark_name = name, bc_row_limit = n\<rparr>"

definition init_plain ::
    "os \<Rightarrow> file_system \<Rightarrow> string \<Rightarrow> filter_compress_manager \<Rightarrow> (filter_compress_manager option \<times> file_system) option" where
  "init_plain os fs work_space z = do {
     let (dat, fs1) = (if fz_unit_size z \<noteq> 0
       then get_mmap_memory os fs (fz_data_file_name z) (fz_n_row z * fz_unit_size z) else (None, fs));
     if fz_unit_size z \<noteq> 0 \<and> dat = None then Some (None, fs1)
     else do {
       (b, fs2) \<leftarrow> compress_bitmark os fs1 work_space ''filter_compress'' (fz_n_row z);
       Some (Some (z\<lparr>fz_data := dat, fz_index := None, fz_bitmark := Some b\<rparr>), fs2)
     }
   }"

definition init_index ::
    "os \<Rightarrow> file_system \<Rightarrow> filter_compress_manager \<Rightarrow> (filter_compress_manager option \<times> file_system) option" where
  "init_index os fs z =
     (let (dat, fs1) = get_mmap_memory os fs (fz_data_file_name z) (fz_n_value z * fz_unit_size z);
          (idx, fs2) = get_mmap_memory os fs1 (fz_index_file_name z) (fz_n_row z * ucast (fz_idx_size z))
      in if idx = None then Some (None, fs2)
         else Some (Some (z\<lparr>fz_data := dat, fz_index := idx, fz_bitmark := None\<rparr>), fs2))"

definition init_bitmap ::
    "os \<Rightarrow> file_system \<Rightarrow> string \<Rightarrow> filter_compress_manager \<Rightarrow> (filter_compress_manager option \<times> file_system) option" where
  "init_bitmap os fs work_space z = do {
     let (dat, fs1) = get_mmap_memory os fs (fz_data_file_name z) (fz_n_value z * fz_unit_size z);
     (bi, fs2) \<leftarrow> compress_bitmark os fs1 work_space ''bitmap_index'' (fz_n_row z);
     (b, fs3) \<leftarrow> compress_bitmark os fs2 work_space ''filter_compress'' (fz_n_row z);
     Some (Some (z\<lparr>fz_data := dat, fz_bitmap_index := Some bi, fz_bitmark := Some b\<rparr>), fs3)
   }"

definition filter_compress_init ::
    "os \<Rightarrow> file_system \<Rightarrow> string \<Rightarrow> (filter_compress_manager option \<times> file_system) option" where
  "filter_compress_init os fs work_space = do {
     info_name \<leftarrow> sprintf_name (work_space @ ''/filter_info_compress.dat'');
     data_name \<leftarrow> sprintf_name (work_space @ ''/filter_compress.dat'');
     null_name \<leftarrow> sprintf_name (work_space @ ''/filter_null_compress.dat'');
     index_name \<leftarrow> sprintf_name (work_space @ ''/filter_compress.idx'');
     let (mapped, fs1) = get_mmap_memory os fs info_name 64;
     info \<leftarrow> mapped;
     n_row \<leftarrow> get32 info 0;
     let z = \<lparr>fz_index_file_name = index_name, fz_data_file_name = data_name,
       fz_info_file_name = info_name, fz_null_file_name = null_name, fz_index = None, fz_data = None,
       fz_bitmap_index = None, fz_bitmark = None, fz_info = info, fz_n_row = n_row, fz_n_value = 0,
       fz_unit_size = 0, fz_idx_size = 0, fz_index_type = 0\<rparr>;
     if n_row = 0 then Some (Some z, fs1)
     else do {
       n_value \<leftarrow> get32 info 16;
       unit_size \<leftarrow> get32 info 32;
       idx_size \<leftarrow> rd info 48;
       index_type \<leftarrow> rd info 52;
       let z' = z\<lparr>fz_n_value := n_value, fz_unit_size := unit_size, fz_idx_size := idx_size,
         fz_index_type := index_type\<rparr>;
       if index_type = 0 then init_plain os fs1 work_space z'
       else if index_type = 1 then init_index os fs1 z'
       else init_bitmap os fs1 work_space z'
     }
   }"

section \<open>The table of values\<close>

text \<open>The variable \<^verbatim>\<open>value\<close> has eight bytes, of which a narrower column writes the front
  only; what the others hold at the start is a parameter of the loading.\<close>

definition read_value :: "storage_manager \<Rightarrow> u8 list \<Rightarrow> u32 \<Rightarrow> u8 list option" where
  "read_value s value i = do {
     m \<leftarrow> st_mem s;
     bs \<leftarrow> rd_range m (st_offset s i) (unat (st_value_size s));
     wr_range value 0 bs
   }"

text \<open>The first pass marks free entries with 0, the second with -1.\<close>

definition slot_body :: "int \<Rightarrow> bucket_entry list \<Rightarrow> u64 \<Rightarrow> nat \<Rightarrow> (nat \<times> bool) option option" where
  "slot_body free bucket v pos = do {
     e \<leftarrow> rd bucket pos;
     if be_pos e = free then Some (Some (pos, True))
     else if be_value e = v then Some (Some (pos, False))
     else Some None
   }"

definition find_slot :: "int \<Rightarrow> bucket_entry list \<Rightarrow> u64 \<Rightarrow> (nat \<times> bool) option option" where
  "find_slot free bucket v =
     (let loc = unat v mod length bucket in probe_loop None (length bucket) loc (slot_body free bucket v) loc 0)"

fun count_loop ::
    "storage_manager \<Rightarrow> u32 list \<Rightarrow> u8 list \<Rightarrow> bucket_entry list \<Rightarrow> u32 \<Rightarrow> u32 \<Rightarrow> (u8 list \<times> u32 \<times> u32) option option" where
  "count_loop s [] value bucket n_value n_null = Some (Some (value, n_value, n_null))"
| "count_loop s (i # is) value bucket n_value n_null = do {
     q \<leftarrow> bitmark_query (st_null s) i;
     if q = 1 then count_loop s is value bucket n_value (n_null + 1)
     else do {
       value' \<leftarrow> read_value s value i;
       r \<leftarrow> find_slot 0 bucket (le_word value');
       case r of
         None \<Rightarrow> Some None
       | Some (pos, fresh) \<Rightarrow>
           if fresh then count_loop s is value' (bucket[pos := \<lparr>be_value = le_word value', be_pos = 1\<rparr>]) (n_value + 1) n_null
           else count_loop s is value' bucket n_value n_null
     }
   }"

definition rows :: "u32 \<Rightarrow> u32 list" where
  "rows n = map word_of_nat [0..<unat n]"

definition put_value :: "u8 list \<Rightarrow> u32 \<Rightarrow> u32 \<Rightarrow> u8 list \<Rightarrow> u8 list option" where
  "put_value dat n_value unit_size value = do {
     bs \<leftarrow> rd_range value 0 (unat unit_size);
     wr_range dat (unat (n_value * unit_size)) bs
   }"

section \<open>One bit per document\<close>

definition set_second :: "int \<Rightarrow> bitmark_manager \<Rightarrow> u32 \<Rightarrow> bitmark_manager option" where
  "set_second pos b i = (if pos = 1 then map_option snd (bitmark_set b i) else Some b)"

fun bitmap_loop ::
    "storage_manager \<Rightarrow> u32 \<Rightarrow> u32 list \<Rightarrow> u8 list \<Rightarrow> bucket_entry list \<Rightarrow> u32 \<Rightarrow> u8 list \<Rightarrow> bitmark_manager \<Rightarrow>
       (u32 \<times> u8 list \<times> bitmark_manager) option option" where
  "bitmap_loop s unit_size [] value bucket n_value dat b = Some (Some (n_value, dat, b))"
| "bitmap_loop s unit_size (i # is) value bucket n_value dat b = do {
     q \<leftarrow> bitmark_query (st_null s) i;
     if q = 1 then bitmap_loop s unit_size is value bucket n_value dat b
     else do {
       value' \<leftarrow> read_value s value i;
       r \<leftarrow> find_slot (- 1) bucket (le_word value');
       case r of
         None \<Rightarrow> Some None
       | Some (pos, fresh) \<Rightarrow>
           if fresh
           then do {
             dat' \<leftarrow> put_value dat n_value unit_size value';
             b' \<leftarrow> set_second (uint n_value) b i;
             bitmap_loop s unit_size is value'
               (bucket[pos := \<lparr>be_value = le_word value', be_pos = uint n_value\<rparr>]) (n_value + 1) dat' b'
           }
           else do {
             b' \<leftarrow> set_second (be_pos (bucket ! pos)) b i;
             bitmap_loop s unit_size is value' bucket n_value dat b'
           }
     }
   }"

definition copy_null_marks :: "storage_manager \<Rightarrow> bitmark_manager \<Rightarrow> bitmark_manager option" where
  "copy_null_marks s b = do {
     null \<leftarrow> bm_mem (st_null s);
     m \<leftarrow> bm_mem b;
     bs \<leftarrow> rd_range null 0 (unat (st_row_limit s div BYTE_SIZE + 1));
     m' \<leftarrow> wr_range m 0 bs;
     Some (b\<lparr>bm_mem := Some m'\<rparr>)
   }"

definition save_nulls ::
    "os \<Rightarrow> file_system \<Rightarrow> string \<Rightarrow> storage_manager \<Rightarrow> u32 \<Rightarrow> (bitmark_manager option \<times> file_system) option" where
  "save_nulls os fs work_space s n_null =
     (if n_null \<noteq> 0
      then do {
        (b, fs1) \<leftarrow> compress_bitmark os fs work_space ''filter_compress'' (st_row_limit s);
        b' \<leftarrow> copy_null_marks s b;
        Some (Some b', bitmark_checkpoint fs1 b')
      }
      else Some (None, fs))"

definition load_bitmap ::
    "os \<Rightarrow> file_system \<Rightarrow> string \<Rightarrow> storage_manager \<Rightarrow> u32 \<Rightarrow> u8 list \<Rightarrow> u32 \<Rightarrow> u32 \<Rightarrow> filter_compress_manager \<Rightarrow>
       ((u32 \<times> filter_compress_manager) option \<times> file_system) option" where
  "load_bitmap os fs work_space s unit_size value n_value n_null z = do {
     let n_row = st_row_limit s;
     let (dat, fs1) = get_mmap_memory os fs (fz_data_file_name z) (n_value * unit_size);
     (bi, fs2) \<leftarrow> compress_bitmark os fs1 work_space ''bitmap_index'' n_row;
     (b, fs3) \<leftarrow> save_nulls os fs2 work_space s n_null;
     r \<leftarrow> bitmap_loop s unit_size (rows n_row) value (replicate (unat n_row) \<lparr>be_value = 0, be_pos = - 1\<rparr>) 0
       (mem_or_empty dat) bi;
     case r of
       None \<Rightarrow> Some (None, fs3)
     | Some (n_value', dat', bi') \<Rightarrow>
         Some (Some (n_value', z\<lparr>fz_data := map_option (\<lambda>_. dat') dat, fz_bitmap_index := Some bi', fz_bitmark := b,
           fz_index_type := 2\<rparr>), sync_mapping fs3 (fz_data_file_name z) dat dat')
   }"

section \<open>Dictionary and index\<close>

definition put_index :: "u8 list \<Rightarrow> u32 \<Rightarrow> u8 \<Rightarrow> int \<Rightarrow> u8 list option" where
  "put_index idx i idx_size pos =
     wr_range idx (unat (i * ucast idx_size)) (le_bytes (unat idx_size) (word_of_int pos :: u64))"

fun index_loop ::
    "storage_manager \<Rightarrow> u32 \<Rightarrow> u8 \<Rightarrow> u32 list \<Rightarrow> u8 list \<Rightarrow> bucket_entry list \<Rightarrow> u32 \<Rightarrow> u8 list \<Rightarrow> u8 list \<Rightarrow>
       (u32 \<times> u8 list \<times> u8 list) option option" where
  "index_loop s unit_size idx_size [] value bucket n_value dat idx = Some (Some (n_value, dat, idx))"
| "index_loop s unit_size idx_size (i # is) value bucket n_value dat idx = do {
     q \<leftarrow> bitmark_query (st_null s) i;
     if q = 1
     then do {
       idx' \<leftarrow> put_index idx i idx_size (- 1);
       index_loop s unit_size idx_size is value bucket n_value dat idx'
     }
     else do {
       value' \<leftarrow> read_value s value i;
       r \<leftarrow> find_slot (- 1) bucket (le_word value');
       case r of
         None \<Rightarrow> Some None
       | Some (pos, fresh) \<Rightarrow>
           if fresh
           then do {
             dat' \<leftarrow> put_value dat n_value unit_size value';
             idx' \<leftarrow> put_index idx i idx_size (uint n_value);
             index_loop s unit_size idx_size is value'
               (bucket[pos := \<lparr>be_value = le_word value', be_pos = uint n_value\<rparr>]) (n_value + 1) dat' idx'
           }
           else do {
             idx' \<leftarrow> put_index idx i idx_size (be_pos (bucket ! pos));
             index_loop s unit_size idx_size is value' bucket n_value dat idx'
           }
     }
   }"

definition load_index ::
    "os \<Rightarrow> file_system \<Rightarrow> storage_manager \<Rightarrow> u32 \<Rightarrow> u8 \<Rightarrow> u8 list \<Rightarrow> u32 \<Rightarrow> filter_compress_manager \<Rightarrow>
       ((u32 \<times> filter_compress_manager) option \<times> file_system) option" where
  "load_index os fs s unit_size idx_size value n_value z = do {
     let n_row = st_row_limit s;
     let (idx, fs1) = get_mmap_memory os fs (fz_index_file_name z) (n_row * ucast idx_size);
     let (dat, fs2) = get_mmap_memory os fs1 (fz_data_file_name z) (n_value * unit_size);
     r \<leftarrow> index_loop s unit_size idx_size (rows n_row) value (replicate (unat n_row) \<lparr>be_value = 0, be_pos = - 1\<rparr>) 0
       (mem_or_empty dat) (mem_or_empty idx);
     case r of
       None \<Rightarrow> Some (None, fs2)
     | Some (n_value', dat', idx') \<Rightarrow>
         Some (Some (n_value', z\<lparr>fz_data := map_option (\<lambda>_. dat') dat, fz_index := map_option (\<lambda>_. idx') idx,
           fz_bitmark := None, fz_index_type := 1\<rparr>),
           sync_mapping (sync_mapping fs2 (fz_index_file_name z) idx idx') (fz_data_file_name z) dat dat')
   }"

section \<open>Values cut to their length\<close>

fun plain_loop :: "storage_manager \<Rightarrow> u32 \<Rightarrow> u32 list \<Rightarrow> u8 list \<Rightarrow> u8 list option" where
  "plain_loop s unit_size [] dat = Some dat"
| "plain_loop s unit_size (i # is) dat = do {
     m \<leftarrow> st_mem s;
     bs \<leftarrow> rd_range m (st_offset s i) (unat unit_size);
     dat' \<leftarrow> wr_range dat (unat (i * unit_size)) bs;
     plain_loop s unit_size is dat'
   }"

definition load_plain ::
    "os \<Rightarrow> file_system \<Rightarrow> string \<Rightarrow> storage_manager \<Rightarrow> u32 \<Rightarrow> filter_compress_manager \<Rightarrow>
       (filter_compress_manager \<times> file_system) option" where
  "load_plain os fs work_space s unit_size z = do {
     (b, fs1) \<leftarrow> compress_bitmark os fs work_space ''filter_compress'' (st_row_limit s);
     b' \<leftarrow> copy_null_marks s b;
     let fs2 = bitmark_checkpoint fs1 b';
     if unit_size = 0 then Some (z\<lparr>fz_index := None, fz_bitmark := Some b'\<rparr>, fs2)
     else do {
       let (dat, fs3) = get_mmap_memory os fs2 (fz_data_file_name z) (st_row_limit s * unit_size);
       dat' \<leftarrow> plain_loop s unit_size (rows (st_row_limit s)) (mem_or_empty dat);
       Some (z\<lparr>fz_data := map_option (\<lambda>_. dat') dat, fz_index := None, fz_bitmark := Some b', fz_index_type := 0\<rparr>,
         sync_mapping fs3 (fz_data_file_name z) dat dat')
     }
   }"

section \<open>Compressing\<close>

definition idx_size_for :: "u32 \<Rightarrow> u8" where
  "idx_size_for n_value = (if n_value < 128 then 1 else if n_value < 32768 then 2 else 4)"

definition write_fields ::
    "file_system \<Rightarrow> filter_compress_manager \<Rightarrow> u32 \<Rightarrow> u32 \<Rightarrow> u32 \<Rightarrow> u8 \<Rightarrow> (filter_compress_manager \<times> file_system) option" where
  "write_fields fs z n_row n_value unit_size idx_size = do {
     i1 \<leftarrow> put32 (fz_info z) 0 n_row;
     i2 \<leftarrow> put32 i1 16 n_value;
     i3 \<leftarrow> put32 i2 32 unit_size;
     i4 \<leftarrow> wr i3 48 idx_size;
     i5 \<leftarrow> wr i4 52 (fz_index_type z);
     Some (z\<lparr>fz_info := i5, fz_n_row := n_row, fz_n_value := n_value, fz_unit_size := unit_size,
       fz_idx_size := idx_size\<rparr>, msync_file fs (fz_info_file_name z) i5)
   }"

definition choose_layout ::
    "os \<Rightarrow> file_system \<Rightarrow> string \<Rightarrow> storage_manager \<Rightarrow> u32 \<Rightarrow> u8 list \<Rightarrow> u32 \<Rightarrow> u32 \<Rightarrow> filter_compress_manager \<Rightarrow>
       (compress_result \<times> file_system) option" where
  "choose_layout os fs work_space s unit_size value n_value n_null z = do {
     let n_row = st_row_limit s;
     let s0 = n_row div 8 + 1 + n_row * unit_size;
     let idx_size = idx_size_for n_value;
     let s1 = n_row * ucast idx_size + n_value * unit_size;
     if n_value = 2 \<or> s1 < s0
     then do {
       (r, fs1) \<leftarrow> (if n_value = 2 then load_bitmap os fs work_space s unit_size value n_value n_null z
         else load_index os fs s unit_size idx_size value n_value z);
       case r of
         None \<Rightarrow> Some (Failed, fs1)
       | Some (n_value', z') \<Rightarrow> do {
           (z'', fs2) \<leftarrow> write_fields fs1 z' n_row n_value' unit_size idx_size;
           Some (Compressed z'', fs2)
         }
     }
     else if unit_size < ucast (st_value_size s)
     then do {
       (z', fs1) \<leftarrow> load_plain os fs work_space s unit_size z;
       (z'', fs2) \<leftarrow> write_fields fs1 z' n_row n_value unit_size idx_size;
       Some (Compressed z'', fs2)
     }
     else Some (Not_worthwhile, fs(fz_data_file_name z := None, fz_index_file_name z := None,
       fz_info_file_name z := None, fz_null_file_name z := None))
   }"

definition filter_compress_load ::
    "os \<Rightarrow> file_system \<Rightarrow> u8 list \<Rightarrow> storage_manager \<Rightarrow> u32 \<Rightarrow> (compress_result \<times> file_system) option" where
  "filter_compress_load os fs value s unit_size = do {
     work_space \<leftarrow> work_space_of (st_file_name s);
     let fs0 = fs(work_space @ ''/filter_info_compress.dat'' := None, work_space @ ''/filter_compress.dat'' := None,
       work_space @ ''/filter_null_compress.dat'' := None, work_space @ ''/filter_compress.idx'' := None);
     (r, fs1) \<leftarrow> filter_compress_init os fs0 work_space;
     case r of
       None \<Rightarrow> Some (Failed, fs1)
     | Some z \<Rightarrow> do {
         c \<leftarrow> count_loop s (rows (st_row_limit s)) value
           (replicate (unat (st_row_limit s)) \<lparr>be_value = 0, be_pos = 0\<rparr>) 0 0;
         case c of
           None \<Rightarrow> Some (Failed, fs1)
         | Some (value', n_value, n_null) \<Rightarrow> choose_layout os fs1 work_space s unit_size value' n_value n_null z
       }
   }"

section \<open>Queries\<close>

definition no_value :: "filter_compress_manager \<Rightarrow> low_data" where
  "no_value z = \<lparr>ld_field_name = [], ld_type = HI_TYPE_NULL, ld_data = replicate (unat (fz_unit_size z)) 0, ld_len = 0\<rparr>"

definition value_at :: "filter_compress_manager \<Rightarrow> u32 \<Rightarrow> low_data option" where
  "value_at z pos = do {
     dat \<leftarrow> fz_data z;
     bs \<leftarrow> rd_range dat (unat (pos * fz_unit_size z)) (unat (fz_unit_size z));
     Some ((no_value z)\<lparr>ld_data := bs, ld_len := fz_unit_size z\<rparr>)
   }"

definition index_at :: "filter_compress_manager \<Rightarrow> u32 \<Rightarrow> int option" where
  "index_at z docid = do {
     idx \<leftarrow> fz_index z;
     let off = unat (docid * ucast (fz_idx_size z));
     if fz_idx_size z = 1 then map_option sint (rd idx off)
     else if fz_idx_size z = 2 then map_option (\<lambda>bs. sint (le_word bs :: u16)) (rd_range idx off 2)
     else map_option (\<lambda>bs. sint (le_word bs :: u32)) (rd_range idx off 4)
   }"

definition filter_compress_query :: "filter_compress_manager \<Rightarrow> u32 \<Rightarrow> low_data option" where
  "filter_compress_query z docid =
     (if fz_index_type z = 2
      then do {
        null \<leftarrow> (case fz_bitmark z of None \<Rightarrow> Some False | Some b \<Rightarrow> map_option (\<lambda>q. q = 1) (bitmark_query b docid));
        if null then Some (no_value z)
        else do {
          bi \<leftarrow> fz_bitmap_index z;
          pos \<leftarrow> bitmark_query bi docid;
          if pos < 0 then Some (no_value z)
          else value_at z (if pos = 0 then 1 else 0)
        }
      }
      else if fz_index_type z = 1
      then do {
        pos \<leftarrow> index_at z docid;
        if pos = - 1 then Some (no_value z) else value_at z (word_of_int pos)
      }
      else do {
        b \<leftarrow> fz_bitmark z;
        q \<leftarrow> bitmark_query b docid;
        if q = 1 then Some (no_value z) else value_at z docid
      })"

section \<open>Closing\<close>

definition release_marks :: "file_system \<Rightarrow> bitmark_manager option \<Rightarrow> bitmark_manager option \<times> file_system" where
  "release_marks fs b = (case b of None \<Rightarrow> (None, fs) | Some b \<Rightarrow> (let (b', fs') = bitmark_release fs b in (Some b', fs')))"

definition filter_compress_release ::
    "file_system \<Rightarrow> filter_compress_manager \<Rightarrow> (filter_compress_manager \<times> file_system) option" where
  "filter_compress_release fs z =
     (if fz_index_type z = 2
      then do {
        _ \<leftarrow> fz_bitmap_index z;
        let (bi, fs1) = release_marks fs (fz_bitmap_index z);
        let (b, fs2) = release_marks fs1 (fz_bitmark z);
        Some (z\<lparr>fz_bitmap_index := bi, fz_bitmark := b, fz_data := None\<rparr>, fs2)
      }
      else if fz_index_type z \<noteq> 0 then Some (z\<lparr>fz_index := None, fz_data := None\<rparr>, fs)
      else do {
        _ \<leftarrow> fz_bitmark z;
        let (b, fs1) = release_marks fs (fz_bitmark z);
        Some (z\<lparr>fz_data := None, fz_bitmark := b\<rparr>, fs1)
      })"

text \<open>The information file is not removed.\<close>

definition filter_compress_destroy :: "file_system \<Rightarrow> filter_compress_manager \<Rightarrow> file_system option" where
  "filter_compress_destroy fs z = do {
     (z', fs1) \<leftarrow> filter_compress_release fs z;
     let fs2 = fs1(fz_data_file_name z := None);
     if fz_index_type z = 2
     then do {
       bi \<leftarrow> fz_bitmap_index z';
       let fs3 = bitmark_destroy fs2 bi;
       Some (case fz_bitmark z' of None \<Rightarrow> fs3 | Some b \<Rightarrow> bitmark_destroy fs3 b)
     }
     else if fz_index_type z = 1 then Some (fs2(fz_index_file_name z := None))
     else do { b \<leftarrow> fz_bitmark z'; Some (bitmark_destroy fs2 b) }
   }"

end
