(* ===== verification/Filter_Compress_Laws.thy ===== *)
theory Filter_Compress_Laws
  imports Filter_Compress
begin

text \<open>
  The table of values as a dictionary: what the probing finds, what the counting pass counts,
  and the files that the second pass writes.
\<close>

section \<open>Dictionaries\<close>

definition place :: "'a list \<Rightarrow> 'a \<Rightarrow> nat" where
  "place D v = length (takeWhile (\<lambda>w. w \<noteq> v) D)"

lemma place_nth: "v \<in> set D \<Longrightarrow> place D v < length D \<and> D ! place D v = v"
  by (induction D) (auto simp: place_def)

lemma place_append: "v \<in> set D \<Longrightarrow> place (D @ E) v = place D v"
  by (induction D) (auto simp: place_def)

lemma place_new: "v \<notin> set D \<Longrightarrow> place (D @ [v]) v = length D"
  by (induction D) (auto simp: place_def)

fun dict :: "('a \<Rightarrow> 'b option) \<Rightarrow> 'a list \<Rightarrow> 'b list \<Rightarrow> 'b list" where
  "dict key [] D = D"
| "dict key (i # is) D =
     dict key is (case key i of None \<Rightarrow> D | Some v \<Rightarrow> if v \<in> set D then D else D @ [v])"

lemma dict_prefix: "\<exists>E. dict key is D = D @ E"
proof (induction "is" arbitrary: D)
  case (Cons i "is")
  obtain E where "dict key (i # is) D = (case key i of None \<Rightarrow> D | Some v \<Rightarrow> if v \<in> set D then D else D @ [v]) @ E"
    using Cons [of "case key i of None \<Rightarrow> D | Some v \<Rightarrow> if v \<in> set D then D else D @ [v]"] by auto
  then show ?case by (auto split: option.splits)
qed simp

lemma dict_keeps: "v \<in> set D \<Longrightarrow> v \<in> set (dict key is D)" "v \<in> set D \<Longrightarrow> place (dict key is D) v = place D v"
  using dict_prefix [of key "is" D] by (auto simp: place_append)

lemma dict_member: "i \<in> set is \<Longrightarrow> key i = Some v \<Longrightarrow> v \<in> set (dict key is D)"
  by (induction "is" arbitrary: D) (auto intro: dict_keeps(1))

lemma length_dict: "length (dict key is D) \<le> length D + length is"
proof (induction "is" arbitrary: D)
  case (Cons i "is")
  show ?case
    using Cons [of D] Cons [of "D @ [the (key i)]"] by (auto split: option.splits)
qed simp

section \<open>Probing\<close>

definition tab_ok :: "int \<Rightarrow> (nat \<Rightarrow> int) \<Rightarrow> bucket_entry list \<Rightarrow> u64 list \<Rightarrow> bool" where
  "tab_ok free f bucket D \<longleftrightarrow> distinct D \<and>
     (\<forall>v \<in> set D. \<exists>k < length bucket. let loc = unat v mod length bucket; i = slot (length bucket) loc k in
        be_value (bucket ! i) = v \<and> be_pos (bucket ! i) = f (place D v) \<and>
        (\<forall>j < k. be_pos (bucket ! slot (length bucket) loc j) \<noteq> free)) \<and>
     (\<forall>i < length bucket. be_pos (bucket ! i) \<noteq> free \<longrightarrow> be_value (bucket ! i) \<in> set D) \<and>
     (\<forall>i < length bucket. \<forall>j < length bucket. be_pos (bucket ! i) \<noteq> free \<longrightarrow> be_pos (bucket ! j) \<noteq> free \<longrightarrow>
        be_value (bucket ! i) = be_value (bucket ! j) \<longrightarrow> i = j)"

lemma tab_ok_empty: "tab_ok free f (replicate n \<lparr>be_value = 0, be_pos = free\<rparr>) []"
  by (simp add: tab_ok_def)

lemma tab_okD:
  assumes "tab_ok free f bucket D"
  shows "distinct D"
    and "v \<in> set D \<Longrightarrow> \<exists>k < length bucket. be_value (bucket ! slot (length bucket) (unat v mod length bucket) k) = v \<and>
      be_pos (bucket ! slot (length bucket) (unat v mod length bucket) k) = f (place D v) \<and>
      (\<forall>j < k. be_pos (bucket ! slot (length bucket) (unat v mod length bucket) j) \<noteq> free)"
    and "i < length bucket \<Longrightarrow> be_pos (bucket ! i) \<noteq> free \<Longrightarrow> be_value (bucket ! i) \<in> set D"
    and "i < length bucket \<Longrightarrow> j < length bucket \<Longrightarrow> be_pos (bucket ! i) \<noteq> free \<Longrightarrow> be_pos (bucket ! j) \<noteq> free \<Longrightarrow>
      be_value (bucket ! i) = be_value (bucket ! j) \<Longrightarrow> i = j"
  using assms unfolding tab_ok_def Let_def by blast+

lemma find_slot_old:
  assumes t: "tab_ok free f bucket D" and v: "v \<in> set D" and f: "\<And>j. f j \<noteq> free"
  obtains i where "find_slot free bucket v = Some (Some (i, False))" and "be_pos (bucket ! i) = f (place D v)"
proof -
  let ?n = "length bucket" and ?loc = "unat v mod length bucket"
  obtain k where k: "k < ?n" "be_value (bucket ! slot ?n ?loc k) = v" "be_pos (bucket ! slot ?n ?loc k) = f (place D v)"
    "\<forall>j < k. be_pos (bucket ! slot ?n ?loc j) \<noteq> free" using tab_okD(2) [OF t v] by blast
  have loc: "?loc < ?n" using k(1) by (intro mod_less_divisor) linarith
  have "slot_body free bucket v (slot ?n ?loc j) = Some None" if "j < k" for j
  proof -
    have "slot ?n ?loc j \<noteq> slot ?n ?loc k" using slot_inj [OF loc, of j k] that k(1) by auto
    then have "be_value (bucket ! slot ?n ?loc j) \<noteq> v"
      using tab_okD(4) [OF t slot_less [OF loc] slot_less [OF loc], of j k] k that f by auto
    then show ?thesis using k(4) that slot_less [OF loc, of j] by (simp add: slot_body_def mem_simps)
  qed
  moreover have "slot_body free bucket v (slot ?n ?loc k) = Some (Some (slot ?n ?loc k, False))"
    using k(2,3) f slot_less [OF loc, of k] by (simp add: slot_body_def mem_simps)
  ultimately have "find_slot free bucket v = Some (Some (slot ?n ?loc k, False))"
    unfolding find_slot_def Let_def by (intro probe_loop_hit [where k = k, OF loc k(1)]) auto
  then show ?thesis using that k(3) by blast
qed

lemma free_slot:
  assumes t: "tab_ok free f bucket D" and "length D < length bucket" and loc: "loc < length bucket"
  obtains k where "k < length bucket" and "be_pos (bucket ! slot (length bucket) loc k) = free"
    and "\<And>j. j < k \<Longrightarrow> be_pos (bucket ! slot (length bucket) loc j) \<noteq> free"
proof -
  let ?P = "\<lambda>k. k < length bucket \<and> be_pos (bucket ! slot (length bucket) loc k) = free"
  have "\<exists>i < length bucket. be_pos (bucket ! i) = free"
  proof (rule ccontr)
    assume "\<not> ?thesis"
    then have occ: "be_pos (bucket ! i) \<noteq> free" if "i < length bucket" for i using that by blast
    then have "inj_on (\<lambda>i. be_value (bucket ! i)) {..<length bucket}" "(\<lambda>i. be_value (bucket ! i)) ` {..<length bucket} \<subseteq> set D"
      using tab_okD(3,4) [OF t] by (auto intro: inj_onI)
    then have "card {..<length bucket} \<le> card (set D)" by (intro card_inj_on_le) auto
    then show False using assms(2) card_length [of D] by simp
  qed
  then obtain k0 where "?P k0" using slot_surj [OF loc] by metis
  then have l: "?P (LEAST k. ?P k)" by (rule LeastI)
  have "\<not> ?P j" if "j < (LEAST k. ?P k)" for j using that by (rule not_less_Least)
  then show ?thesis using that [of "LEAST k. ?P k"] l by (meson less_trans)
qed

lemma find_slot_new:
  assumes t: "tab_ok free f bucket D" and v: "v \<notin> set D" and f: "\<And>j. f j \<noteq> free" and room: "length D < length bucket"
  obtains i where "find_slot free bucket v = Some (Some (i, True))"
    and "tab_ok free f (bucket[i := \<lparr>be_value = v, be_pos = f (length D)\<rparr>]) (D @ [v])"
proof -
  let ?n = "length bucket" and ?loc = "unat v mod length bucket"
  have loc: "?loc < ?n" using room by (intro mod_less_divisor) linarith
  obtain k where k: "k < ?n" "be_pos (bucket ! slot ?n ?loc k) = free" "\<And>j. j < k \<Longrightarrow> be_pos (bucket ! slot ?n ?loc j) \<noteq> free"
    using free_slot [OF t room loc] by blast
  define i where "i = slot ?n ?loc k"
  have i: "i < ?n" unfolding i_def by (rule slot_less [OF loc])
  have "slot_body free bucket v (slot ?n ?loc j) = Some None" if "j < k" for j
  proof -
    have "be_value (bucket ! slot ?n ?loc j) \<noteq> v" using tab_okD(3) [OF t slot_less [OF loc] k(3) [OF that]] v by auto
    then show ?thesis using k(3) [OF that] slot_less [OF loc, of j] by (simp add: slot_body_def mem_simps)
  qed
  then have find: "find_slot free bucket v = Some (Some (i, True))"
    unfolding find_slot_def Let_def using k(2) i
    by (intro probe_loop_hit [where k = k, OF loc k(1)]) (simp_all add: slot_body_def mem_simps flip: i_def)
  let ?b = "bucket[i := \<lparr>be_value = v, be_pos = f (length D)\<rparr>]"
  have at: "?b ! i = \<lparr>be_value = v, be_pos = f (length D)\<rparr>" using i by simp
  have keep: "?b ! j = bucket ! j" if "be_pos (bucket ! j) \<noteq> free" for j using that k(2) by (cases "j = i") (auto simp: i_def)
  have occ: "be_pos (?b ! j) \<noteq> free \<longleftrightarrow> j = i \<or> be_pos (bucket ! j) \<noteq> free" for j
    using at f by (cases "j = i") auto
  have path: "\<exists>k < ?n. be_value (?b ! slot ?n (unat w mod ?n) k) = w \<and>
      be_pos (?b ! slot ?n (unat w mod ?n) k) = f (place (D @ [v]) w) \<and>
      (\<forall>j < k. be_pos (?b ! slot ?n (unat w mod ?n) j) \<noteq> free)" if w: "w \<in> set (D @ [v])" for w
  proof (cases "w \<in> set D")
    case True
    from tab_okD(2) [OF t True] obtain l where "l < ?n" "be_value (bucket ! slot ?n (unat w mod ?n) l) = w"
      "be_pos (bucket ! slot ?n (unat w mod ?n) l) = f (place D w)"
      "\<forall>j < l. be_pos (bucket ! slot ?n (unat w mod ?n) j) \<noteq> free" by blast
    with keep [of "slot ?n (unat w mod ?n) l"] occ f True show ?thesis by (intro exI [of _ l]) (auto simp: place_append)
  next
    case False
    with w have "w = v" by simp
    with k occ at v show ?thesis by (intro exI [of _ k]) (auto simp: place_new i_def)
  qed
  have mem: "be_value (?b ! j) \<in> set (D @ [v])" if "j < ?n" "be_pos (?b ! j) \<noteq> free" for j
    using tab_okD(3) [OF t that(1)] occ [of j] that keep [of j] at by (cases "j = i") auto
  have inj: "j = l" if "j < ?n" "l < ?n" "be_pos (?b ! j) \<noteq> free" "be_pos (?b ! l) \<noteq> free" "be_value (?b ! j) = be_value (?b ! l)" for j l
  proof -
    have "be_value (bucket ! j) \<noteq> v" if "be_pos (bucket ! j) \<noteq> free" "j < ?n" for j
      using tab_okD(3) [OF t that(2,1)] v by auto
    then show ?thesis using that occ [of j] occ [of l] keep [of j] keep [of l] at tab_okD(4) [OF t, of j l] by (cases "j = i"; cases "l = i") auto
  qed
  have "tab_ok free f ?b (D @ [v])"
    unfolding tab_ok_def Let_def length_list_update using tab_okD(1) [OF t] v path mem inj by simp
  with find show ?thesis using that by blast
qed

section \<open>Rows\<close>

definition row_key :: "storage_manager \<Rightarrow> u8 list \<Rightarrow> u32 \<Rightarrow> u64 option" where
  "row_key s junk i = map_option (\<lambda>c. le_word (c @ junk)) (st_cells s (unat i))"

text \<open>A column whose values fit into eight bytes, with the rest of the variable that holds them.\<close>

definition column :: "storage_manager \<Rightarrow> u8 list \<Rightarrow> bool" where
  "column s junk \<longleftrightarrow> storage_ok s \<and> unat (st_value_size s) + length junk = 8"

definition holds_junk :: "storage_manager \<Rightarrow> u8 list \<Rightarrow> u8 list \<Rightarrow> bool" where
  "holds_junk s junk value \<longleftrightarrow> length value = 8 \<and> drop (unat (st_value_size s)) value = junk"

lemma row_marks:
  assumes "column s junk" and "i < st_row_limit s"
  shows "bitmark_query (st_null s) i = Some (if row_key s junk i = None then 1 else 0)"
proof -
  have b: "bitmark_ok (st_null s)" "bm_row_limit (st_null s) = st_row_limit s"
    using assms(1) by (simp_all add: column_def storage_ok_def)
  then have "bitmark_query (st_null s) i = Some (if bm_bit (the (bm_mem (st_null s))) (unat i) then 0 else 1)"
    using assms(2) by (intro bitmark_query_bits) simp_all
  then show ?thesis using assms(2) b(2) by (simp add: row_key_def st_cells_def bm_marks_def unat_less_iff)
qed

lemma row_value:
  assumes c: "column s junk" and i: "i < st_row_limit s" and v: "row_key s junk i = Some v" and j: "holds_junk s junk value"
  shows "read_value s value i = Some (le_bytes 8 v)" and "holds_junk s junk (le_bytes 8 v)"
    and "le_bytes 8 v = st_cell s (unat i) @ junk"
proof -
  let ?c = "st_cell s (unat i)"
  have s: "storage_ok s" using c by (simp add: column_def)
  obtain m where m: "st_mem s = Some m" "length m = unat (st_value_size s) * unat (st_row_limit s)" using s by (rule storage_okE)
  have i': "unat i < unat (st_row_limit s)" using i by (simp add: unat_less_iff)
  have len: "length ?c = unat (st_value_size s)" using length_st_cell [OF s i'] .
  have "rd_range m (st_offset s i) (unat (st_value_size s)) = Some ?c"
    using st_offset_exact [OF s, of i] i' m cell_in_region [OF i', of "unat (st_value_size s)"]
    by (simp add: rd_range_def st_cell_def)
  then have r: "read_value s value i = Some (?c @ junk)"
    using m(1) len j c by (simp add: read_value_def wr_range_def holds_junk_def column_def)
  have "v = le_word (?c @ junk)" using v by (auto simp: row_key_def st_cells_def split: if_splits)
  then have e: "le_bytes 8 v = ?c @ junk" using le_bytes_le_word [where ?'a = 64, of "?c @ junk"] len c by (simp add: column_def)
  with r show "read_value s value i = Some (le_bytes 8 v)" "le_bytes 8 v = ?c @ junk" by simp_all
  show "holds_junk s junk (le_bytes 8 v)" using e len c by (simp add: holds_junk_def column_def)
qed

section \<open>The counting pass\<close>

lemma count_loop_dict:
  assumes "column s junk" and "\<forall>i \<in> set is. i < st_row_limit s" and "holds_junk s junk value"
    and "tab_ok 0 (\<lambda>_. 1) bucket D" and "length D + length is \<le> length bucket"
  shows "\<exists>value'. count_loop s is value bucket n_value n_null =
      Some (Some (value', n_value + word_of_nat (length (dict (row_key s junk) is D) - length D),
        n_null + word_of_nat (length (filter (\<lambda>i. row_key s junk i = None) is)))) \<and> holds_junk s junk value'"
  using assms
proof (induction "is" arbitrary: "value" bucket D n_value n_null)
  case (Cons i "is")
  let ?key = "row_key s junk"
  have i: "i < st_row_limit s" using Cons.prems(2) by simp
  have q: "bitmark_query (st_null s) i = Some (if ?key i = None then 1 else 0)" using Cons.prems(1) i by (rule row_marks)
  show ?case
  proof (cases "?key i")
    case None
    then show ?thesis
      using Cons.IH [OF Cons.prems(1) _ Cons.prems(3,4), of n_value "n_null + 1"] Cons.prems(2,5) q by (simp add: ac_simps)
  next
    case (Some v)
    have r: "read_value s value i = Some (le_bytes 8 v)" "holds_junk s junk (le_bytes 8 v)"
      using row_value [OF Cons.prems(1) i Some Cons.prems(3)] by simp_all
    show ?thesis
    proof (cases "v \<in> set D")
      case True
      obtain k where "find_slot 0 bucket v = Some (Some (k, False))" by (rule find_slot_old [OF Cons.prems(4) True]) simp
      then show ?thesis
        using Cons.IH [OF Cons.prems(1) _ r(2) Cons.prems(4), of n_value n_null] Cons.prems(2,5) q r(1) Some True by simp
    next
      case False
      obtain k where k: "find_slot 0 bucket v = Some (Some (k, True))"
        "tab_ok 0 (\<lambda>_. 1) (bucket[k := \<lparr>be_value = v, be_pos = 1\<rparr>]) (D @ [v])"
        by (rule find_slot_new [OF Cons.prems(4) False]) (use Cons.prems(5) in simp_all)
      obtain E where "dict ?key is (D @ [v]) = (D @ [v]) @ E" using dict_prefix by blast
      then have "length (dict ?key is (D @ [v])) - length D = Suc (length (dict ?key is (D @ [v])) - length (D @ [v]))" by simp
      then show ?thesis
        using Cons.IH [OF Cons.prems(1) _ r(2) k(2), of "n_value + 1" n_null] Cons.prems(2,5) q r(1) Some False k(1)
        by (simp add: ac_simps)
    qed
  qed
qed simp

section \<open>Writing the dictionary\<close>

definition dict_at :: "u32 \<Rightarrow> u8 list \<Rightarrow> u64 list \<Rightarrow> bool" where
  "dict_at unit_size dat D \<longleftrightarrow> (\<forall>j < length D. rd_range dat (j * unat unit_size) (unat unit_size) =
     Some (take (unat unit_size) (le_bytes 8 (D ! j))))"

lemma unat_times_small:
  assumes "unat (a :: u32) * unat b \<le> n" and "n < 4294967296"
  shows "unat (a * b) = unat a * unat b"
  using assms by (simp add: unat_word_ariths)

lemma blocks_apart: "(i :: nat) \<noteq> j \<Longrightarrow> i * n + n \<le> j * n \<or> j * n + n \<le> i * n"
proof (cases "i < j")
  case True
  then have "Suc i * n \<le> j * n" by (intro mult_le_mono1) simp
  then show ?thesis by simp
next
  case False
  assume "i \<noteq> j"
  with False have "Suc j * n \<le> i * n" by (intro mult_le_mono1) simp
  then show ?thesis by simp
qed

lemma put_value_dict:
  assumes d: "dict_at unit_size dat D" and "unat unit_size \<le> 8" and len: "Suc (length D) * unat unit_size \<le> length dat"
    and small: "length dat < 4294967296" "length D < 4294967296"
  obtains dat' where "put_value dat (word_of_nat (length D)) unit_size (le_bytes 8 v) = Some dat'"
    and "dict_at unit_size dat' (D @ [v])" and "length dat' = length dat"
proof -
  let ?u = "unat unit_size" and ?bs = "take (unat unit_size) (le_bytes 8 v)"
  have n: "unat (word_of_nat (length D) :: u32) = length D" using small(2) by (rule unat_word_of_nat_u32)
  have off: "unat (word_of_nat (length D) * unit_size) = length D * ?u"
    using unat_times_small [of "word_of_nat (length D)" unit_size "length dat"] n len small(1) by simp
  obtain dat' where w: "wr_range dat (length D * ?u) ?bs = Some dat'"
    using len assms(2) by (simp add: wr_range_def)
  have same: "rd_range dat' (length D * ?u) ?u = Some ?bs" using rd_wr_range_same [OF w] assms(2) by simp
  have "rd_range dat' (j * ?u) ?u = rd_range dat (j * ?u) ?u" if "j < length D" for j
    using blocks_apart [of j "length D" ?u] that assms(2) by (intro rd_wr_range_disjoint [OF w]) auto
  then have "dict_at unit_size dat' (D @ [v])" using d same by (auto simp: dict_at_def nth_append less_Suc_eq)
  moreover have "put_value dat (word_of_nat (length D)) unit_size (le_bytes 8 v) = Some dat'"
    using w off assms(2) by (simp add: put_value_def rd_range_def)
  ultimately show ?thesis using that wr_range_length [OF w] by blast
qed

section \<open>Writing the index\<close>

definition key_pos :: "u64 list \<Rightarrow> u64 option \<Rightarrow> int" where
  "key_pos D k = (case k of None \<Rightarrow> - 1 | Some v \<Rightarrow> int (place D v))"

definition idx_entry :: "u8 \<Rightarrow> u8 list \<Rightarrow> u32 \<Rightarrow> u8 list option" where
  "idx_entry sz idx i = rd_range idx (unat i * unat sz) (unat sz)"

definition pos_bytes :: "u8 \<Rightarrow> int \<Rightarrow> u8 list" where
  "pos_bytes sz pos = le_bytes (unat sz) (word_of_int pos :: u64)"

lemma unat_u8_u32: "unat (ucast (x :: u8) :: u32) = unat x"
  by (simp add: unsigned_ucast_eq take_bit_nat_eq_self unsigned_less [where ?'a = nat, of x, THEN less_trans])

lemma put_index_entry:
  assumes "i < n" and "length idx = unat n * unat sz" and "length idx < 4294967296"
  obtains idx' where "put_index idx i sz pos = Some idx'" and "length idx' = length idx"
    and "idx_entry sz idx' i = Some (pos_bytes sz pos)" and "\<forall>j. j \<noteq> i \<longrightarrow> idx_entry sz idx' j = idx_entry sz idx j"
proof -
  have i: "unat i < unat n" using assms(1) by (simp add: unat_less_iff)
  then have le: "unat i * unat sz + unat sz \<le> length idx"
    using mult_le_mono1 [of "Suc (unat i)" "unat n" "unat sz"] assms(2) by simp
  have off: "unat (i * ucast sz) = unat i * unat sz"
    using unat_times_small [of i "ucast sz" "length idx"] le assms(3) by (simp add: unat_u8_u32)
  obtain idx' where w: "wr_range idx (unat i * unat sz) (pos_bytes sz pos) = Some idx'"
    using le by (simp add: wr_range_def pos_bytes_def)
  have "idx_entry sz idx' i = Some (pos_bytes sz pos)"
    using rd_wr_range_same [OF w] by (simp add: idx_entry_def pos_bytes_def)
  moreover have "idx_entry sz idx' j = idx_entry sz idx j" if "j \<noteq> i" for j
  proof -
    have "unat j \<noteq> unat i" using that by (simp add: word_unat_eq_iff)
    from blocks_apart [OF this, of "unat sz"] show ?thesis
      unfolding idx_entry_def by (intro rd_wr_range_disjoint [OF w]) (auto simp: pos_bytes_def)
  qed
  ultimately show ?thesis using that [of idx'] w off wr_range_length [OF w] by (simp add: put_index_def pos_bytes_def)
qed

definition grow :: "u64 list \<Rightarrow> u64 option \<Rightarrow> u64 list" where
  "grow D k = (case k of None \<Rightarrow> D | Some v \<Rightarrow> if v \<in> set D then D else D @ [v])"

lemma dict_Cons: "dict key (i # is) D = dict key is (grow D (key i))"
  by (simp add: grow_def)

lemma grow_simps [simp]: "grow D None = D" "v \<in> set D \<Longrightarrow> grow D (Some v) = D" "v \<notin> set D \<Longrightarrow> grow D (Some v) = D @ [v]"
  by (simp_all add: grow_def)

lemma uint_word_of_nat: "n < 4294967296 \<Longrightarrow> uint (word_of_nat n :: u32) = int n"
  by (simp only: uint_unat unat_word_of_nat_u32)

definition work_ok :: "storage_manager \<Rightarrow> u8 list \<Rightarrow> u32 \<Rightarrow> u8 list \<Rightarrow> bucket_entry list \<Rightarrow> u64 list \<Rightarrow> u8 list \<Rightarrow> bool" where
  "work_ok s junk unit_size value bucket D dat \<longleftrightarrow> holds_junk s junk value \<and> tab_ok (- 1) int bucket D \<and>
     length bucket = unat (st_row_limit s) \<and> dict_at unit_size dat D"

lemma index_step:
  assumes c: "column s junk" and i: "i < st_row_limit s" and w: "work_ok s junk unit_size value bucket D dat"
    and room: "length D < unat (st_row_limit s)" and u: "unat unit_size \<le> 8"
    and dat: "length (grow D (row_key s junk i)) * unat unit_size \<le> length dat" "length dat < 4294967296"
    and idx: "length idx = unat (st_row_limit s) * unat sz" "length idx < 4294967296"
  obtains value' bucket' dat' idx' where
    "\<And>is. index_loop s unit_size sz (i # is) value bucket (word_of_nat (length D)) dat idx =
      index_loop s unit_size sz is value' bucket' (word_of_nat (length (grow D (row_key s junk i)))) dat' idx'"
    and "work_ok s junk unit_size value' bucket' (grow D (row_key s junk i)) dat'" and "length dat' = length dat"
    and "length idx' = length idx" and "idx_entry sz idx' i = Some (pos_bytes sz (key_pos (grow D (row_key s junk i)) (row_key s junk i)))"
    and "\<forall>j. j \<noteq> i \<longrightarrow> idx_entry sz idx' j = idx_entry sz idx j"
proof -
  let ?key = "row_key s junk i"
  have wk: "holds_junk s junk value" "tab_ok (- 1) int bucket D" "length bucket = unat (st_row_limit s)" "dict_at unit_size dat D"
    using w by (simp_all add: work_ok_def)
  have q: "bitmark_query (st_null s) i = Some (if ?key = None then 1 else 0)" by (rule row_marks [OF c i])
  have small: "length D < 4294967296" using room u32_bound [of "st_row_limit s"] by linarith
  obtain idx' where idx': "put_index idx i sz (key_pos (grow D ?key) ?key) = Some idx'" "length idx' = length idx"
    "idx_entry sz idx' i = Some (pos_bytes sz (key_pos (grow D ?key) ?key))"
    "\<forall>j. j \<noteq> i \<longrightarrow> idx_entry sz idx' j = idx_entry sz idx j" using i idx by (rule put_index_entry [where pos = "key_pos (grow D ?key) ?key"])
  note fin = that [OF _ _ _ idx'(2-4)]
  show ?thesis
  proof (cases ?key)
    case None
    show ?thesis by (rule fin [of "value" bucket dat]) (use None q idx'(1) w in \<open>simp_all add: key_pos_def\<close>)
  next
    case (Some v)
    have r: "read_value s value i = Some (le_bytes 8 v)" "holds_junk s junk (le_bytes 8 v)"
      using row_value [OF c i Some wk(1)] by simp_all
    show ?thesis
    proof (cases "v \<in> set D")
      case True
      obtain k where k: "find_slot (- 1) bucket v = Some (Some (k, False))" "be_pos (bucket ! k) = int (place D v)"
        by (rule find_slot_old [OF wk(2) True]) simp
      show ?thesis by (rule fin [of "le_bytes 8 v" bucket dat])
        (use Some True q r k wk idx'(1) in \<open>simp_all add: key_pos_def work_ok_def\<close>)
    next
      case False
      obtain k where k: "find_slot (- 1) bucket v = Some (Some (k, True))"
        "tab_ok (- 1) int (bucket[k := \<lparr>be_value = v, be_pos = int (length D)\<rparr>]) (D @ [v])"
        by (rule find_slot_new [OF wk(2) False]) (use room wk(3) in simp_all)
      obtain dat' where d: "put_value dat (word_of_nat (length D)) unit_size (le_bytes 8 v) = Some dat'"
        "dict_at unit_size dat' (D @ [v])" "length dat' = length dat"
        by (rule put_value_dict [OF wk(4) u _ dat(2) small]) (use dat(1) Some False in simp)
      show ?thesis by (rule fin [of "le_bytes 8 v" "bucket[k := \<lparr>be_value = v, be_pos = int (length D)\<rparr>]" dat'])
        (use Some False q r k d wk idx'(1) in \<open>simp_all add: key_pos_def work_ok_def place_new uint_word_of_nat [OF small] add.commute\<close>)
    qed
  qed
qed

lemma grow_prefix: "\<exists>E. grow D k = D @ E" "length (grow D k) \<le> Suc (length D)"
  by (auto simp: grow_def split: option.splits)

lemma key_pos_dict: "key_pos (dict key is (grow D k)) k = key_pos (grow D k) k"
proof (cases k)
  case (Some v)
  have "v \<in> set (grow D k)" using Some by (simp add: grow_def)
  then show ?thesis using Some dict_keeps(2) [of v "grow D k" key "is"] by (simp add: key_pos_def)
qed (simp add: key_pos_def)

lemma dict_length_mono: "length D \<le> length (dict key is D)"
  using dict_prefix [of key "is" D] by auto

lemma index_loop_writes:
  assumes "column s junk" and "\<forall>i \<in> set is. i < st_row_limit s" and "distinct is"
    and "work_ok s junk unit_size value bucket D dat" and "length D + length is \<le> unat (st_row_limit s)"
    and "unat unit_size \<le> 8" and "length (dict (row_key s junk) is D) * unat unit_size \<le> length dat" and "length dat < 4294967296"
    and "length idx = unat (st_row_limit s) * unat sz" and "length idx < 4294967296"
  shows "\<exists>dat' idx'. index_loop s unit_size sz is value bucket (word_of_nat (length D)) dat idx =
      Some (Some (word_of_nat (length (dict (row_key s junk) is D)), dat', idx')) \<and>
    length dat' = length dat \<and> length idx' = length idx \<and> dict_at unit_size dat' (dict (row_key s junk) is D) \<and>
    (\<forall>i \<in> set is. idx_entry sz idx' i = Some (pos_bytes sz (key_pos (dict (row_key s junk) is D) (row_key s junk i)))) \<and>
    (\<forall>i. i \<notin> set is \<longrightarrow> idx_entry sz idx' i = idx_entry sz idx i)"
  using assms
proof (induction "is" arbitrary: "value" bucket D dat idx)
  case Nil
  then show ?case by (simp add: work_ok_def)
next
  case (Cons i "is")
  let ?key = "row_key s junk" and ?D = "grow D (row_key s junk i)"
  have i: "i < st_row_limit s" "i \<notin> set is" using Cons.prems(2,3) by simp_all
  have le: "length ?D * unat unit_size \<le> length dat"
    using mult_le_mono1 [OF dict_length_mono [of ?D ?key "is"], of "unat unit_size"] Cons.prems(7) unfolding dict_Cons by linarith
  have room: "length D < unat (st_row_limit s)" using Cons.prems(5) by simp
  obtain v1 b1 d1 x1 where 1: "\<And>is. index_loop s unit_size sz (i # is) value bucket (word_of_nat (length D)) dat idx =
      index_loop s unit_size sz is v1 b1 (word_of_nat (length ?D)) d1 x1"
    "work_ok s junk unit_size v1 b1 ?D d1" "length d1 = length dat" "length x1 = length idx"
    "idx_entry sz x1 i = Some (pos_bytes sz (key_pos ?D (?key i)))" "\<forall>j. j \<noteq> i \<longrightarrow> idx_entry sz x1 j = idx_entry sz idx j"
    using index_step [OF Cons.prems(1) i(1) Cons.prems(4) room Cons.prems(6) le Cons.prems(8-10)] by blast
  have "length ?D + length is \<le> unat (st_row_limit s)" using Cons.prems(5) grow_prefix(2) [of D "?key i"] by simp
  then obtain d2 x2 where 2: "index_loop s unit_size sz is v1 b1 (word_of_nat (length ?D)) d1 x1 =
      Some (Some (word_of_nat (length (dict ?key is ?D)), d2, x2))" "length d2 = length d1" "length x2 = length x1"
    "dict_at unit_size d2 (dict ?key is ?D)"
    "\<forall>i \<in> set is. idx_entry sz x2 i = Some (pos_bytes sz (key_pos (dict ?key is ?D) (?key i)))"
    "\<forall>i. i \<notin> set is \<longrightarrow> idx_entry sz x2 i = idx_entry sz x1 i"
    using Cons.IH [OF Cons.prems(1) _ _ 1(2) _ Cons.prems(6)] Cons.prems(2,3,7-10) 1(3,4) unfolding dict_Cons by force
  show ?case unfolding dict_Cons 1(1) using 2 1(3-6) i(2) key_pos_dict [of ?key "is" D "?key i"] by auto
qed

section \<open>Writing the bits\<close>

definition marked :: "bitmark_manager \<Rightarrow> u32 \<Rightarrow> bool" where
  "marked b i \<longleftrightarrow> bm_bit (the (bm_mem b)) (unat i)"

definition marks_for :: "storage_manager \<Rightarrow> bitmark_manager \<Rightarrow> bool" where
  "marks_for s b \<longleftrightarrow> bitmark_ok b \<and> bm_row_limit b = st_row_limit s"

lemma set_second_marks:
  assumes "marks_for s b" and "i < st_row_limit s"
  obtains b' where "set_second pos b i = Some b'" and "marks_for s b'" and "marked b' i \<longleftrightarrow> pos = 1 \<or> marked b i"
    and "\<forall>j. j \<noteq> i \<longrightarrow> marked b' j = marked b j"
proof (cases "pos = 1")
  case True
  have b: "bitmark_ok b" "i < bm_row_limit b" using assms by (simp_all add: marks_for_def)
  obtain m where m: "bitmark_set b i = Some (0, b\<lparr>bm_mem := Some m\<rparr>)" "length m = unat (bm_row_limit b) div 8 + 1"
    "\<And>e. bm_bit m e \<longleftrightarrow> e = unat i \<or> bm_bit (the (bm_mem b)) e" using bitmark_set_bits [OF b] by blast
  then show ?thesis using True assms(1)
    by (intro that [of "b\<lparr>bm_mem := Some m\<rparr>"]) (auto simp: set_second_def marks_for_def bitmark_ok_def marked_def word_unat_eq_iff)
next
  case False
  with assms(1) show ?thesis by (intro that [of b]) (simp_all add: set_second_def)
qed

lemma bitmap_step:
  assumes c: "column s junk" and i: "i < st_row_limit s" and w: "work_ok s junk unit_size value bucket D dat"
    and room: "length D < unat (st_row_limit s)" and u: "unat unit_size \<le> 8"
    and dat: "length (grow D (row_key s junk i)) * unat unit_size \<le> length dat" "length dat < 4294967296"
    and b: "marks_for s b"
  obtains value' bucket' dat' b' where
    "\<And>is. bitmap_loop s unit_size (i # is) value bucket (word_of_nat (length D)) dat b =
      bitmap_loop s unit_size is value' bucket' (word_of_nat (length (grow D (row_key s junk i)))) dat' b'"
    and "work_ok s junk unit_size value' bucket' (grow D (row_key s junk i)) dat'" and "length dat' = length dat"
    and "marks_for s b'" and "marked b' i \<longleftrightarrow> key_pos (grow D (row_key s junk i)) (row_key s junk i) = 1 \<or> marked b i"
    and "\<forall>j. j \<noteq> i \<longrightarrow> marked b' j = marked b j"
proof -
  let ?key = "row_key s junk i"
  have wk: "holds_junk s junk value" "tab_ok (- 1) int bucket D" "length bucket = unat (st_row_limit s)" "dict_at unit_size dat D"
    using w by (simp_all add: work_ok_def)
  have q: "bitmark_query (st_null s) i = Some (if ?key = None then 1 else 0)" by (rule row_marks [OF c i])
  have small: "length D < 4294967296" using room u32_bound [of "st_row_limit s"] by linarith
  obtain b' where b': "set_second (key_pos (grow D ?key) ?key) b i = Some b'" "marks_for s b'"
    "marked b' i \<longleftrightarrow> key_pos (grow D ?key) ?key = 1 \<or> marked b i" "\<forall>j. j \<noteq> i \<longrightarrow> marked b' j = marked b j"
    using b i by (rule set_second_marks [where pos = "key_pos (grow D ?key) ?key"])
  note fin = that [OF _ _ _ b'(2-4)]
  show ?thesis
  proof (cases ?key)
    case None
    with b'(1) have "b' = b" by (simp add: key_pos_def set_second_def)
    with None show ?thesis by (intro fin [of "value" bucket dat]) (use q w in simp_all)
  next
    case (Some v)
    have r: "read_value s value i = Some (le_bytes 8 v)" "holds_junk s junk (le_bytes 8 v)"
      using row_value [OF c i Some wk(1)] by simp_all
    show ?thesis
    proof (cases "v \<in> set D")
      case True
      obtain k where k: "find_slot (- 1) bucket v = Some (Some (k, False))" "be_pos (bucket ! k) = int (place D v)"
        by (rule find_slot_old [OF wk(2) True]) simp
      show ?thesis by (rule fin [of "le_bytes 8 v" bucket dat])
        (use Some True q r k wk b'(1) in \<open>simp_all add: key_pos_def work_ok_def\<close>)
    next
      case False
      obtain k where k: "find_slot (- 1) bucket v = Some (Some (k, True))"
        "tab_ok (- 1) int (bucket[k := \<lparr>be_value = v, be_pos = int (length D)\<rparr>]) (D @ [v])"
        by (rule find_slot_new [OF wk(2) False]) (use room wk(3) in simp_all)
      obtain dat' where d: "put_value dat (word_of_nat (length D)) unit_size (le_bytes 8 v) = Some dat'"
        "dict_at unit_size dat' (D @ [v])" "length dat' = length dat"
        by (rule put_value_dict [OF wk(4) u _ dat(2) small]) (use dat(1) Some False in simp)
      show ?thesis by (rule fin [of "le_bytes 8 v" "bucket[k := \<lparr>be_value = v, be_pos = int (length D)\<rparr>]" dat'])
        (use Some False q r k d wk b'(1) in \<open>simp_all add: key_pos_def work_ok_def place_new uint_word_of_nat [OF small] add.commute\<close>)
    qed
  qed
qed

lemma bitmap_loop_writes:
  assumes "column s junk" and "\<forall>i \<in> set is. i < st_row_limit s" and "distinct is"
    and "work_ok s junk unit_size value bucket D dat" and "length D + length is \<le> unat (st_row_limit s)"
    and "unat unit_size \<le> 8" and "length (dict (row_key s junk) is D) * unat unit_size \<le> length dat" and "length dat < 4294967296"
    and "marks_for s b"
  shows "\<exists>dat' b'. bitmap_loop s unit_size is value bucket (word_of_nat (length D)) dat b =
      Some (Some (word_of_nat (length (dict (row_key s junk) is D)), dat', b')) \<and>
    length dat' = length dat \<and> marks_for s b' \<and> dict_at unit_size dat' (dict (row_key s junk) is D) \<and>
    (\<forall>i \<in> set is. marked b' i \<longleftrightarrow> key_pos (dict (row_key s junk) is D) (row_key s junk i) = 1 \<or> marked b i) \<and>
    (\<forall>i. i \<notin> set is \<longrightarrow> marked b' i = marked b i)"
  using assms
proof (induction "is" arbitrary: "value" bucket D dat b)
  case Nil
  then show ?case by (simp add: work_ok_def)
next
  case (Cons i "is")
  let ?key = "row_key s junk" and ?D = "grow D (row_key s junk i)"
  have i: "i < st_row_limit s" "i \<notin> set is" using Cons.prems(2,3) by simp_all
  have le: "length ?D * unat unit_size \<le> length dat"
    using mult_le_mono1 [OF dict_length_mono [of ?D ?key "is"], of "unat unit_size"] Cons.prems(7) unfolding dict_Cons by linarith
  have room: "length D < unat (st_row_limit s)" using Cons.prems(5) by simp
  obtain v1 b1 d1 x1 where 1: "\<And>is. bitmap_loop s unit_size (i # is) value bucket (word_of_nat (length D)) dat b =
      bitmap_loop s unit_size is v1 b1 (word_of_nat (length ?D)) d1 x1"
    "work_ok s junk unit_size v1 b1 ?D d1" "length d1 = length dat" "marks_for s x1"
    "marked x1 i \<longleftrightarrow> key_pos ?D (?key i) = 1 \<or> marked b i" "\<forall>j. j \<noteq> i \<longrightarrow> marked x1 j = marked b j"
    using bitmap_step [OF Cons.prems(1) i(1) Cons.prems(4) room Cons.prems(6) le Cons.prems(8-9)] by blast
  have "length ?D + length is \<le> unat (st_row_limit s)" using Cons.prems(5) grow_prefix(2) [of D "?key i"] by simp
  then obtain d2 x2 where 2: "bitmap_loop s unit_size is v1 b1 (word_of_nat (length ?D)) d1 x1 =
      Some (Some (word_of_nat (length (dict ?key is ?D)), d2, x2))" "length d2 = length d1" "marks_for s x2"
    "dict_at unit_size d2 (dict ?key is ?D)"
    "\<forall>i \<in> set is. marked x2 i \<longleftrightarrow> key_pos (dict ?key is ?D) (?key i) = 1 \<or> marked x1 i"
    "\<forall>i. i \<notin> set is \<longrightarrow> marked x2 i = marked x1 i"
    using Cons.IH [OF Cons.prems(1) _ _ 1(2) _ Cons.prems(6)] Cons.prems(2,3,7,8) 1(3,4) unfolding dict_Cons by force
  show ?case unfolding dict_Cons 1(1) using 2 1(3-6) i(2) key_pos_dict [of ?key "is" D "?key i"] by auto
qed

end
