(* ===== verification/Filter_Compress_Props.thy ===== *)
theory Filter_Compress_Props
  imports Filter_Compress_Laws
begin

text \<open>
  Properties of a compressed filter column: each of the three layouts gives back the values
  of the column it was made from, and what a restart does to them.
\<close>

section \<open>Answers\<close>

text \<open>A null value stays null, any other value is cut to the unit size.\<close>

definition cut_answer :: "storage_manager \<Rightarrow> u32 \<Rightarrow> u32 \<Rightarrow> low_data" where
  "cut_answer s unit_size d =
     (case st_cells s (unat d) of
        None \<Rightarrow> \<lparr>ld_field_name = [], ld_type = HI_TYPE_NULL, ld_data = replicate (unat unit_size) 0, ld_len = 0\<rparr>
      | Some c \<Rightarrow> \<lparr>ld_field_name = [], ld_type = HI_TYPE_NULL, ld_data = take (unat unit_size) c, ld_len = unit_size\<rparr>)"

lemma cut_answer_null: "row_key s junk d = None \<Longrightarrow> no_value z = cut_answer s (fz_unit_size z) d"
  by (simp add: cut_answer_def no_value_def row_key_def)

definition dict_file :: "filter_compress_manager \<Rightarrow> u64 list \<Rightarrow> bool" where
  "dict_file z T \<longleftrightarrow> (\<exists>dat. (T \<noteq> [] \<longrightarrow> fz_data z = Some dat) \<and> dict_at (fz_unit_size z) dat T \<and>
     length T * unat (fz_unit_size z) \<le> length dat \<and> length dat < 4294967296)"

lemma value_at_dict:
  assumes "dict_file z T" and "j < length T"
  shows "value_at z (word_of_nat j) = Some \<lparr>ld_field_name = [], ld_type = HI_TYPE_NULL,
    ld_data = take (unat (fz_unit_size z)) (le_bytes 8 (T ! j)), ld_len = fz_unit_size z\<rparr>"
proof -
  let ?u = "unat (fz_unit_size z)"
  obtain dat where d: "fz_data z = Some dat" "dict_at (fz_unit_size z) dat T" "length T * ?u \<le> length dat" "length dat < 4294967296"
    using assms by (auto simp: dict_file_def)
  have r: "rd_range dat (j * ?u) ?u = Some (take ?u (le_bytes 8 (T ! j)))" using d(2) assms(2) by (simp add: dict_at_def)
  show ?thesis
  proof (cases "?u = 0")
    case True
    then have "fz_unit_size z = 0" by (simp add: unat_eq_zero)
    then show ?thesis using d(1) by (simp add: value_at_def no_value_def rd_range_def)
  next
    case False
    have "j * ?u \<le> length T * ?u" using assms(2) by (intro mult_le_mono1) simp
    then have "j * ?u < 4294967296" using d(3,4) by linarith
    moreover have "j \<le> j * ?u" using False by simp
    ultimately have "unat (word_of_nat j :: u32) = j" by (intro unat_word_of_nat_u32) linarith
    then have "unat (word_of_nat j * fz_unit_size z) = j * ?u"
      using unat_times_small [of "word_of_nat j" "fz_unit_size z" "j * ?u"] \<open>j * ?u < 4294967296\<close> by simp
    with r d(1) show ?thesis by (simp add: value_at_def no_value_def)
  qed
qed

lemma value_at_key:
  assumes z: "dict_file z T" and c: "column s junk" and d: "d < st_row_limit s" and v: "row_key s junk d = Some v"
    and t: "v \<in> set T" and u: "unat (fz_unit_size z) \<le> unat (st_value_size s)"
  shows "value_at z (word_of_nat (place T v)) = Some (cut_answer s (fz_unit_size z) d)"
proof -
  have p: "place T v < length T" "T ! place T v = v" using place_nth [OF t] by simp_all
  obtain bs where bs: "holds_junk s junk bs" using c
    by (intro that [of "replicate (unat (st_value_size s)) 0 @ junk"]) (simp add: holds_junk_def column_def)
  have e: "le_bytes 8 v = st_cell s (unat d) @ junk" by (rule row_value [OF c d v bs])
  have "length (st_cell s (unat d)) = unat (st_value_size s)"
    using c d by (intro length_st_cell) (simp_all add: column_def unat_less_iff)
  moreover have "st_cells s (unat d) = Some (st_cell s (unat d))" using v by (auto simp: row_key_def st_cells_def split: if_splits)
  ultimately show ?thesis using value_at_dict [OF z p(1)] p(2) e u by (simp add: cut_answer_def)
qed

section \<open>The index layout\<close>

lemma le_word_le_bytes_cast:
  assumes "LENGTH('b) = 8 * n" and "8 * n \<le> LENGTH('a)"
  shows "(le_word (le_bytes n (w :: 'a::len word)) :: 'b::len word) = ucast w"
proof (rule bit_word_eqI)
  fix k
  assume k: "k < LENGTH('b)"
  then have n: "k div 8 < n" using assms by (simp add: less_mult_imp_div_less mult.commute)
  have "8 * (k div 8) + k mod 8 = k" by simp
  with n show "bit (le_word (le_bytes n w) :: 'b word) k = bit (ucast w :: 'b word) k"
    using k assms by (simp add: bit_le_word le_bytes_def bit_simps div_less_iff_less_mult mult.commute)
qed

lemma sint_cast_small:
  assumes "LENGTH('b) = Suc n" and "- (2 ^ n) \<le> p" and "p < 2 ^ n" and "n < 64"
  shows "sint (ucast (word_of_int p :: u64) :: 'b::len word) = p"
proof -
  have "(ucast (word_of_int p :: u64) :: 'b word) = word_of_int p"
    using assms(1,4) by (intro bit_word_eqI) (simp add: bit_simps)
  moreover have "signed_take_bit n p = p" using assms(2,3) by (intro signed_take_bit_int_eq_self)
  ultimately show ?thesis using assms(1) by (simp add: signed_of_int)
qed

definition pos_fits :: "u8 \<Rightarrow> int \<Rightarrow> bool" where
  "pos_fits sz p \<longleftrightarrow> sz \<in> {1, 2, 4} \<and> - (2 ^ (8 * unat sz - 1)) \<le> p \<and> p < 2 ^ (8 * unat sz - 1)"

lemma index_at_entry:
  assumes "idx_entry (fz_idx_size z) idx d = Some (pos_bytes (fz_idx_size z) p)" and "fz_index z = Some idx"
    and "pos_fits (fz_idx_size z) p" and "unat d * unat (fz_idx_size z) < 4294967296"
  shows "index_at z d = Some p"
proof -
  let ?w = "word_of_int p :: u64"
  have off: "unat (d * ucast (fz_idx_size z)) = unat d * unat (fz_idx_size z)"
    using unat_times_small [of d "ucast (fz_idx_size z)" "unat d * unat (fz_idx_size z)"] assms(4) by (simp add: unat_u8_u32)
  have r: "rd_range idx (unat d * unat (fz_idx_size z)) (unat (fz_idx_size z)) = Some (le_bytes (unat (fz_idx_size z)) ?w)"
    using assms(1) by (simp add: idx_entry_def pos_bytes_def)
  consider "fz_idx_size z = 1" | "fz_idx_size z = 2" | "fz_idx_size z = 4" using assms(3) by (auto simp: pos_fits_def)
  then show ?thesis
  proof cases
    case 1
    have "rd idx (unat d) = Some (ucast ?w)"
    proof -
      have l: "take 1 (drop (unat d) idx) = [ucast ?w]" "unat d < length idx"
        using r 1 by (auto simp: rd_range_def le_bytes_def split: if_splits)
      then have "idx ! unat d = ucast ?w" by (simp add: take_Suc hd_drop_conv_nth)
      with l(2) show ?thesis by (simp add: mem_simps)
    qed
    moreover have "sint (ucast ?w :: u8) = p" using assms(3) 1 by (intro sint_cast_small [where n = 7]) (simp_all add: pos_fits_def)
    ultimately show ?thesis using 1 off assms(2) by (simp add: index_at_def)
  next
    case 2
    have "sint (ucast ?w :: u16) = p" using assms(3) 2 by (intro sint_cast_small [where n = 15]) (simp_all add: pos_fits_def)
    then show ?thesis using 2 off assms(2) r by (simp add: index_at_def le_word_le_bytes_cast)
  next
    case 3
    have "sint (ucast ?w :: u32) = p" using assms(3) 3 by (intro sint_cast_small [where n = 31]) (simp_all add: pos_fits_def)
    then show ?thesis using 3 off assms(2) r by (simp add: index_at_def le_word_le_bytes_cast)
  qed
qed

definition index_layout :: "filter_compress_manager \<Rightarrow> storage_manager \<Rightarrow> u8 list \<Rightarrow> u64 list \<Rightarrow> bool" where
  "index_layout z s junk T \<longleftrightarrow> fz_index_type z = 1 \<and> fz_idx_size z = idx_size_for (word_of_nat (length T)) \<and> dict_file z T \<and>
     (\<exists>idx. fz_index z = Some idx \<and> (\<forall>d < st_row_limit s. idx_entry (fz_idx_size z) idx d =
        Some (pos_bytes (fz_idx_size z) (key_pos T (row_key s junk d)))))"

lemma index_layout_query:
  assumes z: "index_layout z s junk T" and c: "column s junk" and d: "d < st_row_limit s"
    and t: "\<And>v. row_key s junk d = Some v \<Longrightarrow> v \<in> set T" and n: "length T < 2147483648" "unat (st_row_limit s) * 4 < 4294967296"
    and u: "unat (fz_unit_size z) \<le> unat (st_value_size s)"
  shows "filter_compress_query z d = Some (cut_answer s (fz_unit_size z) d)"
proof -
  let ?p = "key_pos T (row_key s junk d)"
  obtain idx where i: "fz_index z = Some idx" "idx_entry (fz_idx_size z) idx d = Some (pos_bytes (fz_idx_size z) ?p)"
    "fz_index_type z = 1" "fz_idx_size z = idx_size_for (word_of_nat (length T))" "dict_file z T"
    using z d by (auto simp: index_layout_def)
  have lt: "?p < int (length T) \<or> ?p = - 1" "- 1 \<le> ?p" using t place_nth [of _ T] by (auto simp: key_pos_def split: option.splits)
  have len: "unat (word_of_nat (length T) :: u32) = length T" using n(1) by (intro unat_word_of_nat_u32) simp
  have fit: "pos_fits (fz_idx_size z) ?p"
    using lt n(1) len unfolding i(4) by (auto simp: pos_fits_def idx_size_for_def word_less_nat_alt)
  have "unat (fz_idx_size z) \<le> 4" unfolding i(4) by (simp add: idx_size_for_def)
  then have "unat d * unat (fz_idx_size z) \<le> unat (st_row_limit s) * 4" using d by (intro mult_le_mono) (simp_all add: word_less_nat_alt)
  then have at: "index_at z d = Some ?p" by (intro index_at_entry [OF i(2,1) fit] order.strict_trans1 [OF _ n(2)])
  show ?thesis
  proof (cases "row_key s junk d")
    case None
    then show ?thesis using at i(3) cut_answer_null [OF None] by (simp add: filter_compress_query_def key_pos_def)
  next
    case (Some v)
    have "value_at z (word_of_nat (place T v)) = Some (cut_answer s (fz_unit_size z) d)"
      by (rule value_at_key [OF i(5) c d Some t [OF Some] u])
    then show ?thesis using at i(3) Some by (simp add: filter_compress_query_def key_pos_def)
  qed
qed

section \<open>The bitmap layout\<close>

definition nulls_kept :: "storage_manager \<Rightarrow> u8 list \<Rightarrow> bitmark_manager option \<Rightarrow> bool" where
  "nulls_kept s junk b \<longleftrightarrow>
     (case b of None \<Rightarrow> \<forall>d < st_row_limit s. row_key s junk d \<noteq> None
      | Some b \<Rightarrow> marks_for s b \<and> bm_mem b = bm_mem (st_null s))"

definition bitmap_layout :: "filter_compress_manager \<Rightarrow> storage_manager \<Rightarrow> u8 list \<Rightarrow> u64 list \<Rightarrow> bool" where
  "bitmap_layout z s junk T \<longleftrightarrow> fz_index_type z = 2 \<and> length T = 2 \<and> dict_file z T \<and>
     nulls_kept s junk (fz_bitmark z) \<and>
     (\<exists>bi. fz_bitmap_index z = Some bi \<and> marks_for s bi \<and>
        (\<forall>d < st_row_limit s. marked bi d \<longleftrightarrow> key_pos T (row_key s junk d) = 1))"

lemma marks_query: "marks_for s b \<Longrightarrow> d < st_row_limit s \<Longrightarrow> bitmark_query b d = Some (if marked b d then 0 else 1)"
  using bitmark_query_bits [of b d] by (simp add: marks_for_def marked_def)

lemma null_marks_query:
  assumes "column s junk" and "d < st_row_limit s" and "marks_for s b" and "bm_mem b = bm_mem (st_null s)"
  shows "bitmark_query b d = Some (if row_key s junk d = None then 1 else 0)"
proof -
  have "marks_for s (st_null s)" using assms(1) by (simp add: marks_for_def column_def storage_ok_def)
  then have "bitmark_query b d = bitmark_query (st_null s) d"
    using assms(2-4) by (simp add: marks_query marked_def)
  with row_marks [OF assms(1,2)] show ?thesis by simp
qed

lemma bitmap_layout_query:
  assumes z: "bitmap_layout z s junk T" and c: "column s junk" and d: "d < st_row_limit s"
    and t: "\<And>v. row_key s junk d = Some v \<Longrightarrow> v \<in> set T" and u: "unat (fz_unit_size z) \<le> unat (st_value_size s)"
  shows "filter_compress_query z d = Some (cut_answer s (fz_unit_size z) d)"
proof -
  obtain bi where b: "fz_bitmap_index z = Some bi" "marks_for s bi" "marked bi d \<longleftrightarrow> key_pos T (row_key s junk d) = 1"
    "fz_index_type z = 2" "length T = 2" "dict_file z T" using z d by (auto simp: bitmap_layout_def)
  have q: "bitmark_query bi d = Some (if marked bi d then 0 else 1)" using b(2) d by (rule marks_query)
  have null: "(case fz_bitmark z of None \<Rightarrow> Some False | Some b \<Rightarrow> map_option (\<lambda>q. q = 1) (bitmark_query b d)) =
      Some (row_key s junk d = None)"
  proof (cases "fz_bitmark z")
    case None
    with z d show ?thesis by (auto simp: bitmap_layout_def nulls_kept_def)
  next
    case (Some b)
    with z have "marks_for s b" "bm_mem b = bm_mem (st_null s)" by (simp_all add: bitmap_layout_def nulls_kept_def)
    from null_marks_query [OF c d this] Some show ?thesis by simp
  qed
  show ?thesis
  proof (cases "row_key s junk d")
    case None
    then show ?thesis using null b(4) cut_answer_null [OF None] by (simp add: filter_compress_query_def)
  next
    case (Some v)
    have at: "value_at z (word_of_nat (place T v)) = Some (cut_answer s (fz_unit_size z) d)"
      by (rule value_at_key [OF b(6) c d Some t [OF Some] u])
    have "place T v = 0 \<or> place T v = 1" using place_nth [OF t [OF Some]] b(5) by auto
    with at null q b(1,3,4) Some show ?thesis by (auto simp: filter_compress_query_def key_pos_def)
  qed
qed

section \<open>The plain layout\<close>

definition plain_layout :: "filter_compress_manager \<Rightarrow> storage_manager \<Rightarrow> bool" where
  "plain_layout z s \<longleftrightarrow> fz_index_type z = 0 \<and>
     (\<exists>b. fz_bitmark z = Some b \<and> marks_for s b \<and> bm_mem b = bm_mem (st_null s)) \<and>
     (\<exists>dat. fz_data z = Some dat \<and> unat (st_row_limit s) * unat (fz_unit_size z) < 4294967296 \<and>
        (\<forall>d < st_row_limit s. rd_range dat (unat d * unat (fz_unit_size z)) (unat (fz_unit_size z)) =
           Some (take (unat (fz_unit_size z)) (st_cell s (unat d)))))"

lemma plain_layout_query:
  assumes z: "plain_layout z s" and c: "column s junk" and d: "d < st_row_limit s"
  shows "filter_compress_query z d = Some (cut_answer s (fz_unit_size z) d)"
proof -
  let ?u = "unat (fz_unit_size z)"
  obtain b dat where b: "fz_bitmark z = Some b" "marks_for s b" "bm_mem b = bm_mem (st_null s)" "fz_data z = Some dat"
    "rd_range dat (unat d * ?u) ?u = Some (take ?u (st_cell s (unat d)))" "unat (st_row_limit s) * ?u < 4294967296"
    "fz_index_type z = 0" using z d by (auto simp: plain_layout_def)
  have "unat d * ?u \<le> unat (st_row_limit s) * ?u" using d by (intro mult_le_mono1) (simp add: word_less_nat_alt)
  then have "unat (d * fz_unit_size z) = unat d * ?u" using b(6) by (rule unat_times_small)
  then have "value_at z d = Some ((no_value z)\<lparr>ld_data := take ?u (st_cell s (unat d)), ld_len := fz_unit_size z\<rparr>)"
    using b(4,5) by (simp add: value_at_def)
  then show ?thesis
    using null_marks_query [OF c d b(2,3)] b(1,7)
    by (auto simp: filter_compress_query_def cut_answer_def no_value_def row_key_def st_cells_def)
qed

lemma plain_loop_writes:
  assumes "column s junk" and "\<forall>i \<in> set is. i < st_row_limit s" and "distinct is"
    and "length dat = unat (st_row_limit s) * unat u" and "length dat < 4294967296" and "unat u \<le> unat (st_value_size s)"
  shows "\<exists>dat'. plain_loop s u is dat = Some dat' \<and> length dat' = length dat \<and>
    (\<forall>i \<in> set is. rd_range dat' (unat i * unat u) (unat u) = Some (take (unat u) (st_cell s (unat i)))) \<and>
    (\<forall>i. i \<notin> set is \<longrightarrow> rd_range dat' (unat i * unat u) (unat u) = rd_range dat (unat i * unat u) (unat u))"
  using assms
proof (induction "is" arbitrary: dat)
  case (Cons i "is")
  let ?c = "take (unat u) (st_cell s (unat i))"
  have s: "storage_ok s" and i: "unat i < unat (st_row_limit s)"
    using Cons.prems(1,2) by (simp_all add: column_def unat_less_iff)
  obtain m where m: "st_mem s = Some m" "length m = unat (st_value_size s) * unat (st_row_limit s)" using s by (rule storage_okE)
  have r: "rd_range m (st_offset s i) (unat u) = Some ?c"
    using st_offset_exact [OF s, of i] i m cell_in_region [OF i, of "unat (st_value_size s)"] Cons.prems(6)
    by (simp add: rd_range_def st_cell_def)
  have le: "unat i * unat u + unat u \<le> length dat"
    using mult_le_mono1 [of "Suc (unat i)" "unat (st_row_limit s)" "unat u"] i Cons.prems(4) by simp
  have off: "unat (i * u) = unat i * unat u" using unat_times_small [of i u "length dat"] le Cons.prems(5) by simp
  have len: "length ?c = unat u" using length_st_cell [OF s i] Cons.prems(6) by simp
  obtain d1 where w: "wr_range dat (unat i * unat u) ?c = Some d1" using le len by (simp add: wr_range_def)
  have l1: "length d1 = length dat" by (rule wr_range_length [OF w])
  have same: "rd_range d1 (unat i * unat u) (unat u) = Some ?c" using rd_wr_range_same [OF w] len by simp
  have other: "rd_range d1 (unat j * unat u) (unat u) = rd_range dat (unat j * unat u) (unat u)" if "j \<noteq> i" for j
    using blocks_apart [of "unat j" "unat i" "unat u"] that len
    by (intro rd_wr_range_disjoint [OF w]) (auto simp: word_unat_eq_iff)
  obtain d2 where "plain_loop s u is d1 = Some d2" "length d2 = length d1"
    "\<forall>i \<in> set is. rd_range d2 (unat i * unat u) (unat u) = Some (take (unat u) (st_cell s (unat i)))"
    "\<forall>i. i \<notin> set is \<longrightarrow> rd_range d2 (unat i * unat u) (unat u) = rd_range d1 (unat i * unat u) (unat u)"
    using Cons.IH [of d1] Cons.prems l1 by auto
  then show ?case using m(1) r off w l1 same other Cons.prems(3) by auto
qed simp

section \<open>Marks\<close>

lemma compress_bitmark_ok:
  assumes f: "f = ws @ ''/'' @ name @ ''.bit''" and os: "os_ok os f" and len: "length f < FILENAME_MAX_LENGTH"
    and n: "n = unat (st_row_limit s) div 8 + 1" "n < 2147483648"
  obtains b where "compress_bitmark os fs ws name (st_row_limit s) =
      Some (b, fs(f \<mapsto> file_bytes fs f @ replicate (n - length (file_bytes fs f)) 0))"
    and "marks_for s b" and "bm_mem b = Some (pad_to n (file_bytes fs f))" and "bm_file_name b = f"
proof -
  let ?b = "\<lparr>bm_file_name = f, bm_mem = None, bm_row_limit = st_row_limit s\<rparr>"
  have sz: "unat (BITMARK_MMAP_SIZE ?b) = n" using unat_BITMARK_MMAP_SIZE [of ?b] n(1) by simp
  have m: "get_mmap_memory os fs f (BITMARK_MMAP_SIZE ?b) =
      (Some (pad_to n (file_bytes fs f)), fs(f \<mapsto> file_bytes fs f @ replicate (n - length (file_bytes fs f)) 0))"
    using get_mmap_memory_small [OF os, of "BITMARK_MMAP_SIZE ?b" fs] n(2) unfolding sz by (simp add: n(1))
  have nm: "sprintf_name (ws @ ''/'' @ name @ ''.bit'') = Some f" unfolding f [symmetric] sprintf_name_def using len by simp
  have "compress_bitmark os fs ws name (st_row_limit s) =
      Some (?b\<lparr>bm_mem := Some (pad_to n (file_bytes fs f))\<rparr>, fs(f \<mapsto> file_bytes fs f @ replicate (n - length (file_bytes fs f)) 0))"
    unfolding compress_bitmark_def bitmark_init_def bitmark_config.select_convs nm using m by simp
  then show ?thesis by (rule that) (simp_all add: marks_for_def bitmark_ok_def n(1))
qed

lemma copy_null_marks_ok:
  assumes "column s junk" and "marks_for s b"
  obtains b' where "copy_null_marks s b = Some b'" and "marks_for s b'" and "bm_mem b' = bm_mem (st_null s)"
    and "bm_file_name b' = bm_file_name b"
proof -
  have s: "storage_ok s" using assms(1) by (simp add: column_def)
  obtain null where null: "bm_mem (st_null s) = Some null" "length null = unat (st_row_limit s) div 8 + 1"
    using s by (auto simp: storage_ok_def bitmark_ok_def split: option.splits)
  obtain m where m: "bm_mem b = Some m" "length m = unat (st_row_limit s) div 8 + 1"
    using assms(2) by (auto simp: marks_for_def bitmark_ok_def split: option.splits)
  have sz: "unat (st_row_limit s div BYTE_SIZE + 1) = unat (st_row_limit s) div 8 + 1"
  proof -
    have lim: "bm_row_limit (st_null s) = st_row_limit s" using s by (simp add: storage_ok_def)
    show ?thesis using unat_BITMARK_MMAP_SIZE [of "st_null s"] unfolding BITMARK_MMAP_SIZE_def lim .
  qed
  have len: "unat (st_row_limit s div BYTE_SIZE + 1) = length null" using sz null(2) by (rule trans [OF _ sym])
  have r: "rd_range null 0 (length null) = Some null" by (simp add: rd_range_def)
  have w: "wr_range m 0 null = Some null" using null(2) m(2) by (simp add: wr_range_def)
  have "copy_null_marks s b = Some (b\<lparr>bm_mem := Some null\<rparr>)"
    unfolding copy_null_marks_def null(1) m(1) len by (simp add: r w)
  then show ?thesis by (rule that) (use null assms(2) in \<open>simp_all add: marks_for_def bitmark_ok_def\<close>)
qed

section \<open>Loading\<close>

lemma rows_simps: "set (rows n) = {i. i < n}" "distinct (rows n)" "length (rows n) = unat n"
proof -
  have u: "unat (word_of_nat k :: u32) = k" if "k < unat n" for k
    using that u32_bound [of n] by (intro unat_word_of_nat_u32) linarith
  show "set (rows n) = {i. i < n}"
  proof (intro set_eqI iffI)
    fix i assume "i \<in> {i. i < n}"
    then have "unat i < unat n" by (simp add: word_less_nat_alt)
    moreover have "i = word_of_nat (unat i)" by simp
    ultimately show "i \<in> set (rows n)" unfolding rows_def by force
  qed (auto simp: rows_def word_less_nat_alt u)
  show "distinct (rows n)" using u by (auto simp: rows_def distinct_map intro!: inj_onI) (metis u)
  show "length (rows n) = unat n" by (simp add: rows_def)
qed

definition values_of :: "storage_manager \<Rightarrow> u8 list \<Rightarrow> u64 list" where
  "values_of s junk = dict (row_key s junk) (rows (st_row_limit s)) []"

lemma values_of_simps:
  "length (values_of s junk) \<le> unat (st_row_limit s)" "d < st_row_limit s \<Longrightarrow> row_key s junk d = Some v \<Longrightarrow> v \<in> set (values_of s junk)"
  using length_dict [of "row_key s junk" "rows (st_row_limit s)" "[]"] dict_member [of d "rows (st_row_limit s)" "row_key s junk" v "[]"]
  by (simp_all add: values_of_def rows_simps)

definition filter_env :: "os \<Rightarrow> string \<Rightarrow> u32 \<Rightarrow> bool" where
  "filter_env os ws n \<longleftrightarrow> os_ok os (ws @ ''/filter_info_compress.dat'') \<and> os_ok os (ws @ ''/filter_compress.dat'') \<and>
     os_ok os (ws @ ''/filter_compress.idx'') \<and> os_ok os (ws @ ''/'' @ ''filter_compress'' @ ''.bit'') \<and>
     os_ok os (ws @ ''/'' @ ''bitmap_index'' @ ''.bit'') \<and> length ws + 25 < FILENAME_MAX_LENGTH \<and>
     0 < unat n \<and> unat n * 8 < 2147483648"

text \<open>The manager that loading starts from and the free files.\<close>

definition blank_filter :: "file_system \<Rightarrow> string \<Rightarrow> filter_compress_manager \<Rightarrow> bool" where
  "blank_filter fs ws z \<longleftrightarrow> fz_data_file_name z = ws @ ''/filter_compress.dat'' \<and> fz_index_file_name z = ws @ ''/filter_compress.idx'' \<and>
     fs (ws @ ''/filter_compress.dat'') = None \<and> fs (ws @ ''/filter_compress.idx'') = None \<and>
     fs (ws @ ''/'' @ ''bitmap_index'' @ ''.bit'') = None \<and> length (fz_info z) = 64 \<and> fz_index_type z = 0"

lemma map_fresh:
  assumes "os_ok os f" and "fs f = None" and "unat sz < 2147483648"
  shows "get_mmap_memory os fs f sz = (if sz = 0 then None else Some (replicate (unat sz) 0), fs(f \<mapsto> replicate (unat sz) 0))"
proof (cases "sz = 0")
  case True
  have "get_mmap_memory os fs f 0 = (None, fs(f \<mapsto> []))"
    using assms(1,2) by (simp add: get_mmap_memory_def open_file_ok ensure_file_size_def file_bytes_def)
  with True show ?thesis by simp
next
  case False
  then have "0 < unat sz" by (simp add: unat_eq_zero [symmetric])
  with get_mmap_memory_small [OF assms(1) this assms(3), of fs] assms(2) False show ?thesis
    by (simp add: pad_to_def file_bytes_def)
qed

lemma mem_or_empty_fresh: "mem_or_empty (if sz = 0 then None else Some (replicate (unat sz) 0)) = replicate (unat (sz :: u32)) 0"
  by (simp add: mem_or_empty_def)

lemma write_fields_ok:
  assumes "length (fz_info z) = 64"
  obtains i fs' where "write_fields fs z n v u x = Some (z\<lparr>fz_info := i, fz_n_row := n, fz_n_value := v, fz_unit_size := u,
    fz_idx_size := x\<rparr>, fs')"
proof -
  obtain i1 where 1: "put32 (fz_info z) 0 n = Some i1" "length i1 = 64" using put_le_some [of 0 4 "fz_info z" n] assms by auto
  obtain i2 where 2: "put32 i1 16 v = Some i2" "length i2 = 64" using put_le_some [of 16 4 i1 v] 1 by auto
  obtain i3 where 3: "put32 i2 32 u = Some i3" "length i3 = 64" using put_le_some [of 32 4 i2 u] 2 by auto
  from 1 2 3 show ?thesis using that by (simp add: write_fields_def mem_simps)
qed

definition set_fields :: "filter_compress_manager \<Rightarrow> u8 list \<Rightarrow> u32 \<Rightarrow> u32 \<Rightarrow> u32 \<Rightarrow> u8 \<Rightarrow> filter_compress_manager" where
  "set_fields z i n v u x = z\<lparr>fz_info := i, fz_n_row := n, fz_n_value := v, fz_unit_size := u, fz_idx_size := x\<rparr>"

lemma work_start:
  "holds_junk s junk value \<Longrightarrow> work_ok s junk u value (replicate (unat (st_row_limit s)) \<lparr>be_value = 0, be_pos = - 1\<rparr>) [] dat"
  by (simp add: work_ok_def tab_ok_empty dict_at_def)

lemma table_sizes:
  assumes "filter_env os ws (st_row_limit s)" and "unat (u :: u32) \<le> 8"
  shows "unat (word_of_nat (length (values_of s junk)) :: u32) = length (values_of s junk)"
    and "unat (word_of_nat (length (values_of s junk)) * u) = length (values_of s junk) * unat u"
    and "length (values_of s junk) * unat u < 2147483648"
proof -
  have n: "length (values_of s junk) \<le> unat (st_row_limit s)" "unat (st_row_limit s) * 8 < 2147483648"
    using values_of_simps(1) assms(1) by (simp_all add: filter_env_def)
  then show v: "unat (word_of_nat (length (values_of s junk)) :: u32) = length (values_of s junk)"
    by (intro unat_word_of_nat_u32) linarith
  have "length (values_of s junk) * unat u \<le> unat (st_row_limit s) * 8" using n(1) assms(2) by (rule mult_le_mono)
  with n(2) show l: "length (values_of s junk) * unat u < 2147483648" by linarith
  show "unat (word_of_nat (length (values_of s junk)) * u) = length (values_of s junk) * unat u"
    using unat_times_small [of "word_of_nat (length (values_of s junk))" u "length (values_of s junk) * unat u"] v l by simp
qed

lemma load_index_ok:
  assumes env: "filter_env os ws (st_row_limit s)" and z: "blank_filter fs ws z" and c: "column s junk"
    and v: "holds_junk s junk value" and u: "0 < unat u" "unat u \<le> unat (st_value_size s)"
    and nv: "nv = word_of_nat (length (values_of s junk))" and x: "x = idx_size_for nv"
  obtains z' fs' where "load_index os fs s u x value nv z = Some (Some (nv, z'), fs')" and "length (fz_info z') = 64"
    and "\<And>i n. index_layout (set_fields z' i n nv u x) s junk (values_of s junk)"
proof -
  let ?i = "ws @ ''/filter_compress.idx''" and ?d = "ws @ ''/filter_compress.dat''" and ?n = "st_row_limit s"
  let ?T = "values_of s junk"
  have u8: "unat u \<le> 8" using u(2) c by (simp add: column_def)
  note sz = table_sizes [OF env u8, of junk]
  have x4: "unat x \<le> 4" "0 < unat x" unfolding x by (simp_all add: idx_size_for_def)
  have n: "0 < unat ?n" "unat ?n * 8 < 2147483648" "os_ok os ?d" "os_ok os ?i" using env by (simp_all add: filter_env_def)
  have "unat ?n * unat x \<le> unat ?n * 4" using x4(1) by (rule mult_le_mono2)
  then have ix: "unat ?n * unat x < 2147483648" using n(2) by linarith
  then have ux: "unat (?n * ucast x) = unat ?n * unat x"
    using unat_times_small [of ?n "ucast x" "unat ?n * unat x"] by (simp add: unat_u8_u32)
  have nz: "?n * ucast x \<noteq> 0" using ux n(1) x4(2) by (metis mult_is_0 neq0_conv unat_0)
  have zz: "fz_index_file_name z = ?i" "fz_data_file_name z = ?d" "fs ?i = None" "(fs(?i \<mapsto> c)) ?d = None" "length (fz_info z) = 64" for c
    using z by (simp_all add: blank_filter_def)
  let ?fs1 = "fs(?i \<mapsto> replicate (unat ?n * unat x) 0)" and ?sz = "nv * u"
  have mi: "get_mmap_memory os fs ?i (?n * ucast x) = (Some (replicate (unat ?n * unat x) 0), ?fs1)"
    using map_fresh [of os ?i fs "?n * ucast x"] n(4) zz(3) ux ix nz by simp
  have md: "get_mmap_memory os ?fs1 ?d ?sz = (if ?sz = 0 then None else Some (replicate (unat ?sz) 0), ?fs1(?d \<mapsto> replicate (unat ?sz) 0))"
    using map_fresh [of os ?d ?fs1 ?sz] n(3) zz(4) sz(2,3) nv by simp
  obtain dat' idx' where l: "index_loop s u x (rows ?n) value (replicate (unat ?n) \<lparr>be_value = 0, be_pos = - 1\<rparr>) 0
      (replicate (unat ?sz) 0) (replicate (unat ?n * unat x) 0) = Some (Some (nv, dat', idx'))"
    "length dat' = unat ?sz" "dict_at u dat' ?T"
    "\<forall>i < ?n. idx_entry x idx' i = Some (pos_bytes x (key_pos ?T (row_key s junk i)))"
    using index_loop_writes [OF c _ rows_simps(2) [of ?n] work_start [OF v, of u "replicate (unat ?sz) 0"] _ u8,
        of "replicate (unat ?n * unat x) 0" x] sz(2,3) ix nv
    by (auto simp: rows_simps values_of_def)
  have none: "?sz = 0 \<longleftrightarrow> ?T = []" using sz(2) u(1) nv by (metis length_0_conv mult_is_0 neq0_conv unat_0 unat_eq_zero)
  define z' where "z' = z\<lparr>fz_data := map_option (\<lambda>_. dat') (if ?sz = 0 then None else Some (replicate (unat ?sz) 0)),
    fz_index := Some idx', fz_bitmark := None, fz_index_type := 1\<rparr>"
  have "\<exists>fs'. load_index os fs s u x value nv z = Some (Some (nv, z'), fs')"
    unfolding load_index_def Let_def zz(1,2) mi prod.case md mem_or_empty_fresh z'_def using l(1)
    by (simp add: mem_or_empty_def)
  moreover have "index_layout (set_fields z' i n nv u x) s junk ?T" for i n
    using l(2-4) none sz(2,3) x nv unfolding index_layout_def dict_file_def set_fields_def z'_def by (auto simp: nv)
  ultimately show ?thesis using that zz(5) by (auto simp: z'_def)
qed

lemma pad_fresh: "fs f = None \<Longrightarrow> pad_to n (file_bytes fs f) = replicate n 0"
  by (simp add: pad_to_def file_bytes_def)

lemma zero_unmarked: "bm_mem b = Some (replicate n 0) \<Longrightarrow> \<not> marked b i"
  by (simp add: marked_def bm_bit_def)

lemma bitmark_env:
  assumes "filter_env os ws n"
  shows "os_ok os (ws @ ''/'' @ ''filter_compress'' @ ''.bit'')" and "os_ok os (ws @ ''/'' @ ''bitmap_index'' @ ''.bit'')"
    and "length (ws @ ''/'' @ ''filter_compress'' @ ''.bit'') < FILENAME_MAX_LENGTH"
    and "length (ws @ ''/'' @ ''bitmap_index'' @ ''.bit'') < FILENAME_MAX_LENGTH" and "unat n div 8 + 1 < 2147483648"
proof -
  show "os_ok os (ws @ ''/'' @ ''filter_compress'' @ ''.bit'')" "os_ok os (ws @ ''/'' @ ''bitmap_index'' @ ''.bit'')"
    "length (ws @ ''/'' @ ''filter_compress'' @ ''.bit'') < FILENAME_MAX_LENGTH"
    "length (ws @ ''/'' @ ''bitmap_index'' @ ''.bit'') < FILENAME_MAX_LENGTH"
    using assms by (simp_all add: filter_env_def)
  have "unat n < 268435456" using assms by (simp add: filter_env_def)
  moreover have "unat n div 8 \<le> unat n" by simp
  ultimately show "unat n div 8 + 1 < 2147483648" by linarith
qed

lemma null_marks_saved:
  assumes env: "filter_env os ws (st_row_limit s)" and c: "column s junk"
  obtains b b' fs' where "compress_bitmark os fs ws ''filter_compress'' (st_row_limit s) = Some (b, fs')"
    and "copy_null_marks s b = Some b'" and "marks_for s b'" and "bm_mem b' = bm_mem (st_null s)"
    and "bm_file_name b' = ws @ ''/'' @ ''filter_compress'' @ ''.bit''"
    and "\<forall>f. f \<noteq> ws @ ''/'' @ ''filter_compress'' @ ''.bit'' \<longrightarrow> fs' f = fs f"
proof -
  let ?f = "ws @ ''/'' @ ''filter_compress'' @ ''.bit''"
  note e = bitmark_env [OF env]
  obtain b where b: "compress_bitmark os fs ws ''filter_compress'' (st_row_limit s) =
      Some (b, fs(?f \<mapsto> file_bytes fs ?f @ replicate (unat (st_row_limit s) div 8 + 1 - length (file_bytes fs ?f)) 0))"
    "marks_for s b" "bm_file_name b = ?f" by (rule compress_bitmark_ok [OF refl e(1,3) refl e(5)])
  obtain b' where b': "copy_null_marks s b = Some b'" "marks_for s b'" "bm_mem b' = bm_mem (st_null s)" "bm_file_name b' = bm_file_name b"
    by (rule copy_null_marks_ok [OF c b(2)])
  show ?thesis by (rule that [OF b(1) b'(1-3)]) (use b'(4) b(3) in simp_all)
qed

lemma null_count:
  "word_of_nat (length (filter (\<lambda>i. row_key s junk i = None) (rows (st_row_limit s)))) = (0 :: u32) \<longleftrightarrow>
    (\<forall>d < st_row_limit s. row_key s junk d \<noteq> None)"
proof -
  let ?k = "length (filter (\<lambda>i. row_key s junk i = None) (rows (st_row_limit s)))"
  have "?k \<le> unat (st_row_limit s)" using length_filter_le [of _ "rows (st_row_limit s)"] by (simp add: rows_simps)
  then have "unat (word_of_nat ?k :: u32) = ?k" using u32_bound [of "st_row_limit s"] by (intro unat_word_of_nat_u32) linarith
  then have "word_of_nat ?k = (0 :: u32) \<longleftrightarrow> ?k = 0" by (metis unat_0 unat_eq_zero)
  then show ?thesis by (auto simp: filter_empty_conv rows_simps)
qed

lemma save_nulls_ok:
  assumes env: "filter_env os ws (st_row_limit s)" and c: "column s junk"
    and nn: "nn = 0 \<longleftrightarrow> (\<forall>d < st_row_limit s. row_key s junk d \<noteq> None)"
  obtains b fs' where "save_nulls os fs ws s nn = Some (b, fs')" and "nulls_kept s junk b"
proof (cases "nn = 0")
  case True
  with nn have "nulls_kept s junk None" by (simp add: nulls_kept_def)
  with True show ?thesis by (intro that [of None fs]) (simp_all add: save_nulls_def)
next
  case False
  obtain b b' fs' where b: "compress_bitmark os fs ws ''filter_compress'' (st_row_limit s) = Some (b, fs')"
    "copy_null_marks s b = Some b'" "marks_for s b'" "bm_mem b' = bm_mem (st_null s)"
    using env c by (rule null_marks_saved)
  then have "save_nulls os fs ws s nn = Some (Some b', bitmark_checkpoint fs' b')" using False by (simp add: save_nulls_def)
  then show ?thesis by (rule that) (use b(3,4) in \<open>simp add: nulls_kept_def\<close>)
qed

lemma load_bitmap_ok:
  assumes env: "filter_env os ws (st_row_limit s)" and z: "blank_filter fs ws z" and c: "column s junk"
    and v: "holds_junk s junk value" and u: "0 < unat u" "unat u \<le> unat (st_value_size s)"
    and two: "length (values_of s junk) = 2" "nv = 2"
    and nn: "nn = (0 :: u32) \<longleftrightarrow> (\<forall>d < st_row_limit s. row_key s junk d \<noteq> None)"
  obtains z' fs' where "load_bitmap os fs ws s u value nv nn z = Some (Some (nv, z'), fs')" and "length (fz_info z') = 64"
    and "\<And>i n x. bitmap_layout (set_fields z' i n nv u x) s junk (values_of s junk)"
proof -
  let ?b = "ws @ ''/'' @ ''bitmap_index'' @ ''.bit''" and ?d = "ws @ ''/filter_compress.dat''" and ?n = "st_row_limit s"
  let ?T = "values_of s junk" and ?sz = "nv * u" and ?m = "unat (st_row_limit s) div 8 + 1"
  have u8: "unat u \<le> 8" using u(2) c by (simp add: column_def)
  have nv: "nv = word_of_nat (length ?T)" using two by simp
  note sz = table_sizes [OF env u8, of junk, folded nv] and e = bitmark_env [OF env]
  have zz: "fz_data_file_name z = ?d" "fs ?d = None" "(fs(?d \<mapsto> x)) ?b = None" "length (fz_info z) = 64" for x
    using z by (simp_all add: blank_filter_def)
  let ?fs1 = "fs(?d \<mapsto> replicate (unat ?sz) 0)"
  have "unat ?sz \<noteq> 0" unfolding sz(2) two(1) using u(1) by simp
  then have nz: "?sz \<noteq> 0" by (metis unat_0)
  have md: "get_mmap_memory os fs ?d ?sz = (Some (replicate (unat ?sz) 0), ?fs1)"
    using map_fresh [of os ?d fs ?sz] env zz(2) sz(2,3) nz by (simp add: filter_env_def)
  obtain bi fs2 where bi: "compress_bitmark os ?fs1 ws ''bitmap_index'' ?n = Some (bi, fs2)" "marks_for s bi"
    "bm_mem bi = Some (replicate ?m 0)"
    using compress_bitmark_ok [OF refl e(2,4) refl e(5), of ?fs1] pad_fresh [of ?fs1 ?b ?m, OF zz(3)] by metis
  obtain dat' bi' where l: "bitmap_loop s u (rows ?n) value (replicate (unat ?n) \<lparr>be_value = 0, be_pos = - 1\<rparr>) 0
      (replicate (unat ?sz) 0) bi = Some (Some (nv, dat', bi'))" "length dat' = unat ?sz" "dict_at u dat' ?T" "marks_for s bi'"
    "\<forall>i < ?n. marked bi' i \<longleftrightarrow> key_pos ?T (row_key s junk i) = 1"
    using bitmap_loop_writes [OF c _ rows_simps(2) [of ?n] work_start [OF v, of u "replicate (unat ?sz) 0"] _ u8 _ _ bi(2)]
      sz(2,3) nv zero_unmarked [OF bi(3)] by (auto simp: rows_simps values_of_def)
  obtain b fs3 where b: "save_nulls os fs2 ws s nn = Some (b, fs3)" "nulls_kept s junk b"
    by (rule save_nulls_ok [OF env c nn])
  define z' where "z' = z\<lparr>fz_data := Some dat', fz_bitmap_index := Some bi', fz_bitmark := b, fz_index_type := 2\<rparr>"
  have "\<exists>fs'. load_bitmap os fs ws s u value nv nn z = Some (Some (nv, z'), fs')"
    unfolding load_bitmap_def Let_def zz(1) md prod.case bi(1) Option.bind.bind_lunit b(1) z'_def using l(1)
    by (simp add: mem_or_empty_def)
  moreover have "bitmap_layout (set_fields z' i n nv u x) s junk ?T" for i n x
    using l(2-5) b(2) two(1) sz(2,3) unfolding bitmap_layout_def dict_file_def set_fields_def z'_def by auto
  ultimately show ?thesis using that zz(4) by (auto simp: z'_def)
qed

lemma load_plain_ok:
  assumes env: "filter_env os ws (st_row_limit s)" and z: "blank_filter fs ws z" and c: "column s junk"
    and u: "0 < unat u" "unat u \<le> unat (st_value_size s)"
  obtains z' fs' where "load_plain os fs ws s u z = Some (z', fs')" and "length (fz_info z') = 64"
    and "\<And>i n v x. plain_layout (set_fields z' i n v u x) s"
proof -
  let ?d = "ws @ ''/filter_compress.dat''" and ?n = "st_row_limit s" and ?sz = "st_row_limit s * u"
  have n: "0 < unat ?n" "unat ?n * 8 < 2147483648" "os_ok os ?d" using env by (simp_all add: filter_env_def)
  have u8: "unat u \<le> 8" using u(2) c by (simp add: column_def)
  have "unat ?n * unat u \<le> unat ?n * 8" using u8 by (rule mult_le_mono2)
  then have small: "unat ?n * unat u < 2147483648" using n(2) by linarith
  then have sz: "unat ?sz = unat ?n * unat u" by (intro unat_times_small [where n = "unat ?n * unat u"]) simp_all
  have nz: "?sz \<noteq> 0" using sz n(1) u(1) by (metis mult_is_0 neq0_conv unat_0)
  obtain b b' fs1 where b: "compress_bitmark os fs ws ''filter_compress'' ?n = Some (b, fs1)" "copy_null_marks s b = Some b'"
    "marks_for s b'" "bm_mem b' = bm_mem (st_null s)" "bm_file_name b' = ws @ ''/'' @ ''filter_compress'' @ ''.bit''"
    "\<forall>f. f \<noteq> ws @ ''/'' @ ''filter_compress'' @ ''.bit'' \<longrightarrow> fs1 f = fs f" using env c by (rule null_marks_saved)
  define fs2 where "fs2 = bitmark_checkpoint fs1 b'"
  have zz: "fz_data_file_name z = ?d" "fs ?d = None" "length (fz_info z) = 64" using z by (simp_all add: blank_filter_def)
  have "fs2 ?d = None" using b(5,6) zz(2) by (simp add: fs2_def bitmark_checkpoint_def msync_file_def split: option.splits)
  then have md: "get_mmap_memory os fs2 ?d ?sz = (Some (replicate (unat ?sz) 0), fs2(?d \<mapsto> replicate (unat ?sz) 0))"
    using map_fresh [of os ?d fs2 ?sz] n(3) sz small nz by simp
  obtain dat' where l: "plain_loop s u (rows ?n) (replicate (unat ?sz) 0) = Some dat'"
    "\<forall>i < ?n. rd_range dat' (unat i * unat u) (unat u) = Some (take (unat u) (st_cell s (unat i)))"
    using plain_loop_writes [OF c _ rows_simps(2) [of ?n] _ _ u(2), of "replicate (unat ?sz) 0"] sz small
    by (auto simp: rows_simps)
  define z' where "z' = z\<lparr>fz_data := Some dat', fz_index := None, fz_bitmark := Some b', fz_index_type := 0\<rparr>"
  have "u \<noteq> 0" using u(1) by auto
  then have "\<exists>fs'. load_plain os fs ws s u z = Some (z', fs')"
    using b(1,2) md l(1) zz(1) by (simp add: load_plain_def Let_def z'_def mem_or_empty_def flip: fs2_def)
  moreover have "plain_layout (set_fields z' i n v u x) s" for i n v x
    using b(3,4) l(2) small by (simp add: plain_layout_def set_fields_def z'_def)
  ultimately show ?thesis using that zz(3) by (auto simp: z'_def)
qed

section \<open>Properties\<close>

text \<open>What the compressed column may answer for a value of the column: the front of it, as long as
  the longest value stored.\<close>

definition cut_value :: "u32 \<Rightarrow> low_data \<Rightarrow> low_data" where
  "cut_value unit_size r = r\<lparr>ld_data := take (unat unit_size) (ld_data r), ld_len := if ld_len r = 0 then 0 else unit_size\<rparr>"

lemma cut_answer_storage:
  assumes "storage_ok s" and "d < st_row_limit s" and "unat u \<le> unat (st_value_size s)"
  shows "Some (cut_answer s u d) = map_option (cut_value u) (storage_query s d)"
proof -
  have "(ucast (st_value_size s) :: u32) \<noteq> 0" using assms(1) by (auto simp: storage_ok_def unat_ucast_u16 simp flip: unat_eq_zero)
  then show ?thesis using storage_query_cells [OF assms(1,2)] assms(3)
    by (simp add: cut_answer_def cut_value_def min_def split: option.splits)
qed

lemma filter_blank:
  assumes env: "filter_env os ws n" and "fs (ws @ ''/'' @ ''bitmap_index'' @ ''.bit'') = None"
  obtains z fs' where "filter_compress_init os (fs(ws @ ''/filter_info_compress.dat'' := None, ws @ ''/filter_compress.dat'' := None,
      ws @ ''/filter_null_compress.dat'' := None, ws @ ''/filter_compress.idx'' := None)) ws = Some (Some z, fs')"
    and "blank_filter fs' ws z" and "fz_info_file_name z = ws @ ''/filter_info_compress.dat''"
    and "fs' (ws @ ''/'' @ ''filter_compress'' @ ''.bit'') = fs (ws @ ''/'' @ ''filter_compress'' @ ''.bit'')"
proof -
  let ?i = "ws @ ''/filter_info_compress.dat''"
  let ?fs = "fs(?i := None, ws @ ''/filter_compress.dat'' := None,
      ws @ ''/filter_null_compress.dat'' := None, ws @ ''/filter_compress.idx'' := None)"
  have ok: "os_ok os ?i" "length ws + 25 < FILENAME_MAX_LENGTH" using env by (simp_all add: filter_env_def)
  have m: "get_mmap_memory os ?fs ?i 64 = (Some (replicate 64 0), ?fs(?i \<mapsto> replicate 64 0))"
    using map_fresh [of os ?i ?fs 64] ok(1) by simp
  have g: "get32 (replicate 64 0) 0 = Some 0" by (simp add: get_le_def rd_range_def le_word_zeros)
  show ?thesis
    using that m g ok(2) assms(2)
    by (auto simp: filter_compress_init_def blank_filter_def sprintf_name_def Let_def)
qed

definition serves_column :: "storage_manager \<Rightarrow> u32 \<Rightarrow> compress_result \<Rightarrow> bool" where
  "serves_column s u r \<longleftrightarrow> (case r of Failed \<Rightarrow> False | Not_worthwhile \<Rightarrow> unat u = unat (st_value_size s)
     | Compressed z \<Rightarrow> \<forall>d < st_row_limit s. filter_compress_query z d = map_option (cut_value u) (storage_query s d))"

lemma write_fields_set: "length (fz_info z) = 64 \<Longrightarrow> \<exists>i fs'. write_fields fs z n v u x = Some (set_fields z i n v u x, fs')"
  unfolding set_fields_def by (rule write_fields_ok [of z fs n v u x]) blast+

lemma choose_layout_serves:
  assumes env: "filter_env os ws (st_row_limit s)" and z: "blank_filter fs ws z" and c: "column s junk"
    and v: "holds_junk s junk value" and u: "0 < unat u" "unat u \<le> unat (st_value_size s)"
    and nv: "nv = word_of_nat (length (values_of s junk))" and nn: "nn = 0 \<longleftrightarrow> (\<forall>d < st_row_limit s. row_key s junk d \<noteq> None)"
  shows "\<exists>r fs'. choose_layout os fs ws s u value nv nn z = Some (r, fs') \<and> serves_column s u r"
proof -
  let ?n = "st_row_limit s" and ?T = "values_of s junk" and ?x = "idx_size_for nv"
  have n: "unat ?n * 8 < 2147483648" using env by (simp add: filter_env_def)
  have T: "unat nv = length ?T" using table_sizes(1) [OF env, of 0 junk] nv by simp
  have st: "storage_ok s" using c by (simp add: column_def)
  have serve: "serves_column s u (Compressed y)" if "\<And>d. d < ?n \<Longrightarrow> filter_compress_query y d = Some (cut_answer s u d)" for y
    using that cut_answer_storage [OF st _ u(2)] by (simp add: serves_column_def)
  consider (bitmap) "nv = 2" | (index) "nv \<noteq> 2" "?n * ucast ?x + nv * u < ?n div 8 + 1 + ?n * u"
    | (plain) "nv \<noteq> 2" "\<not> ?n * ucast ?x + nv * u < ?n div 8 + 1 + ?n * u" "u < ucast (st_value_size s)"
    | (none) "nv \<noteq> 2" "\<not> ?n * ucast ?x + nv * u < ?n div 8 + 1 + ?n * u" "\<not> u < ucast (st_value_size s)" by blast
  then show ?thesis
  proof cases
    case bitmap
    then have two: "length ?T = 2" using T by simp
    obtain z' fs' where l: "load_bitmap os fs ws s u value nv nn z = Some (Some (nv, z'), fs')" "length (fz_info z') = 64"
      "\<And>i n x. bitmap_layout (set_fields z' i n nv u x) s junk ?T"
      using load_bitmap_ok [OF env z c v u two bitmap nn] by blast
    obtain i fs2 where w: "write_fields fs' z' ?n nv u ?x = Some (set_fields z' i ?n nv u ?x, fs2)"
      using write_fields_set [OF l(2)] by blast
    have "filter_compress_query (set_fields z' i ?n nv u ?x) d = Some (cut_answer s u d)" if "d < ?n" for d
      using bitmap_layout_query [OF l(3) c that values_of_simps(2) [OF that], of i ?n ?x] u(2) by (simp add: set_fields_def)
    with l(1) w serve bitmap show ?thesis by (simp add: choose_layout_def Let_def)
  next
    case index
    obtain z' fs' where l: "load_index os fs s u ?x value nv z = Some (Some (nv, z'), fs')" "length (fz_info z') = 64"
      "\<And>i n. index_layout (set_fields z' i n nv u ?x) s junk ?T"
      using load_index_ok [OF env z c v u nv refl] by blast
    obtain i fs2 where w: "write_fields fs' z' ?n nv u ?x = Some (set_fields z' i ?n nv u ?x, fs2)"
      using write_fields_set [OF l(2)] by blast
    have "filter_compress_query (set_fields z' i ?n nv u ?x) d = Some (cut_answer s u d)" if "d < ?n" for d
      using index_layout_query [OF l(3) c that values_of_simps(2) [OF that], of i ?n] u(2) n values_of_simps(1) [of s junk]
      by (simp add: set_fields_def)
    with l(1) w serve index show ?thesis by (simp add: choose_layout_def Let_def)
  next
    case plain
    obtain z' fs' where l: "load_plain os fs ws s u z = Some (z', fs')" "length (fz_info z') = 64"
      "\<And>i n v x. plain_layout (set_fields z' i n v u x) s"
      using load_plain_ok [OF env z c u] by blast
    obtain i fs2 where w: "write_fields fs' z' ?n nv u ?x = Some (set_fields z' i ?n nv u ?x, fs2)"
      using write_fields_set [OF l(2)] by blast
    have "filter_compress_query (set_fields z' i ?n nv u ?x) d = Some (cut_answer s u d)" if "d < ?n" for d
      using plain_layout_query [OF l(3) c that, of i ?n nv ?x] by (simp add: set_fields_def)
    with l(1) w serve plain show ?thesis by (simp add: choose_layout_def Let_def)
  next
    case none
    have "unat u = unat (st_value_size s)" using none(3) u(2) by (simp add: word_less_nat_alt unat_ucast_u16)
    with none show ?thesis by (simp add: choose_layout_def Let_def serves_column_def)
  qed
qed

text \<open>Loading is the choice of a layout for the counted values.\<close>

lemma load_counts:
  assumes "storage_ok s" and "unat (st_value_size s) \<le> 8" and "length value = 8"
    and "work_space_of (st_file_name s) = Some ws" and env: "filter_env os ws (st_row_limit s)"
    and bit: "fs (ws @ ''/'' @ ''bitmap_index'' @ ''.bit'') = None"
  defines "junk \<equiv> drop (unat (st_value_size s)) value"
  obtains z fs1 value' where "filter_compress_load os fs value s u = choose_layout os fs1 ws s u value' (word_of_nat (length (values_of s junk)))
      (word_of_nat (length (filter (\<lambda>i. row_key s junk i = None) (rows (st_row_limit s))))) z"
    and "column s junk" and "holds_junk s junk value'" and "blank_filter fs1 ws z"
    and "fz_info_file_name z = ws @ ''/filter_info_compress.dat''"
    and "fs1 (ws @ ''/'' @ ''filter_compress'' @ ''.bit'') = fs (ws @ ''/'' @ ''filter_compress'' @ ''.bit'')"
proof -
  let ?key = "row_key s junk" and ?n = "st_row_limit s"
  have c: "column s junk" and j: "holds_junk s junk value" using assms(1-3) by (simp_all add: column_def holds_junk_def junk_def)
  obtain z fs1 where z: "filter_compress_init os (fs(ws @ ''/filter_info_compress.dat'' := None, ws @ ''/filter_compress.dat'' := None,
      ws @ ''/filter_null_compress.dat'' := None, ws @ ''/filter_compress.idx'' := None)) ws = Some (Some z, fs1)"
    "blank_filter fs1 ws z" "fz_info_file_name z = ws @ ''/filter_info_compress.dat''"
    "fs1 (ws @ ''/'' @ ''filter_compress'' @ ''.bit'') = fs (ws @ ''/'' @ ''filter_compress'' @ ''.bit'')"
    using env bit by (rule filter_blank)
  obtain value' where v: "count_loop s (rows ?n) value (replicate (unat ?n) \<lparr>be_value = 0, be_pos = 0\<rparr>) 0 0 =
      Some (Some (value', word_of_nat (length (values_of s junk)), word_of_nat (length (filter (\<lambda>i. ?key i = None) (rows ?n)))))"
    "holds_junk s junk value'"
    using count_loop_dict [OF c _ j tab_ok_empty [of 0 "\<lambda>_. 1" "unat ?n"], of "rows ?n" 0 0] by (auto simp: rows_simps values_of_def)
  show ?thesis by (rule that [OF _ c v(2) z(2-4)]) (use z(1) v(1) assms(4) in \<open>simp add: filter_compress_load_def\<close>)
qed

text \<open>C14: Compressing a filter column of values of up to eight bytes ends without an error if its files can
  be created, their names fit, the rows fit into the mapped size, no bit map is left over from an earlier attempt
  (it is not removed), and the unit size is at least one and at most the value size.  It is
  declined only if the unit size is the value size.  If it is not declined then, whichever of
  the three layouts was chosen, the compressed column answers for every document the null
  marks of the column and of each value the first bytes up to the unit size, with the
  unit size as its length.\<close>

theorem filter_compress_equivalent:
  assumes "storage_ok s" and "unat (st_value_size s) \<le> 8" and "length value = 8"
    and "0 < unat unit_size" and "unat unit_size \<le> unat (st_value_size s)"
    and "work_space_of (st_file_name s) = Some ws" and "filter_env os ws (st_row_limit s)"
    and "fs (ws @ ''/'' @ ''bitmap_index'' @ ''.bit'') = None"
  shows "\<exists>r fs'. filter_compress_load os fs value s unit_size = Some (r, fs') \<and> serves_column s unit_size r"
proof (rule load_counts [where fs = fs and u = unit_size, OF assms(1-3,6-8)])
  fix z fs1 value'
  let ?junk = "drop (unat (st_value_size s)) value"
  assume l: "filter_compress_load os fs value s unit_size = choose_layout os fs1 ws s unit_size value' (word_of_nat (length (values_of s ?junk)))
      (word_of_nat (length (filter (\<lambda>i. row_key s ?junk i = None) (rows (st_row_limit s))))) z"
    and c: "column s ?junk" and v: "holds_junk s ?junk value'" and z: "blank_filter fs1 ws z"
  show ?thesis unfolding l by (rule choose_layout_serves [OF assms(7) z c v assms(4,5) refl null_count])
qed

section \<open>Restart\<close>

lemma get_mmap_frame: "get_mmap_memory os fs f sz = (m, fs') \<Longrightarrow> g \<noteq> f \<Longrightarrow> fs' g = fs g"
  by (auto simp: get_mmap_memory_def open_file_def ensure_file_size_def split: option.splits prod.splits if_splits)

lemma compress_bitmark_frame:
  "compress_bitmark os fs ws name n = Some (b, fs') \<Longrightarrow> g \<noteq> ws @ ''/'' @ name @ ''.bit'' \<Longrightarrow> fs' g = fs g"
  by (cases "get_mmap_memory os fs (ws @ ''/'' @ name @ ''.bit'')
      (BITMARK_MMAP_SIZE \<lparr>bm_file_name = ws @ ''/'' @ name @ ''.bit'', bm_mem = None, bm_row_limit = n\<rparr>)")
    (auto simp: compress_bitmark_def bitmark_init_def sprintf_name_def Let_def bind_eq_Some_conv split: if_splits dest: get_mmap_frame)

text \<open>Without nulls only the values and the bit map are written, and no null marks.\<close>

lemma load_bitmap_frame:
  assumes "load_bitmap os fs ws s u value nv 0 z = Some (Some (v, z'), fs')"
    and "g \<noteq> fz_data_file_name z" and "g \<noteq> ws @ ''/'' @ ''bitmap_index'' @ ''.bit''"
  shows "fs' g = fs g" and "fz_index_type z' = 2" and "fz_info_file_name z' = fz_info_file_name z"
proof -
  obtain dat fs1 where 1: "get_mmap_memory os fs (fz_data_file_name z) (nv * u) = (dat, fs1)" by force
  obtain bi fs2 where 2: "compress_bitmark os fs1 ws ''bitmap_index'' (st_row_limit s) = Some (bi, fs2)"
    using assms(1) 1 by (auto simp: load_bitmap_def Let_def bind_eq_Some_conv)
  have "fs2 g = fs g" using get_mmap_frame [OF 1 assms(2)] compress_bitmark_frame [OF 2 assms(3)] by simp
  moreover obtain r where r: "bitmap_loop s u (rows (st_row_limit s)) value (replicate (unat (st_row_limit s)) \<lparr>be_value = 0, be_pos = - 1\<rparr>) 0
      (mem_or_empty dat) bi = Some (Some r)"
    using assms(1) 1 2 by (auto simp: load_bitmap_def Let_def save_nulls_def bind_eq_Some_conv split: option.splits)
  ultimately show "fs' g = fs g" "fz_index_type z' = 2" "fz_info_file_name z' = fz_info_file_name z"
    using assms(1,2) 1 2 by (cases r; auto simp: load_bitmap_def Let_def save_nulls_def sync_mapping_def msync_file_def split: if_splits)+
qed

lemma get32_wr: "wr m j x = Some m' \<Longrightarrow> off + 4 \<le> j \<Longrightarrow> get32 m' off = get32 m off"
  by (auto simp: wr_def get_le_def rd_range_def drop_update_swap split: if_splits)

definition info_holds :: "u8 list \<Rightarrow> u32 \<Rightarrow> u32 \<Rightarrow> u32 \<Rightarrow> u8 \<Rightarrow> u8 \<Rightarrow> bool" where
  "info_holds i n v u x t \<longleftrightarrow> length i = 64 \<and> get32 i 0 = Some n \<and> get32 i 16 = Some v \<and> get32 i 32 = Some u \<and>
     rd i 48 = Some x \<and> rd i 52 = Some t"

lemma write_fields_stored:
  assumes "length (fz_info z) = 64"
  obtains i where "write_fields fs z n v u x = Some (set_fields z i n v u x, msync_file fs (fz_info_file_name z) i)"
    and "info_holds i n v u x (fz_index_type z)"
proof -
  obtain i1 where 1: "put32 (fz_info z) 0 n = Some i1" "length i1 = 64" using put_le_some [of 0 4 "fz_info z" n] assms by auto
  obtain i2 where 2: "put32 i1 16 v = Some i2" "length i2 = 64" using put_le_some [of 16 4 i1 v] 1 by auto
  obtain i3 where 3: "put32 i2 32 u = Some i3" "length i3 = 64" using put_le_some [of 32 4 i2 u] 2 by auto
  define i4 where "i4 = i3[48 := x]"
  define i5 where "i5 = i4[52 := fz_index_type z]"
  have w: "wr i3 48 x = Some i4" "wr i4 52 (fz_index_type z) = Some i5" using 3(2) by (simp_all add: wr_def i4_def i5_def)
  have "get32 i3 0 = get32 i2 0" "get32 i3 16 = get32 i2 16" "get32 i2 0 = get32 i1 0"
    by (rule get_put_other [OF 3(1)], simp, rule get_put_other [OF 3(1)], simp, rule get_put_other [OF 2(1)], simp)
  then have g3: "get32 i3 0 = Some n" "get32 i3 16 = Some v" "get32 i3 32 = Some u"
    using get_put32_same [OF 1(1)] get_put32_same [OF 2(1)] get_put32_same [OF 3(1)] by simp_all
  have "info_holds i5 n v u x (fz_index_type z)"
    using g3 get32_wr [OF w(1)] get32_wr [OF w(2)] 3(2) by (simp add: info_holds_def rd_def i4_def i5_def)
  then show ?thesis using 1(1) 2(1) 3(1) w that by (simp add: write_fields_def set_fields_def)
qed

text \<open>Opening the bit-map layout where no file of null marks is left.\<close>

lemma init_without_marks:
  fixes s :: storage_manager
  assumes env: "filter_env os ws (st_row_limit s)" and i: "take 64 (file_bytes fs (ws @ ''/filter_info_compress.dat'')) = i"
    "info_holds i (st_row_limit s) v u x 2" and none: "fs (ws @ ''/'' @ ''filter_compress'' @ ''.bit'') = None"
  shows "\<exists>z' fs'. filter_compress_init os fs ws = Some (Some z', fs') \<and>
    (\<forall>d < st_row_limit s. filter_compress_query z' d = Some (no_value z'))"
proof -
  let ?i = "ws @ ''/filter_info_compress.dat''" and ?b = "ws @ ''/'' @ ''filter_compress'' @ ''.bit''" and ?n = "st_row_limit s"
  note e = bitmark_env [OF env]
  have os: "os_ok os ?i" "length ws + 25 < FILENAME_MAX_LENGTH" "?n \<noteq> 0" using env by (auto simp: filter_env_def)
  have l: "64 \<le> length (file_bytes fs ?i)" using i by (auto simp: info_holds_def)
  then obtain fs1 where m: "get_mmap_memory os fs ?i 64 = (Some i, fs1)"
    using get_mmap_memory_small [OF os(1), of 64 fs] i(1) by (auto simp: pad_to_def)
  define z where "z = \<lparr>fz_index_file_name = ws @ ''/filter_compress.idx'', fz_data_file_name = ws @ ''/filter_compress.dat'',
    fz_info_file_name = ?i, fz_null_file_name = ws @ ''/filter_null_compress.dat'', fz_index = None, fz_data = None,
    fz_bitmap_index = None, fz_bitmark = None, fz_info = i, fz_n_row = ?n, fz_n_value = v, fz_unit_size = u, fz_idx_size = x,
    fz_index_type = 2\<rparr>"
  have init: "filter_compress_init os fs ws = init_bitmap os fs1 ws z"
    using i(2) m os by (simp add: filter_compress_init_def sprintf_name_def Let_def info_holds_def z_def)
  obtain dat fs2 where d: "get_mmap_memory os fs1 (ws @ ''/filter_compress.dat'') (v * u) = (dat, fs2)" by force
  obtain bi fs3 where bi: "compress_bitmark os fs2 ws ''bitmap_index'' ?n = Some (bi, fs3)"
    using compress_bitmark_ok [OF refl e(2,4) refl e(5), of fs2] by metis
  have "fs3 ?b = None"
    using get_mmap_frame [OF m, of ?b] get_mmap_frame [OF d, of ?b] compress_bitmark_frame [OF bi, of ?b] none by simp
  then obtain b fs4 where b: "compress_bitmark os fs3 ws ''filter_compress'' ?n = Some (b, fs4)" "marks_for s b"
    "bm_mem b = Some (replicate (unat ?n div 8 + 1) 0)"
    using compress_bitmark_ok [OF refl e(1,3) refl e(5), of fs3] pad_fresh [of fs3 ?b "unat ?n div 8 + 1"] by metis
  let ?z = "z\<lparr>fz_data := dat, fz_bitmap_index := Some bi, fz_bitmark := Some b\<rparr>"
  have "init_bitmap os fs1 ws z = Some (Some ?z, fs4)" using d bi b(1) by (simp add: init_bitmap_def z_def)
  moreover have "filter_compress_query ?z d = Some (no_value ?z)" if "d < ?n" for d
    using marks_query [OF b(2) that] zero_unmarked [OF b(3)] by (simp add: filter_compress_query_def z_def)
  ultimately show ?thesis using init by auto
qed

definition example_os :: os where
  "example_os = \<lparr>os_open = \<lambda>_. True, os_truncate = \<lambda>_ _. True, os_mmap = \<lambda>_. True\<rparr>"

definition example_column :: storage_manager where
  "example_column = \<lparr>st_file_name = ''w/s'', st_value_size = 2, st_row_limit = 2, st_mem = Some [5, 0, 7, 0],
     st_null = \<lparr>bm_file_name = ''w/n'', bm_mem = Some [0xC0], bm_row_limit = 2\<rparr>\<rparr>"

text \<open>C40: A column of exactly two values and no nulls, compressed where no files of an earlier
  attempt are left, is stored as one bit per document, and no null marks are written.  Right
  after the compression every document has its value; a restart then finds no marks, creates them
  empty and takes every document for null: the whole column is lost.\<close>

theorem filter_compress_restart_loses:
  assumes "storage_ok s" and "unat (st_value_size s) \<le> 8" and "length value = 8"
    and "0 < unat unit_size" and "unat unit_size \<le> unat (st_value_size s)"
    and "work_space_of (st_file_name s) = Some ws" and "filter_env os ws (st_row_limit s)"
    and "fs (ws @ ''/'' @ ''bitmap_index'' @ ''.bit'') = None" and "fs (ws @ ''/'' @ ''filter_compress'' @ ''.bit'') = None"
    and "length (values_of s (drop (unat (st_value_size s)) value)) = 2" and "\<forall>d < st_row_limit s. st_cells s (unat d) \<noteq> None"
  shows "\<exists>z fs1 z' fs2. filter_compress_load os fs value s unit_size = Some (Compressed z, fs1) \<and>
    filter_compress_init os fs1 ws = Some (Some z', fs2) \<and>
    (\<forall>d < st_row_limit s. filter_compress_query z d = Some (cut_answer s unit_size d) \<and> ld_len (cut_answer s unit_size d) \<noteq> 0 \<and>
      filter_compress_query z' d = Some (no_value z'))"
proof (rule load_counts [where fs = fs and u = unit_size, OF assms(1-3,6-8)])
  fix z fs1 value'
  let ?junk = "drop (unat (st_value_size s)) value" and ?n = "st_row_limit s"
  let ?i = "ws @ ''/filter_info_compress.dat''" and ?b = "ws @ ''/'' @ ''filter_compress'' @ ''.bit''"
  assume l: "filter_compress_load os fs value s unit_size = choose_layout os fs1 ws s unit_size value' (word_of_nat (length (values_of s ?junk)))
      (word_of_nat (length (filter (\<lambda>i. row_key s ?junk i = None) (rows ?n)))) z"
    and c: "column s ?junk" and v: "holds_junk s ?junk value'" and z: "blank_filter fs1 ws z"
    and n: "fz_info_file_name z = ?i" and old: "fs1 ?b = fs ?b"
  have nn: "word_of_nat (length (filter (\<lambda>i. row_key s ?junk i = None) (rows ?n))) = (0 :: u32)"
    unfolding null_count using assms(11) by (simp add: row_key_def)
  have full: "(0 :: u32) = 0 \<longleftrightarrow> (\<forall>d < ?n. row_key s ?junk d \<noteq> None)" using assms(11) by (simp add: row_key_def)
  obtain z1 fs2 where z1: "load_bitmap os fs1 ws s unit_size value' 2 0 z = Some (Some (2, z1), fs2)" "length (fz_info z1) = 64"
    "\<And>i n x. bitmap_layout (set_fields z1 i n 2 unit_size x) s ?junk (values_of s ?junk)"
    using load_bitmap_ok [OF assms(7) z c v assms(4,5,10) refl full] by metis
  have fr: "fs2 ?b = None" "fz_index_type z1 = 2" "fz_info_file_name z1 = ?i"
    using load_bitmap_frame [OF z1(1), of ?b] z n old assms(9) by (simp_all add: blank_filter_def)
  obtain i where w: "write_fields fs2 z1 ?n 2 unit_size (idx_size_for 2) =
      Some (set_fields z1 i ?n 2 unit_size (idx_size_for 2), msync_file fs2 ?i i)" "info_holds i ?n 2 unit_size (idx_size_for 2) 2"
    using write_fields_stored [OF z1(2)] fr(2,3) by metis
  let ?z = "set_fields z1 i ?n 2 unit_size (idx_size_for 2)"
  have load: "filter_compress_load os fs value s unit_size = Some (Compressed ?z, msync_file fs2 ?i i)"
    unfolding l nn using assms(10) z1(1) w(1) by (simp add: choose_layout_def Let_def)
  have "take 64 (file_bytes (msync_file fs2 ?i i) ?i) = i" "msync_file fs2 ?i i ?b = None"
    using w(2) fr(1) by (simp_all add: msync_file_def file_bytes_def info_holds_def)
  then obtain z' fs3 where init: "filter_compress_init os (msync_file fs2 ?i i) ws = Some (Some z', fs3)"
    "\<forall>d < ?n. filter_compress_query z' d = Some (no_value z')" using init_without_marks [OF assms(7) _ w(2)] by blast
  have "filter_compress_query ?z d = Some (cut_answer s unit_size d)" if "d < ?n" for d
    using bitmap_layout_query [OF z1(3) c that values_of_simps(2) [OF that], of i ?n "idx_size_for 2"] assms(5) by (simp add: set_fields_def)
  moreover have "ld_len (cut_answer s unit_size d) \<noteq> 0" if "d < ?n" for d
    using assms(4,11) that by (auto simp: cut_answer_def)
  ultimately show ?thesis using load init by blast
qed

theorem filter_compress_restart_loses_witness:
  "\<exists>z fs1 z' fs2. filter_compress_load example_os (\<lambda>_. None) (replicate 8 0) example_column 1 = Some (Compressed z, fs1) \<and>
    filter_compress_init example_os fs1 ''w'' = Some (Some z', fs2) \<and>
    filter_compress_query z 1 = Some (cut_answer example_column 1 1) \<and> filter_compress_query z' 1 = Some (no_value z')"
proof -
  have cells: "st_cells example_column 0 = Some [5, 0]" "st_cells example_column (Suc 0) = Some [7, 0]"
    by (simp_all add: st_cells_def st_cell_def bm_marks_def example_column_def bm_bit_def bit_iff_odd)
  have r: "rows (st_row_limit example_column) = [0, 1]" by (simp add: rows_def example_column_def upt_rec)
  have two: "length (values_of example_column (drop (unat (st_value_size example_column)) (replicate 8 0))) = 2"
    unfolding values_of_def r using le_word_zeros [of 6, where 'a = 64] by (simp add: row_key_def cells) (simp add: example_column_def)
  have "st_cells example_column (unat d) \<noteq> None" if "d < st_row_limit example_column" for d
  proof -
    have "unat d = 0 \<or> unat d = 1" using that by (auto simp: example_column_def word_less_nat_alt)
    then show ?thesis using cells by auto
  qed
  then have "\<forall>d < st_row_limit example_column. st_cells example_column (unat d) \<noteq> None" by blast
  from filter_compress_restart_loses [OF _ _ _ _ _ _ _ _ _ two this, of 1 "''w''" example_os "\<lambda>_. None"]
  have "\<exists>z fs1 z' fs2. filter_compress_load example_os (\<lambda>_. None) (replicate 8 0) example_column 1 = Some (Compressed z, fs1) \<and>
    filter_compress_init example_os fs1 ''w'' = Some (Some z', fs2) \<and>
    (\<forall>d < st_row_limit example_column. filter_compress_query z d = Some (cut_answer example_column 1 d) \<and>
      ld_len (cut_answer example_column 1 d) \<noteq> 0 \<and> filter_compress_query z' d = Some (no_value z'))"
    by (simp add: example_column_def example_os_def storage_ok_def bitmark_ok_def work_space_of_def filter_env_def os_ok_def)
  moreover have "(1 :: u32) < st_row_limit example_column" by (simp add: example_column_def)
  ultimately show ?thesis by blast
qed

theorem filter_compress_equivalent_witness:
  "\<exists>r fs'. filter_compress_load example_os (\<lambda>_. None) (replicate 8 0) example_column 1 = Some (r, fs') \<and>
    serves_column example_column 1 r"
  by (rule filter_compress_equivalent [where ws = "''w''"])
    (simp_all add: example_column_def example_os_def storage_ok_def bitmark_ok_def work_space_of_def filter_env_def os_ok_def)

end
