(* ===== verification/Hash_Compress.thy ===== *)
theory Hash_Compress
  imports Hash_Index
begin

text \<open>
  The compressed form of a hash index that is no longer written to,
  \<^verbatim>\<open>storage/docdb/hash_memcompress.c\<close>: the buckets in use, sorted by hash value, each with the
  place and the length of its documents in a second file.  A query is a binary search.  The
  mappings are shared, so what is written to them is the content of the file.
\<close>

section \<open>State\<close>

record hash_compress_config =
  zc_work_space :: string
  zc_row_limit :: u32
  zc_hash_compress_num :: u32

record hash_compress_manager =
  hz_index_file_name :: string
  hz_data_file_name :: string
  hz_info_file_name :: string
  hz_info :: "u8 list"
  hz_data :: "u8 list option"
  hz_index :: "u8 list option"
  hz_bucket_count :: u32
  hz_doc_count :: u32
  hz_hash_mod :: u32
  hz_row_limit :: u32
  hz_hash_compress_num :: u32

text \<open>An entry of the index is eight bytes of hash value, four of offset and four of length.\<close>

definition hs_hash_value :: "u8 list \<Rightarrow> nat \<Rightarrow> u64 option" where
  "hs_hash_value m i = get64 m (i * 16)"

definition hs_offset :: "u8 list \<Rightarrow> nat \<Rightarrow> u32 option" where
  "hs_offset m i = get32 m (i * 16 + 8)"

definition hs_len :: "u8 list \<Rightarrow> nat \<Rightarrow> u32 option" where
  "hs_len m i = get32 m (i * 16 + 12)"

section \<open>Opening\<close>

definition hash_commpress_init ::
    "os \<Rightarrow> file_system \<Rightarrow> hash_compress_config \<Rightarrow> (hash_compress_manager option \<times> file_system) outcome" where
  "hash_commpress_init os fs config =
     (case (sprintf_name (zc_work_space config @ ''/hash_compress.dat''),
            sprintf_name (zc_work_space config @ ''/hash_compress.idx''),
            sprintf_name (zc_work_space config @ ''/hash_info_compress.idx'')) of
        (Some data_name, Some index_name, Some info_name) \<Rightarrow>
          (case get_mmap_memory os fs info_name 64 of
             (None, fs1) \<Rightarrow> Ret (None, fs1)
           | (Some info, fs1) \<Rightarrow>
               (case (get32 info 0, get32 info 4) of
                  (Some bucket_count, Some doc_count) \<Rightarrow>
                    let z = \<lparr>hz_index_file_name = index_name, hz_data_file_name = data_name,
                      hz_info_file_name = info_name, hz_info = info, hz_data = None, hz_index = None,
                      hz_bucket_count = bucket_count, hz_doc_count = doc_count,
                      hz_hash_mod = zc_row_limit config + 1, hz_row_limit = zc_row_limit config,
                      hz_hash_compress_num = zc_hash_compress_num config\<rparr>
                    in if bucket_count = 0 then Ret (Some z, fs1)
                    else (case get_mmap_memory os fs1 index_name (bucket_count * 16) of
                       (None, fs2) \<Rightarrow> Ret (None, fs2)
                     | (Some idx, fs2) \<Rightarrow>
                         (case get_mmap_memory os fs2 data_name (doc_count * 4) of
                            (None, fs3) \<Rightarrow> Ret (None, fs3)
                          | (Some dat, fs3) \<Rightarrow> Ret (Some (z\<lparr>hz_index := Some idx, hz_data := Some dat\<rparr>), fs3)))
                | _ \<Rightarrow> Trap))
      | _ \<Rightarrow> Trap)"

section \<open>Compressing\<close>

text \<open>\<^verbatim>\<open>qsort\<close> of the bucket numbers by hash value; for equal values the library leaves the order
  open, and here they keep it.\<close>

definition qsort_buckets :: "u8 list \<Rightarrow> nat list \<Rightarrow> nat list option" where
  "qsort_buckets m is = do {
     _ \<leftarrow> those (map (hb_hash_value m) is);
     Some (sort_key (\<lambda>i. the (hb_hash_value m i)) is)
   }"

text \<open>The bytes of an array of 32-bit numbers.\<close>

definition array_bytes :: "u32 list \<Rightarrow> u8 list" where
  "array_bytes xs = concat (map (le_bytes 4) xs)"

text \<open>Copying the documents block by block: full blocks up to the tail, then the rest from the tail
  block.  \<open>e\<close> is the end of the entry's documents.\<close>

fun copy_blocks ::
    "'s rowid_list_node list \<Rightarrow> nat \<Rightarrow> u8 list \<Rightarrow> nat \<Rightarrow> nat \<Rightarrow> u8 list option" where
  "copy_blocks [] t dat off e = None"
| "copy_blocks (p # ps) t dat off e =
     (if t > 0
      then do {
        dat' \<leftarrow> wr_range dat off (array_bytes (rn_rowid_array p));
        copy_blocks ps (t - 1) dat' (off + ROWID_ARRAY_SIZE * 4) e
      }
      else do {
        bs \<leftarrow> rd_range (array_bytes (rn_rowid_array p)) 0 (e - off);
        wr_range dat off bs
      })"

definition load_entry ::
    "hash_index_manager \<Rightarrow> u8 list \<Rightarrow> nat \<Rightarrow> nat \<Rightarrow> u8 list \<Rightarrow> u8 list \<Rightarrow> u32 \<Rightarrow> (u8 list \<times> u8 list \<times> u32) option" where
  "load_entry h m b k idx dat current_offset = do {
     v \<leftarrow> hb_hash_value m b;
     idx1 \<leftarrow> put64 idx (k * 16) v;
     idx2 \<leftarrow> put32 idx1 (k * 16 + 8) current_offset;
     off \<leftarrow> hb_offset m b;
     docids \<leftarrow> get_rowid_list (hi_doclist h) (unat off) :: unit rowid_list option;
     let len = 4 * rl_rowid_num docids;
     idx3 \<leftarrow> put32 idx2 (k * 16 + 12) len;
     tail \<leftarrow> rl_tail docids;
     dat' \<leftarrow> copy_blocks (rl_nodes docids) tail dat (unat current_offset) (unat (current_offset + len));
     Some (idx3, dat', current_offset + len)
   }"

fun load_loop ::
    "hash_index_manager \<Rightarrow> u8 list \<Rightarrow> nat list \<Rightarrow> nat \<Rightarrow> u8 list \<Rightarrow> u8 list \<Rightarrow> u32 \<Rightarrow> (u8 list \<times> u8 list \<times> u32) option" where
  "load_loop h m [] k idx dat off = Some (idx, dat, off)"
| "load_loop h m (b # bs) k idx dat off = do {
     (idx', dat', off') \<leftarrow> load_entry h m b k idx dat off;
     load_loop h m bs (Suc k) idx' dat' off'
   }"

definition need :: "'a option \<Rightarrow> 'a outcome" where
  "need x = (case x of None \<Rightarrow> Trap | Some y \<Rightarrow> Ret y)"

lemma need_simps [simp]: "need None = Trap" "need (Some x) = Ret x"
  by (simp_all add: need_def)

definition used_buckets :: "hash_compress_manager \<Rightarrow> u8 list \<Rightarrow> nat list \<Rightarrow> nat list" where
  "used_buckets z m order = dropWhile (\<lambda>b. hb_hash_value m b = Some 0) (take (unat (hz_hash_mod z)) order)"

definition write_info :: "hash_compress_manager \<Rightarrow> u32 \<Rightarrow> u32 \<Rightarrow> u8 list option" where
  "write_info z bucket_count doc_count = do { i1 \<leftarrow> put32 (hz_info z) 0 bucket_count; put32 i1 4 doc_count }"

definition fill_compress ::
    "os \<Rightarrow> file_system \<Rightarrow> hash_index_manager \<Rightarrow> hash_compress_manager \<Rightarrow> (hash_compress_manager \<times> file_system) outcome" where
  "fill_compress os fs h z =
     obind (need (hi_mem h)) (\<lambda>m.
     obind (need (qsort_buckets m [0..<unat (hi_hashmod h + 1)])) (\<lambda>order.
     let used = used_buckets z m order;
         bucket_count = (word_of_nat (length used) :: u32);
         (idx, fs1) = get_mmap_memory os fs (hz_index_file_name z) (bucket_count * 16);
         (dat, fs2) = get_mmap_memory os fs1 (hz_data_file_name z) (hi_limit h * 4)
     in obind (need (load_loop h m used 0 (mem_or_empty idx) (mem_or_empty dat) 0)) (\<lambda>(idx', dat', off).
     let fs3 = sync_mapping fs2 (hz_index_file_name z) idx idx';
         fs4 = sync_mapping fs3 (hz_data_file_name z) dat dat';
         (dat2, fs5) = get_mmap_memory os fs4 (hz_data_file_name z) off
     in obind (need (write_info z bucket_count (off div 4))) (\<lambda>info.
          Ret (z\<lparr>hz_info := info, hz_index := map_option (\<lambda>_. idx') idx, hz_data := dat2,
              hz_bucket_count := bucket_count, hz_doc_count := off div 4\<rparr>,
            msync_file fs5 (hz_info_file_name z) info)))))"

definition hash_compress_load ::
    "os \<Rightarrow> file_system \<Rightarrow> hash_index_manager \<Rightarrow> u32 \<Rightarrow> (hash_compress_manager option \<times> file_system) outcome" where
  "hash_compress_load os fs h num =
     obind (need (work_space_of (hi_file_name h))) (\<lambda>ws.
     let fs0 = fs(ws @ ''/hash_compress.dat'' := None, ws @ ''/hash_compress.idx'' := None,
           ws @ ''/hash_info_compress.idx'' := None)
     in obind (hash_commpress_init os fs0
            \<lparr>zc_work_space = ws, zc_row_limit = hi_limit h, zc_hash_compress_num = num\<rparr>) (\<lambda>(z, fs1).
        case z of
          None \<Rightarrow> Ret (None, fs1)
        | Some z \<Rightarrow> obind (fill_compress os fs1 h z) (\<lambda>(z', fs2). Ret (Some z', fs2))))"

section \<open>Queries\<close>

text \<open>The binary search counts in 32 bits; it returns the entry it looked at last.\<close>

partial_function (option) seek_loop :: "u8 list \<Rightarrow> u64 \<Rightarrow> nat \<Rightarrow> nat \<Rightarrow> nat option \<Rightarrow> nat option option" where
  "seek_loop idx v left right hseek =
     (if left \<le> right
      then
        let mid = (left + right + 1) mod 2 ^ 32 div 2 in
        Option.bind (hs_hash_value idx mid) (\<lambda>w.
          if w < v then seek_loop idx v (mid + 1) right (Some mid)
          else if w > v then (if mid = 0 then Some (Some mid) else seek_loop idx v left (mid - 1) (Some mid))
          else Some (Some mid))
      else Some hseek)"

definition read_words :: "u8 list \<Rightarrow> nat \<Rightarrow> nat \<Rightarrow> u32 list option" where
  "read_words m off n = those (map (\<lambda>i. get32 m (off + 4 * i)) [0..<n])"

definition hash_compress_query ::
    "(u8 list \<Rightarrow> string) \<Rightarrow> (u8 list \<Rightarrow> string) \<Rightarrow> hash_compress_manager \<Rightarrow> low_data \<Rightarrow> 's rowid_list option" where
  "hash_compress_query fmt_f fmt_lf z data = do {
     hash_value \<leftarrow> get_hash_value fmt_f fmt_lf data;
     if hz_bucket_count z = 0 then Some rowid_list_init
     else do {
       idx \<leftarrow> hz_index z;
       hseek \<leftarrow> seek_loop idx hash_value 0 (unat (hz_bucket_count z) - 1) None;
       i \<leftarrow> hseek;
       w \<leftarrow> hs_hash_value idx i;
       if w \<noteq> hash_value then Some rowid_list_init
       else do {
         dat \<leftarrow> hz_data z;
         off \<leftarrow> hs_offset idx i;
         len \<leftarrow> hs_len idx i;
         ws \<leftarrow> read_words dat (unat off) (unat len div 4);
         rowid_list_batch_add rowid_list_init ws (len div 4)
       }
     }
   }"

section \<open>Closing\<close>

text \<open>A release only unmaps.  So does nothing at all a destruction: a stray semicolon ends the NULL
  test and the function returns before it removes the files.\<close>

definition hash_compress_release :: "file_system \<Rightarrow> hash_compress_manager \<Rightarrow> file_system" where
  "hash_compress_release fs z = fs"

definition hash_compress_destroy :: "file_system \<Rightarrow> hash_compress_manager \<Rightarrow> file_system" where
  "hash_compress_destroy fs z = fs"

end
