(* ===== verification/Index_Field.thy ===== *)
theory Index_Field
  imports Hash_Compress Filter_Compress Dyhash_Index
begin

text \<open>
  \<^verbatim>\<open>storage/docdb/index_field.c\<close>: one index over one column, whatever its kind: a hash index, a
  filter column, each with its compressed form, or a full-text index.  The status flag and the
  length of the longest value live in small mapped files.  A NULL index field is \<^term>\<open>None\<close>.
  The logging calls of the NULL checks follow the very pointer that is NULL, which traps.
\<close>

section \<open>State\<close>

datatype index_key_alg = HI_KEY_ALG_UNDEF | HI_KEY_ALG_BTREE | HI_KEY_ALG_HASH | HI_KEY_ALG_FILTER | HI_KEY_ALG_FULLTEXT

abbreviation (input) INDEX_FIELD_COMPRESS :: u32 where "INDEX_FIELD_COMPRESS \<equiv> 1"

abbreviation (input) ERROR_INSERT_FAILDED :: int where "ERROR_INSERT_FAILDED \<equiv> - 4000"
abbreviation (input) ERROR_COMMPRESS_FAIL :: int where "ERROR_COMMPRESS_FAIL \<equiv> - 4005"
abbreviation (input) ERROR_NOT_SUPPORT_INDEX :: int where "ERROR_NOT_SUPPORT_INDEX \<equiv> - 3699"
abbreviation (input) ERROR_ONLY_FILTER_SUPPORT :: int where "ERROR_ONLY_FILTER_SUPPORT \<equiv> - 3695"
abbreviation (input) ERROR_FIELD_NOT_WORK :: int where "ERROR_FIELD_NOT_WORK \<equiv> - 3691"
abbreviation (input) ERROR_NOT_SUPPORT_COMMPRESS :: int where "ERROR_NOT_SUPPORT_COMMPRESS \<equiv> - 3689"
abbreviation (input) ERROR_NOT_NEED_COMPRESS :: int where "ERROR_NOT_NEED_COMPRESS \<equiv> - 3688"
abbreviation (input) ERROR_INDEX_FIELD_COMPRESSED :: int where "ERROR_INDEX_FIELD_COMPRESSED \<equiv> - 3687"

record index_field_config =
  ic_work_space :: string
  ic_field_name :: string
  ic_index_type :: index_key_alg
  ic_hash_compress_num :: u32
  ic_row_limit :: u32
  ic_is_full :: bool

text \<open>The pointer to the compressed filter is NULL, the mark \<^verbatim>\<open>0x1\<close> or a manager: the three
  results of compressing.\<close>

record index_field_manager =
  ix_work_space :: string
  ix_field_name :: string
  ix_row_limit :: u32
  ix_index_type :: index_key_alg
  ix_stat_filename :: string
  ix_flag :: "u8 list option"
  ix_filter_index :: "filter_index_manager option"
  ix_hash_index :: "hash_index_manager option"
  ix_dyhash_index :: "dyhash_index_manager option"
  ix_hash_compress :: "hash_compress_manager option"
  ix_filter_compress :: compress_result
  ix_hash_compress_num :: u32
  ix_len_filename :: string
  ix_max_len :: "u8 list option"

text \<open>\<^verbatim>\<open>Mile_AtomicGetPtr(flag) & INDEX_FIELD_COMPRESS\<close>; following a NULL flag is a fault.\<close>

definition flag_compressed :: "index_field_manager \<Rightarrow> bool option" where
  "flag_compressed f = do { m \<leftarrow> ix_flag f; v \<leftarrow> get32 m 0; Some (v AND INDEX_FIELD_COMPRESS \<noteq> 0) }"

text \<open>The same after the test that the flag is not NULL.\<close>

definition is_compressed :: "index_field_manager \<Rightarrow> bool option" where
  "is_compressed f = (if ix_flag f = None then Some False else flag_compressed f)"

definition sync_word :: "file_system \<Rightarrow> string \<Rightarrow> u8 list option \<Rightarrow> file_system" where
  "sync_word fs name m = (case m of None \<Rightarrow> fs | Some bs \<Rightarrow> msync_file fs name bs)"

section \<open>Opening\<close>

definition new_field :: "index_field_config \<Rightarrow> string \<Rightarrow> index_field_manager" where
  "new_field config ws =
     \<lparr>ix_work_space = ws, ix_field_name = ic_field_name config, ix_row_limit = ic_row_limit config,
      ix_index_type = ic_index_type config, ix_stat_filename = [], ix_flag = None, ix_filter_index = None,
      ix_hash_index = None, ix_dyhash_index = None, ix_hash_compress = None, ix_filter_compress = Failed,
      ix_hash_compress_num = ic_hash_compress_num config, ix_len_filename = [], ix_max_len = None\<rparr>"

definition init_fulltext ::
    "env \<Rightarrow> file_system \<Rightarrow> index_field_config \<Rightarrow> index_field_manager \<Rightarrow> (index_field_manager \<times> file_system) outcome option" where
  "init_fulltext ev fs config f = do {
     r \<leftarrow> dyhash_index_init ev fs \<lparr>yc_work_space = ix_work_space f, yc_row_limit = ix_row_limit f,
       yc_is_full = ic_is_full config\<rparr>;
     Some (obind r (\<lambda>(y, fs1). if y = None then Trap else Ret (f\<lparr>ix_dyhash_index := y\<rparr>, fs1)))
   }"

text \<open>Mapping a file of four bytes, which an assertion requires.\<close>

definition map_word :: "os \<Rightarrow> file_system \<Rightarrow> string \<Rightarrow> (string \<times> u8 list \<times> file_system) outcome" where
  "map_word os fs path =
     obind (need (sprintf_name path)) (\<lambda>name.
       let (m, fs1) = get_mmap_memory os fs name 4 in obind (need m) (\<lambda>bs. Ret (name, bs, fs1)))"

definition init_hash ::
    "env \<Rightarrow> file_system \<Rightarrow> index_field_config \<Rightarrow> index_field_manager \<Rightarrow> (index_field_manager \<times> file_system) outcome" where
  "init_hash ev fs config f =
     obind (map_word (ev_os ev) fs (ix_work_space f @ ''/hash_stat.inf'')) (\<lambda>(name, flag, fs1).
     let f1 = f\<lparr>ix_stat_filename := name, ix_flag := Some flag\<rparr> in
     obind (need (flag_compressed f1)) (\<lambda>c.
       if c
       then obind (hash_commpress_init (ev_os ev) fs1 \<lparr>zc_work_space = ix_work_space f, zc_row_limit = ix_row_limit f,
              zc_hash_compress_num = ix_hash_compress_num f\<rparr>)
            (\<lambda>(z, fs2). if z = None then Trap else Ret (f1\<lparr>ix_hash_compress := z\<rparr>, fs2))
       else obind (hash_index_init ev fs1 \<lparr>hc_work_space = ix_work_space f, hc_row_limit = ix_row_limit f,
              hc_is_full = ic_is_full config\<rparr>)
            (\<lambda>(h, fs2). Ret (f1\<lparr>ix_hash_index := Some h\<rparr>, fs2))))"

definition init_filter ::
    "env \<Rightarrow> file_system \<Rightarrow> index_field_manager \<Rightarrow> (index_field_manager \<times> file_system) outcome" where
  "init_filter ev fs f =
     obind (map_word (ev_os ev) fs (ix_work_space f @ ''/filter_stat.inf'')) (\<lambda>(name, flag, fs1).
     obind (map_word (ev_os ev) fs1 (ix_work_space f @ ''/len.inf'')) (\<lambda>(lname, len, fs2).
     let f1 = f\<lparr>ix_stat_filename := name, ix_flag := Some flag, ix_len_filename := lname, ix_max_len := Some len\<rparr> in
     obind (need (flag_compressed f1)) (\<lambda>c.
       if c
       then obind (need (filter_compress_init (ev_os ev) fs2 (ix_work_space f)))
            (\<lambda>(z, fs3). case z of None \<Rightarrow> Trap | Some z \<Rightarrow> Ret (f1\<lparr>ix_filter_compress := Compressed z\<rparr>, fs3))
       else obind (need (filter_index_init (ev_os ev) fs2 \<lparr>fc_work_space = ix_work_space f, fc_row_limit = ix_row_limit f,
              fc_unit_size = ucast (get_unit_size HI_TYPE_LONGLONG), fc_type = HI_TYPE_LONGLONG\<rparr>))
            (\<lambda>(g, fs3). Ret (f1\<lparr>ix_filter_index := Some g\<rparr>, fs3)))))"

text \<open>\<open>mkdirs\<close> tells whether the directory can be made; \<^term>\<open>None\<close> for the whole means that opening a
  full-text index does not end.\<close>

definition index_field_init ::
    "(string \<Rightarrow> bool) \<Rightarrow> env \<Rightarrow> file_system \<Rightarrow> index_field_config \<Rightarrow>
       (index_field_manager option \<times> file_system) outcome option" where
  "index_field_init mkdirs ev fs config =
     (case sprintf_name (ic_work_space config @ ''/'' @ ic_field_name config) of
        None \<Rightarrow> Some Trap
      | Some ws \<Rightarrow>
          if \<not> mkdirs ws then Some (Ret (None, fs))
          else
            let f = new_field config ws; wrap = (\<lambda>r. obind r (\<lambda>(g, fs1). Ret (Some g, fs1))) in
            (case ix_index_type f of
               HI_KEY_ALG_FULLTEXT \<Rightarrow> map_option wrap (init_fulltext ev fs config f)
             | HI_KEY_ALG_HASH \<Rightarrow> Some (wrap (init_hash ev fs config f))
             | HI_KEY_ALG_FILTER \<Rightarrow> Some (wrap (init_filter ev fs f))
             | HI_KEY_ALG_BTREE \<Rightarrow> Some (Ret (Some f, fs))
             | HI_KEY_ALG_UNDEF \<Rightarrow> Some (Ret (None, fs))))"

section \<open>Recovery\<close>

definition index_field_recover ::
    "bool \<Rightarrow> bool \<Rightarrow> index_field_manager option \<Rightarrow> u32 \<Rightarrow> (int \<times> index_field_manager option) option" where
  "index_field_recover size_ok trunc_ok field docid = do {
     f \<leftarrow> field;
     c \<leftarrow> is_compressed f;
     if c then Some (0, field)
     else
       (case ix_index_type f of
          HI_KEY_ALG_HASH \<Rightarrow> do {
            h \<leftarrow> ix_hash_index f;
            (r, h') \<leftarrow> hash_index_recover h docid;
            Some (r, Some (f\<lparr>ix_hash_index := Some h'\<rparr>))
          }
        | HI_KEY_ALG_FILTER \<Rightarrow> do {
            g \<leftarrow> ix_filter_index f;
            (r, g') \<leftarrow> filter_index_recover size_ok trunc_ok g docid;
            Some (r, Some (f\<lparr>ix_filter_index := Some g'\<rparr>))
          }
        | HI_KEY_ALG_FULLTEXT \<Rightarrow> do {
            y \<leftarrow> ix_dyhash_index f;
            (r, y') \<leftarrow> dyhash_index_recover y docid;
            Some (r, Some (f\<lparr>ix_dyhash_index := Some y'\<rparr>))
          }
        | HI_KEY_ALG_BTREE \<Rightarrow> Some (MILE_RETURN_SUCCESS, field)
        | HI_KEY_ALG_UNDEF \<Rightarrow> Some (ERROR_NOT_SUPPORT_INDEX, field))
   }"

section \<open>Insertion\<close>

definition grow_max_len ::
    "file_system \<Rightarrow> index_field_manager \<Rightarrow> u32 \<Rightarrow> (index_field_manager \<times> file_system) option" where
  "grow_max_len fs f n = do {
     m \<leftarrow> ix_max_len f;
     v \<leftarrow> get32 m 0;
     if v < n
     then do {
       m' \<leftarrow> put32 m 0 n;
       Some (f\<lparr>ix_max_len := Some m'\<rparr>, msync_file fs (ix_len_filename f) m')
     }
     else Some (f, fs)
   }"

text \<open>The result of \<^verbatim>\<open>ret = filter_index_insert(...) < 0\<close>: one for every error.\<close>

definition truth :: "bool \<Rightarrow> int" where
  "truth b = (if b then 1 else 0)"

definition insert_filter ::
    "(u8 list \<Rightarrow> string) \<Rightarrow> (u8 list \<Rightarrow> string) \<Rightarrow> io \<Rightarrow> file_system \<Rightarrow> index_field_manager \<Rightarrow> low_data \<Rightarrow> u32 \<Rightarrow>
       (int \<times> index_field_manager \<times> file_system) option" where
  "insert_filter fmt_f fmt_lf w fs f data docid =
     (if ld_type data = HI_TYPE_STRING
      then do {
        v \<leftarrow> get_hash_value fmt_f fmt_lf data;
        let hash_data = \<lparr>ld_field_name = ld_field_name data, ld_type = HI_TYPE_LONGLONG, ld_data = le_bytes 8 v,
          ld_len = get_unit_size HI_TYPE_LONGLONG\<rparr>;
        (f1, fs1) \<leftarrow> grow_max_len fs f (get_unit_size HI_TYPE_LONGLONG);
        g \<leftarrow> ix_filter_index f1;
        (r, g') \<leftarrow> filter_index_insert w g hash_data docid;
        Some (truth (r < 0), f1\<lparr>ix_filter_index := Some g'\<rparr>, fs1)
      }
      else if ld_len data > get_unit_size HI_TYPE_LONGLONG then Some (ERROR_INSERT_FAILDED, f, fs)
      else do {
        (f1, fs1) \<leftarrow> grow_max_len fs f (ld_len data);
        g \<leftarrow> ix_filter_index f1;
        (r, g') \<leftarrow> filter_index_insert w g data docid;
        Some (truth (r < 0), f1\<lparr>ix_filter_index := Some g'\<rparr>, fs1)
      })"

definition min_zero :: "int \<Rightarrow> int" where
  "min_zero r = (if r < 0 then r else MILE_RETURN_SUCCESS)"

definition index_field_insert ::
    "(u8 list \<Rightarrow> string) \<Rightarrow> (u8 list \<Rightarrow> string) \<Rightarrow> io \<Rightarrow> env \<Rightarrow> file_system \<Rightarrow> index_field_manager option \<Rightarrow> low_data \<Rightarrow> u32 \<Rightarrow>
       (int \<times> index_field_manager option \<times> file_system) outcome" where
  "index_field_insert fmt_f fmt_lf w ev fs field data docid =
     obind (need field) (\<lambda>f.
     obind (need (is_compressed f)) (\<lambda>c.
       if c then Ret (ERROR_INDEX_FIELD_COMPRESSED, field, fs)
       else
         (case ix_index_type f of
            HI_KEY_ALG_FULLTEXT \<Rightarrow>
              obind (need (ix_dyhash_index f)) (\<lambda>y.
              obind (dyhash_index_insert fmt_f fmt_lf ev fs y data docid) (\<lambda>(r, y', fs1).
                Ret (min_zero r, Some (f\<lparr>ix_dyhash_index := Some y'\<rparr>), fs1)))
          | HI_KEY_ALG_HASH \<Rightarrow>
              obind (need (ix_hash_index f)) (\<lambda>h.
              obind (need (hash_index_insert fmt_f fmt_lf h data docid)) (\<lambda>(r, h').
                Ret (min_zero r, Some (f\<lparr>ix_hash_index := Some h'\<rparr>), fs)))
          | HI_KEY_ALG_BTREE \<Rightarrow> Ret (MILE_RETURN_SUCCESS, field, fs)
          | HI_KEY_ALG_FILTER \<Rightarrow>
              obind (need (insert_filter fmt_f fmt_lf w fs f data docid)) (\<lambda>(r, f', fs1). Ret (r, Some f', fs1))
          | HI_KEY_ALG_UNDEF \<Rightarrow> Ret (ERROR_NOT_SUPPORT_INDEX, field, fs))))"

section \<open>Update\<close>

text \<open>The hash value of a new text goes into a value whose type and name are left uninitialised
  (\<open>raw\<close>); the length of the longest value does not grow.\<close>

definition index_field_update ::
    "(u8 list \<Rightarrow> string) \<Rightarrow> (u8 list \<Rightarrow> string) \<Rightarrow> io \<Rightarrow> io \<Rightarrow> u8 list \<times> field_types \<Rightarrow> index_field_manager option \<Rightarrow> low_data \<Rightarrow> u32 \<Rightarrow>
       (int \<times> low_data option \<times> index_field_manager option) option" where
  "index_field_update fmt_f fmt_lf r w raw field new_data docid = do {
     f \<leftarrow> field;
     c \<leftarrow> is_compressed f;
     if c then Some (ERROR_INDEX_FIELD_COMPRESSED, None, field)
     else if ix_index_type f = HI_KEY_ALG_FILTER
     then do {
       data \<leftarrow> (if ld_type new_data = HI_TYPE_STRING
         then do {
           v \<leftarrow> get_hash_value fmt_f fmt_lf new_data;
           Some \<lparr>ld_field_name = fst raw, ld_type = snd raw, ld_data = le_bytes 8 v, ld_len = get_unit_size HI_TYPE_LONGLONG\<rparr>
         }
         else Some new_data);
       g \<leftarrow> ix_filter_index f;
       (ret, old, g') \<leftarrow> filter_index_update r w g data docid;
       Some (truth (ret < 0), old, Some (f\<lparr>ix_filter_index := Some g'\<rparr>))
     }
     else Some (ERROR_ONLY_FILTER_SUPPORT, None, field)
   }"

section \<open>Queries\<close>

definition empty_value :: low_data where
  "empty_value = \<lparr>ld_field_name = [], ld_type = HI_TYPE_NULL, ld_data = [], ld_len = 0\<rparr>"

definition index_field_value_query ::
    "io \<Rightarrow> index_field_manager option \<Rightarrow> u32 \<Rightarrow> low_data option option" where
  "index_field_value_query r field docid =
     (case field of
        None \<Rightarrow> Some (Some empty_value)
      | Some f \<Rightarrow>
          if ix_index_type f \<noteq> HI_KEY_ALG_FILTER then Some None
          else do {
            c \<leftarrow> flag_compressed f;
            if c
            then (case ix_filter_compress f of Compressed z \<Rightarrow> map_option Some (filter_compress_query z docid) | _ \<Rightarrow> None)
            else do { g \<leftarrow> ix_filter_index f; filter_index_query r g docid }
          })"

definition index_field_count_query ::
    "(u8 list \<Rightarrow> string) \<Rightarrow> (u8 list \<Rightarrow> string) \<Rightarrow> index_field_manager option \<Rightarrow> low_data \<Rightarrow> u32 option" where
  "index_field_count_query fmt_f fmt_lf field data =
     (case field of
        None \<Rightarrow> Some 0
      | Some f \<Rightarrow>
          if ix_index_type f \<noteq> HI_KEY_ALG_FULLTEXT then Some 0
          else do { y \<leftarrow> ix_dyhash_index f; dyhash_index_count_query fmt_f fmt_lf y data })"

definition index_field_equal_query ::
    "(u8 list \<Rightarrow> string) \<Rightarrow> (u8 list \<Rightarrow> string) \<Rightarrow> index_field_manager option \<Rightarrow> low_data \<Rightarrow>
       's::{zero,plus} rowid_list option option" where
  "index_field_equal_query fmt_f fmt_lf field data =
     (case field of
        None \<Rightarrow> Some None
      | Some f \<Rightarrow>
          (case ix_index_type f of
             HI_KEY_ALG_HASH \<Rightarrow> do {
               c \<leftarrow> flag_compressed f;
               if c
               then do { z \<leftarrow> ix_hash_compress f; map_option Some (hash_compress_query fmt_f fmt_lf z data) }
               else do { h \<leftarrow> ix_hash_index f; hash_index_query fmt_f fmt_lf h data }
             }
           | HI_KEY_ALG_FULLTEXT \<Rightarrow> do { y \<leftarrow> ix_dyhash_index f; dyhash_index_query fmt_f fmt_lf y data }
           | _ \<Rightarrow> Some None))"

text \<open>The range query of the unfinished B-tree returns NULL.\<close>

definition index_field_range_query :: "index_field_manager option \<Rightarrow> 'q \<Rightarrow> 's rowid_list option" where
  "index_field_range_query field range_condition = None"

section \<open>Compression\<close>

text \<open>\<open>value\<close> is what the buffer of the filter compression holds before it is written.\<close>

definition index_field_compress ::
    "env \<Rightarrow> u8 list \<Rightarrow> file_system \<Rightarrow> index_field_manager option \<Rightarrow> (int \<times> index_field_manager option \<times> file_system) outcome" where
  "index_field_compress ev value fs field =
     (case field of
        None \<Rightarrow> Ret (ERROR_NOT_NEED_COMPRESS, field, fs)
      | Some f \<Rightarrow>
          obind (need (flag_compressed f)) (\<lambda>c.
            if c then Ret (ERROR_NOT_NEED_COMPRESS, field, fs)
            else
              (case ix_index_type f of
                 HI_KEY_ALG_HASH \<Rightarrow>
                   (case ix_hash_index f of
                      None \<Rightarrow> Ret (ERROR_COMMPRESS_FAIL, Some (f\<lparr>ix_hash_compress := None\<rparr>), fs)
                    | Some h \<Rightarrow>
                        obind (hash_compress_load (ev_os ev) fs h (ix_hash_compress_num f)) (\<lambda>(z, fs1).
                          Ret (if z = None then ERROR_COMMPRESS_FAIL else MILE_RETURN_SUCCESS,
                            Some (f\<lparr>ix_hash_compress := z\<rparr>), fs1)))
               | HI_KEY_ALG_FILTER \<Rightarrow>
                   obind (need (do { g \<leftarrow> ix_filter_index f; s \<leftarrow> fi_storage g; m \<leftarrow> ix_max_len f; n \<leftarrow> get32 m 0;
                     filter_compress_load (ev_os ev) fs value s n })) (\<lambda>(z, fs1).
                     Ret (case z of Failed \<Rightarrow> ERROR_COMMPRESS_FAIL | Not_worthwhile \<Rightarrow> ERROR_NOT_NEED_COMPRESS
                          | Compressed _ \<Rightarrow> MILE_RETURN_SUCCESS,
                       Some (f\<lparr>ix_filter_compress := z\<rparr>), fs1))
               | _ \<Rightarrow> Ret (ERROR_NOT_SUPPORT_COMMPRESS, field, fs))))"

text \<open>The switch sets the flag, on disk before anything else, and removes the files of the index.\<close>

definition set_flag :: "file_system \<Rightarrow> index_field_manager \<Rightarrow> (index_field_manager \<times> file_system) option" where
  "set_flag fs f = do {
     m \<leftarrow> ix_flag f;
     v \<leftarrow> get32 m 0;
     m' \<leftarrow> put32 m 0 (v OR INDEX_FIELD_COMPRESS);
     Some (f\<lparr>ix_flag := Some m'\<rparr>, msync_file fs (ix_stat_filename f) m')
   }"

definition index_field_switch ::
    "file_system \<Rightarrow> index_field_manager option \<Rightarrow> (int \<times> index_field_manager option \<times> file_system) option" where
  "index_field_switch fs field =
     (case field of
        None \<Rightarrow> Some (ERROR_FIELD_NOT_WORK, field, fs)
      | Some f \<Rightarrow> do {
          c \<leftarrow> flag_compressed f;
          if c then Some (ERROR_FIELD_NOT_WORK, field, fs)
          else
            (case ix_index_type f of
               HI_KEY_ALG_HASH \<Rightarrow>
                 if ix_hash_compress f = None then Some (ERROR_COMMPRESS_FAIL, field, fs)
                 else do {
                   (f1, fs1) \<leftarrow> set_flag fs f;
                   h \<leftarrow> ix_hash_index f;
                   Some (MILE_RETURN_SUCCESS, Some (f1\<lparr>ix_hash_index := None\<rparr>), hash_index_destroy fs1 h)
                 }
             | HI_KEY_ALG_FILTER \<Rightarrow>
                 (case ix_filter_compress f of
                    Failed \<Rightarrow> Some (ERROR_COMMPRESS_FAIL, field, fs)
                  | Not_worthwhile \<Rightarrow> Some (ERROR_NOT_NEED_COMPRESS, field, fs)
                  | Compressed _ \<Rightarrow> do {
                      (f1, fs1) \<leftarrow> set_flag fs f;
                      g \<leftarrow> ix_filter_index f;
                      fs2 \<leftarrow> filter_index_destroy fs1 g;
                      Some (MILE_RETURN_SUCCESS, Some (f1\<lparr>ix_filter_index := None\<rparr>), fs2)
                    })
             | _ \<Rightarrow> Some (ERROR_NOT_SUPPORT_COMMPRESS, field, fs))
        })"

section \<open>Closing\<close>

definition index_field_checkpoint :: "env \<Rightarrow> file_system \<Rightarrow> index_field_manager option \<Rightarrow> file_system outcome" where
  "index_field_checkpoint ev fs field =
     (case field of
        None \<Rightarrow> Ret fs
      | Some f \<Rightarrow>
          obind (need (is_compressed f)) (\<lambda>c.
            if c then Ret fs
            else
              obind
                (case ix_index_type f of
                   HI_KEY_ALG_HASH \<Rightarrow>
                     obind (need (flag_compressed f)) (\<lambda>c.
                       if c then Ret fs else obind (need (ix_hash_index f)) (hash_index_checkpoint ev fs))
                 | HI_KEY_ALG_FILTER \<Rightarrow>
                     obind (need (flag_compressed f)) (\<lambda>c.
                       if c then Ret fs else need (do { g \<leftarrow> ix_filter_index f; filter_index_checkpoint fs g }))
                 | HI_KEY_ALG_FULLTEXT \<Rightarrow> obind (need (ix_dyhash_index f)) (dyhash_index_checkpoint ev fs)
                 | _ \<Rightarrow> Ret fs)
                (\<lambda>fs1. Ret (sync_word (sync_word fs1 (ix_stat_filename f) (ix_flag f)) (ix_len_filename f) (ix_max_len f)))))"

definition index_field_release :: "env \<Rightarrow> file_system \<Rightarrow> index_field_manager option \<Rightarrow> file_system outcome" where
  "index_field_release ev fs field =
     (case field of
        None \<Rightarrow> Ret fs
      | Some f \<Rightarrow>
          obind
            (case ix_index_type f of
               HI_KEY_ALG_FULLTEXT \<Rightarrow> obind (need (ix_dyhash_index f)) (dyhash_index_release ev fs)
             | HI_KEY_ALG_HASH \<Rightarrow>
                 obind (need (flag_compressed f)) (\<lambda>c.
                   if c then obind (need (ix_hash_compress f)) (\<lambda>z. Ret (hash_compress_release fs z))
                   else obind (need (ix_hash_index f)) (hash_index_release ev fs))
             | HI_KEY_ALG_FILTER \<Rightarrow>
                 obind (need (flag_compressed f)) (\<lambda>c.
                   obind
                     (if c
                      then (case ix_filter_compress f of
                              Compressed z \<Rightarrow> need (map_option snd (filter_compress_release fs z)) | _ \<Rightarrow> Trap)
                      else need (do { g \<leftarrow> ix_filter_index f; map_option snd (filter_index_release fs g) }))
                     (\<lambda>fs1. Ret (sync_word fs1 (ix_len_filename f) (ix_max_len f))))
             | _ \<Rightarrow> Ret fs)
            (\<lambda>fs1. Ret (sync_word fs1 (ix_stat_filename f) (ix_flag f))))"

text \<open>The files of a full-text index are not removed: its case is missing.  The last call removes the
  directory if it is empty, which no file name records.\<close>

definition index_field_destroy :: "file_system \<Rightarrow> index_field_manager option \<Rightarrow> file_system option" where
  "index_field_destroy fs field =
     (case field of
        None \<Rightarrow> Some fs
      | Some f \<Rightarrow> do {
          fs1 \<leftarrow>
            (case ix_index_type f of
               HI_KEY_ALG_HASH \<Rightarrow> do {
                 c \<leftarrow> flag_compressed f;
                 if c then do { z \<leftarrow> ix_hash_compress f; Some (hash_compress_destroy fs z) }
                 else do { h \<leftarrow> ix_hash_index f; Some (hash_index_destroy fs h) }
               }
             | HI_KEY_ALG_FILTER \<Rightarrow> do {
                 c \<leftarrow> flag_compressed f;
                 fs1 \<leftarrow>
                   (if c then (case ix_filter_compress f of Compressed z \<Rightarrow> filter_compress_destroy fs z | _ \<Rightarrow> None)
                    else do { g \<leftarrow> ix_filter_index f; filter_index_destroy fs g });
                 Some (fs1(ix_len_filename f := None))
               }
             | _ \<Rightarrow> Some fs);
          Some (fs1(ix_stat_filename f := None))
        })"

definition index_mmap_switch ::
    "env \<Rightarrow> file_system \<Rightarrow> index_field_manager option \<Rightarrow> (int \<times> index_field_manager option \<times> file_system) outcome" where
  "index_mmap_switch ev fs field =
     (case field of
        None \<Rightarrow> Ret (MILE_RETURN_SUCCESS, field, fs)
      | Some f \<Rightarrow>
          (case ix_index_type f of
             HI_KEY_ALG_HASH \<Rightarrow>
               obind (need (flag_compressed f)) (\<lambda>c.
                 if c then Ret (MILE_RETURN_SUCCESS, field, fs)
                 else obind (need (ix_hash_index f)) (\<lambda>h.
                   obind (hash_index_mmap_switch ev fs h) (\<lambda>(r, h', fs1). Ret (r, Some (f\<lparr>ix_hash_index := Some h'\<rparr>), fs1))))
           | HI_KEY_ALG_FULLTEXT \<Rightarrow>
               obind (need (ix_dyhash_index f)) (\<lambda>y.
                 obind (dyhash_index_mmap_switch ev fs y) (\<lambda>(r, y', fs1). Ret (r, Some (f\<lparr>ix_dyhash_index := Some y'\<rparr>), fs1)))
           | _ \<Rightarrow> Ret (MILE_RETURN_SUCCESS, field, fs)))"

end
