(* ===== verification/String_Map.thy ===== *)
theory String_Map
  imports Region "HOL-Library.List_Lexorder" "HOL-Library.Char_ord"
begin

text \<open>
  \<^verbatim>\<open>common/string_map.c\<close>: a map from C strings to pointers as a sorted array of a fixed size.
  \<^verbatim>\<open>strcmp\<close> compares bytes as unsigned numbers, which is the lexicographic order on strings.
  The abstraction is the map of the pairs in the array; the contract \<open>key_map\<close> is what the
  segment uses of it.
\<close>

section \<open>State\<close>

text \<open>The first \<open>pos\<close> cells of the array are the list of pairs.\<close>

record 'v string_map =
  sm_size :: nat
  sm_data :: "(string \<times> 'v) list"

definition init_string_map :: "nat \<Rightarrow> 'v string_map" where
  "init_string_map n = \<lparr>sm_size = n, sm_data = []\<rparr>"

section \<open>Operations\<close>

definition strmap_cmp :: "string \<Rightarrow> string \<times> 'v \<Rightarrow> int" where
  "strmap_cmp key e = (if key < fst e then - 1 else if key > fst e then 1 else 0)"

text \<open>\<^verbatim>\<open>bsearch\<close> of the C library over the cells \<open>l\<close> to \<open>u - 1\<close>.\<close>

function bsearch :: "string \<Rightarrow> (string \<times> 'v) list \<Rightarrow> nat \<Rightarrow> nat \<Rightarrow> nat option" where
  "bsearch key xs l u =
     (if l < u
      then let idx = (l + u) div 2; c = strmap_cmp key (xs ! idx)
           in if c < 0 then bsearch key xs l idx
              else if c > 0 then bsearch key xs (idx + 1) u
              else Some idx
      else None)"
  by pat_completeness auto
termination
  by (relation "measure (\<lambda>(key, xs, l, u). u - l)") auto

declare bsearch.simps [simp del]

definition string_map_get :: "'v string_map \<Rightarrow> string \<Rightarrow> 'v option" where
  "string_map_get sm key =
     (case bsearch key (sm_data sm) 0 (length (sm_data sm)) of
        None \<Rightarrow> None
      | Some i \<Rightarrow> Some (snd (sm_data sm ! i)))"

definition string_map_remove :: "'v string_map \<Rightarrow> string \<Rightarrow> 'v option \<times> 'v string_map" where
  "string_map_remove sm key =
     (case bsearch key (sm_data sm) 0 (length (sm_data sm)) of
        None \<Rightarrow> (None, sm)
      | Some i \<Rightarrow> (Some (snd (sm_data sm ! i)),
          sm\<lparr>sm_data := take i (sm_data sm) @ drop (i + 1) (sm_data sm)\<rparr>))"

text \<open>The loop that makes room moves the greater keys up, from the last cell on.\<close>

fun shift_loop :: "string \<Rightarrow> (string \<times> 'v) list \<Rightarrow> nat \<Rightarrow> nat" where
  "shift_loop key xs 0 = 0"
| "shift_loop key xs (Suc i) = (if strmap_cmp key (xs ! i) < 0 then shift_loop key xs i else Suc i)"

definition string_map_put :: "'v string_map \<Rightarrow> string \<Rightarrow> 'v \<Rightarrow> int \<times> 'v string_map" where
  "string_map_put sm key v =
     (if length (sm_data sm) = sm_size sm then (- 1, sm)
      else
        let sm' = snd (string_map_remove sm key);
            xs = sm_data sm';
            i = shift_loop key xs (length xs)
        in (0, sm'\<lparr>sm_data := take i xs @ (key, v) # drop i xs\<rparr>))"

text \<open>The function may change what the values point to and the state \<open>w\<close> that it shares with the
  caller.\<close>

fun for_each_pair ::
    "('v \<Rightarrow> 'w \<Rightarrow> (int \<times> 'v \<times> 'w) outcome) \<Rightarrow> (string \<times> 'v) list \<Rightarrow> 'w \<Rightarrow> (int \<times> (string \<times> 'v) list \<times> 'w) outcome" where
  "for_each_pair f [] w = Ret (MILE_RETURN_SUCCESS, [], w)"
| "for_each_pair f ((k, v) # xs) w =
     obind (f v w) (\<lambda>(rc, v', w').
       if rc < 0 then Ret (rc, (k, v') # xs, w')
       else obind (for_each_pair f xs w') (\<lambda>(r, ys, w''). Ret (r, (k, v') # ys, w'')))"

definition string_map_for_each ::
    "('v \<Rightarrow> 'w \<Rightarrow> (int \<times> 'v \<times> 'w) outcome) \<Rightarrow> 'v string_map \<Rightarrow> 'w \<Rightarrow> (int \<times> 'v string_map \<times> 'w) outcome" where
  "string_map_for_each f sm w =
     obind (for_each_pair f (sm_data sm) w) (\<lambda>(r, xs, w'). Ret (r, sm\<lparr>sm_data := xs\<rparr>, w'))"

section \<open>Well-formed maps\<close>

definition sm_ok :: "'v string_map \<Rightarrow> bool" where
  "sm_ok sm \<longleftrightarrow> sorted_wrt (<) (map fst (sm_data sm)) \<and> length (sm_data sm) \<le> sm_size sm"

definition sm_map :: "'v string_map \<Rightarrow> string \<rightharpoonup> 'v" where
  "sm_map sm = map_of (sm_data sm)"

lemma sm_ok_distinct: "sm_ok sm \<Longrightarrow> distinct (map fst (sm_data sm))"
  by (simp add: sm_ok_def strict_sorted_iff)

lemma bsearch_finds:
  assumes "sorted_wrt (<) (map fst xs)" and "u \<le> length xs"
    and "\<And>i. i < l \<Longrightarrow> i < length xs \<Longrightarrow> fst (xs ! i) < key" and "\<And>i. u \<le> i \<Longrightarrow> i < length xs \<Longrightarrow> key < fst (xs ! i)"
  shows "case bsearch key xs l u of None \<Rightarrow> key \<notin> fst ` set xs | Some i \<Rightarrow> i < length xs \<and> fst (xs ! i) = key"
  using assms
proof (induction key xs l u rule: bsearch.induct)
  case (1 key xs l u)
  define idx where "idx = (l + u) div 2"
  have mono: "fst (xs ! i) < fst (xs ! j)" if "i < j" "j < length xs" for i j
    using "1.prems"(1) that by (simp add: sorted_wrt_iff_nth_less)
  show ?case
  proof (cases "l < u")
    case False
    have "fst (xs ! i) \<noteq> key" if "i < length xs" for i
      using "1.prems"(3) [of i] "1.prems"(4) [of i] False that by (cases "i < l") auto
    then have "key \<notin> fst ` set xs" by (metis imageE in_set_conv_nth)
    with False show ?thesis by (simp add: bsearch.simps)
  next
    case True
    have idx: "l \<le> idx" "idx < u" "idx < length xs" using True "1.prems"(2) by (simp_all add: idx_def)
    note IH = "1.IH" [OF True idx_def refl]
    consider "key < fst (xs ! idx)" | "fst (xs ! idx) < key" | "fst (xs ! idx) = key" using less_linear by blast
    then show ?thesis
    proof cases
      case 1
      have "key < fst (xs ! i)" if "idx \<le> i" "i < length xs" for i
        using 1 mono [of idx i] that by (cases "i = idx") (auto intro: less_trans)
      then have "case bsearch key xs l idx of None \<Rightarrow> key \<notin> fst ` set xs | Some i \<Rightarrow> i < length xs \<and> fst (xs ! i) = key"
        using 1 "1.prems" idx by (intro IH(1)) (auto simp: strmap_cmp_def)
      moreover have "bsearch key xs l u = bsearch key xs l idx"
        using 1 True by (subst bsearch.simps) (simp add: strmap_cmp_def Let_def flip: idx_def)
      ultimately show ?thesis by simp
    next
      case 2
      have "fst (xs ! i) < key" if "i < idx + 1" "i < length xs" for i
        using 2 mono [of i idx] idx that by (cases "i = idx") (auto intro: less_trans)
      then have "case bsearch key xs (idx + 1) u of None \<Rightarrow> key \<notin> fst ` set xs | Some i \<Rightarrow> i < length xs \<and> fst (xs ! i) = key"
        using 2 less_not_sym [OF 2] "1.prems" idx by (intro IH(2)) (auto simp: strmap_cmp_def)
      moreover have "bsearch key xs l u = bsearch key xs (idx + 1) u"
        using 2 less_not_sym [OF 2] True by (subst bsearch.simps) (simp add: strmap_cmp_def Let_def flip: idx_def)
      ultimately show ?thesis by simp
    next
      case 3
      then have "bsearch key xs l u = Some idx"
        using True by (subst bsearch.simps) (simp add: strmap_cmp_def Let_def flip: idx_def)
      with 3 idx show ?thesis by simp
    qed
  qed
qed

lemma bsearch_map:
  assumes "sm_ok sm"
  obtains (absent) "bsearch key (sm_data sm) 0 (length (sm_data sm)) = None" "key \<notin> fst ` set (sm_data sm)"
  | (present) i v where "bsearch key (sm_data sm) 0 (length (sm_data sm)) = Some i" "i < length (sm_data sm)"
      "sm_data sm ! i = (key, v)"
proof -
  have "sorted_wrt (<) (map fst (sm_data sm))" using assms by (simp add: sm_ok_def)
  from bsearch_finds [OF this, of "length (sm_data sm)" 0 key]
  show ?thesis using absent present by (cases "bsearch key (sm_data sm) 0 (length (sm_data sm))") (auto simp: prod_eq_iff)
qed

lemma get_map:
  assumes ok: "sm_ok sm"
  shows "string_map_get sm key = sm_map sm key"
  using ok
proof (cases rule: bsearch_map [of sm key])
  case absent
  have "map_of (sm_data sm) key = None" using absent(2) by (simp add: map_of_eq_None_iff)
  with absent show ?thesis by (simp add: string_map_get_def sm_map_def)
next
  case (present i v)
  have "(key, v) \<in> set (sm_data sm)" using present(2,3) by (metis nth_mem)
  with present show ?thesis using map_of_is_SomeI [OF sm_ok_distinct [OF ok]] by (simp add: string_map_get_def sm_map_def)
qed

lemma map_of_middle: "k \<notin> fst ` set xs \<Longrightarrow> map_of (xs @ (k, v) # ys) = (map_of (xs @ ys))(k \<mapsto> v)"
  by (induction xs) auto

lemma map_of_without: "k \<notin> fst ` set xs \<Longrightarrow> k \<notin> fst ` set ys \<Longrightarrow> map_of (xs @ ys) = (map_of (xs @ (k, v) # ys))(k := None)"
  by (induction xs) (auto simp: fun_upd_twist map_of_eq_None_iff)

lemma remove_map:
  assumes "sm_ok sm"
  obtains sm' where "string_map_remove sm key = (sm_map sm key, sm')" and "sm_ok sm'" and "sm_map sm' = (sm_map sm)(key := None)"
    and "sm_size sm' = sm_size sm" and "length (sm_data sm') \<le> length (sm_data sm)"
  using assms
proof (cases rule: bsearch_map [of sm key])
  case absent
  have "map_of (sm_data sm) key = None" using absent(2) by (simp add: map_of_eq_None_iff)
  with absent show ?thesis using assms by (intro that [of sm]) (simp_all add: string_map_remove_def sm_map_def fun_upd_idem)
next
  case (present i v)
  let ?xs = "sm_data sm" and ?ys = "take i (sm_data sm) @ drop (i + 1) (sm_data sm)"
  have xs: "?xs = take i ?xs @ (key, v) # drop (i + 1) ?xs" using present(2,3) by (metis Suc_eq_plus1 id_take_nth_drop)
  have s: "sorted_wrt (<) (map fst ?xs)" using assms by (simp add: sm_ok_def)
  have d: "distinct (map fst ?xs)" using assms by (rule sm_ok_distinct)
  have "sorted_wrt (<) (map fst (take i ?xs @ (key, v) # drop (i + 1) ?xs))" using s xs by simp
  then have "sm_ok (sm\<lparr>sm_data := ?ys\<rparr>)" using assms present(2) by (auto simp: sm_ok_def sorted_wrt_append)
  moreover have "map_of ?ys = (map_of ?xs)(key := None)"
  proof -
    have k: "key \<notin> fst ` set (take i ?xs)" "key \<notin> fst ` set (drop (i + 1) ?xs)"
    proof -
      have "distinct (map fst (take i ?xs @ (key, v) # drop (i + 1) ?xs))" using d xs by simp
      then show "key \<notin> fst ` set (take i ?xs)" "key \<notin> fst ` set (drop (i + 1) ?xs)" by auto
    qed
    have "map_of ?xs = map_of (take i ?xs @ (key, v) # drop (i + 1) ?xs)" using xs by (rule arg_cong)
    with map_of_without [OF k, of v] show ?thesis by (simp only:)
  qed
  moreover have "sm_map sm key = Some v"
    using map_of_is_SomeI [OF d, of key v] present(2,3) by (metis nth_mem sm_map_def)
  ultimately show ?thesis using present
    by (intro that [of "sm\<lparr>sm_data := ?ys\<rparr>"]) (simp_all add: string_map_remove_def sm_map_def)
qed

lemma shift_loop_splits:
  assumes "sorted_wrt (<) (map fst xs)" and "key \<notin> fst ` set xs" and "n \<le> length xs"
    and "\<And>j. n \<le> j \<Longrightarrow> j < length xs \<Longrightarrow> key < fst (xs ! j)"
  shows "shift_loop key xs n \<le> n \<and> (\<forall>j < shift_loop key xs n. fst (xs ! j) < key) \<and>
    (\<forall>j. shift_loop key xs n \<le> j \<and> j < length xs \<longrightarrow> key < fst (xs ! j))"
  using assms
proof (induction n)
  case (Suc i)
  have ne: "fst (xs ! i) \<noteq> key" using Suc.prems(2,3) by (metis Suc_le_lessD imageI nth_mem)
  show ?case
  proof (cases "key < fst (xs ! i)")
    case True
    have "key < fst (xs ! j)" if "i \<le> j" "j < length xs" for j using True Suc.prems(4) [of j] that by (cases "j = i") auto
    then have "shift_loop key xs i \<le> i \<and> (\<forall>j < shift_loop key xs i. fst (xs ! j) < key) \<and>
        (\<forall>j. shift_loop key xs i \<le> j \<and> j < length xs \<longrightarrow> key < fst (xs ! j))"
      using Suc.prems by (intro Suc.IH) auto
    with True show ?thesis by (simp add: strmap_cmp_def)
  next
    case False
    have mono: "fst (xs ! j) \<le> fst (xs ! i)" if "j < Suc i" for j
      using Suc.prems(1,3) that by (cases "j = i") (auto simp: sorted_wrt_iff_nth_less intro: less_imp_le)
    have "fst (xs ! i) < key" using False ne by simp
    with mono Suc.prems(4) False show ?thesis by (auto simp: strmap_cmp_def intro: order.strict_trans1)
  qed
qed auto

lemma put_map:
  assumes "sm_ok sm" and "length (sm_data sm) < sm_size sm"
  obtains sm' where "string_map_put sm key v = (0, sm')" and "sm_ok sm'" and "sm_map sm' = (sm_map sm)(key \<mapsto> v)"
    and "sm_size sm' = sm_size sm"
proof -
  obtain sm1 where 1: "string_map_remove sm key = (sm_map sm key, sm1)" "sm_ok sm1" "sm_map sm1 = (sm_map sm)(key := None)"
    "sm_size sm1 = sm_size sm" "length (sm_data sm1) \<le> length (sm_data sm)" using assms(1) by (rule remove_map)
  define xs where "xs = sm_data sm1"
  define i where "i = shift_loop key xs (length xs)"
  have s: "sorted_wrt (<) (map fst xs)" using 1(2) by (simp add: sm_ok_def xs_def)
  have k: "key \<notin> fst ` set xs" using 1(3) by (metis fun_upd_same map_of_eq_None_iff sm_map_def xs_def)
  have i: "i \<le> length xs" "\<forall>j < i. fst (xs ! j) < key" "\<forall>j. i \<le> j \<and> j < length xs \<longrightarrow> key < fst (xs ! j)"
    using shift_loop_splits [OF s k, of "length xs"] by (simp_all add: i_def)
  have lo: "fst e < key" if "e \<in> set (take i xs)" for e using that i(1,2) by (auto simp: in_set_conv_nth)
  have hi: "key < fst e" if "e \<in> set (drop i xs)" for e using that i(3) by (auto simp: in_set_conv_nth)
  let ?sm = "sm1\<lparr>sm_data := take i xs @ (key, v) # drop i xs\<rparr>"
  have "sorted_wrt (<) (map fst (take i xs))" "sorted_wrt (<) (map fst (drop i xs))"
    using s by (simp_all add: sorted_wrt_take sorted_wrt_drop flip: take_map drop_map)
  moreover have "fst e < fst f" if "e \<in> set (take i xs)" "f \<in> set (drop i xs)" for e f
    using lo [OF that(1)] hi [OF that(2)] by (rule less_trans)
  ultimately have "sm_ok ?sm" using lo hi assms(2) 1(4,5) i(1)
    by (auto simp: sm_ok_def sorted_wrt_append xs_def)
  moreover have "sm_map ?sm = (sm_map sm)(key \<mapsto> v)"
  proof -
    have "map_of (take i xs @ (key, v) # drop i xs) = (map_of (take i xs @ drop i xs))(key \<mapsto> v)"
      using lo by (intro map_of_middle) auto
    also have "\<dots> = (sm_map sm)(key \<mapsto> v)" unfolding append_take_drop_id using 1(3) by (simp add: sm_map_def flip: xs_def)
    finally show ?thesis by (simp add: sm_map_def)
  qed
  moreover have "string_map_put sm key v = (0, ?sm)"
    using assms(2) 1(1) by (simp add: string_map_put_def Let_def flip: xs_def i_def)
  ultimately show ?thesis using that [of ?sm] 1(4) by simp
qed

section \<open>The contract\<close>

text \<open>What a client sees: a finite map that refuses every insertion once it holds as many keys as it
  has room for, a replacement included.\<close>

definition spec_put :: "nat \<Rightarrow> (string \<rightharpoonup> 'v) \<Rightarrow> string \<Rightarrow> 'v \<Rightarrow> string \<rightharpoonup> 'v" where
  "spec_put n f k v = (if card (dom f) = n then f else f(k \<mapsto> v))"

datatype 'v map_op = Put string 'v | Remove string

fun run_ops :: "('m \<Rightarrow> string \<Rightarrow> 'v \<Rightarrow> int \<times> 'm) \<Rightarrow> ('m \<Rightarrow> string \<Rightarrow> 'v option \<times> 'm) \<Rightarrow> 'm \<Rightarrow> 'v map_op list \<Rightarrow> 'm" where
  "run_ops put remove m [] = m"
| "run_ops put remove m (Put k v # ops) = run_ops put remove (snd (put m k v)) ops"
| "run_ops put remove m (Remove k # ops) = run_ops put remove (snd (remove m k)) ops"

fun spec_ops :: "nat \<Rightarrow> (string \<rightharpoonup> 'v) \<Rightarrow> 'v map_op list \<Rightarrow> string \<rightharpoonup> 'v" where
  "spec_ops n f [] = f"
| "spec_ops n f (Put k v # ops) = spec_ops n (spec_put n f k v) ops"
| "spec_ops n f (Remove k # ops) = spec_ops n (f(k := None)) ops"

locale key_map =
  fixes ok :: "'m \<Rightarrow> bool"
    and abs :: "'m \<Rightarrow> string \<rightharpoonup> 'v"
    and room :: "'m \<Rightarrow> nat"
    and get :: "'m \<Rightarrow> string \<Rightarrow> 'v option"
    and put :: "'m \<Rightarrow> string \<Rightarrow> 'v \<Rightarrow> int \<times> 'm"
    and remove :: "'m \<Rightarrow> string \<Rightarrow> 'v option \<times> 'm"
  assumes get_law: "ok m \<Longrightarrow> get m k = abs m k"
    and put_law: "ok m \<Longrightarrow> \<exists>m'. put m k v = (if card (dom (abs m)) = room m then - 1 else 0, m') \<and> ok m' \<and>
      room m' = room m \<and> abs m' = spec_put (room m) (abs m) k v"
    and remove_law: "ok m \<Longrightarrow> \<exists>m'. remove m k = (abs m k, m') \<and> ok m' \<and> room m' = room m \<and> abs m' = (abs m)(k := None)"
begin

lemma run_refines:
  "ok m \<Longrightarrow> ok (run_ops put remove m ops) \<and> abs (run_ops put remove m ops) = spec_ops (room m) (abs m) ops"
proof (induction ops arbitrary: m)
  case (Cons x ops)
  show ?case
  proof (cases x)
    case (Put k v)
    obtain r m' where "put m k v = (r, m')" "ok m'" "room m' = room m" "abs m' = spec_put (room m) (abs m) k v"
      using put_law [OF Cons.prems, of k v] by blast
    with Cons.IH [of m'] Put show ?thesis by simp
  next
    case (Remove k)
    obtain r m' where "remove m k = (r, m')" "ok m'" "room m' = room m" "abs m' = (abs m)(k := None)"
      using remove_law [OF Cons.prems, of k] by blast
    with Cons.IH [OF this(2)] Remove show ?thesis by (simp only: run_ops.simps spec_ops.simps snd_conv)
  qed
qed simp

lemma get_run: "ok m \<Longrightarrow> get (run_ops put remove m ops) k = spec_ops (room m) (abs m) ops k"
  using run_refines [of m ops] get_law [of "run_ops put remove m ops" k] by simp

lemma get_after_put:
  assumes "ok m" and "put m k v = (0, m')"
  shows "get m' k' = (if k' = k then Some v else get m k')"
proof -
  obtain m1 where m1: "put m k v = (if card (dom (abs m)) = room m then - 1 else 0, m1)" "ok m1"
    "abs m1 = spec_put (room m) (abs m) k v" using put_law [OF assms(1), of k v] by blast
  with assms(2) have "m1 = m'" "card (dom (abs m)) \<noteq> room m" by (auto split: if_splits)
  with m1 get_law [OF assms(1)] get_law [OF m1(2)] show ?thesis by (simp add: spec_put_def)
qed

end

lemma card_dom_map: "sm_ok sm \<Longrightarrow> card (dom (sm_map sm)) = length (sm_data sm)"
  using sm_ok_distinct [of sm] by (simp add: sm_map_def dom_map_of_conv_image_fst distinct_card flip: set_map)

interpretation smx: key_map sm_ok sm_map sm_size string_map_get string_map_put string_map_remove
proof
  fix sm :: "'v string_map" and key v
  assume ok: "sm_ok sm"
  show "string_map_get sm key = sm_map sm key" using ok by (rule get_map)
  show "\<exists>m'. string_map_put sm key v = (if card (dom (sm_map sm)) = sm_size sm then - 1 else 0, m') \<and> sm_ok m' \<and>
      sm_size m' = sm_size sm \<and> sm_map m' = spec_put (sm_size sm) (sm_map sm) key v"
  proof (cases "length (sm_data sm) = sm_size sm")
    case True
    then show ?thesis using ok by (simp add: card_dom_map spec_put_def string_map_put_def)
  next
    case False
    then have "length (sm_data sm) < sm_size sm" using ok by (simp add: sm_ok_def)
    with ok obtain sm' where "string_map_put sm key v = (0, sm')" "sm_ok sm'" "sm_map sm' = (sm_map sm)(key \<mapsto> v)"
      "sm_size sm' = sm_size sm" by (rule put_map)
    with False ok show ?thesis by (simp add: card_dom_map spec_put_def)
  qed
  show "\<exists>m'. string_map_remove sm key = (sm_map sm key, m') \<and> sm_ok m' \<and> sm_size m' = sm_size sm \<and>
      sm_map m' = (sm_map sm)(key := None)"
    using remove_map [OF ok, of key] by metis
qed

lemma init_string_map_ok: "sm_ok (init_string_map n)" "sm_map (init_string_map n) = Map.empty" "sm_size (init_string_map n) = n"
  by (simp_all add: init_string_map_def sm_ok_def sm_map_def)

section \<open>Properties\<close>

text \<open>C19: The sorted array behaves as a map of bounded size: after any sequence of insertions and
  removals, a lookup by binary search returns what the map holds.  A full map refuses every insertion,
  even one that would only replace the value of a key it has.\<close>

theorem string_map_refines_map:
  "string_map_get (run_ops string_map_put string_map_remove (init_string_map n) ops) key = spec_ops n Map.empty ops key"
  using smx.get_run [OF init_string_map_ok(1), of n ops key] by (simp only: init_string_map_ok(2,3))

end
