(* ===== verification/Segment.thy ===== *)
theory Segment
  imports Index_Field Data_Field String_Map
begin

text \<open>
  \<^verbatim>\<open>storage/docdb/segment.c\<close>: one segment of a table, with its rows, its delete marks and a map from
  column name and kind to the indexes.  The meta data of the segment lies in a mapping of the
  table, so that saving it is not a file of the segment.  A mark that is set means that the
  document is there; \<open>now\<close> is the result of \<^verbatim>\<open>time\<close>.
\<close>

section \<open>State\<close>

abbreviation (input) SEGMENT_INIT :: u8 where "SEGMENT_INIT \<equiv> 1"
abbreviation (input) SEGMENT_DUMP :: u8 where "SEGMENT_DUMP \<equiv> 2"
abbreviation (input) SEGMENT_FULL :: u8 where "SEGMENT_FULL \<equiv> 4"
abbreviation (input) SEGMENT_COMPRESS :: u8 where "SEGMENT_COMPRESS \<equiv> 8"
abbreviation (input) MAX_FIELD_NAME :: nat where "MAX_FIELD_NAME \<equiv> 100"
abbreviation (input) MAX_SEGMENT_NAME :: nat where "MAX_SEGMENT_NAME \<equiv> 100"
abbreviation (input) MAX_INDEX_FIELD_NUM :: nat where "MAX_INDEX_FIELD_NUM \<equiv> 100"
abbreviation (input) MAX_INDEX_PER_FIELD :: nat where "MAX_INDEX_PER_FIELD \<equiv> 10"
abbreviation (input) ERROR_FIELD_INIT_FAILED :: int where "ERROR_FIELD_INIT_FAILED \<equiv> - 3997"

record index_field_stat =
  is_index_type :: index_key_alg
  is_data_type :: field_types
  is_flag :: u8

record index_field_meta =
  im_field_name :: string
  im_index_count :: u8
  im_indexs :: "index_field_stat list"

record segment_meta_data =
  md_create_time :: u64
  md_modify_time :: u64
  md_checkpoint_time :: u64
  md_flag :: u8
  md_row_count :: u32
  md_del_count :: u32

record segment_config =
  gc_work_space :: string
  gc_segment_name :: string
  gc_index_field_count :: u8
  gc_index_fields :: "index_field_meta list"
  gc_hash_compress_num :: u32
  gc_row_limit :: u32
  gc_meta_data :: segment_meta_data
  gc_sid :: u16

record segment_manager =
  sg_work_space :: string
  sg_segment_name :: string
  sg_sid :: u16
  sg_data_field :: data_field_manager
  sg_index_fields :: "index_field_manager string_map"
  sg_row_limit :: u32
  sg_meta_data :: segment_meta_data
  sg_del_bitmap :: bitmark_manager
  sg_hash_compress_num :: u32

definition set_modify_time :: "u64 \<Rightarrow> segment_manager \<Rightarrow> segment_manager" where
  "set_modify_time now sg = sg\<lparr>sg_meta_data := (sg_meta_data sg)\<lparr>md_modify_time := now\<rparr>\<rparr>"

definition touch :: "u64 \<Rightarrow> segment_manager \<Rightarrow> segment_manager" where
  "touch now sg = (if md_modify_time (sg_meta_data sg) = 0 then set_modify_time now sg else sg)"

section \<open>Indexes by name and kind\<close>

text \<open>\<^verbatim>\<open>strcpy\<close> into an array of \<open>n\<close> bytes.\<close>

definition strcpy_into :: "nat \<Rightarrow> string \<Rightarrow> string option" where
  "strcpy_into n s = (if length s < n then Some s else None)"

fun alg_text :: "index_key_alg \<Rightarrow> string" where
  "alg_text HI_KEY_ALG_UNDEF = ''0''"
| "alg_text HI_KEY_ALG_BTREE = ''1''"
| "alg_text HI_KEY_ALG_HASH = ''2''"
| "alg_text HI_KEY_ALG_FILTER = ''3''"
| "alg_text HI_KEY_ALG_FULLTEXT = ''4''"

definition index_key :: "string \<Rightarrow> index_key_alg \<Rightarrow> string option" where
  "index_key name t = strcpy_into (MAX_FIELD_NAME * 2) (name @ '' '' @ alg_text t)"

text \<open>The text that the name of a value points to.\<close>

definition name_text :: "u8 list \<Rightarrow> string" where
  "name_text name = map (\<lambda>b. char_of (unat b)) name"

definition segment_get_index_instance ::
    "segment_manager \<Rightarrow> string \<Rightarrow> index_key_alg \<Rightarrow> index_field_manager option option" where
  "segment_get_index_instance sg name t = do {
     key \<leftarrow> index_key name t;
     Some (string_map_get (sg_index_fields sg) key)
   }"

text \<open>A change of the index that the map points to.\<close>

definition put_instance :: "segment_manager \<Rightarrow> string \<Rightarrow> index_key_alg \<Rightarrow> index_field_manager \<Rightarrow> segment_manager" where
  "put_instance sg name t f =
     sg\<lparr>sg_index_fields := (sg_index_fields sg)\<lparr>sm_data :=
       map (\<lambda>(k, v). if index_key name t = Some k then (k, f) else (k, v)) (sm_data (sg_index_fields sg))\<rparr>\<rparr>"

definition segment_ensure_index ::
    "(string \<Rightarrow> bool) \<Rightarrow> env \<Rightarrow> u64 \<Rightarrow> file_system \<Rightarrow> segment_manager \<Rightarrow> string \<Rightarrow> index_key_alg \<Rightarrow>
       (int \<times> segment_manager \<times> file_system) outcome option" where
  "segment_ensure_index mkdirs ev now fs sg field_name index_type =
     (let sg1 = touch now sg in
      case strcpy_into MAX_FIELD_NAME field_name of
        None \<Rightarrow> Some Trap
      | Some name \<Rightarrow> do {
          r \<leftarrow> index_field_init mkdirs ev fs \<lparr>ic_work_space = sg_work_space sg, ic_field_name = name,
            ic_index_type = index_type, ic_hash_compress_num = sg_hash_compress_num sg, ic_row_limit = sg_row_limit sg,
            ic_is_full = (md_row_count (sg_meta_data sg) = sg_row_limit sg)\<rparr>;
          Some (obind r (\<lambda>(f, fs1).
            case f of
              None \<Rightarrow> Ret (ERROR_FIELD_INIT_FAILED, sg1, fs1)
            | Some f \<Rightarrow>
                obind (need (index_key name index_type)) (\<lambda>key.
                  Ret (MILE_RETURN_SUCCESS, sg1\<lparr>sg_index_fields := snd (string_map_put (sg_index_fields sg1) key f)\<rparr>, fs1))))
        })"

definition segment_del_index ::
    "u64 \<Rightarrow> file_system \<Rightarrow> segment_manager \<Rightarrow> string \<Rightarrow> index_key_alg \<Rightarrow> (int \<times> segment_manager \<times> file_system) option" where
  "segment_del_index now fs sg field_name index_type = do {
     let sg1 = touch now sg;
     key \<leftarrow> index_key field_name index_type;
     let (f, sm) = string_map_remove (sg_index_fields sg1) key;
     fs1 \<leftarrow> index_field_destroy fs f;
     Some (MILE_RETURN_SUCCESS, sg1\<lparr>sg_index_fields := sm\<rparr>, fs1)
   }"

section \<open>Opening\<close>

fun ensure_indexs ::
    "(string \<Rightarrow> bool) \<Rightarrow> env \<Rightarrow> u64 \<Rightarrow> string \<Rightarrow> index_field_stat list \<Rightarrow> file_system \<Rightarrow> segment_manager \<Rightarrow>
       (segment_manager \<times> file_system) outcome option" where
  "ensure_indexs mkdirs ev now name [] fs sg = Some (Ret (sg, fs))"
| "ensure_indexs mkdirs ev now name (x # xs) fs sg = do {
     r \<leftarrow> segment_ensure_index mkdirs ev now fs sg name (is_index_type x);
     case r of
       Ret (ret, sg1, fs1) \<Rightarrow> ensure_indexs mkdirs ev now name xs fs1 sg1
     | Trap \<Rightarrow> Some Trap
     | Blocked \<Rightarrow> Some Blocked
   }"

fun ensure_fields ::
    "(string \<Rightarrow> bool) \<Rightarrow> env \<Rightarrow> u64 \<Rightarrow> index_field_meta list \<Rightarrow> file_system \<Rightarrow> segment_manager \<Rightarrow>
       (segment_manager \<times> file_system) outcome option" where
  "ensure_fields mkdirs ev now [] fs sg = Some (Ret (sg, fs))"
| "ensure_fields mkdirs ev now (m # ms) fs sg =
     (case rd_range (im_indexs m) 0 (unat (im_index_count m)) of
        None \<Rightarrow> Some Trap
      | Some xs \<Rightarrow> do {
          r \<leftarrow> ensure_indexs mkdirs ev now (im_field_name m) xs fs sg;
          case r of
            Ret (sg1, fs1) \<Rightarrow> ensure_fields mkdirs ev now ms fs1 sg1
          | Trap \<Rightarrow> Some Trap
          | Blocked \<Rightarrow> Some Blocked
        })"

text \<open>The segment before its indexes are opened.\<close>

definition bare_segment ::
    "os \<Rightarrow> file_system \<Rightarrow> segment_config \<Rightarrow> string \<Rightarrow> (segment_manager \<times> file_system) option" where
  "bare_segment os fs config ws = do {
     (marks, fs1) \<leftarrow> bitmark_init os fs \<lparr>bc_work_space = ws, bc_bitmark_name = ''del'', bc_row_limit = gc_row_limit config\<rparr>;
     (data, fs2) \<leftarrow> data_field_init os fs1 \<lparr>dc_work_space = ws, dc_row_limit = gc_row_limit config\<rparr>;
     Some (\<lparr>sg_work_space = ws, sg_segment_name = gc_segment_name config, sg_sid = gc_sid config, sg_data_field = data,
       sg_index_fields = init_string_map (MAX_INDEX_FIELD_NUM * MAX_INDEX_PER_FIELD), sg_row_limit = gc_row_limit config,
       sg_meta_data = gc_meta_data config, sg_del_bitmap = marks, sg_hash_compress_num = gc_hash_compress_num config\<rparr>, fs2)
   }"

definition segment_init ::
    "(string \<Rightarrow> bool) \<Rightarrow> env \<Rightarrow> u64 \<Rightarrow> file_system \<Rightarrow> segment_config \<Rightarrow>
       (segment_manager option \<times> file_system) outcome option" where
  "segment_init mkdirs ev now fs config =
     (case (strcpy_into MAX_SEGMENT_NAME (gc_segment_name config),
            sprintf_name (gc_work_space config @ ''/'' @ gc_segment_name config)) of
        (Some _, Some ws) \<Rightarrow>
          if \<not> mkdirs ws then Some (Ret (None, fs))
          else
            (case (bare_segment (ev_os ev) fs config ws, rd_range (gc_index_fields config) 0 (unat (gc_index_field_count config))) of
               (Some (sg, fs1), Some ms) \<Rightarrow>
                 map_option (\<lambda>r. obind r (\<lambda>(sg1, fs2). Ret (Some sg1, fs2))) (ensure_fields mkdirs ev now ms fs1 sg)
             | _ \<Rightarrow> Some Trap)
      | _ \<Rightarrow> Some Trap)"

section \<open>Counters and flags\<close>

definition segment_get_rowcount :: "segment_manager \<Rightarrow> u32" where
  "segment_get_rowcount sg = md_row_count (sg_meta_data sg)"

definition segment_set_rowcount :: "segment_manager \<Rightarrow> u32 \<Rightarrow> segment_manager" where
  "segment_set_rowcount sg docid = sg\<lparr>sg_meta_data := (sg_meta_data sg)\<lparr>md_row_count := docid + 1\<rparr>\<rparr>"

definition segment_exceed_limit :: "segment_manager \<Rightarrow> int" where
  "segment_exceed_limit sg = (if md_row_count (sg_meta_data sg) \<ge> sg_row_limit sg then ERROR_EXCEED_LIMIT else 0)"

definition segment_set_flag :: "segment_manager \<Rightarrow> u8 \<Rightarrow> segment_manager" where
  "segment_set_flag sg flag = sg\<lparr>sg_meta_data := (sg_meta_data sg)\<lparr>md_flag := md_flag (sg_meta_data sg) OR flag\<rparr>\<rparr>"

definition segment_get_flag :: "segment_manager \<Rightarrow> u8" where
  "segment_get_flag sg = md_flag (sg_meta_data sg)"

section \<open>Rows and indexed values\<close>

definition segment_data_insert ::
    "nat \<Rightarrow> (nat \<Rightarrow> u8) \<Rightarrow> io \<Rightarrow> u64 \<Rightarrow> segment_manager \<Rightarrow> row_data \<Rightarrow> u32 \<Rightarrow> (int \<times> segment_manager) option" where
  "segment_data_insert pool_size raw w now sg rdata docid = do {
     let sg1 = set_modify_time now sg;
     (ret, df) \<leftarrow> data_field_insert pool_size raw w (sg_data_field sg1) rdata docid;
     Some (ret, sg1\<lparr>sg_data_field := df\<rparr>)
   }"

definition segment_data_update ::
    "nat \<Rightarrow> (nat \<Rightarrow> u8) \<Rightarrow> io \<Rightarrow> io \<Rightarrow> segment_manager \<Rightarrow> u32 \<Rightarrow> low_data \<Rightarrow> (int \<times> low_data option \<times> segment_manager) option" where
  "segment_data_update pool_size raw r w sg docid new_data =
     (if docid \<ge> sg_row_limit sg then Some (ERROR_EXCEED_LIMIT, None, sg)
      else do {
        (ret, old, df) \<leftarrow> data_field_update pool_size raw r w (sg_data_field sg) new_data docid;
        Some (ret, old, sg\<lparr>sg_data_field := df\<rparr>)
      })"

definition segment_index_update ::
    "(u8 list \<Rightarrow> string) \<Rightarrow> (u8 list \<Rightarrow> string) \<Rightarrow> io \<Rightarrow> io \<Rightarrow> u8 list \<times> field_types \<Rightarrow> segment_manager \<Rightarrow> u32 \<Rightarrow> low_data \<Rightarrow>
       (int \<times> low_data option \<times> segment_manager) option" where
  "segment_index_update fmt_f fmt_lf r w raw sg docid new_data =
     (if docid \<ge> sg_row_limit sg then Some (ERROR_EXCEED_LIMIT, None, sg)
      else do {
        let name = name_text (ld_field_name new_data);
        f \<leftarrow> segment_get_index_instance sg name HI_KEY_ALG_FILTER;
        if f = None then Some (ERROR_EXCEED_LIMIT, None, sg)
        else do {
          (ret, old, f') \<leftarrow> index_field_update fmt_f fmt_lf r w raw f new_data docid;
          f'' \<leftarrow> f';
          Some (ret, old, put_instance sg name HI_KEY_ALG_FILTER f'')
        }
      })"

definition segment_data_query_col :: "io \<Rightarrow> segment_manager \<Rightarrow> u8 list \<Rightarrow> u32 \<Rightarrow> low_data option option" where
  "segment_data_query_col r sg field_name docid =
     (if docid \<ge> sg_row_limit sg then Some None else data_field_query_col r (sg_data_field sg) field_name docid)"

definition segment_data_query_row :: "io \<Rightarrow> segment_manager \<Rightarrow> u32 \<Rightarrow> row_data option option" where
  "segment_data_query_row r sg docid =
     (if docid \<ge> sg_row_limit sg then Some None else data_field_query_row r (sg_data_field sg) docid)"

definition segment_index_insert ::
    "(u8 list \<Rightarrow> string) \<Rightarrow> (u8 list \<Rightarrow> string) \<Rightarrow> io \<Rightarrow> env \<Rightarrow> file_system \<Rightarrow> segment_manager \<Rightarrow> low_data \<Rightarrow> index_key_alg \<Rightarrow> u32 \<Rightarrow>
       (int \<times> segment_manager \<times> file_system) outcome" where
  "segment_index_insert fmt_f fmt_lf w ev fs sg data index_type docid =
     (let name = name_text (ld_field_name data) in
      obind (need (segment_get_index_instance sg name index_type)) (\<lambda>f.
        if f = None then Ret (ERROR_FIELD_INIT_FAILED, sg, fs)
        else obind (index_field_insert fmt_f fmt_lf w ev fs f data docid) (\<lambda>(ret, f', fs1).
          obind (need f') (\<lambda>f''. Ret (ret, put_instance sg name index_type f'', fs1)))))"

definition segment_index_range_query ::
    "segment_manager \<Rightarrow> string \<Rightarrow> 'q \<Rightarrow> 's rowid_list option option" where
  "segment_index_range_query sg field_name range_condition = do {
     f \<leftarrow> segment_get_index_instance sg field_name HI_KEY_ALG_BTREE;
     if f = None then Some None else Some (index_field_range_query f range_condition)
   }"

definition segment_index_value_query :: "io \<Rightarrow> segment_manager \<Rightarrow> string \<Rightarrow> u32 \<Rightarrow> low_data option option" where
  "segment_index_value_query r sg field_name docid = do {
     f \<leftarrow> segment_get_index_instance sg field_name HI_KEY_ALG_FILTER;
     if f = None \<or> docid \<ge> sg_row_limit sg then Some None else index_field_value_query r f docid
   }"

definition segment_index_equal_query ::
    "(u8 list \<Rightarrow> string) \<Rightarrow> (u8 list \<Rightarrow> string) \<Rightarrow> segment_manager \<Rightarrow> low_data \<Rightarrow> index_key_alg \<Rightarrow>
       's::{zero,plus} rowid_list option option" where
  "segment_index_equal_query fmt_f fmt_lf sg data index_type = do {
     f \<leftarrow> segment_get_index_instance sg (name_text (ld_field_name data)) index_type;
     if f = None then Some None else index_field_equal_query fmt_f fmt_lf f data
   }"

definition segment_index_count_query ::
    "(u8 list \<Rightarrow> string) \<Rightarrow> (u8 list \<Rightarrow> string) \<Rightarrow> segment_manager \<Rightarrow> low_data \<Rightarrow> u32 option" where
  "segment_index_count_query fmt_f fmt_lf sg data = do {
     f \<leftarrow> segment_get_index_instance sg (name_text (ld_field_name data)) HI_KEY_ALG_FULLTEXT;
     if f = None then Some 0 else index_field_count_query fmt_f fmt_lf f data
   }"

section \<open>Marks\<close>

definition segment_del_docid :: "u64 \<Rightarrow> segment_manager \<Rightarrow> u32 \<Rightarrow> (int \<times> segment_manager) option" where
  "segment_del_docid now sg docid =
     (let sg1 = set_modify_time now sg in
      if docid \<ge> sg_row_limit sg1 then Some (ERROR_EXCEED_LIMIT, sg1)
      else do {
        (ret, b) \<leftarrow> bitmark_clear (sg_del_bitmap sg1) docid;
        let sg2 = sg1\<lparr>sg_del_bitmap := b\<rparr>;
        if ret = 1
        then Some (MILE_RETURN_SUCCESS, sg2\<lparr>sg_meta_data := (sg_meta_data sg2)\<lparr>md_del_count := md_del_count (sg_meta_data sg2) + 1\<rparr>\<rparr>)
        else Some (ret, sg2)
      })"

definition segment_is_docid_deleted :: "segment_manager \<Rightarrow> u32 \<Rightarrow> int option" where
  "segment_is_docid_deleted sg docid =
     (if docid \<ge> sg_row_limit sg then Some ERROR_EXCEED_LIMIT else bitmark_query (sg_del_bitmap sg) docid)"

definition segment_set_docid_inserted :: "segment_manager \<Rightarrow> u32 \<Rightarrow> (int \<times> segment_manager) option" where
  "segment_set_docid_inserted sg docid =
     (if docid \<ge> sg_row_limit sg then Some (ERROR_EXCEED_LIMIT, sg)
      else do {
        (ret, b) \<leftarrow> bitmark_set (sg_del_bitmap sg) docid;
        Some (ret, sg\<lparr>sg_del_bitmap := b\<rparr>)
      })"

section \<open>Operations on all indexes\<close>

definition over_fields ::
    "(index_field_manager \<Rightarrow> 'w \<Rightarrow> (int \<times> index_field_manager \<times> 'w) outcome) \<Rightarrow> segment_manager \<Rightarrow> 'w \<Rightarrow>
       (int \<times> segment_manager \<times> 'w) outcome" where
  "over_fields f sg w =
     obind (string_map_for_each f (sg_index_fields sg) w) (\<lambda>(r, sm, w'). Ret (r, sg\<lparr>sg_index_fields := sm\<rparr>, w'))"

definition index_compress_iterator_func ::
    "env \<Rightarrow> u8 list \<Rightarrow> index_field_manager \<Rightarrow> file_system \<Rightarrow> (int \<times> index_field_manager \<times> file_system) outcome" where
  "index_compress_iterator_func ev value f fs =
     obind (index_field_compress ev value fs (Some f)) (\<lambda>(ret, f', fs1).
       obind (need f') (\<lambda>g. Ret (if ret \<noteq> ERROR_COMMPRESS_FAIL then MILE_RETURN_SUCCESS else ERROR_COMMPRESS_FAIL, g, fs1)))"

definition index_switch_iterator_func ::
    "index_field_manager \<Rightarrow> file_system \<Rightarrow> (int \<times> index_field_manager \<times> file_system) outcome" where
  "index_switch_iterator_func f fs =
     obind (need (index_field_switch fs (Some f))) (\<lambda>(ret, f', fs1).
       obind (need f') (\<lambda>g. Ret (if ret \<noteq> ERROR_COMMPRESS_FAIL then MILE_RETURN_SUCCESS else ERROR_COMMPRESS_FAIL, g, fs1)))"

definition index_release_iterator_func ::
    "env \<Rightarrow> index_field_manager \<Rightarrow> file_system \<Rightarrow> (int \<times> index_field_manager \<times> file_system) outcome" where
  "index_release_iterator_func ev f fs =
     obind (index_field_release ev fs (Some f)) (\<lambda>fs1. Ret (MILE_RETURN_SUCCESS, f, fs1))"

definition index_checkpoint_iterator_func ::
    "env \<Rightarrow> index_field_manager \<Rightarrow> file_system \<Rightarrow> (int \<times> index_field_manager \<times> file_system) outcome" where
  "index_checkpoint_iterator_func ev f fs =
     obind (index_field_checkpoint ev fs (Some f)) (\<lambda>fs1. Ret (MILE_RETURN_SUCCESS, f, fs1))"

definition mmap_switch_iterator_func ::
    "env \<Rightarrow> index_field_manager \<Rightarrow> file_system \<Rightarrow> (int \<times> index_field_manager \<times> file_system) outcome" where
  "mmap_switch_iterator_func ev f fs =
     obind (index_mmap_switch ev fs (Some f)) (\<lambda>(r, f', fs1). obind (need f') (\<lambda>g. Ret (r, g, fs1)))"

text \<open>The columns of an index have a fixed value size, for which the two results about the file of
  values do not matter.\<close>

definition index_recover_iterator_func ::
    "u32 \<Rightarrow> index_field_manager \<Rightarrow> unit \<Rightarrow> (int \<times> index_field_manager \<times> unit) outcome" where
  "index_recover_iterator_func docid f u =
     obind (need (index_field_recover True True (Some f) docid)) (\<lambda>(r, f'). obind (need f') (\<lambda>g. Ret (r, g, u)))"

definition segment_checkpoint :: "env \<Rightarrow> file_system \<Rightarrow> segment_manager \<Rightarrow> file_system outcome" where
  "segment_checkpoint ev fs sg =
     obind (need (data_field_checkpoint (bitmark_checkpoint fs (sg_del_bitmap sg)) (sg_data_field sg))) (\<lambda>fs1.
     obind (over_fields (index_checkpoint_iterator_func ev) sg fs1) (\<lambda>(r, sg1, fs2). Ret fs2))"

definition segment_compress ::
    "env \<Rightarrow> u8 list \<Rightarrow> file_system \<Rightarrow> segment_manager \<Rightarrow> (int \<times> segment_manager \<times> file_system) outcome" where
  "segment_compress ev value fs sg =
     obind (segment_checkpoint ev fs sg) (over_fields (index_compress_iterator_func ev value) sg)"

definition segment_compress_switch ::
    "file_system \<Rightarrow> segment_manager \<Rightarrow> (int \<times> segment_manager \<times> file_system) outcome" where
  "segment_compress_switch fs sg = over_fields index_switch_iterator_func sg fs"

text \<open>The assertion compares as unsigned numbers.\<close>

definition recover_counts :: "segment_manager \<Rightarrow> u32 \<Rightarrow> segment_manager option" where
  "recover_counts sg docid = do {
     real_row_count \<leftarrow> bitmark_count (sg_del_bitmap sg);
     if (word_of_int real_row_count :: u32) \<le> docid
     then Some (sg\<lparr>sg_meta_data := (sg_meta_data sg)\<lparr>md_row_count := docid, md_del_count := docid - word_of_int real_row_count\<rparr>\<rparr>)
     else None
   }"

definition segment_recover ::
    "bool \<Rightarrow> bool \<Rightarrow> segment_manager \<Rightarrow> u32 \<Rightarrow> (int \<times> segment_manager) outcome" where
  "segment_recover size_ok trunc_ok sg docid =
     (if md_flag (sg_meta_data sg) AND SEGMENT_COMPRESS \<noteq> 0 then Ret (0, sg)
      else
        obind (need (bitmark_recover (sg_del_bitmap sg) docid)) (\<lambda>(r1, b).
        let sg1 = sg\<lparr>sg_del_bitmap := b\<rparr> in
        if r1 \<noteq> 0 then Ret (- 1, sg1)
        else obind (need (data_field_recover size_ok trunc_ok (sg_data_field sg1) docid)) (\<lambda>(r2, df).
        let sg2 = sg1\<lparr>sg_data_field := df\<rparr> in
        if r2 \<noteq> 0 then Ret (- 1, sg2)
        else obind (over_fields (index_recover_iterator_func docid) sg2 ()) (\<lambda>(r3, sg3, u).
        if r3 \<noteq> 0 then Ret (- 1, sg3)
        else obind (need (recover_counts sg3 docid)) (\<lambda>sg4. Ret (0, sg4))))))"

definition segment_release :: "env \<Rightarrow> file_system \<Rightarrow> segment_manager \<Rightarrow> file_system outcome" where
  "segment_release ev fs sg =
     obind (need (data_field_release (snd (bitmark_release fs (sg_del_bitmap sg))) (sg_data_field sg))) (\<lambda>(df, fs1).
     obind (over_fields (index_release_iterator_func ev) sg fs1) (\<lambda>(r, sg1, fs2). Ret fs2))"

definition segment_mmap_switch ::
    "env \<Rightarrow> file_system \<Rightarrow> segment_manager \<Rightarrow> (int \<times> segment_manager \<times> file_system) outcome" where
  "segment_mmap_switch ev fs sg =
     (if md_flag (sg_meta_data sg) AND SEGMENT_FULL = 0 then Ret (- 1, sg, fs)
      else over_fields (mmap_switch_iterator_func ev) sg fs)"

end
