(* ===== verification/Table.thy ===== *)
theory Table
  imports Segment Set_Operator
begin

text \<open>
  \<^verbatim>\<open>storage/docdb/table.c\<close>: a table as an array of segments, with one of them current.  The meta data
  of the segments is one mapped file that the table and its segments share: a segment is
  always read together with its entry of the array and written back to it.  The operations run
  one after the other, so that the locks are not part of the model.
\<close>

section \<open>State\<close>

abbreviation (input) TABLE_INIT :: u32 where "TABLE_INIT \<equiv> 1"
abbreviation (input) TABLE_DEL :: u32 where "TABLE_DEL \<equiv> 2"
abbreviation (input) ERROR_SEGMENT_INIT_FAILED :: int where "ERROR_SEGMENT_INIT_FAILED \<equiv> - 3996"
abbreviation (input) ERROR_SEGMENT_NOT_INIT :: int where "ERROR_SEGMENT_NOT_INIT \<equiv> - 3991"
abbreviation (input) ERROR_PK_CONFLICT :: int where "ERROR_PK_CONFLICT \<equiv> - 4001"
abbreviation (input) ERROR_MMAP_SWITCH :: int where "ERROR_MMAP_SWITCH \<equiv> - 4007"
abbreviation (input) ERROR_EXCEED_SEGMENT_NUM :: int where "ERROR_EXCEED_SEGMENT_NUM \<equiv> - 3896"
abbreviation (input) ERROR_EXCEED_CURRENT :: int where "ERROR_EXCEED_CURRENT \<equiv> - 3894"
abbreviation (input) ERROR_TABLE_DELETED :: int where "ERROR_TABLE_DELETED \<equiv> - 3797"
abbreviation (input) ERROR_LOCK_FAILED :: int where "ERROR_LOCK_FAILED \<equiv> - 3989"
abbreviation (input) DOCID_BY_BINLOG :: u8 where "DOCID_BY_BINLOG \<equiv> 0"

record table_meta_data =
  tm_table_name :: string
  tm_stat :: u32
  tm_segment_current :: u16
  tm_index_field_count :: u16
  tm_index_meta :: "index_field_meta list"

text \<open>The map of indexed columns points to copies of its own or into the meta data of the table.\<close>

datatype meta_ref = Own index_field_meta | Shared nat

record table_config =
  tc_storage_dirs :: "string list"
  tc_max_segment_num :: u16
  tc_hash_compress_num :: u32
  tc_row_limit :: u32
  tc_store_raw :: bool
  tc_table_meta :: table_meta_data

record table_manager =
  tb_storage_dirs :: "string list"
  tb_work_space :: string
  tb_segment_meta_filename :: string
  tb_table_meta :: table_meta_data
  tb_segments :: "segment_manager option list"
  tb_segment_meta :: "segment_meta_data list"
  tb_max_segment_num :: u16
  tb_index_meta_hash :: "meta_ref string_map"
  tb_hash_compress_num :: u32
  tb_row_limit :: u32
  tb_store_raw :: bool
  tb_new_seg_complete :: u8

definition table_deleted :: "table_manager \<Rightarrow> bool" where
  "table_deleted tb \<longleftrightarrow> tm_stat (tb_table_meta tb) AND TABLE_DEL \<noteq> 0"

definition segment_open :: "table_manager \<Rightarrow> u16 \<Rightarrow> bool option" where
  "segment_open tb sid = do { md \<leftarrow> rd (tb_segment_meta tb) (unat sid); Some (md_flag md AND SEGMENT_INIT \<noteq> 0) }"

text \<open>Following the pointer to a segment, and writing through it.\<close>

definition segment_at :: "table_manager \<Rightarrow> u16 \<Rightarrow> segment_manager option" where
  "segment_at tb sid = do {
     p \<leftarrow> rd (tb_segments tb) (unat sid);
     sg \<leftarrow> p;
     md \<leftarrow> rd (tb_segment_meta tb) (unat sid);
     Some (sg\<lparr>sg_meta_data := md\<rparr>)
   }"

definition store_segment :: "table_manager \<Rightarrow> u16 \<Rightarrow> segment_manager \<Rightarrow> table_manager" where
  "store_segment tb sid sg =
     tb\<lparr>tb_segments := (tb_segments tb)[unat sid := Some sg], tb_segment_meta := (tb_segment_meta tb)[unat sid := sg_meta_data sg]\<rparr>"

definition meta_of :: "table_manager \<Rightarrow> meta_ref \<Rightarrow> index_field_meta option" where
  "meta_of tb p = (case p of Own m \<Rightarrow> Some m | Shared i \<Rightarrow> rd (tm_index_meta (tb_table_meta tb)) i)"

section \<open>The file of segment meta data\<close>

abbreviation (input) META_SIZE :: nat where "META_SIZE \<equiv> 33"

definition meta_bytes :: "segment_meta_data \<Rightarrow> u8 list" where
  "meta_bytes md = le_bytes 8 (md_create_time md) @ le_bytes 8 (md_modify_time md) @ le_bytes 8 (md_checkpoint_time md) @
     [md_flag md] @ le_bytes 4 (md_row_count md) @ le_bytes 4 (md_del_count md)"

definition read_meta :: "u8 list \<Rightarrow> nat \<Rightarrow> segment_meta_data option" where
  "read_meta m off = do {
     ct \<leftarrow> get64 m off;
     mt \<leftarrow> get64 m (off + 8);
     pt \<leftarrow> get64 m (off + 16);
     fl \<leftarrow> rd m (off + 24);
     rc \<leftarrow> get32 m (off + 25);
     dc \<leftarrow> get32 m (off + 29);
     Some \<lparr>md_create_time = ct, md_modify_time = mt, md_checkpoint_time = pt, md_flag = fl, md_row_count = rc, md_del_count = dc\<rparr>
   }"

fun read_metas :: "u8 list \<Rightarrow> nat \<Rightarrow> nat \<Rightarrow> segment_meta_data list option" where
  "read_metas m off 0 = Some []"
| "read_metas m off (Suc n) = do { md \<leftarrow> read_meta m off; mds \<leftarrow> read_metas m (off + META_SIZE) n; Some (md # mds) }"

definition SEGMENT_RUNTIME_SIZE :: "u16 \<Rightarrow> u32" where
  "SEGMENT_RUNTIME_SIZE n = ucast n * 33"

definition sync_segment_meta :: "file_system \<Rightarrow> table_manager \<Rightarrow> file_system" where
  "sync_segment_meta fs tb = msync_file fs (tb_segment_meta_filename tb) (concat (map meta_bytes (tb_segment_meta tb)))"

definition zero_meta :: segment_meta_data where
  "zero_meta = \<lparr>md_create_time = 0, md_modify_time = 0, md_checkpoint_time = 0, md_flag = 0, md_row_count = 0, md_del_count = 0\<rparr>"

section \<open>Opening segments\<close>

definition pad_zeros :: "nat \<Rightarrow> string \<Rightarrow> string" where
  "pad_zeros n s = replicate (n - length s) (CHR ''0'') @ s"

definition segment_file_name :: "table_manager \<Rightarrow> u16 \<Rightarrow> string" where
  "segment_file_name tb sid = tm_table_name (tb_table_meta tb) @ ''_segment_'' @ pad_zeros 6 (show_nat (unat sid))"

text \<open>\<open>make_dir\<close> is the outcome of \<^verbatim>\<open>make_segment_dir\<close>, which works on directories and links only.  If the
  segment cannot be opened, its meta data is cleared.\<close>

definition init_segment_manager_instance ::
    "(string \<Rightarrow> bool) \<Rightarrow> (string \<Rightarrow> bool) \<Rightarrow> env \<Rightarrow> u64 \<Rightarrow> file_system \<Rightarrow> table_manager \<Rightarrow> u16 \<Rightarrow>
       (segment_manager option \<times> table_manager \<times> file_system) outcome option" where
  "init_segment_manager_instance make_dir mkdirs ev now fs tb sid =
     (let name = segment_file_name tb sid in
      case (strcpy_into MAX_SEGMENT_NAME name, rd (tb_segment_meta tb) (unat sid)) of
        (Some _, Some md) \<Rightarrow>
          if \<not> make_dir name then Some (Ret (None, tb, fs))
          else map_option (\<lambda>r. obind r (\<lambda>(sg, fs1).
              Ret (sg, if sg = None then tb\<lparr>tb_segment_meta := (tb_segment_meta tb)[unat sid := zero_meta]\<rparr> else tb, fs1)))
            (segment_init mkdirs ev now fs \<lparr>gc_work_space = tb_work_space tb, gc_segment_name = name,
               gc_index_field_count = ucast (tm_index_field_count (tb_table_meta tb)),
               gc_index_fields = tm_index_meta (tb_table_meta tb), gc_hash_compress_num = tb_hash_compress_num tb,
               gc_row_limit = tb_row_limit tb, gc_meta_data = md, gc_sid = sid\<rparr>)
      | _ \<Rightarrow> Some Trap)"

text \<open>\<^verbatim>\<open>if(meta_data->create_time == 0L)\<close>: a new segment gets its creation time and is marked as open.\<close>

definition mark_open :: "u64 \<Rightarrow> segment_manager \<Rightarrow> segment_manager" where
  "mark_open now sg =
     (let md = sg_meta_data sg in
      if md_create_time md = 0 then sg\<lparr>sg_meta_data := md\<lparr>md_create_time := now, md_flag := md_flag md OR SEGMENT_INIT\<rparr>\<rparr> else sg)"

text \<open>The loop of \<^verbatim>\<open>table_init\<close> over the segments.\<close>

fun open_segments ::
    "(string \<Rightarrow> bool) \<Rightarrow> (string \<Rightarrow> bool) \<Rightarrow> env \<Rightarrow> u64 \<Rightarrow> u16 list \<Rightarrow> file_system \<Rightarrow> table_manager \<Rightarrow>
       (table_manager \<times> file_system) outcome option" where
  "open_segments make_dir mkdirs ev now [] fs tb = Some (Ret (tb, fs))"
| "open_segments make_dir mkdirs ev now (sid # sids) fs tb =
     (case segment_open tb sid of
        None \<Rightarrow> Some Trap
      | Some False \<Rightarrow> open_segments make_dir mkdirs ev now sids fs tb
      | Some True \<Rightarrow> do {
          r \<leftarrow> init_segment_manager_instance make_dir mkdirs ev now fs tb sid;
          case r of
            Ret (Some sg, tb1, fs1) \<Rightarrow> open_segments make_dir mkdirs ev now sids fs1 (store_segment tb1 sid (mark_open now sg))
          | Blocked \<Rightarrow> Some Blocked
          | _ \<Rightarrow> Some Trap
        })"

definition index_hash :: "table_meta_data \<Rightarrow> nat \<Rightarrow> meta_ref string_map option" where
  "index_hash tm n = do {
     ms \<leftarrow> rd_range (tm_index_meta tm) 0 n;
     Some (fold (\<lambda>m sm. snd (string_map_put sm (im_field_name m) (Own m))) ms (init_string_map MAX_INDEX_FIELD_NUM))
   }"

text \<open>The default number of segments is overwritten at once, with zero.\<close>

definition table_init ::
    "(string \<Rightarrow> bool) \<Rightarrow> (string \<Rightarrow> bool) \<Rightarrow> env \<Rightarrow> u64 \<Rightarrow> file_system \<Rightarrow> table_config \<Rightarrow>
       (table_manager option \<times> file_system) outcome option" where
  "table_init make_dir mkdirs ev now fs config =
     (let tm = tc_table_meta config; dirs = map (\<lambda>s. s @ ''/'' @ tm_table_name tm) (tc_storage_dirs config) in
      case dirs of
        [] \<Rightarrow> Some Trap
      | ws # _ \<Rightarrow>
          if \<not> mkdirs ws then Some (Ret (None, fs))
          else
            (case sprintf_name (ws @ ''/segment.meta'') of
               None \<Rightarrow> Some Trap
             | Some name \<Rightarrow>
                 let n = tc_max_segment_num config; (mem, fs1) = get_mmap_memory (ev_os ev) fs name (SEGMENT_RUNTIME_SIZE n) in
                 (case do { m \<leftarrow> mem; mds \<leftarrow> read_metas m 0 (unat n); ix \<leftarrow> index_hash tm (unat (tm_index_field_count tm)); Some (mds, ix) } of
                    None \<Rightarrow> Some Trap
                  | Some (mds, ix) \<Rightarrow>
                      map_option (\<lambda>r. obind r (\<lambda>(tb, fs2).
                          Ret (Some (tb\<lparr>tb_index_meta_hash := ix, tb_store_raw := tc_store_raw config,
                            tb_table_meta := tm\<lparr>tm_stat := tm_stat tm OR TABLE_INIT\<rparr>\<rparr>), fs2)))
                        (open_segments make_dir mkdirs ev now (map word_of_nat [0..<unat n]) fs1
                          \<lparr>tb_storage_dirs = dirs, tb_work_space = ws, tb_segment_meta_filename = name, tb_table_meta = tm,
                           tb_segments = replicate (unat n) None, tb_segment_meta = mds, tb_max_segment_num = n,
                           tb_index_meta_hash = init_string_map 0, tb_hash_compress_num = tc_hash_compress_num config,
                           tb_row_limit = tc_row_limit config, tb_store_raw = False, tb_new_seg_complete = 0\<rparr>))))"

section \<open>A place for the next document\<close>

text \<open>The first segment from the current one on, around the array, that is not in use.\<close>

fun find_free :: "table_manager \<Rightarrow> nat \<Rightarrow> nat \<Rightarrow> nat option option" where
  "find_free tb i 0 = Some None"
| "find_free tb i (Suc k) = do {
     let j = (i + unat (tm_segment_current (tb_table_meta tb))) mod unat (tb_max_segment_num tb);
     md \<leftarrow> rd (tb_segment_meta tb) j;
     if md_flag md AND SEGMENT_INIT = 0 then Some (Some j) else find_free tb (Suc i) k
   }"

fun reload_index_hash :: "table_manager \<Rightarrow> nat \<Rightarrow> nat \<Rightarrow> table_manager option" where
  "reload_index_hash tb i 0 = Some tb"
| "reload_index_hash tb i (Suc k) = do {
     m \<leftarrow> rd (tm_index_meta (tb_table_meta tb)) i;
     let sm1 = snd (string_map_remove (tb_index_meta_hash tb) (im_field_name m));
     reload_index_hash (tb\<lparr>tb_index_meta_hash := snd (string_map_put sm1 (im_field_name m) (Shared i))\<rparr>) (Suc i) k
   }"

definition set_current :: "u16 \<Rightarrow> table_manager \<Rightarrow> table_manager" where
  "set_current sid tb = tb\<lparr>tb_table_meta := (tb_table_meta tb)\<lparr>tm_segment_current := sid\<rparr>\<rparr>"

text \<open>Clears the meta data and opens the current segment; \<open>dir_exists\<close> is the result of \<^verbatim>\<open>lstat\<close>.\<close>

definition open_current ::
    "(string \<Rightarrow> bool) \<Rightarrow> (string \<Rightarrow> bool) \<Rightarrow> (string \<Rightarrow> bool) \<Rightarrow> env \<Rightarrow> u64 \<Rightarrow> file_system \<Rightarrow> table_manager \<Rightarrow>
       (int \<times> table_manager \<times> file_system) outcome option" where
  "open_current dir_exists make_dir mkdirs ev now fs tb =
     (let cur = tm_segment_current (tb_table_meta tb);
          tb1 = tb\<lparr>tb_segment_meta := (tb_segment_meta tb)[unat cur := zero_meta]\<rparr> in
      case Option.bind (strcpy_into MAX_SEGMENT_NAME (segment_file_name tb cur))
          (\<lambda>name. sprintf_name (tb_work_space tb @ ''/'' @ name)) of
        None \<Rightarrow> Some Trap
      | Some ws \<Rightarrow>
          if dir_exists ws then Some (Ret (ERROR_SEGMENT_INIT_FAILED, tb1, fs))
          else map_option (\<lambda>r. obind r (\<lambda>(p, tb2, fs1).
              case p of
                None \<Rightarrow> Ret (ERROR_SEGMENT_INIT_FAILED, tb2\<lparr>tb_segments := (tb_segments tb2)[unat cur := None]\<rparr>, fs1)
              | Some sg \<Rightarrow> Ret (MILE_RETURN_SUCCESS, store_segment tb2 cur (mark_open now sg), fs1)))
            (init_segment_manager_instance make_dir mkdirs ev now fs tb1 cur))"

definition table_add_segment ::
    "(string \<Rightarrow> bool) \<Rightarrow> (string \<Rightarrow> bool) \<Rightarrow> (string \<Rightarrow> bool) \<Rightarrow> env \<Rightarrow> u64 \<Rightarrow> file_system \<Rightarrow> table_manager \<Rightarrow> int \<Rightarrow>
       (int \<times> table_manager \<times> file_system) outcome option" where
  "table_add_segment dir_exists make_dir mkdirs ev now fs tb err =
     (if table_deleted tb then Some (Ret (ERROR_TABLE_DELETED, tb, fs))
      else if err = ERROR_EXCEED_LIMIT
      then
        (case find_free tb 0 (unat (tb_max_segment_num tb)) of
           None \<Rightarrow> Some Trap
         | Some None \<Rightarrow> Some (Ret (ERROR_EXCEED_SEGMENT_NUM, tb, fs))
         | Some (Some j) \<Rightarrow>
             (case reload_index_hash (set_current (word_of_nat j) tb) 0 (unat (tm_index_field_count (tb_table_meta tb))) of
                None \<Rightarrow> Some Trap
              | Some tb1 \<Rightarrow> open_current dir_exists make_dir mkdirs ev now fs tb1))
      else open_current dir_exists make_dir mkdirs ev now fs tb)"

text \<open>With a number from the log, the segment is opened if necessary and becomes current.\<close>

definition prepare_by_binlog ::
    "(string \<Rightarrow> bool) \<Rightarrow> (string \<Rightarrow> bool) \<Rightarrow> env \<Rightarrow> u64 \<Rightarrow> file_system \<Rightarrow> table_manager \<Rightarrow> u16 \<Rightarrow>
       (int \<times> table_manager \<times> file_system) outcome option" where
  "prepare_by_binlog make_dir mkdirs ev now fs tb sid =
     (case segment_open tb sid of
        None \<Rightarrow> Some Trap
      | Some True \<Rightarrow> Some (Ret (MILE_RETURN_SUCCESS, set_current sid tb, fs))
      | Some False \<Rightarrow>
          map_option (\<lambda>r. obind r (\<lambda>(p, tb1, fs1).
              case p of
                None \<Rightarrow> Ret (ERROR_SEGMENT_INIT_FAILED, tb1\<lparr>tb_segments := (tb_segments tb1)[unat sid := None]\<rparr>, fs1)
              | Some sg \<Rightarrow> Ret (MILE_RETURN_SUCCESS,
                  set_current sid (store_segment tb1 sid (mark_open now sg))\<lparr>tb_new_seg_complete := 1\<rparr>, fs1)))
            (init_segment_manager_instance make_dir mkdirs ev now fs tb sid))"

definition table_prepare_insert ::
    "(string \<Rightarrow> bool) \<Rightarrow> (string \<Rightarrow> bool) \<Rightarrow> (string \<Rightarrow> bool) \<Rightarrow> env \<Rightarrow> u64 \<Rightarrow> file_system \<Rightarrow> table_manager \<Rightarrow> u16 \<Rightarrow> u32 \<Rightarrow> u8 \<Rightarrow>
       (int \<times> u16 \<times> u32 \<times> table_manager \<times> file_system) outcome option" where
  "table_prepare_insert dir_exists make_dir mkdirs ev now fs tb sid docid flag =
     (if table_deleted tb then Some (Ret (ERROR_TABLE_DELETED, sid, docid, tb, fs))
      else if flag = DOCID_BY_BINLOG
      then map_option (\<lambda>r. obind r (\<lambda>(ret, tb1, fs1). Ret (ret, sid, docid, tb1, fs1))) (prepare_by_binlog make_dir mkdirs ev now fs tb sid)
      else
        (let cur = tm_segment_current (tb_table_meta tb) in
         case do { b \<leftarrow> segment_open tb cur;
           if \<not> b then Some ERROR_SEGMENT_NOT_INIT else map_option segment_exceed_limit (segment_at tb cur) } of
           None \<Rightarrow> Some Trap
         | Some ret \<Rightarrow>
             map_option (\<lambda>r. obind r (\<lambda>(ret, tb1, fs1).
                 if ret < 0 then Ret (ret, sid, docid, tb1, fs1)
                 else let now_cur = tm_segment_current (tb_table_meta tb1) in
                   obind (need (segment_at tb1 now_cur)) (\<lambda>sg. Ret (ret, now_cur, segment_get_rowcount sg, tb1, fs1))))
               (if ret = ERROR_EXCEED_LIMIT \<or> ret = ERROR_SEGMENT_NOT_INIT
                then map_option (\<lambda>r. obind r (\<lambda>(ret, tb1, fs1). Ret (ret, tb1\<lparr>tb_new_seg_complete := 1\<rparr>, fs1)))
                  (table_add_segment dir_exists make_dir mkdirs ev now fs tb ret)
                else Some (Ret (ret, tb, fs)))))"

section \<open>Insertion\<close>

text \<open>The primary-key check is commented out in the source.\<close>

definition table_pk_check :: "table_manager \<Rightarrow> u32 \<Rightarrow> row_data \<Rightarrow> bool" where
  "table_pk_check tb row_id rdata = False"

text \<open>The value of another type is inserted as null; \<open>raw\<close> is what the fields of the null value hold
  that are never set.\<close>

definition null_data :: "field_types \<times> u8 list \<Rightarrow> low_data \<Rightarrow> low_data" where
  "null_data raw data = \<lparr>ld_field_name = ld_field_name data, ld_type = fst raw, ld_data = snd raw, ld_len = 0\<rparr>"

text \<open>The two loops of \<^verbatim>\<open>table_insert\<close>; the flag tells that an index refused the value.\<close>

fun insert_indexs ::
    "(u8 list \<Rightarrow> string) \<Rightarrow> (u8 list \<Rightarrow> string) \<Rightarrow> field_types \<times> u8 list \<Rightarrow> io \<Rightarrow> env \<Rightarrow> low_data \<Rightarrow> u32 \<Rightarrow> index_field_stat list \<Rightarrow>
       int \<Rightarrow> file_system \<Rightarrow> segment_manager \<Rightarrow> (int \<times> bool \<times> segment_manager \<times> file_system) outcome" where
  "insert_indexs fmt_f fmt_lf raw w ev data docid [] ret fs sg = Ret (ret, False, sg, fs)"
| "insert_indexs fmt_f fmt_lf raw w ev data docid (x # xs) ret fs sg =
     obind (segment_index_insert fmt_f fmt_lf w ev fs sg (if ld_type data \<noteq> is_data_type x then null_data raw data else data)
         (is_index_type x) docid) (\<lambda>(ret', sg', fs').
       if ret' < 0 then Ret (ret', True, sg', fs')
       else insert_indexs fmt_f fmt_lf raw w ev data docid xs ret' fs' sg')"

fun insert_fields ::
    "(u8 list \<Rightarrow> string) \<Rightarrow> (u8 list \<Rightarrow> string) \<Rightarrow> field_types \<times> u8 list \<Rightarrow> io \<Rightarrow> env \<Rightarrow> table_manager \<Rightarrow> u32 \<Rightarrow> low_data list \<Rightarrow>
       int \<Rightarrow> file_system \<Rightarrow> segment_manager \<Rightarrow> (int \<times> bool \<times> segment_manager \<times> file_system) outcome" where
  "insert_fields fmt_f fmt_lf raw w ev tb docid [] ret fs sg = Ret (ret, False, sg, fs)"
| "insert_fields fmt_f fmt_lf raw w ev tb docid (data # datas) ret fs sg =
     (case string_map_get (tb_index_meta_hash tb) (name_text (ld_field_name data)) of
        None \<Rightarrow> insert_fields fmt_f fmt_lf raw w ev tb docid datas ret fs sg
      | Some p \<Rightarrow>
          obind (need (do { m \<leftarrow> meta_of tb p; rd_range (im_indexs m) 0 (unat (im_index_count m)) })) (\<lambda>xs.
          obind (insert_indexs fmt_f fmt_lf raw w ev data docid xs ret fs sg) (\<lambda>(ret', failed, sg', fs').
            if failed then Ret (ret', True, sg', fs')
            else insert_fields fmt_f fmt_lf raw w ev tb docid datas ret' fs' sg')))"

text \<open>Even if an index refuses the document, its number is used up.\<close>

definition finish_insert :: "segment_manager \<Rightarrow> u32 \<Rightarrow> segment_manager option" where
  "finish_insert sg docid = do {
     (r, sg1) \<leftarrow> segment_set_docid_inserted sg docid;
     Some (segment_set_rowcount sg1 docid)
   }"

definition insert_row ::
    "nat \<Rightarrow> (nat \<Rightarrow> u8) \<Rightarrow> io \<Rightarrow> u64 \<Rightarrow> table_manager \<Rightarrow> segment_manager \<Rightarrow> u32 \<Rightarrow> row_data \<Rightarrow> (int \<times> segment_manager) option" where
  "insert_row pool_size pool w now tb sg docid rdata =
     (if tb_store_raw tb then segment_data_insert pool_size pool w now sg rdata docid
      else Some (MILE_RETURN_SUCCESS, set_modify_time now sg))"

text \<open>\<open>thread_ok\<close> tells whether the thread that will switch the full segment to shared mappings could
  be started.\<close>

definition table_insert ::
    "(u8 list \<Rightarrow> string) \<Rightarrow> (u8 list \<Rightarrow> string) \<Rightarrow> field_types \<times> u8 list \<Rightarrow> nat \<Rightarrow> (nat \<Rightarrow> u8) \<Rightarrow> io \<Rightarrow> env \<Rightarrow> u64 \<Rightarrow> bool \<Rightarrow>
       file_system \<Rightarrow> table_manager \<Rightarrow> u16 \<Rightarrow> u32 \<Rightarrow> row_data \<Rightarrow> (int \<times> table_manager \<times> file_system) outcome" where
  "table_insert fmt_f fmt_lf raw pool_size pool w ev now thread_ok fs tb sid docid rdata =
     (if table_deleted tb then Ret (ERROR_TABLE_DELETED, tb, fs)
      else obind (need (segment_open tb sid)) (\<lambda>b.
        if \<not> b then Ret (ERROR_SEGMENT_NOT_INIT, tb, fs)
        else if table_pk_check tb docid rdata then Ret (ERROR_PK_CONFLICT, tb, fs)
        else obind (need (segment_at tb sid)) (\<lambda>sg.
          obind (need (insert_row pool_size pool w now tb sg docid rdata)) (\<lambda>(ret, sg1).
            if ret < 0 then Ret (ret, store_segment tb sid sg1, fs)
            else obind (need (rd_range (rw_datas rdata) 0 (unat (rw_field_count rdata)))) (\<lambda>datas.
              obind (insert_fields fmt_f fmt_lf raw w ev tb docid datas ret fs sg1) (\<lambda>(ret', failed, sg2, fs').
                if failed then Ret (ret', store_segment tb sid (segment_set_rowcount sg2 docid), fs')
                else obind (need (finish_insert sg2 docid)) (\<lambda>sg3.
                  if md_row_count (sg_meta_data sg3) = tb_row_limit tb
                  then Ret (if thread_ok then ret' else ERROR_MMAP_SWITCH,
                    (store_segment tb sid (segment_set_flag sg3 SEGMENT_FULL))\<lparr>tb_new_seg_complete := 0\<rparr>, fs')
                  else Ret (ret', store_segment tb sid sg3, fs'))))))))"

section \<open>Update\<close>

fun find_index :: "index_field_stat list \<Rightarrow> index_key_alg \<Rightarrow> field_types option" where
  "find_index [] t = None"
| "find_index (x # xs) t = (if is_index_type x = t \<and> is_flag x = 1 then Some (is_data_type x) else find_index xs t)"

text \<open>The type of the indexed values if the column has a finished index of the kind.\<close>

definition check_index :: "table_manager \<Rightarrow> string \<Rightarrow> index_key_alg \<Rightarrow> field_types option option" where
  "check_index tb field_name index_type =
     (case string_map_get (tb_index_meta_hash tb) field_name of
        None \<Rightarrow> Some None
      | Some p \<Rightarrow> do {
          m \<leftarrow> meta_of tb p;
          xs \<leftarrow> rd_range (im_indexs m) 0 (unat (im_index_count m));
          Some (find_index xs index_type)
        })"

definition segment_in_use :: "table_manager \<Rightarrow> u16 \<Rightarrow> bool option" where
  "segment_in_use tb sid = (if sid \<ge> tb_max_segment_num tb then Some False else segment_open tb sid)"

definition table_update ::
    "(u8 list \<Rightarrow> string) \<Rightarrow> (u8 list \<Rightarrow> string) \<Rightarrow> nat \<Rightarrow> (nat \<Rightarrow> u8) \<Rightarrow> io \<Rightarrow> io \<Rightarrow> u8 list \<times> field_types \<Rightarrow> table_manager \<Rightarrow> u16 \<Rightarrow> u32 \<Rightarrow> low_data \<Rightarrow>
       (int \<times> low_data option \<times> table_manager) option" where
  "table_update fmt_f fmt_lf pool_size pool r w raw tb sid docid new_data =
     (if table_deleted tb then Some (ERROR_TABLE_DELETED, None, tb)
      else do {
        b \<leftarrow> segment_in_use tb sid;
        if \<not> b then Some (ERROR_SEGMENT_NOT_INIT, None, tb)
        else do {
          sg \<leftarrow> segment_at tb sid;
          if docid \<ge> segment_get_rowcount sg then Some (ERROR_EXCEED_CURRENT, None, tb)
          else do {
            h \<leftarrow> check_index tb (name_text (ld_field_name new_data)) HI_KEY_ALG_HASH;
            if h \<noteq> None then Some (ERROR_ONLY_FILTER_SUPPORT, None, tb)
            else do {
              (ret, old, sg1) \<leftarrow> segment_data_update pool_size pool r w sg docid new_data;
              if ret < 0 then Some (ret, old, store_segment tb sid sg1)
              else do {
                f \<leftarrow> check_index tb (name_text (ld_field_name new_data)) HI_KEY_ALG_FILTER;
                if f = None then Some (ret, old, store_segment tb sid sg1)
                else do {
                  (ret', old', sg2) \<leftarrow> segment_index_update fmt_f fmt_lf r w raw sg1 docid new_data;
                  Some (ret', if old' = None then old else old', store_segment tb sid sg2)
                }
              }
            }
          }
        }
      })"

section \<open>Queries\<close>

definition table_data_query_row :: "io \<Rightarrow> table_manager \<Rightarrow> u16 \<Rightarrow> u32 \<Rightarrow> row_data option option" where
  "table_data_query_row r tb sid docid =
     (if table_deleted tb \<or> \<not> tb_store_raw tb then Some None
      else do {
        b \<leftarrow> segment_in_use tb sid;
        if \<not> b then Some None
        else do { sg \<leftarrow> segment_at tb sid; segment_data_query_row r sg docid }
      })"

text \<open>A value that the filter index holds is taken from there; the length is read without a test for
  NULL.\<close>

definition table_data_query_col :: "io \<Rightarrow> table_manager \<Rightarrow> u16 \<Rightarrow> u8 list \<Rightarrow> u32 \<Rightarrow> low_data option option" where
  "table_data_query_col r tb sid field_name docid =
     (if table_deleted tb then Some None
      else do {
        b \<leftarrow> segment_in_use tb sid;
        if \<not> b then Some None
        else do {
          sg \<leftarrow> segment_at tb sid;
          t \<leftarrow> check_index tb (name_text field_name) HI_KEY_ALG_FILTER;
          ret \<leftarrow> (case t of
              Some t \<Rightarrow> if t = HI_TYPE_STRING then Some None
                else do { v \<leftarrow> segment_index_value_query r sg (name_text field_name) docid; v' \<leftarrow> v; Some (Some (t, v')) }
            | None \<Rightarrow> Some None);
          case ret of
            Some (t, v) \<Rightarrow>
              if ld_len v \<noteq> 0 then Some (Some (v\<lparr>ld_type := t, ld_field_name := field_name\<rparr>))
              else if \<not> tb_store_raw tb then Some (Some v)
              else segment_data_query_col r sg field_name docid
          | None \<Rightarrow> if \<not> tb_store_raw tb then Some None else segment_data_query_col r sg field_name docid
        }
      })"

definition table_index_value_query :: "io \<Rightarrow> table_manager \<Rightarrow> u16 \<Rightarrow> u8 list \<Rightarrow> u32 \<Rightarrow> low_data option option" where
  "table_index_value_query r tb sid field_name docid =
     (if table_deleted tb then Some None
      else do {
        b \<leftarrow> segment_in_use tb sid;
        if \<not> b then Some None
        else do {
          t \<leftarrow> check_index tb (name_text field_name) HI_KEY_ALG_FILTER;
          case t of
            None \<Rightarrow> Some None
          | Some t \<Rightarrow> do {
              sg \<leftarrow> segment_at tb sid;
              v \<leftarrow> segment_index_value_query r sg (name_text field_name) docid;
              Some (map_option (\<lambda>v. v\<lparr>ld_type := (if t = HI_TYPE_STRING then HI_TYPE_LONGLONG else t), ld_field_name := field_name\<rparr>) v)
            }
        }
      })"

text \<open>Each segment in use whose life overlaps the time span; \<^verbatim>\<open>list_add\<close> puts the next one in front.\<close>

fun seghint_loop ::
    "table_manager \<Rightarrow> (u64 \<times> u64) option \<Rightarrow> u16 list \<Rightarrow> 's segment_query_rowids list \<Rightarrow> 's segment_query_rowids list option" where
  "seghint_loop tb time_cond [] acc = Some acc"
| "seghint_loop tb time_cond (i # is) acc = do {
     md \<leftarrow> rd (tb_segment_meta tb) (unat i);
     if md_flag md AND SEGMENT_INIT = 0 then seghint_loop tb time_cond is acc
     else do {
       sg \<leftarrow> segment_at tb i;
       let smd = sg_meta_data sg;
       if (case time_cond of None \<Rightarrow> True | Some (t0, t1) \<Rightarrow> \<not> (md_modify_time smd \<le> t0 \<or> md_create_time smd \<ge> t1))
       then seghint_loop tb time_cond is (\<lparr>sq_sid = i, sq_max_docid = md_row_count md, sq_rowids = None\<rparr> # acc)
       else seghint_loop tb time_cond is acc
     }
   }"

definition table_seghint_query ::
    "table_manager \<Rightarrow> (u64 \<times> u64) option \<Rightarrow> 's segment_query_rowids list option option" where
  "table_seghint_query tb time_cond =
     (if table_deleted tb then Some None
      else map_option Some (seghint_loop tb time_cond (map word_of_nat [0..<unat (tb_max_segment_num tb)]) []))"

fun count_segments ::
    "(u8 list \<Rightarrow> string) \<Rightarrow> (u8 list \<Rightarrow> string) \<Rightarrow> table_manager \<Rightarrow> low_data \<Rightarrow> 's segment_query_rowids list \<Rightarrow> u32 \<Rightarrow> u32 option" where
  "count_segments fmt_f fmt_lf tb data [] ret = Some ret"
| "count_segments fmt_f fmt_lf tb data (p # ps) ret = do {
     sg \<leftarrow> segment_at tb (sq_sid p);
     n \<leftarrow> segment_index_count_query fmt_f fmt_lf sg data;
     count_segments fmt_f fmt_lf tb data ps (ret + n)
   }"

definition table_index_count_query ::
    "(u8 list \<Rightarrow> string) \<Rightarrow> (u8 list \<Rightarrow> string) \<Rightarrow> table_manager \<Rightarrow> 's segment_query_rowids list \<Rightarrow> low_data \<Rightarrow> u32 option" where
  "table_index_count_query fmt_f fmt_lf tb seg_list data =
     (if table_deleted tb then Some 0
      else do {
        t \<leftarrow> check_index tb (name_text (ld_field_name data)) HI_KEY_ALG_FULLTEXT;
        if t = None then Some 0 else count_segments fmt_f fmt_lf tb data seg_list 0
      })"

fun query_segments ::
    "(u8 list \<Rightarrow> string) \<Rightarrow> (u8 list \<Rightarrow> string) \<Rightarrow> table_manager \<Rightarrow> low_data \<Rightarrow> index_key_alg \<Rightarrow> 's::{zero,plus} segment_query_rowids list \<Rightarrow>
       's segment_query_rowids list \<Rightarrow> 's segment_query_rowids list option" where
  "query_segments fmt_f fmt_lf tb data t [] acc = Some acc"
| "query_segments fmt_f fmt_lf tb data t (p # ps) acc = do {
     sg \<leftarrow> segment_at tb (sq_sid p);
     rowids \<leftarrow> segment_index_equal_query fmt_f fmt_lf sg data t;
     query_segments fmt_f fmt_lf tb data t ps (\<lparr>sq_sid = sq_sid p, sq_max_docid = sq_max_docid p, sq_rowids = rowids\<rparr> # acc)
   }"

definition index_equal_query ::
    "(u8 list \<Rightarrow> string) \<Rightarrow> (u8 list \<Rightarrow> string) \<Rightarrow> table_manager \<Rightarrow> 's::{zero,plus} segment_query_rowids list \<Rightarrow> low_data \<Rightarrow> index_key_alg \<Rightarrow>
       's segment_query_rowids list option option" where
  "index_equal_query fmt_f fmt_lf tb seg_list data t =
     (if table_deleted tb then Some None
      else do {
        c \<leftarrow> check_index tb (name_text (ld_field_name data)) t;
        if c = None then Some None else map_option Some (query_segments fmt_f fmt_lf tb data t seg_list [])
      })"

definition table_fulltext_index_equal_query where
  "table_fulltext_index_equal_query fmt_f fmt_lf tb seg_list data =
     index_equal_query fmt_f fmt_lf tb seg_list data HI_KEY_ALG_FULLTEXT"

definition table_index_equal_query where
  "table_index_equal_query fmt_f fmt_lf tb seg_list data = index_equal_query fmt_f fmt_lf tb seg_list data HI_KEY_ALG_HASH"

section \<open>Counts\<close>

text \<open>The difference of the two counters is taken at 32 bits, the sum at 64.\<close>

fun sum_segments :: "(segment_meta_data \<Rightarrow> u32) \<Rightarrow> table_manager \<Rightarrow> 's segment_query_rowids list \<Rightarrow> u64 \<Rightarrow> u64 option" where
  "sum_segments f tb [] n = Some n"
| "sum_segments f tb (p # ps) n = do {
     md \<leftarrow> rd (tb_segment_meta tb) (unat (sq_sid p));
     sum_segments f tb ps (if md_flag md AND SEGMENT_INIT = 0 then n else n + ucast (f md))
   }"

definition table_get_record_num :: "table_manager \<Rightarrow> 's segment_query_rowids list \<Rightarrow> int option" where
  "table_get_record_num tb seg_list =
     (if table_deleted tb then Some ERROR_TABLE_DELETED
      else map_option sint (sum_segments (\<lambda>md. md_row_count md - md_del_count md) tb seg_list 0))"

definition table_get_delete_num :: "table_manager \<Rightarrow> 's segment_query_rowids list \<Rightarrow> int option" where
  "table_get_delete_num tb seg_list =
     (if table_deleted tb then Some ERROR_TABLE_DELETED
      else map_option sint (sum_segments md_del_count tb seg_list 0))"

text \<open>An error comes back as a large unsigned number.\<close>

definition segment_time :: "(segment_meta_data \<Rightarrow> u64) \<Rightarrow> table_manager \<Rightarrow> u16 \<Rightarrow> u64 option" where
  "segment_time f tb sid =
     (if table_deleted tb then Some (word_of_int ERROR_TABLE_DELETED)
      else do {
        md \<leftarrow> rd (tb_segment_meta tb) (unat sid);
        Some (if md_flag md AND SEGMENT_INIT = 0 then 0 else f md)
      })"

definition table_get_segment_ctime :: "table_manager \<Rightarrow> u16 \<Rightarrow> u64 option" where
  "table_get_segment_ctime = segment_time md_create_time"

definition table_get_segment_mtime :: "table_manager \<Rightarrow> u16 \<Rightarrow> u64 option" where
  "table_get_segment_mtime = segment_time md_modify_time"

section \<open>Deletion and recovery\<close>

definition table_del_docid :: "u64 \<Rightarrow> table_manager \<Rightarrow> u16 \<Rightarrow> u32 \<Rightarrow> (int \<times> table_manager) option" where
  "table_del_docid now tb sid docid =
     (if table_deleted tb then Some (ERROR_TABLE_DELETED, tb)
      else do {
        b \<leftarrow> segment_open tb sid;
        if \<not> b then Some (ERROR_SEGMENT_NOT_INIT, tb)
        else do {
          sg \<leftarrow> segment_at tb sid;
          (ret, sg') \<leftarrow> segment_del_docid now sg docid;
          Some (ret, store_segment tb sid sg')
        }
      })"

definition table_is_docid_deleted :: "table_manager \<Rightarrow> u16 \<Rightarrow> u32 \<Rightarrow> int option" where
  "table_is_docid_deleted tb sid docid =
     (if table_deleted tb then Some ERROR_TABLE_DELETED
      else do {
        b \<leftarrow> segment_open tb sid;
        if \<not> b then Some ERROR_SEGMENT_NOT_INIT
        else do { sg \<leftarrow> segment_at tb sid; segment_is_docid_deleted sg docid }
      })"

definition table_recover :: "bool \<Rightarrow> bool \<Rightarrow> table_manager \<Rightarrow> u16 \<Rightarrow> u32 \<Rightarrow> (int \<times> table_manager) outcome" where
  "table_recover size_ok trunc_ok tb sid docid =
     (if table_deleted tb then Ret (ERROR_TABLE_DELETED, tb)
      else obind (need (segment_open tb sid)) (\<lambda>b.
        if \<not> b then Ret (ERROR_SEGMENT_NOT_INIT, tb)
        else obind (need (segment_at tb sid)) (\<lambda>sg.
          obind (segment_recover size_ok trunc_ok sg docid) (\<lambda>(ret, sg'). Ret (ret, store_segment tb sid sg')))))"

text \<open>\<open>locked\<close> is the result of taking the write lock.\<close>

definition table_set_segment_current :: "bool \<Rightarrow> table_manager \<Rightarrow> u16 \<Rightarrow> int \<times> table_manager" where
  "table_set_segment_current locked tb sid =
     (if \<not> locked then (ERROR_LOCK_FAILED, tb) else (MILE_RETURN_SUCCESS, set_current sid tb))"

definition table_del :: "table_manager \<Rightarrow> int \<times> table_manager" where
  "table_del tb = (0, tb\<lparr>tb_table_meta := (tb_table_meta tb)\<lparr>tm_stat := tm_stat (tb_table_meta tb) OR TABLE_DEL\<rparr>\<rparr>)"

section \<open>Operations on all segments\<close>

fun each_segment ::
    "(segment_manager \<Rightarrow> file_system \<Rightarrow> file_system outcome) \<Rightarrow> table_manager \<Rightarrow> u16 list \<Rightarrow> file_system \<Rightarrow> file_system outcome" where
  "each_segment f tb [] fs = Ret fs"
| "each_segment f tb (i # is) fs =
     obind (need (segment_open tb i)) (\<lambda>b.
       if \<not> b then each_segment f tb is fs
       else obind (need (segment_at tb i)) (\<lambda>sg. obind (f sg fs) (each_segment f tb is)))"

definition all_sids :: "table_manager \<Rightarrow> u16 list" where
  "all_sids tb = map word_of_nat [0..<unat (tb_max_segment_num tb)]"

definition table_release :: "env \<Rightarrow> file_system \<Rightarrow> table_manager \<Rightarrow> file_system outcome" where
  "table_release ev fs tb =
     (if table_deleted tb then Ret fs
      else obind (each_segment (\<lambda>sg fs. segment_release ev fs sg) tb (all_sids tb) fs) (\<lambda>fs1. Ret (sync_segment_meta fs1 tb)))"

definition table_checkpoint :: "env \<Rightarrow> file_system \<Rightarrow> table_manager \<Rightarrow> file_system outcome" where
  "table_checkpoint ev fs tb =
     (if table_deleted tb then Ret fs
      else obind (each_segment (\<lambda>sg fs. segment_checkpoint ev fs sg) tb (all_sids tb) fs) (\<lambda>fs1. Ret (sync_segment_meta fs1 tb)))"

text \<open>The result of the switch is returned but does not stop the loop, and the segment counts as
  compressed in any case.\<close>

fun compress_loop ::
    "env \<Rightarrow> u8 list \<Rightarrow> u16 list \<Rightarrow> int \<Rightarrow> file_system \<Rightarrow> table_manager \<Rightarrow> (int \<times> table_manager \<times> file_system) outcome" where
  "compress_loop ev value [] ret fs tb = Ret (ret, tb, fs)"
| "compress_loop ev value (i # is) ret fs tb =
     obind (need (rd (tb_segment_meta tb) (unat i))) (\<lambda>md.
       if md_flag md AND SEGMENT_COMPRESS \<noteq> 0 \<or> md_flag md AND SEGMENT_FULL = 0 \<or> md_flag md AND SEGMENT_INIT = 0
       then compress_loop ev value is ret fs tb
       else obind (need (segment_at tb i)) (\<lambda>sg.
         obind (segment_compress ev value fs sg) (\<lambda>(ret1, sg1, fs1).
           if ret1 \<noteq> MILE_RETURN_SUCCESS then Ret (ret1, store_segment tb i sg1, fs1)
           else obind (segment_compress_switch fs1 sg1) (\<lambda>(ret2, sg2, fs2).
             compress_loop ev value is ret2 fs2 (store_segment tb i (segment_set_flag sg2 SEGMENT_COMPRESS))))))"

definition table_compress ::
    "env \<Rightarrow> u8 list \<Rightarrow> file_system \<Rightarrow> table_manager \<Rightarrow> (int \<times> table_manager \<times> file_system) outcome" where
  "table_compress ev value fs tb =
     (if table_deleted tb then Ret (ERROR_TABLE_DELETED, tb, fs)
      else compress_loop ev value (all_sids tb) MILE_RETURN_SUCCESS fs tb)"

definition table_mmap_switch ::
    "env \<Rightarrow> file_system \<Rightarrow> table_manager \<Rightarrow> u16 \<Rightarrow> (int \<times> table_manager \<times> file_system) outcome" where
  "table_mmap_switch ev fs tb sid =
     (if table_deleted tb then Ret (ERROR_TABLE_DELETED, tb, fs)
      else obind (need (segment_at tb sid)) (\<lambda>sg.
        obind (segment_mmap_switch ev fs sg) (\<lambda>(ret, sg', fs'). Ret (ret, store_segment tb sid sg', fs'))))"

definition table_query_segment_stat :: "table_manager \<Rightarrow> segment_meta_data list option" where
  "table_query_segment_stat tb = (if table_deleted tb then None else Some (take (unat (tb_max_segment_num tb)) (tb_segment_meta tb)))"

definition table_query_index_stat :: "table_manager \<Rightarrow> index_field_meta list option" where
  "table_query_index_stat tb =
     (if table_deleted tb then None
      else Some (take (unat (tm_index_field_count (tb_table_meta tb))) (tm_index_meta (tb_table_meta tb))))"

end
