(* ===== verification/Table_Index.thy ===== *)
theory Table_Index
  imports Table
begin

text \<open>
  Creating and dropping an index on a running table, and the range query, of
  \<^verbatim>\<open>storage/docdb/table.c\<close>.  A new index is filled from the stored rows: first in the current
  segment, where the last ten documents are added under the table lock, then in the full ones; at the
  end it is marked as ready for queries.  A pointer to the meta data of a column is its position.
\<close>

section \<open>Meta data of columns\<close>

text \<open>Full-text indexes have the name of the column after a dollar sign (36).\<close>

definition index_field_name :: "u8 list \<Rightarrow> index_key_alg \<Rightarrow> u8 list option" where
  "index_field_name field_name t =
     (let s = (if t = HI_KEY_ALG_FULLTEXT then 36 # field_name else field_name) in
      if length s < MAX_FIELD_NAME then Some s else None)"

definition zero_stat :: index_field_stat where
  "zero_stat = \<lparr>is_index_type = HI_KEY_ALG_UNDEF, is_data_type = HI_TYPE_NULL, is_flag = 0\<rparr>"

definition zero_field_meta :: index_field_meta where
  "zero_field_meta = \<lparr>im_field_name = [], im_index_count = 0, im_indexs = replicate MAX_INDEX_PER_FIELD zero_stat\<rparr>"

fun find_meta :: "(index_field_meta \<Rightarrow> bool option) \<Rightarrow> index_field_meta list \<Rightarrow> nat \<Rightarrow> nat \<Rightarrow> nat option option" where
  "find_meta P ms i 0 = Some None"
| "find_meta P ms i (Suc k) = do {
     m \<leftarrow> rd ms i;
     b \<leftarrow> P m;
     if b then Some (Some i) else find_meta P ms (Suc i) k
   }"

definition kinds :: "index_field_meta \<Rightarrow> index_key_alg list option" where
  "kinds m = map_option (map is_index_type) (rd_range (im_indexs m) 0 (unat (im_index_count m)))"

definition set_metas :: "index_field_meta list \<Rightarrow> u16 \<Rightarrow> table_manager \<Rightarrow> table_manager" where
  "set_metas ms n tb = tb\<lparr>tb_table_meta := (tb_table_meta tb)\<lparr>tm_index_meta := ms, tm_index_field_count := n\<rparr>\<rparr>"

section \<open>Filling an index\<close>

definition query_data_and_insert_index ::
    "(u8 list \<Rightarrow> string) \<Rightarrow> (u8 list \<Rightarrow> string) \<Rightarrow> field_types \<times> u8 list \<Rightarrow> io \<Rightarrow> io \<Rightarrow> env \<Rightarrow> index_key_alg \<Rightarrow> field_types \<Rightarrow> u8 list \<Rightarrow>
       u32 \<Rightarrow> file_system \<Rightarrow> segment_manager \<Rightarrow> (segment_manager \<times> file_system) outcome" where
  "query_data_and_insert_index fmt_f fmt_lf raw r w ev t dt name docid fs sg =
     obind (need (segment_is_docid_deleted sg docid)) (\<lambda>deleted.
       if deleted \<noteq> 0 then Ret (sg, fs)
       else obind (need (segment_data_query_col r sg name docid)) (\<lambda>data.
         case data of
           None \<Rightarrow> Ret (sg, fs)
         | Some data \<Rightarrow>
             let data' = data\<lparr>ld_field_name := name\<rparr> in
             obind (segment_index_insert fmt_f fmt_lf w ev fs sg (if ld_type data' \<noteq> dt then null_data raw data' else data') t docid)
               (\<lambda>(ret, sg', fs'). Ret (sg', fs'))))"

fun build_docs ::
    "(u8 list \<Rightarrow> string) \<Rightarrow> (u8 list \<Rightarrow> string) \<Rightarrow> field_types \<times> u8 list \<Rightarrow> io \<Rightarrow> io \<Rightarrow> env \<Rightarrow> index_key_alg \<Rightarrow> field_types \<Rightarrow> u8 list \<Rightarrow>
       u32 list \<Rightarrow> file_system \<Rightarrow> segment_manager \<Rightarrow> (segment_manager \<times> file_system) outcome" where
  "build_docs fmt_f fmt_lf raw r w ev t dt name [] fs sg = Ret (sg, fs)"
| "build_docs fmt_f fmt_lf raw r w ev t dt name (d # ds) fs sg =
     obind (query_data_and_insert_index fmt_f fmt_lf raw r w ev t dt name d fs sg) (\<lambda>(sg', fs').
       build_docs fmt_f fmt_lf raw r w ev t dt name ds fs' sg')"

text \<open>The column becomes visible to insertions: its meta data is put into the map, or copied over
  what the map points to.\<close>

definition publish :: "table_manager \<Rightarrow> nat \<Rightarrow> u8 list \<Rightarrow> table_manager option" where
  "publish tb i name =
     (let key = name_text name; sm = tb_index_meta_hash tb in
      case string_map_get sm key of
        None \<Rightarrow> Some (tb\<lparr>tb_index_meta_hash := snd (string_map_put sm key (Shared i))\<rparr>)
      | Some p \<Rightarrow> do {
          m \<leftarrow> rd (tm_index_meta (tb_table_meta tb)) i;
          case p of
            Own _ \<Rightarrow> Some (tb\<lparr>tb_index_meta_hash := sm\<lparr>sm_data := map (\<lambda>(k, v). if k = key then (k, Own m) else (k, v)) (sm_data sm)\<rparr>\<rparr>)
          | Shared k \<Rightarrow> do {
              ms \<leftarrow> wr (tm_index_meta (tb_table_meta tb)) k m;
              Some (set_metas ms (tm_index_field_count (tb_table_meta tb)) tb)
            }
        })"

text \<open>A compressed segment has to be compressed again.\<close>

definition reset_compress :: "segment_manager \<Rightarrow> segment_manager" where
  "reset_compress sg =
     (let md = sg_meta_data sg in
      if md_flag md AND SEGMENT_COMPRESS \<noteq> 0
      then sg\<lparr>sg_meta_data := md\<lparr>md_flag := (md_flag md AND NOT SEGMENT_COMPRESS) OR SEGMENT_FULL\<rparr>\<rparr>
      else sg)"

fun build_current ::
    "(u8 list \<Rightarrow> string) \<Rightarrow> (u8 list \<Rightarrow> string) \<Rightarrow> field_types \<times> u8 list \<Rightarrow> io \<Rightarrow> io \<Rightarrow> env \<Rightarrow> index_key_alg \<Rightarrow> field_types \<Rightarrow> u8 list \<Rightarrow>
       nat \<Rightarrow> u16 \<Rightarrow> u32 list \<Rightarrow> file_system \<Rightarrow> table_manager \<Rightarrow> (table_manager \<times> file_system) outcome" where
  "build_current fmt_f fmt_lf raw r w ev t dt name i sid [] fs tb = Ret (tb, fs)"
| "build_current fmt_f fmt_lf raw r w ev t dt name i sid (d # ds) fs tb =
     obind (need (segment_at tb sid)) (\<lambda>sg.
     obind (query_data_and_insert_index fmt_f fmt_lf raw r w ev t dt name d fs sg) (\<lambda>(sg1, fs1).
       if sid = tm_segment_current (tb_table_meta tb) \<and> segment_get_rowcount sg1 - d < 10
       then
         obind (build_docs fmt_f fmt_lf raw r w ev t dt name ds fs1 sg1) (\<lambda>(sg2, fs2).
         obind (need (publish (store_segment tb sid sg2) i name)) (\<lambda>tb1.
         obind (need (segment_at tb1 sid)) (\<lambda>sg3. Ret (store_segment tb1 sid (reset_compress sg3), fs2))))
       else build_current fmt_f fmt_lf raw r w ev t dt name i sid ds fs1 (store_segment tb sid sg1)))"

definition docids :: "u32 \<Rightarrow> u32 list" where
  "docids n = map word_of_nat [0..<unat n]"

text \<open>The full segments; that an index could not be created is not noticed.\<close>

fun build_rest ::
    "(u8 list \<Rightarrow> string) \<Rightarrow> (u8 list \<Rightarrow> string) \<Rightarrow> field_types \<times> u8 list \<Rightarrow> io \<Rightarrow> io \<Rightarrow> (string \<Rightarrow> bool) \<Rightarrow> env \<Rightarrow> u64 \<Rightarrow> index_key_alg \<Rightarrow>
       field_types \<Rightarrow> u8 list \<Rightarrow> u16 \<Rightarrow> u16 list \<Rightarrow> file_system \<Rightarrow> table_manager \<Rightarrow> (table_manager \<times> file_system) outcome option" where
  "build_rest fmt_f fmt_lf raw r w mkdirs ev now t dt name sid [] fs tb = Some (Ret (tb, fs))"
| "build_rest fmt_f fmt_lf raw r w mkdirs ev now t dt name sid (j # js) fs tb =
     (case do { md \<leftarrow> rd (tb_segment_meta tb) (unat j);
         if md_flag md AND SEGMENT_FULL = 0 \<or> j = sid then Some None else map_option Some (segment_at tb j) } of
        None \<Rightarrow> Some Trap
      | Some None \<Rightarrow> build_rest fmt_f fmt_lf raw r w mkdirs ev now t dt name sid js fs tb
      | Some (Some sg) \<Rightarrow> do {
          q \<leftarrow> segment_ensure_index mkdirs ev now fs sg (name_text name) t;
          case obind q (\<lambda>(ret, sg1, fs1). build_docs fmt_f fmt_lf raw r w ev t dt name (docids (tb_row_limit tb)) fs1 sg1) of
            Ret (sg2, fs2) \<Rightarrow>
              build_rest fmt_f fmt_lf raw r w mkdirs ev now t dt name sid js fs2 (store_segment tb j (reset_compress sg2))
          | Trap \<Rightarrow> Some Trap
          | Blocked \<Rightarrow> Some Blocked
        })"

section \<open>Creating an index\<close>

text \<open>The index becomes visible to queries.\<close>

definition finish_index :: "table_manager \<Rightarrow> nat \<Rightarrow> u8 list \<Rightarrow> index_key_alg \<Rightarrow> table_manager option" where
  "finish_index tb i name t = do {
     let tm = tb_table_meta tb;
     m \<leftarrow> rd (tm_index_meta tm) i;
     xs \<leftarrow> rd_range (im_indexs m) 0 (unat (im_index_count m));
     let ys = map (\<lambda>x. if is_index_type x = t then x\<lparr>is_flag := 1\<rparr> else x) xs;
     let ms = (tm_index_meta tm)[i := m\<lparr>im_indexs := ys @ drop (length ys) (im_indexs m)\<rparr>];
     let sm = snd (string_map_remove (tb_index_meta_hash tb) (name_text name));
     Some ((set_metas ms (tm_index_field_count tm) tb)\<lparr>tb_index_meta_hash := snd (string_map_put sm (name_text name) (Shared i))\<rparr>)
   }"

definition build_finish ::
    "(u8 list \<Rightarrow> string) \<Rightarrow> (u8 list \<Rightarrow> string) \<Rightarrow> field_types \<times> u8 list \<Rightarrow> io \<Rightarrow> io \<Rightarrow> (string \<Rightarrow> bool) \<Rightarrow> env \<Rightarrow> u64 \<Rightarrow> index_key_alg \<Rightarrow>
       field_types \<Rightarrow> u8 list \<Rightarrow> nat \<Rightarrow> u16 \<Rightarrow> file_system \<Rightarrow> table_manager \<Rightarrow> (int \<times> table_manager \<times> file_system) outcome option" where
  "build_finish fmt_f fmt_lf raw r w mkdirs ev now t dt name i sid fs tb =
     map_option (\<lambda>q. obind q (\<lambda>(tb1, fs1).
         obind (table_checkpoint ev fs1 tb1) (\<lambda>fs2.
         obind (need (finish_index tb1 i name t)) (\<lambda>tb2. Ret (MILE_RETURN_SUCCESS, tb2, fs2)))))
       (build_rest fmt_f fmt_lf raw r w mkdirs ev now t dt name sid (all_sids tb) fs tb)"

definition table_build_index ::
    "(u8 list \<Rightarrow> string) \<Rightarrow> (u8 list \<Rightarrow> string) \<Rightarrow> field_types \<times> u8 list \<Rightarrow> io \<Rightarrow> io \<Rightarrow> (string \<Rightarrow> bool) \<Rightarrow> env \<Rightarrow> u64 \<Rightarrow> index_key_alg \<Rightarrow>
       field_types \<Rightarrow> u8 list \<Rightarrow> nat \<Rightarrow> file_system \<Rightarrow> table_manager \<Rightarrow> (int \<times> table_manager \<times> file_system) outcome option" where
  "table_build_index fmt_f fmt_lf raw r w mkdirs ev now t dt name i fs tb =
     (let sid = tm_segment_current (tb_table_meta tb) in
      case do { b \<leftarrow> segment_open tb sid; if b then map_option Some (segment_at tb sid) else Some None } of
        None \<Rightarrow> Some Trap
      | Some None \<Rightarrow> build_finish fmt_f fmt_lf raw r w mkdirs ev now t dt name i sid fs tb
      | Some (Some sg) \<Rightarrow> do {
          q \<leftarrow> segment_ensure_index mkdirs ev now fs sg (name_text name) t;
          case q of
            Ret (ret, sg1, fs1) \<Rightarrow>
              if ret \<noteq> 0 then Some (Ret (ret, store_segment tb sid sg1, fs1))
              else
                (case build_current fmt_f fmt_lf raw r w ev t dt name i sid (docids (segment_get_rowcount sg1)) fs1 (store_segment tb sid sg1) of
                   Ret (tb2, fs2) \<Rightarrow> build_finish fmt_f fmt_lf raw r w mkdirs ev now t dt name i sid fs2 tb2
                 | Trap \<Rightarrow> Some Trap
                 | Blocked \<Rightarrow> Some Blocked)
          | Trap \<Rightarrow> Some Trap
          | Blocked \<Rightarrow> Some Blocked
        })"

text \<open>Adds a kind of index to a column, or a column with its first index; the outcome tells the
  position of the column, or \<^term>\<open>None\<close> if the index is there already.\<close>

definition add_meta :: "table_manager \<Rightarrow> u8 list \<Rightarrow> index_key_alg \<Rightarrow> field_types \<Rightarrow> (nat option \<times> table_manager) option" where
  "add_meta tb name t dt = do {
     let tm = tb_table_meta tb;
     let ms = tm_index_meta tm;
     let n = tm_index_field_count tm;
     p \<leftarrow> find_meta (\<lambda>m. Some (im_field_name m = name_text name)) ms 0 (unat n);
     case p of
       Some i \<Rightarrow> do {
         m \<leftarrow> rd ms i;
         ks \<leftarrow> kinds m;
         if t \<in> set ks then Some (None, tb)
         else do {
           x \<leftarrow> rd (im_indexs m) (unat (im_index_count m));
           xs \<leftarrow> wr (im_indexs m) (unat (im_index_count m)) (x\<lparr>is_index_type := t, is_data_type := dt\<rparr>);
           Some (Some i, set_metas (ms[i := m\<lparr>im_indexs := xs, im_index_count := im_index_count m + 1\<rparr>]) n tb)
         }
       }
     | None \<Rightarrow> do {
         m \<leftarrow> rd ms (unat n);
         x \<leftarrow> rd (im_indexs m) 0;
         xs \<leftarrow> wr (im_indexs m) 0 (x\<lparr>is_index_type := t, is_data_type := dt\<rparr>);
         Some (Some (unat n), set_metas (ms[unat n := \<lparr>im_field_name = name_text name, im_index_count = 1, im_indexs = xs\<rparr>]) (n + 1) tb)
       }
   }"

definition table_ensure_index ::
    "(u8 list \<Rightarrow> string) \<Rightarrow> (u8 list \<Rightarrow> string) \<Rightarrow> field_types \<times> u8 list \<Rightarrow> io \<Rightarrow> io \<Rightarrow> (string \<Rightarrow> bool) \<Rightarrow> env \<Rightarrow> u64 \<Rightarrow>
       file_system \<Rightarrow> table_manager \<Rightarrow> u8 list \<Rightarrow> index_key_alg \<Rightarrow> field_types \<Rightarrow> (int \<times> table_manager \<times> file_system) outcome option" where
  "table_ensure_index fmt_f fmt_lf raw r w mkdirs ev now fs tb field_name t dt =
     (case do { name \<leftarrow> index_field_name field_name t; (p, tb1) \<leftarrow> add_meta tb name t dt; Some (name, p, tb1) } of
        None \<Rightarrow> Some Trap
      | Some (name, None, tb1) \<Rightarrow> Some (Ret (MILE_RETURN_SUCCESS, tb1, fs))
      | Some (name, Some i, tb1) \<Rightarrow> table_build_index fmt_f fmt_lf raw r w mkdirs ev now t dt name i fs tb1)"

section \<open>Dropping an index\<close>

definition remove_at :: "'a list \<Rightarrow> nat \<Rightarrow> nat \<Rightarrow> 'a \<Rightarrow> 'a list" where
  "remove_at xs i n zero = take i xs @ take (n - Suc i) (drop (Suc i) xs) @ zero # drop n xs"

text \<open>Takes the index out of the meta data, and the column with its last index.\<close>

definition drop_meta :: "table_manager \<Rightarrow> u8 list \<Rightarrow> index_key_alg \<Rightarrow> table_manager option option" where
  "drop_meta tb name t = do {
     let tm = tb_table_meta tb;
     let ms = tm_index_meta tm;
     let n = tm_index_field_count tm;
     p \<leftarrow> find_meta (\<lambda>m. if im_field_name m = name_text name then map_option (\<lambda>ks. t \<in> set ks) (kinds m) else Some False) ms 0 (unat n);
     case p of
       None \<Rightarrow> Some None
     | Some i \<Rightarrow> do {
         m \<leftarrow> rd ms i;
         ks \<leftarrow> kinds m;
         let j = length (takeWhile (\<lambda>k. k \<noteq> t) ks);
         let m' = m\<lparr>im_indexs := remove_at (im_indexs m) j (length ks) zero_stat, im_index_count := im_index_count m - 1\<rparr>;
         Some (Some (if im_index_count m' = 0 then set_metas (remove_at ms i (unat n) zero_field_meta) (n - 1) tb
           else set_metas (ms[i := m']) n tb))
       }
   }"

fun del_segments ::
    "u64 \<Rightarrow> string \<Rightarrow> index_key_alg \<Rightarrow> u16 list \<Rightarrow> file_system \<Rightarrow> table_manager \<Rightarrow> (table_manager \<times> file_system) option" where
  "del_segments now name t [] fs tb = Some (tb, fs)"
| "del_segments now name t (i # is) fs tb = do {
     b \<leftarrow> segment_open tb i;
     if \<not> b then del_segments now name t is fs tb
     else do {
       sg \<leftarrow> segment_at tb i;
       (ret, sg', fs') \<leftarrow> segment_del_index now fs sg name t;
       del_segments now name t is fs' (store_segment tb i sg')
     }
   }"

definition table_del_index ::
    "u64 \<Rightarrow> file_system \<Rightarrow> table_manager \<Rightarrow> u8 list \<Rightarrow> index_key_alg \<Rightarrow> (int \<times> table_manager \<times> file_system) option" where
  "table_del_index now fs tb field_name t = do {
     name \<leftarrow> index_field_name field_name t;
     p \<leftarrow> drop_meta tb name t;
     case p of
       None \<Rightarrow> Some (MILE_RETURN_SUCCESS, tb, fs)
     | Some tb1 \<Rightarrow> do {
         let tb2 = tb1\<lparr>tb_index_meta_hash := snd (string_map_remove (tb_index_meta_hash tb1) (name_text name))\<rparr>;
         tb3 \<leftarrow> reload_index_hash tb2 0 (unat (tm_index_field_count (tb_table_meta tb2)));
         (tb4, fs') \<leftarrow> del_segments now (name_text name) t (all_sids tb3) fs tb3;
         Some (MILE_RETURN_SUCCESS, tb4, fs')
       }
   }"

section \<open>Range query\<close>

text \<open>\<open>raw\<close> is what \<^verbatim>\<open>max_docid\<close> of a fresh node holds, which is never set.\<close>

fun range_segments ::
    "u32 \<Rightarrow> table_manager \<Rightarrow> string \<Rightarrow> u64 \<times> u64 \<Rightarrow> 'q \<Rightarrow> u16 list \<Rightarrow> 's segment_query_rowids list \<Rightarrow> 's segment_query_rowids list option" where
  "range_segments raw tb field_name time_cond cond [] acc = Some acc"
| "range_segments raw tb field_name time_cond cond (i # is) acc = do {
     b \<leftarrow> segment_open tb i;
     if \<not> b then range_segments raw tb field_name time_cond cond is acc
     else do {
       sg \<leftarrow> segment_at tb i;
       let md = sg_meta_data sg;
       if md_modify_time md \<le> fst time_cond \<or> md_create_time md \<ge> snd time_cond
       then range_segments raw tb field_name time_cond cond is acc
       else do {
         rowids \<leftarrow> segment_index_range_query sg field_name cond;
         range_segments raw tb field_name time_cond cond is (\<lparr>sq_sid = i, sq_max_docid = raw, sq_rowids = rowids\<rparr> # acc)
       }
     }
   }"

definition table_index_range_query ::
    "u32 \<Rightarrow> table_manager \<Rightarrow> string \<Rightarrow> u64 \<times> u64 \<Rightarrow> 'q \<Rightarrow> 's segment_query_rowids list option option" where
  "table_index_range_query raw tb field_name time_cond cond =
     (if table_deleted tb then Some None
      else do {
        t \<leftarrow> check_index tb field_name HI_KEY_ALG_BTREE;
        if t = None then Some None else map_option Some (range_segments raw tb field_name time_cond cond (all_sids tb) [])
      })"

end
