(* ===== verification/Hash_Compress_Laws.thy ===== *)
theory Hash_Compress_Laws
  imports Hash_Compress Hash_Props
begin

text \<open>
  Compressing a hash index: the entries that the loading loop writes, the binary search over
  them, and the proof that a compressed index gives the answers of the index it was made from.
\<close>

section \<open>Documents in the data file\<close>

definition docs_at :: "u8 list \<Rightarrow> nat \<Rightarrow> u32 list \<Rightarrow> bool" where
  "docs_at dat off ds \<longleftrightarrow> (\<forall>i < length ds. get32 dat (off + 4 * i) = Some (ds ! i))"

lemma length_array_bytes [simp]: "length (array_bytes xs) = 4 * length xs"
  by (induction xs) (simp_all add: array_bytes_def)

lemma array_bytes_append [simp]: "array_bytes (xs @ ys) = array_bytes xs @ array_bytes ys"
  by (simp add: array_bytes_def)

lemma array_bytes_take: "take (4 * n) (array_bytes xs) = array_bytes (take n xs)"
proof (cases "n \<le> length xs")
  case True
  then have "array_bytes xs = array_bytes (take n xs) @ array_bytes (drop n xs)" by (simp flip: array_bytes_append)
  with True show ?thesis by simp
qed simp

lemma array_bytes_nth: "i < length xs \<Longrightarrow> take 4 (drop (4 * i) (array_bytes xs)) = le_bytes 4 (xs ! i)"
proof -
  assume i: "i < length xs"
  have "array_bytes xs = array_bytes (take i xs @ [xs ! i] @ drop (Suc i) xs)" using i by (simp flip: id_take_nth_drop)
  also have "\<dots> = array_bytes (take i xs) @ le_bytes 4 (xs ! i) @ array_bytes (drop (Suc i) xs)"
    by (simp add: array_bytes_def)
  finally show ?thesis using i by simp
qed

lemma docs_at_write:
  assumes "wr_range dat off (array_bytes ds) = Some dat'"
  shows "docs_at dat' off ds"
  unfolding docs_at_def
proof (intro allI impI)
  fix i assume i: "i < length ds"
  have "rd_range dat' off (4 * length ds) = Some (array_bytes ds)" using rd_wr_range_same [OF assms] by simp
  then have b: "off + 4 * length ds \<le> length dat'" "take (4 * length ds) (drop off dat') = array_bytes ds"
    by (simp_all add: rd_range_def split: if_splits)
  have "take 4 (drop (off + 4 * i) dat') = take 4 (drop (4 * i) (take (4 * length ds) (drop off dat')))"
    using i by (simp add: drop_take add.commute min_def)
  also have "\<dots> = le_bytes 4 (ds ! i)" unfolding b(2) using i by (rule array_bytes_nth)
  finally show "get32 dat' (off + 4 * i) = Some (ds ! i)"
    using b(1) i by (simp add: get_le_def rd_range_def le_word_le_bytes)
qed

lemma docs_at_frame:
  "docs_at dat off ds \<Longrightarrow> (\<And>a. a + 4 \<le> off + 4 * length ds \<Longrightarrow> get32 dat' a = get32 dat a) \<Longrightarrow> docs_at dat' off ds"
  by (simp add: docs_at_def)

lemma those_Some: "those (map Some xs) = Some xs"
  by (induction xs) simp_all

lemma read_words_docs_at: "docs_at dat off ds \<Longrightarrow> read_words dat off (length ds) = Some ds"
proof -
  assume "docs_at dat off ds"
  then have "map (\<lambda>i. get32 dat (off + 4 * i)) [0..<length ds] = map Some ds"
    by (intro nth_equalityI) (auto simp: docs_at_def)
  then show ?thesis unfolding read_words_def by (simp add: those_Some)
qed

section \<open>Copying the blocks of a list\<close>

lemma wr_range_append:
  assumes "a + length (xs @ ys) \<le> length m"
  shows "Option.bind (wr_range m a xs) (\<lambda>m'. wr_range m' (a + length xs) ys) = wr_range m a (xs @ ys)"
proof -
  have "a \<le> length m" using assms by simp
  with assms show ?thesis by (simp add: wr_range_def min_absorb2 ac_simps)
qed

lemma copy_blocks_writes:
  assumes "list_all node_ok ps" and "ps \<noteq> []" and "256 * (length ps - 1) < n" and "n \<le> 256 * length ps"
    and "off + 4 * n \<le> length dat"
  shows "copy_blocks ps (length ps - 1) dat off (off + 4 * n) = wr_range dat off (array_bytes (take n (flat ps)))"
  using assms
proof (induction ps arbitrary: n off dat)
  case (Cons p ps)
  have p: "length (rn_rowid_array p) = 256" using Cons.prems(1) by (simp add: node_ok_def)
  show ?case
  proof (cases "ps = []")
    case True
    with Cons.prems p show ?thesis
      by (simp add: rd_range_def array_bytes_take)
  next
    case False
    let ?n = "n - 256" and ?w = "array_bytes (rn_rowid_array p)"
    obtain k where k: "length ps = Suc k" using False by (cases ps) auto
    have n: "256 * (length ps - 1) < ?n" "?n \<le> 256 * length ps" "256 < n"
      using Cons.prems(3,4) k by simp_all
    have "off + length ?w \<le> length dat" using Cons.prems(5) p n(3) by simp
    then obtain d1 where d1: "wr_range dat off ?w = Some d1" by (simp only: wr_range_in_range)
    have len: "length d1 = length dat" by (rule wr_range_length [OF d1])
    have "copy_blocks (p # ps) (length (p # ps) - 1) dat off (off + 4 * n) =
        copy_blocks ps (length ps - 1) d1 (off + 1024) (off + 4 * n)"
      using d1 k by simp
    also have "\<dots> = copy_blocks ps (length ps - 1) d1 (off + 1024) (off + 1024 + 4 * ?n)"
    proof -
      have "off + 4 * n = off + 1024 + 4 * ?n" using n(3) by simp
      then show ?thesis by (rule arg_cong)
    qed
    also have "\<dots> = wr_range d1 (off + 1024) (array_bytes (take ?n (flat ps)))"
      by (rule Cons.IH) (use Cons.prems(1,5) False n len in simp_all)
    also have "\<dots> = wr_range dat off (?w @ array_bytes (take ?n (flat ps)))"
      using wr_range_append [of off ?w "array_bytes (take ?n (flat ps))" dat] Cons.prems(5) p n d1
        length_flat [of ps] Cons.prems(1) by (simp add: min_def)
    also have "?w @ array_bytes (take ?n (flat ps)) = array_bytes (take n (flat (p # ps)))"
      using p n(3) by simp
    finally show ?thesis .
  qed
qed simp

lemma copy_list:
  fixes l :: "'s rowid_list"
  assumes "rl_wf l" and "rl_ids l \<noteq> []" and "off + 4 * length (rl_ids l) \<le> length dat"
  obtains t dat' where "rl_tail l = Some t"
    and "copy_blocks (rl_nodes l) t dat off (off + 4 * length (rl_ids l)) = Some dat'"
    and "docs_at dat' off (rl_ids l)" and "length dat' = length dat"
    and "\<And>a. a + 4 \<le> off \<Longrightarrow> get32 dat' a = get32 dat a"
proof -
  have n: "length (rl_ids l) = unat (rl_rowid_num l)" "list_all node_ok (rl_nodes l)"
    using assms(1) by (simp_all add: rl_wf_def rl_ok_def)
  have ne: "rl_nodes l \<noteq> []" using assms(1,2) n(1) by (auto simp: rl_wf_def rl_ids_def)
  have r: "256 * (length (rl_nodes l) - 1) < length (rl_ids l)" "rl_tail l = Some (length (rl_nodes l) - 1)"
    "length (rl_ids l) \<le> 256 * length (rl_nodes l)"
    using assms(1) ne n length_flat [OF n(2)] by (auto simp: rl_wf_def rl_ok_def)
  obtain dat' where dat': "wr_range dat off (array_bytes (rl_ids l)) = Some dat'"
    using assms(3) by (simp add: wr_range_def)
  have "copy_blocks (rl_nodes l) (length (rl_nodes l) - 1) dat off (off + 4 * length (rl_ids l)) = Some dat'"
    using copy_blocks_writes [OF n(2) ne r(1,3) assms(3)] dat' n(1) by (simp add: rl_ids_def)
  moreover have "get32 dat' a = get32 dat a" if "a + 4 \<le> off" for a
    using rd_wr_range_disjoint [OF dat', of a 4] that by (simp add: get_le_def)
  ultimately show ?thesis using that [OF r(2)] docs_at_write [OF dat'] wr_range_length [OF dat'] by blast
qed

section \<open>Entries\<close>

fun entries :: "u8 list \<Rightarrow> u8 list \<Rightarrow> nat \<Rightarrow> nat \<Rightarrow> (u64 \<times> u32 list) list \<Rightarrow> bool" where
  "entries idx dat k off [] \<longleftrightarrow> True"
| "entries idx dat k off ((v, ds) # es) \<longleftrightarrow> hs_hash_value idx k = Some v \<and> hs_offset idx k = Some (word_of_nat off) \<and>
     hs_len idx k = Some (word_of_nat (4 * length ds)) \<and> docs_at dat off ds \<and>
     entries idx dat (Suc k) (off + 4 * length ds) es"

definition doc_total :: "(u64 \<times> u32 list) list \<Rightarrow> nat" where
  "doc_total es = (\<Sum>e\<leftarrow>es. length (snd e))"

lemma doc_total_simps [simp]: "doc_total [] = 0" "doc_total (e # es) = length (snd e) + doc_total es"
  by (simp_all add: doc_total_def)

text \<open>A bucket of a well-formed table yields its documents.\<close>

definition bucket_docs :: "hash_index_manager \<Rightarrow> u8 list \<Rightarrow> nat \<Rightarrow> u64 \<times> u32 list \<Rightarrow> bool" where
  "bucket_docs h m b e \<longleftrightarrow> hb_hash_value m b = Some (fst e) \<and> snd e \<noteq> [] \<and>
     (\<exists>off l. hb_offset m b = Some off \<and> get_rowid_list (hi_doclist h) (unat off) = Some (l :: unit rowid_list) \<and>
        rl_wf l \<and> rl_ids l = snd e)"

lemma put_entry:
  assumes "k * 16 + 16 \<le> length idx"
  obtains i1 i2 i3 where "put64 idx (k * 16) v = Some i1" and "put32 i1 (k * 16 + 8) off = Some i2"
    and "put32 i2 (k * 16 + 12) len = Some i3" and "length i3 = length idx"
    and "hs_hash_value i3 k = Some v" and "hs_offset i3 k = Some off" and "hs_len i3 k = Some len"
    and "\<And>n a. a + n \<le> k * 16 \<Longrightarrow> rd_range i3 a n = rd_range idx a n"
proof -
  obtain i1 where 1: "put64 idx (k * 16) v = Some i1" "length i1 = length idx"
    by (rule put_le_some [of "k * 16" 8 idx]) (use assms in simp)
  obtain i2 where 2: "put32 i1 (k * 16 + 8) off = Some i2" "length i2 = length i1"
    by (rule put_le_some [of "k * 16 + 8" 4 i1]) (use assms 1(2) in simp)
  obtain i3 where 3: "put32 i2 (k * 16 + 12) len = Some i3" "length i3 = length i2"
    by (rule put_le_some [of "k * 16 + 12" 4 i2]) (use assms 1(2) 2(2) in simp)
  have "hs_len i3 k = Some len" unfolding hs_len_def by (rule get_put32_same [OF 3(1)])
  moreover have "get32 i3 (k * 16 + 8) = get32 i2 (k * 16 + 8)" by (rule get_put_other [OF 3(1)]) simp
  then have "hs_offset i3 k = Some off" unfolding hs_offset_def using get_put32_same [OF 2(1)] by simp
  moreover have "get64 i3 (k * 16) = get64 i2 (k * 16)" by (rule get_put_other [OF 3(1)]) simp
  moreover have "get64 i2 (k * 16) = get64 i1 (k * 16)" by (rule get_put_other [OF 2(1)]) simp
  ultimately have e: "hs_hash_value i3 k = Some v" "hs_offset i3 k = Some off" "hs_len i3 k = Some len"
    unfolding hs_hash_value_def using get_put64_same [OF 1(1)] by simp_all
  have "rd_range i3 a n = rd_range idx a n" if "a + n \<le> k * 16" for n a
    using rd_wr_range_disjoint [OF 3(1) [unfolded put_le_def], of a n] rd_wr_range_disjoint [OF 2(1) [unfolded put_le_def], of a n]
      rd_wr_range_disjoint [OF 1(1) [unfolded put_le_def], of a n] that by simp
  with e show ?thesis using that [OF 1(1) 2(1) 3(1)] 1(2) 2(2) 3(2) by simp
qed

lemma load_entry_writes:
  assumes b: "bucket_docs h m b e" and idx: "k * 16 + 16 \<le> length idx"
    and dat: "off + 4 * length (snd e) \<le> length dat" and small: "length dat < 4294967296"
  obtains idx' dat' where "load_entry h m b k idx dat (word_of_nat off) = Some (idx', dat', word_of_nat (off + 4 * length (snd e)))"
    and "length idx' = length idx" and "length dat' = length dat"
    and "entries idx' dat' k off [e]"
    and "\<And>n a. a + n \<le> k * 16 \<Longrightarrow> rd_range idx' a n = rd_range idx a n"
    and "\<And>a. a + 4 \<le> off \<Longrightarrow> get32 dat' a = get32 dat a"
proof -
  obtain o' and l :: "unit rowid_list" where l: "hb_hash_value m b = Some (fst e)" "hb_offset m b = Some o'"
    "get_rowid_list (hi_doclist h) (unat o') = Some l" "rl_wf l" "rl_ids l = snd e" "snd e \<noteq> []"
    using b by (auto simp: bucket_docs_def)
  let ?len = "4 * rl_rowid_num l"
  have num: "unat (rl_rowid_num l) = length (snd e)" using l(4,5) by (metis length_rl_ids rl_wf_def)
  then have len: "?len = word_of_nat (4 * length (snd e))" by (simp flip: num)
  have sum: "word_of_nat off + ?len = word_of_nat (off + 4 * length (snd e))"
    unfolding len by (rule of_nat_add [symmetric])
  have off: "unat (word_of_nat off :: u32) = off" "unat (word_of_nat off + ?len) = off + 4 * length (snd e)"
    unfolding sum using dat small by (simp_all only: unat_word_of_nat_u32 [of "off + 4 * length (snd e)"] unat_word_of_nat_u32 [of off])
  obtain i1 i2 i3 where i: "put64 idx (k * 16) (fst e) = Some i1" "put32 i1 (k * 16 + 8) (word_of_nat off) = Some i2"
    "put32 i2 (k * 16 + 12) ?len = Some i3" "length i3 = length idx" "hs_hash_value i3 k = Some (fst e)"
    "hs_offset i3 k = Some (word_of_nat off)" "hs_len i3 k = Some ?len"
    "\<And>n a. a + n \<le> k * 16 \<Longrightarrow> rd_range i3 a n = rd_range idx a n" using put_entry [OF idx] by blast
  obtain t dat' where d: "rl_tail l = Some t" "copy_blocks (rl_nodes l) t dat off (off + 4 * length (snd e)) = Some dat'"
    "docs_at dat' off (snd e)" "length dat' = length dat" "\<And>a. a + 4 \<le> off \<Longrightarrow> get32 dat' a = get32 dat a"
    using copy_list [OF l(4), of off dat] l(5,6) dat by metis
  have "load_entry h m b k idx dat (word_of_nat off) = Some (i3, dat', word_of_nat (off + 4 * length (snd e)))"
    unfolding load_entry_def Let_def using l(1-3) i(1-3) d(1,2) off by (simp only: Option.bind.bind_lunit sum)
  moreover have "entries i3 dat' k off [e]" using i(5-7) d(3) len by (cases e) simp
  ultimately show ?thesis using that i(4,8) d(4,5) by blast
qed

lemma load_loop_entries:
  assumes "list_all2 (bucket_docs h m) bs es" and "(k + length bs) * 16 \<le> length idx"
    and "off + 4 * doc_total es \<le> length dat" and "length dat < 4294967296"
  shows "\<exists>idx' dat'. load_loop h m bs k idx dat (word_of_nat off) = Some (idx', dat', word_of_nat (off + 4 * doc_total es)) \<and>
    length idx' = length idx \<and> length dat' = length dat \<and> entries idx' dat' k off es \<and>
    (\<forall>n a. a + n \<le> k * 16 \<longrightarrow> rd_range idx' a n = rd_range idx a n) \<and>
    (\<forall>a. a + 4 \<le> off \<longrightarrow> get32 dat' a = get32 dat a)"
  using assms
proof (induction bs es arbitrary: k idx dat off rule: list_all2_induct)
  case (Cons b bs e es)
  let ?off = "off + 4 * length (snd e)"
  obtain i1 d1 where 1: "load_entry h m b k idx dat (word_of_nat off) = Some (i1, d1, word_of_nat ?off)"
    "length i1 = length idx" "length d1 = length dat" "entries i1 d1 k off [e]"
    "\<And>n a. a + n \<le> k * 16 \<Longrightarrow> rd_range i1 a n = rd_range idx a n" "\<And>a. a + 4 \<le> off \<Longrightarrow> get32 d1 a = get32 dat a"
    by (rule load_entry_writes [OF Cons.hyps(1), of k idx off dat]) (use Cons.prems in simp_all)
  obtain i2 d2 where 2: "load_loop h m bs (Suc k) i1 d1 (word_of_nat ?off) = Some (i2, d2, word_of_nat (?off + 4 * doc_total es))"
    "length i2 = length i1" "length d2 = length d1" "entries i2 d2 (Suc k) ?off es"
    "\<forall>n a. a + n \<le> Suc k * 16 \<longrightarrow> rd_range i2 a n = rd_range i1 a n" "\<forall>a. a + 4 \<le> ?off \<longrightarrow> get32 d2 a = get32 d1 a"
    using Cons.IH [of "Suc k" i1 ?off d1] Cons.prems 1(2,3) by auto
  have "get_le n i2 a = get_le n i1 a" if "a + n \<le> Suc k * 16" for n a using 2(5) that by (simp add: get_le_def)
  then have "hs_hash_value i2 k = hs_hash_value i1 k" "hs_offset i2 k = hs_offset i1 k" "hs_len i2 k = hs_len i1 k"
    using 2(5) by (simp_all add: hs_hash_value_def hs_offset_def hs_len_def get_le_def)
  moreover have "docs_at d2 off (snd e)" using 1(4) 2(6) by (cases e) (auto intro: docs_at_frame)
  ultimately have "entries i2 d2 k off (e # es)" using 1(4) 2(4) by (cases e) simp
  moreover have "\<forall>n a. a + n \<le> k * 16 \<longrightarrow> rd_range i2 a n = rd_range idx a n"
    using 1(5) 2(5) by simp
  moreover have "\<forall>a. a + 4 \<le> off \<longrightarrow> get32 d2 a = get32 dat a" using 1(6) 2(6) by simp
  ultimately show ?case using 1 2 by (simp add: algebra_simps)
qed simp

section \<open>Binary search\<close>

lemma seek_loop_finds:
  assumes "sorted_wrt (<) ks" and "length ks < 2147483648" and "\<And>i. i < length ks \<Longrightarrow> hs_hash_value idx i = Some (ks ! i)"
    and "right < length ks" and "\<And>i. i < left \<Longrightarrow> ks ! i < v" and "\<And>i. right < i \<Longrightarrow> i < length ks \<Longrightarrow> v < ks ! i"
    and "left \<le> right \<or> (\<exists>j < length ks. hseek = Some j)"
  shows "\<exists>i < length ks. seek_loop idx v left right hseek = Some (Some i) \<and> (v \<in> set ks \<longrightarrow> ks ! i = v)"
  using assms(4-7)
proof (induction "Suc right - left" arbitrary: left right hseek rule: less_induct)
  case less
  define mid where "mid = (left + right + 1) div 2"
  have mono: "ks ! i < ks ! j" if "i < j" "j < length ks" for i j using assms(1) that by (simp add: sorted_wrt_iff_nth_less)
  show ?case
  proof (cases "left \<le> right")
    case False
    have "ks ! i \<noteq> v" if "i < length ks" for i
      using False less.prems(2) [of i] less.prems(3) [of i] that by (cases "i < left") auto
    then have "v \<notin> set ks" by (auto simp: in_set_conv_nth)
    with False less.prems(4) show ?thesis by (subst seek_loop.simps) auto
  next
    case True
    have sum: "(left + right + 1) mod 2 ^ 32 = left + right + 1" using True less.prems(1) assms(2) by simp
    have mid: "left \<le> mid" "mid \<le> right" "mid < length ks"
      using True less.prems(1) by (simp_all add: mid_def)
    have unf: "seek_loop idx v left right hseek =
        (if ks ! mid < v then seek_loop idx v (mid + 1) right (Some mid)
         else if v < ks ! mid then (if mid = 0 then Some (Some mid) else seek_loop idx v left (mid - 1) (Some mid))
         else Some (Some mid))"
      unfolding seek_loop.simps [of idx v left right hseek] sum Let_def mid_def [symmetric]
      using True assms(3) [OF mid(3)] by simp
    consider "ks ! mid < v" | "v < ks ! mid" "mid = 0" | "v < ks ! mid" "mid \<noteq> 0" | "ks ! mid = v"
      using less_linear by blast
    then show ?thesis
    proof cases
      case 1
      have "ks ! i < v" if "i < mid + 1" for i
        using 1 mono [of i mid] mid(3) that by (cases "i = mid") (auto intro: less_trans)
      then have "\<exists>i < length ks. seek_loop idx v (mid + 1) right (Some mid) = Some (Some i) \<and> (v \<in> set ks \<longrightarrow> ks ! i = v)"
        using mid less.prems(1,3) by (intro less.hyps) auto
      then show ?thesis using unf 1 by simp
    next
      case 2
      have "v < ks ! i" if "i < length ks" for i
        using 2 mono [of 0 i] that by (cases "i = 0") (auto intro: less_trans)
      then have "v \<notin> set ks" by (auto simp: in_set_conv_nth)
      with unf 2 mid(3) show ?thesis by auto
    next
      case 3
      have "v < ks ! i" if "mid - 1 < i" "i < length ks" for i
        using 3 mono [of mid i] that by (cases "i = mid") (auto intro: less_trans)
      then have "\<exists>i < length ks. seek_loop idx v left (mid - 1) (Some mid) = Some (Some i) \<and> (v \<in> set ks \<longrightarrow> ks ! i = v)"
        using mid 3(2) less.prems(2) by (intro less.hyps) auto
      moreover have "seek_loop idx v left right hseek = seek_loop idx v left (mid - 1) (Some mid)"
        unfolding unf using 3 by (simp only: less_not_sym [OF 3(1)] if_True if_False)
      ultimately show ?thesis by simp
    next
      case 4
      with unf mid(3) show ?thesis by auto
    qed
  qed
qed

text \<open>What a query returns over a well-formed pair of files.\<close>

lemma entries_nth:
  assumes "entries idx dat k off es" and "i < length es"
  shows "\<exists>o'. hs_hash_value idx (k + i) = Some (fst (es ! i)) \<and> hs_offset idx (k + i) = Some (word_of_nat o') \<and>
    hs_len idx (k + i) = Some (word_of_nat (4 * length (snd (es ! i)))) \<and> docs_at dat o' (snd (es ! i)) \<and>
    off \<le> o' \<and> o' + 4 * length (snd (es ! i)) \<le> off + 4 * doc_total es"
  using assms
proof (induction es arbitrary: k off i)
  case (Cons e es)
  obtain v ds where e: "e = (v, ds)" by (cases e)
  show ?case
  proof (cases i)
    case 0
    with Cons.prems e show ?thesis by auto
  next
    case (Suc j)
    with Cons.IH [of "Suc k" "off + 4 * length ds" j] Cons.prems e show ?thesis by fastforce
  qed
qed simp

definition hz_wf :: "hash_compress_manager \<Rightarrow> (u64 \<times> u32 list) list \<Rightarrow> bool" where
  "hz_wf z es \<longleftrightarrow> sorted_wrt (<) (map fst es) \<and> length es < 2147483648 \<and> hz_bucket_count z = word_of_nat (length es) \<and>
     4 * doc_total es < 4294967296 \<and>
     (es \<noteq> [] \<longrightarrow> (\<exists>idx dat. hz_index z = Some idx \<and> hz_data z = Some dat \<and> entries idx dat 0 0 es))"

definition docs_of :: "(u64 \<times> u32 list) list \<Rightarrow> u64 \<Rightarrow> u32 list" where
  "docs_of es v = (case map_of es v of None \<Rightarrow> [] | Some ds \<Rightarrow> ds)"

lemma docs_of_nth:
  assumes "sorted_wrt (<) (map fst es)" and "i < length es"
  shows "docs_of es (fst (es ! i)) = snd (es ! i)"
proof -
  have "distinct (map fst es)" using assms(1) by (simp add: strict_sorted_iff)
  then have "map_of es (fst (es ! i)) = Some (snd (es ! i))" using assms(2) by (simp add: map_of_eq_Some_iff)
  then show ?thesis by (simp add: docs_of_def)
qed

lemma batch_add_fresh:
  assumes "4 * length ds < 4294967296"
  obtains l :: "'s rowid_list" where "rowid_list_batch_add rowid_list_init ds (word_of_nat (4 * length ds) div 4) = Some l"
    and "rl_wf l" and "rl_ids l = ds"
proof -
  have u: "unat (word_of_nat (4 * length ds) :: u32) = 4 * length ds" using assms by (rule unat_word_of_nat_u32)
  have "unat (word_of_nat (4 * length ds) div 4 :: u32) = length ds" unfolding unat_div u by simp
  then show ?thesis
    using that batch_add_loop_ids [of "rowid_list_init :: 's rowid_list" "length ds" "length ds" ds] rl_wf_init assms
    by (auto simp: rowid_list_batch_add_def rl_num_init)
qed

lemma hz_query:
  assumes z: "hz_wf z es" and v: "get_hash_value fmt_f fmt_lf data = Some v"
  obtains l :: "'s rowid_list" where "hash_compress_query fmt_f fmt_lf z data = Some l" and "rl_wf l"
    and "rl_ids l = docs_of es v"
proof (cases "es = []")
  case True
  then have "hash_compress_query fmt_f fmt_lf z data = Some rowid_list_init"
    using z v by (simp add: hash_compress_query_def hz_wf_def)
  with True show ?thesis using that [of rowid_list_init] rl_wf_init by (simp add: docs_of_def)
next
  case False
  obtain idx dat where m: "hz_index z = Some idx" "hz_data z = Some dat" "entries idx dat 0 0 es"
    and s: "sorted_wrt (<) (map fst es)" "length es < 2147483648" "hz_bucket_count z = word_of_nat (length es)"
      "4 * doc_total es < 4294967296"
    using z False by (auto simp: hz_wf_def)
  have bc: "unat (hz_bucket_count z) = length es" "hz_bucket_count z \<noteq> 0"
    using s(2,3) False by (auto simp: unat_word_of_nat_u32 unat_eq_zero [symmetric])
  obtain i where i: "i < length es" "seek_loop idx v 0 (length es - 1) None = Some (Some i)"
    "v \<in> set (map fst es) \<Longrightarrow> fst (es ! i) = v"
    using seek_loop_finds [OF s(1), of idx "length es - 1" 0 v None] entries_nth [OF m(3)] s(2) False by force
  from entries_nth [OF m(3) i(1)] obtain o' where e: "hs_hash_value idx i = Some (fst (es ! i))"
    "hs_offset idx i = Some (word_of_nat o')" "hs_len idx i = Some (word_of_nat (4 * length (snd (es ! i))))"
    "docs_at dat o' (snd (es ! i))" "o' + 4 * length (snd (es ! i)) \<le> 4 * doc_total es" by auto
  show ?thesis
  proof (cases "fst (es ! i) = v")
    case True
    have small: "o' < 4294967296" "4 * length (snd (es ! i)) < 4294967296" using e(5) s(4) by simp_all
    have u: "unat (word_of_nat o' :: u32) = o'" "unat (word_of_nat (4 * length (snd (es ! i))) :: u32) = 4 * length (snd (es ! i))"
      using small by (simp_all only: unat_word_of_nat_u32)
    obtain l :: "'s rowid_list" where l: "rowid_list_batch_add rowid_list_init (snd (es ! i))
        (word_of_nat (4 * length (snd (es ! i))) div 4) = Some l" "rl_wf l" "rl_ids l = snd (es ! i)"
      using small(2) by (rule batch_add_fresh)
    have "hash_compress_query fmt_f fmt_lf z data = Some l"
      using v bc m(1,2) i(2) e(1-3) True read_words_docs_at [OF e(4)] l(1) u
      unfolding hash_compress_query_def by (simp del: of_nat_mult)
    with l show ?thesis using that docs_of_nth [OF s(1) i(1)] True by simp
  next
    case False
    then have "hash_compress_query fmt_f fmt_lf z data = Some rowid_list_init"
      using v bc m(1) i(2) e(1) by (simp add: hash_compress_query_def)
    moreover have "map_of es v = None" using i(3) False by (auto simp: map_of_eq_None_iff)
    ultimately show ?thesis using that [of rowid_list_init] rl_wf_init by (simp add: docs_of_def)
  qed
qed

section \<open>The buckets in use\<close>

lemma dropWhile_zeros:
  "sorted (map f xs) \<Longrightarrow> dropWhile (\<lambda>x. f x = 0) xs = filter (\<lambda>x. f x \<noteq> (0 :: u64)) xs"
proof (induction xs)
  case (Cons x xs)
  show ?case
  proof (cases "f x = 0")
    case False
    then have "f y \<noteq> 0" if "y \<in> set xs" for y using Cons.prems that by (fastforce simp: word_le_0_iff)
    with False show ?thesis by simp
  qed (use Cons in simp)
qed simp

lemma insort_key_agree: "\<forall>y \<in> set (x # xs). f y = g y \<Longrightarrow> insort_key f x xs = insort_key g x xs"
  by (induction xs) simp_all

lemma sort_key_agree: "\<forall>y \<in> set xs. f y = g y \<Longrightarrow> sort_key f xs = sort_key g xs"
  by (induction xs) (simp_all add: insort_key_agree [of _ _ f g])

definition in_use :: "nat \<Rightarrow> table \<Rightarrow> nat list" where
  "in_use n B = sort_key (\<lambda>i. fst (B i)) (filter (\<lambda>i. fst (B i) \<noteq> 0) [0..<Suc n])"

lemma in_use_simps: "set (in_use n B) = {i. i \<le> n \<and> fst (B i) \<noteq> 0}" "distinct (in_use n B)" "length (in_use n B) \<le> Suc n"
  "sorted (map (\<lambda>i. fst (B i)) (in_use n B))"
proof -
  show "set (in_use n B) = {i. i \<le> n \<and> fst (B i) \<noteq> 0}" "distinct (in_use n B)" "sorted (map (\<lambda>i. fst (B i)) (in_use n B))"
    by (auto simp: in_use_def le_less)
  have "length (in_use n B) = length (filter (\<lambda>i. fst (B i) \<noteq> 0) [0..<Suc n])" by (simp add: in_use_def)
  also have "\<dots> \<le> length [0..<Suc n]" by (rule length_filter_le)
  finally show "length (in_use n B) \<le> Suc n" by simp
qed

lemma used_buckets_in_use:
  assumes hv: "\<And>i. i \<le> n \<Longrightarrow> hb_hash_value m i = Some (fst (B i))" and z: "unat (hz_hash_mod z) = Suc n"
  obtains order where "qsort_buckets m [0..<Suc n] = Some order" and "used_buckets z m order = in_use n B"
proof -
  have m: "map (hb_hash_value m) [0..<Suc n] = map Some (map (\<lambda>i. fst (B i)) [0..<Suc n])" using hv by simp
  have "sort_key (\<lambda>i. the (hb_hash_value m i)) [0..<Suc n] = sort_key (\<lambda>i. fst (B i)) [0..<Suc n]"
    by (rule sort_key_agree) (use hv in auto)
  then have q: "qsort_buckets m [0..<Suc n] = Some (sort_key (\<lambda>i. fst (B i)) [0..<Suc n])" (is "_ = Some ?o")
    unfolding qsort_buckets_def m those_Some by simp
  have "used_buckets z m ?o = dropWhile (\<lambda>i. fst (B i) = 0) ?o"
    unfolding used_buckets_def z using hv by (auto intro!: dropWhile_cong)
  also have "\<dots> = in_use n B" unfolding in_use_def by (simp add: dropWhile_zeros filter_sort del: upt_Suc)
  finally show ?thesis using that q by blast
qed

lemma in_use_strict:
  assumes "probe_inv n B" and "\<And>i. i < n \<Longrightarrow> fst (B i) \<noteq> 0 \<Longrightarrow> fst (B i) \<noteq> fst (B n)"
  shows "sorted_wrt (<) (map fst (map B (in_use n B)))"
proof -
  have "inj_on (\<lambda>i. fst (B i)) (set (in_use n B))"
  proof (rule inj_onI)
    fix i j assume a: "i \<in> set (in_use n B)" "j \<in> set (in_use n B)" "fst (B i) = fst (B j)"
    then have "i \<le> n" "j \<le> n" "fst (B i) \<noteq> 0" "fst (B j) \<noteq> 0" by (simp_all add: in_use_simps)
    with a(3) show "i = j" using assms(2) [of i] assms(2) [of j] probe_inj [OF assms(1), of i j] by (cases "i = n"; cases "j = n") auto
  qed
  then have "distinct (map (\<lambda>i. fst (B i)) (in_use n B))" using in_use_simps(2) by (simp add: distinct_map)
  with in_use_simps(4) show ?thesis by (simp add: strict_sorted_iff comp_def)
qed

lemma bucket_desc: "bucket_rep n m dm i b \<Longrightarrow> distinct (snd b) \<and> (\<forall>d \<in> set (snd b). unat d < n)"
proof (cases "snd b = []")
  case False
  assume b: "bucket_rep n m dm i b"
  then have "sorted_wrt (>) (map snd (map (\<lambda>d. (d, d)) (snd b)))"
    using False chain_desc [of dm "map (\<lambda>d. (d, d)) (snd b)" "word_of_nat i"] by (simp add: bucket_rep_def)
  with b show ?thesis by (simp add: desc_distinct comp_def bucket_rep_def)
qed simp

lemma doc_total_bound:
  assumes "table_rep n m dm B" and "distinct is" and "set is \<subseteq> {..n}"
  shows "doc_total (map B is) \<le> n"
proof -
  have b: "bucket_rep n m dm i (B i)" if "i \<in> set is" for i using table_bucket [OF assms(1), of i] assms(3) that by auto
  have disj: "set (snd (B i)) \<inter> set (snd (B j)) = {}" if "i \<in> set is" "j \<in> set is" "i \<noteq> j" for i j
    using assms(1,3) that by (auto simp: table_rep_def subset_iff)
  have "doc_total (map B is) = (\<Sum>i \<in> set is. length (snd (B i)))"
    using assms(2) by (simp add: doc_total_def comp_def sum_list_distinct_conv_sum_set)
  also have "\<dots> = (\<Sum>i \<in> set is. card (set (snd (B i))))"
    using bucket_desc [OF b] by (intro sum.cong) (auto simp: distinct_card)
  also have "\<dots> = card (\<Union>i \<in> set is. set (snd (B i)))"
    using disj by (intro card_UN_disjoint [symmetric]) auto
  also have "\<dots> = card (unat ` (\<Union>i \<in> set is. set (snd (B i))))"
    by (intro card_image [symmetric] inj_onI) (simp add: unsigned_word_eqI)
  also have "\<dots> \<le> card {..<n}" using bucket_desc [OF b] by (intro card_mono) auto
  finally show ?thesis by simp
qed

lemma entries_frame:
  assumes "entries idx dat k off es" and "\<And>a. a + 4 \<le> off + 4 * doc_total es \<Longrightarrow> get32 dat' a = get32 dat a"
  shows "entries idx dat' k off es"
  using assms
proof (induction es arbitrary: k off)
  case (Cons e es)
  obtain v ds where e: "e = (v, ds)" by (cases e)
  have "docs_at dat off ds" "entries idx dat (Suc k) (off + 4 * length ds) es" using Cons.prems(1) e by simp_all
  moreover have "docs_at dat' off ds"
    by (rule docs_at_frame [OF calculation(1)], rule Cons.prems(2)) (use e in simp)
  moreover have "entries idx dat' (Suc k) (off + 4 * length ds) es"
    by (rule Cons.IH [OF calculation(2)], rule Cons.prems(2)) (use e in simp)
  ultimately show ?case using Cons.prems(1) e by simp
qed simp

lemma get32_take: "a + 4 \<le> n \<Longrightarrow> n \<le> length m \<Longrightarrow> get32 (take n m) a = get32 m a"
  by (simp add: get_le_def rd_range_def drop_take min_def)

lemma bucket_docs_rep:
  assumes "table_rep n m dm B" and "dl_mem (hi_doclist h) = Some dm" and "i \<le> n" and "fst (B i) \<noteq> 0"
  shows "bucket_docs h m i (B i)"
proof -
  have b: "bucket_rep n m dm i (B i)" and n: "n < UNITS" using assms(1,3) by (simp_all add: table_bucket table_rep_def)
  have ne: "snd (B i) \<noteq> []" using assms(4) bucket_empty [OF b] by simp
  obtain l :: "unit rowid_list" where "hb_offset m i = Some (head_offset (snd (B i)))"
    "get_rowid_list (hi_doclist h) (unat (head_offset (snd (B i)))) = Some l" "rl_wf l" "rl_ids l = snd (B i)"
    using b ne n assms(2) by (rule bucket_walk)
  with b ne show ?thesis by (auto simp: bucket_docs_def bucket_rep_def)
qed

end
