(* ===== verification/Hash_Compress_Props.thy ===== *)
theory Hash_Compress_Props
  imports Hash_Compress_Laws
begin

text \<open>
  Properties of compression: a compressed index answers as the index it was made from, at
  once and after a restart from its three files.
\<close>

section \<open>The three files\<close>

lemma get_mmap_memory_zero:
  "os_ok os name \<Longrightarrow> get_mmap_memory os fs name 0 = (None, fs(name \<mapsto> file_bytes fs name))"
  by (simp add: get_mmap_memory_def open_file_ok ensure_file_size_def)

definition compress_files :: "file_system \<Rightarrow> string \<Rightarrow> (u64 \<times> u32 list) list \<Rightarrow> bool" where
  "compress_files fs ws es \<longleftrightarrow> (\<exists>info. file_bytes fs (ws @ ''/hash_info_compress.idx'') = info \<and> length info = 64 \<and>
       get32 info 0 = Some (word_of_nat (length es)) \<and> get32 info 4 = Some (word_of_nat (doc_total es))) \<and>
     (es \<noteq> [] \<longrightarrow> (\<exists>idx dat. file_bytes fs (ws @ ''/hash_compress.idx'') = idx \<and> length idx = 16 * length es \<and>
       file_bytes fs (ws @ ''/hash_compress.dat'') = dat \<and> 4 * doc_total es \<le> length dat \<and> entries idx dat 0 0 es))"

definition compress_env :: "os \<Rightarrow> string \<Rightarrow> u32 \<Rightarrow> bool" where
  "compress_env os ws n \<longleftrightarrow> os_ok os (ws @ ''/hash_compress.dat'') \<and> os_ok os (ws @ ''/hash_compress.idx'') \<and>
     os_ok os (ws @ ''/hash_info_compress.idx'') \<and> length ws + 23 < FILENAME_MAX_LENGTH \<and> Suc (unat n) * 16 < 2147483648"

lemma compress_env_names:
  assumes "compress_env os ws n"
  shows "sprintf_name (ws @ ''/hash_compress.dat'') = Some (ws @ ''/hash_compress.dat'')"
    and "sprintf_name (ws @ ''/hash_compress.idx'') = Some (ws @ ''/hash_compress.idx'')"
    and "sprintf_name (ws @ ''/hash_info_compress.idx'') = Some (ws @ ''/hash_info_compress.idx'')"
  using assms by (simp_all add: compress_env_def sprintf_name_def)

definition small_entries :: "nat \<Rightarrow> (u64 \<times> u32 list) list \<Rightarrow> bool" where
  "small_entries n es \<longleftrightarrow> sorted_wrt (<) (map fst es) \<and> length es \<le> Suc n \<and> doc_total es \<le> n \<and>
     (es \<noteq> [] \<longrightarrow> 0 < doc_total es)"

lemma small_entries_sizes:
  assumes "small_entries n es" and "Suc n * 16 < 2147483648"
  shows "unat (word_of_nat (length es) :: u32) = length es" and "unat (word_of_nat (length es) * 16 :: u32) = length es * 16"
    and "unat (word_of_nat (doc_total es) :: u32) = doc_total es"
    and "unat (word_of_nat (doc_total es) * 4 :: u32) = doc_total es * 4"
    and "length es * 16 < 2147483648" and "doc_total es * 4 < 2147483648"
proof -
  show 1: "unat (word_of_nat (length es) :: u32) = length es" and 2: "unat (word_of_nat (doc_total es) :: u32) = doc_total es"
    using assms by (simp_all add: small_entries_def unat_word_of_nat_u32)
  show "unat (word_of_nat (length es) * 16 :: u32) = length es * 16" "unat (word_of_nat (doc_total es) * 4 :: u32) = doc_total es * 4"
    "length es * 16 < 2147483648" "doc_total es * 4 < 2147483648"
    using assms by (simp_all add: small_entries_def unat_mult_lem [THEN iffD1] unat_word_ariths 1 2)
qed

lemma init_from_files:
  assumes env: "compress_env os (zc_work_space config) n" and es: "small_entries (unat n) es"
    and files: "compress_files fs (zc_work_space config) es"
  obtains z fs' where "hash_commpress_init os fs config = Ret (Some z, fs')" and "hz_wf z es"
proof -
  let ?ws = "zc_work_space config"
  note names = compress_env_names [OF env]
  have ok: "os_ok os (?ws @ ''/hash_compress.dat'')" "os_ok os (?ws @ ''/hash_compress.idx'')"
    "os_ok os (?ws @ ''/hash_info_compress.idx'')" "Suc (unat n) * 16 < 2147483648" using env by (simp_all add: compress_env_def)
  note sz = small_entries_sizes [OF es ok(4)]
  define info where "info = file_bytes fs (?ws @ ''/hash_info_compress.idx'')"
  have i: "length info = 64" "get32 info 0 = Some (word_of_nat (length es))" "get32 info 4 = Some (word_of_nat (doc_total es))"
    using files by (auto simp: compress_files_def info_def)
  have p: "pad_to 64 info = info" using i(1) pad_to_same [of info] by simp
  have m1: "get_mmap_memory os fs (?ws @ ''/hash_info_compress.idx'') 64 = (Some info, fs(?ws @ ''/hash_info_compress.idx'' \<mapsto> info))"
    using get_mmap_memory_small [OF ok(3), of 64 fs] p i(1) by (simp flip: info_def)
  have srt: "sorted_wrt (<) (map fst es)" "length es < 2147483648" "4 * doc_total es < 4294967296"
    using es sz(5,6) by (simp_all add: small_entries_def)
  show ?thesis
  proof (cases "es = []")
    case True
    with m1 i names show ?thesis using that srt by (auto simp: hash_commpress_init_def hz_wf_def)
  next
    case False
    define fs1 where "fs1 = fs(?ws @ ''/hash_info_compress.idx'' \<mapsto> info)"
    define idx where "idx = file_bytes fs (?ws @ ''/hash_compress.idx'')"
    define dat where "dat = file_bytes fs (?ws @ ''/hash_compress.dat'')"
    have e: "length idx = 16 * length es" "4 * doc_total es \<le> length dat" "entries idx dat 0 0 es"
      using files False by (auto simp: compress_files_def idx_def dat_def)
    have nz: "word_of_nat (length es) \<noteq> (0 :: u32)" using sz(1) False by (metis length_0_conv unat_0)
    have pos: "0 < doc_total es" using es False by (simp add: small_entries_def)
    have f: "file_bytes fs1 (?ws @ ''/hash_compress.idx'') = idx" "\<And>c. file_bytes (fs1(?ws @ ''/hash_compress.idx'' \<mapsto> c)) (?ws @ ''/hash_compress.dat'') = dat"
      by (simp_all add: fs1_def idx_def dat_def file_bytes_def)
    have pi: "pad_to (length es * 16) idx = idx" using e(1) pad_to_same [of idx] by (simp add: mult.commute)
    obtain fs2 where m2: "get_mmap_memory os fs1 (?ws @ ''/hash_compress.idx'') (word_of_nat (length es) * 16) = (Some idx, fs2)"
      "fs2 = fs1(?ws @ ''/hash_compress.idx'' \<mapsto> idx @ replicate (length es * 16 - length idx) 0)"
      using get_mmap_memory_small [OF ok(2), of "word_of_nat (length es) * 16" fs1] sz(2,5) False f(1) pi by simp
    have pd: "pad_to (doc_total es * 4) dat = take (4 * doc_total es) dat" using e(2) by (simp add: pad_to_def mult.commute)
    obtain fs3 where m3: "get_mmap_memory os fs2 (?ws @ ''/hash_compress.dat'') (word_of_nat (doc_total es) * 4) =
        (Some (take (4 * doc_total es) dat), fs3)"
      using get_mmap_memory_small [OF ok(1), of "word_of_nat (doc_total es) * 4" fs2] sz(4,6) pos f(2) pd m2(2) by simp
    have "entries idx (take (4 * doc_total es) dat) 0 0 es"
      by (rule entries_frame [OF e(3)], rule get32_take) (use e(2) in simp_all)
    then show ?thesis
      using that m1 [folded fs1_def] m2(1) m3 i(2,3) names srt nz by (auto simp: hash_commpress_init_def hz_wf_def Let_def)
  qed
qed

section \<open>Filling the files\<close>

lemma write_info_ok:
  assumes "length (hz_info z) = 64"
  obtains info where "write_info z b d = Some info" and "length info = 64" and "get32 info 0 = Some b" and "get32 info 4 = Some d"
proof -
  obtain i1 where 1: "put32 (hz_info z) 0 b = Some i1" "length i1 = 64"
    using put_le_some [of 0 4 "hz_info z" b] assms by auto
  obtain i2 where 2: "put32 i1 4 d = Some i2" "length i2 = 64" using put_le_some [of 4 4 i1 d] 1(2) by auto
  have "get32 i2 0 = get32 i1 0" by (rule get_put_other [OF 2(1)]) simp
  then show ?thesis using that [of i2] 1 2 get_put32_same [OF 1(1)] get_put32_same [OF 2(1)] by (simp add: write_info_def)
qed

text \<open>What the loading part of \<^verbatim>\<open>hash_compress_load\<close> starts from.\<close>

definition blank_compress :: "file_system \<Rightarrow> string \<Rightarrow> u32 \<Rightarrow> hash_compress_manager \<Rightarrow> bool" where
  "blank_compress fs ws n z \<longleftrightarrow> hz_index_file_name z = ws @ ''/hash_compress.idx'' \<and>
     hz_data_file_name z = ws @ ''/hash_compress.dat'' \<and> hz_info_file_name z = ws @ ''/hash_info_compress.idx'' \<and>
     length (hz_info z) = 64 \<and> length (file_bytes fs (ws @ ''/hash_info_compress.idx'')) = 64 \<and>
     fs (ws @ ''/hash_compress.idx'') = None \<and> fs (ws @ ''/hash_compress.dat'') = None \<and> hz_hash_mod z = n + 1"

lemma load_blank:
  assumes env: "compress_env os ws n" and nz: "n < 0xFFFFFFFF"
  obtains z fs' where "hash_commpress_init os (fs(ws @ ''/hash_compress.dat'' := None, ws @ ''/hash_compress.idx'' := None,
      ws @ ''/hash_info_compress.idx'' := None)) \<lparr>zc_work_space = ws, zc_row_limit = n, zc_hash_compress_num = k\<rparr> = Ret (Some z, fs')"
    and "blank_compress fs' ws n z"
proof -
  have ok: "os_ok os (ws @ ''/hash_info_compress.idx'')" using env by (simp add: compress_env_def)
  have m: "get_mmap_memory os (f(ws @ ''/hash_info_compress.idx'' := None)) (ws @ ''/hash_info_compress.idx'') 64 =
      (Some (replicate 64 0), f(ws @ ''/hash_info_compress.idx'' \<mapsto> replicate 64 0))" for f
    using get_mmap_memory_small [OF ok, of 64 "f(ws @ ''/hash_info_compress.idx'' := None)"]
    by (simp add: pad_to_def file_bytes_def)
  have g: "get32 (replicate 64 0) 0 = Some 0" "get32 (replicate 64 0) 4 = Some 0" by (rule get_le_zeros, simp)+
  show ?thesis
    using that compress_env_names [OF env] g
    by (auto simp: hash_commpress_init_def m blank_compress_def file_bytes_def Let_def)
qed

lemma load_loop_table:
  assumes "table_rep n m dm B" and "dl_mem (hi_doclist h) = Some dm" and "length idx = length (in_use n B) * 16"
    and "length dat = n * 4"
  obtains idx' dat' where "load_loop h m (in_use n B) 0 idx dat 0 =
      Some (idx', dat', word_of_nat (4 * doc_total (map B (in_use n B))))"
    and "length idx' = length idx" and "length dat' = length dat" and "entries idx' dat' 0 0 (map B (in_use n B))"
proof -
  have n: "n < UNITS" using assms(1) by (simp add: table_rep_def)
  have "doc_total (map B (in_use n B)) \<le> n"
    by (rule doc_total_bound [OF assms(1) in_use_simps(2)]) (auto simp: in_use_simps)
  moreover have "bucket_docs h m i (B i)" if "i \<in> set (in_use n B)" for i
    using bucket_docs_rep [OF assms(1,2), of i] that by (simp add: in_use_simps)
  then have "list_all2 (bucket_docs h m) (in_use n B) (map B (in_use n B))"
    by (simp add: list_all2_conv_all_nth)
  ultimately show ?thesis
    using that load_loop_entries [of h m "in_use n B" "map B (in_use n B)" 0 idx 0 dat] assms(3,4) n by fastforce
qed

lemma in_use_small:
  assumes t: "table_rep n m dm B" and "probe_inv n B" and "\<And>i. i < n \<Longrightarrow> fst (B i) \<noteq> 0 \<Longrightarrow> fst (B i) \<noteq> fst (B n)"
  shows "small_entries n (map B (in_use n B))"
proof -
  have "0 < doc_total (map B (in_use n B))" if ne: "in_use n B \<noteq> []"
  proof -
    obtain i rest where i: "in_use n B = i # rest" using ne by (cases "in_use n B") auto
    then have "i \<in> set (in_use n B)" by simp
    then have "snd (B i) \<noteq> []" using table_empty [OF t, of i] by (simp add: in_use_simps)
    then show ?thesis by (simp add: i)
  qed
  moreover have "doc_total (map B (in_use n B)) \<le> n"
    by (rule doc_total_bound [OF t in_use_simps(2)]) (auto simp: in_use_simps)
  ultimately show ?thesis using in_use_strict [OF assms(2,3)] in_use_simps(3) by (simp add: small_entries_def)
qed

lemma fill_compress_run:
  assumes "hi_mem h = Some m" and "qsort_buckets m [0..<unat (hi_hashmod h + 1)] = Some order"
    and "get_mmap_memory os fs (hz_index_file_name z) (word_of_nat (length (used_buckets z m order)) * 16) = (Some idx, fs1)"
    and "get_mmap_memory os fs1 (hz_data_file_name z) (hi_limit h * 4) = (Some dat, fs2)"
    and "load_loop h m (used_buckets z m order) 0 idx dat 0 = Some (idx', dat', off)"
    and "get_mmap_memory os (msync_file (msync_file fs2 (hz_index_file_name z) idx') (hz_data_file_name z) dat')
      (hz_data_file_name z) off = (dat2, fs5)"
    and "write_info z b (off div 4) = Some info" and "b = word_of_nat (length (used_buckets z m order))"
    and "fs' = msync_file fs5 (hz_info_file_name z) info" and "c = off div 4"
  shows "fill_compress os fs h z = Ret (z\<lparr>hz_info := info, hz_index := Some idx', hz_data := dat2,
    hz_bucket_count := b, hz_doc_count := c\<rparr>, fs')"
  using assms by (simp add: fill_compress_def sync_mapping_def mem_or_empty_def)

lemma fill_compress_table:
  assumes t: "table_rep (unat n) m dm B" "hi_mem h = Some m" "dl_mem (hi_doclist h) = Some dm" "hi_hashmod h = n" "hi_limit h = n"
    and env: "compress_env os ws n" and z: "blank_compress fs ws n z"
    and es: "es = map B (in_use (unat n) B)" "small_entries (unat n) es"
  obtains z' fs' where "fill_compress os fs h z = Ret (z', fs')" and "hz_wf z' es" and "compress_files fs' ws es"
proof -
  let ?i = "ws @ ''/hash_compress.idx''" and ?d = "ws @ ''/hash_compress.dat''" and ?f = "ws @ ''/hash_info_compress.idx''"
  let ?b = "word_of_nat (length es) :: u32" and ?o = "word_of_nat (4 * doc_total es) :: u32"
  have ok: "os_ok os ?d" "os_ok os ?i" "Suc (unat n) * 16 < 2147483648" using env by (simp_all add: compress_env_def)
  note sz = small_entries_sizes [OF es(2) ok(3)]
  have srt: "sorted_wrt (<) (map fst es)" "length es < 2147483648" "4 * doc_total es < 4294967296"
    using es(2) sz(5,6) by (simp_all add: small_entries_def)
  have zz: "hz_index_file_name z = ?i" "hz_data_file_name z = ?d" "hz_info_file_name z = ?f" "length (hz_info z) = 64"
    "length (file_bytes fs ?f) = 64" "fs ?i = None" "fs ?d = None" "hz_hash_mod z = n + 1"
    using z by (simp_all add: blank_compress_def)
  have n1: "unat (n + 1) = Suc (unat n)" using ok(3) by (simp add: unat_word_ariths)
  have n4: "unat (n * 4) = unat n * 4" "0 < unat n" using ok(3) t(1) by (simp_all add: unat_word_ariths table_rep_def)
  obtain order where q: "qsort_buckets m [0..<Suc (unat n)] = Some order" "used_buckets z m order = in_use (unat n) B"
    by (rule used_buckets_in_use [of "unat n" m B z]) (use table_bucket [OF t(1)] zz(8) n1 in \<open>auto simp: bucket_rep_def\<close>)
  have o4: "?o div 4 = word_of_nat (doc_total es)"
  proof -
    have "unat (?o div 4) = doc_total es" unfolding unat_div using srt(3) by (simp only: unat_word_of_nat_u32) simp
    then show ?thesis using sz(3) by (metis word_unat_eq_iff)
  qed
  obtain info where info: "write_info z ?b (word_of_nat (doc_total es)) = Some info" "length info = 64"
    "get32 info 0 = Some ?b" "get32 info 4 = Some (word_of_nat (doc_total es))" using zz(4) by (rule write_info_ok)
  have fd: "fst (get_mmap_memory os f ?d (n * 4)) = Some (replicate (unat n * 4) 0) \<and>
      snd (get_mmap_memory os f ?d (n * 4)) = f(?d \<mapsto> replicate (unat n * 4) 0)" if "f ?d = None" for f
    using get_mmap_memory_small [OF ok(1), of "n * 4" f] n4 ok(3) that by (simp add: pad_to_def file_bytes_def)
  show ?thesis
  proof (cases "es = []")
    case True
    let ?fs = "fs(?i \<mapsto> [], ?d \<mapsto> replicate (unat n * 4) 0)"
    have u: "in_use (unat n) B = []" using True es(1) by simp
    have mi: "get_mmap_memory os fs ?i 0 = (None, fs(?i \<mapsto> []))"
      using get_mmap_memory_zero [OF ok(2), of fs] zz(6) by (simp add: file_bytes_def)
    have md: "get_mmap_memory os (fs(?i \<mapsto> [])) ?d (n * 4) = (Some (replicate (unat n * 4) 0), ?fs)"
      using fd [of "fs(?i \<mapsto> [])"] zz(7) by (simp add: prod_eq_iff)
    have fr: "file_bytes (msync_file (snd (get_mmap_memory os (msync_file ?fs ?d c) ?d 0)) ?f info) ?f = info" for c
      using get_mmap_memory_zero [OF ok(1)] zz(5) info(2) by (simp add: msync_file_def file_bytes_def)
    show ?thesis
      using that t q u zz n1 mi md info(1) True fr get_mmap_memory_zero [OF ok(1)] info(2-4)
      by (simp add: fill_compress_def sync_mapping_def mem_or_empty_def hz_wf_def compress_files_def)
  next
    case False
    define fs1 where "fs1 = fs(?i \<mapsto> replicate (length es * 16) 0)"
    define fs2 where "fs2 = fs1(?d \<mapsto> replicate (unat n * 4) 0)"
    have mi: "get_mmap_memory os fs ?i (?b * 16) = (Some (replicate (length es * 16) 0), fs1)"
      using get_mmap_memory_small [OF ok(2), of "?b * 16" fs] sz(2,5) False zz(6) by (simp add: pad_to_def file_bytes_def fs1_def)
    have md: "get_mmap_memory os fs1 ?d (n * 4) = (Some (replicate (unat n * 4) 0), fs2)"
      using fd [of fs1] zz(7) by (simp add: prod_eq_iff fs1_def fs2_def)
    obtain idx' dat' where l: "load_loop h m (in_use (unat n) B) 0 (replicate (length es * 16) 0) (replicate (unat n * 4) 0) 0 =
        Some (idx', dat', ?o)" "length idx' = length es * 16" "length dat' = unat n * 4" "entries idx' dat' 0 0 es"
      by (rule load_loop_table [OF t(1,3), of "replicate (length es * 16) 0" "replicate (unat n * 4) 0"]) (use es(1) in simp_all)
    let ?fs4 = "msync_file (msync_file fs2 ?i idx') ?d dat'"
    have f4: "?fs4 = fs(?i \<mapsto> idx', ?d \<mapsto> dat')"
      using l(2,3) by (simp add: msync_file_def file_bytes_def fs2_def fs1_def fun_upd_twist [of ?i ?d])
    have le: "4 * doc_total es \<le> length dat'" "0 < doc_total es" using es(2) False l(3) by (simp_all add: small_entries_def)
    have uo: "unat ?o = 4 * doc_total es" using srt(3) by (rule unat_word_of_nat_u32)
    have md2: "get_mmap_memory os ?fs4 ?d ?o = (Some (take (4 * doc_total es) dat'), ?fs4)"
      using get_mmap_memory_small [OF ok(1), of ?o ?fs4] uo le sz(6) f4 by (simp add: pad_to_def file_bytes_def fun_upd_idem_iff)
    have e: "entries idx' (take (4 * doc_total es) dat') 0 0 es"
      by (rule entries_frame [OF l(4)], rule get32_take) (use le in simp_all)
    have run: "fill_compress os fs h z = Ret (z\<lparr>hz_info := info, hz_index := Some idx', hz_data := Some (take (4 * doc_total es) dat'),
        hz_bucket_count := ?b, hz_doc_count := word_of_nat (doc_total es)\<rparr>, msync_file ?fs4 ?f info)"
    proof (rule fill_compress_run [OF t(2), where order = order and off = ?o])
      show "qsort_buckets m [0..<unat (hi_hashmod h + 1)] = Some order" unfolding t(4) n1 by (rule q(1))
      have len: "length (used_buckets z m order) = length es" using q(2) es(1) by simp
      show "get_mmap_memory os fs (hz_index_file_name z) (word_of_nat (length (used_buckets z m order)) * 16) =
        (Some (replicate (length es * 16) 0), fs1)" unfolding len zz(1) by (rule mi)
      show "?b = word_of_nat (length (used_buckets z m order))" unfolding len by (rule refl)
    qed (use md l(1) md2 o4 info(1) q(2) t(5) zz in \<open>simp_all del: of_nat_mult\<close>)
    have "compress_files (msync_file ?fs4 ?f info) ws es"
      using l(2,4) le info(2-4) zz(5) unfolding compress_files_def f4 by (simp add: msync_file_def file_bytes_def mult.commute)
    with run e srt show ?thesis using that by (simp add: hz_wf_def)
  qed
qed

section \<open>Lookup\<close>

lemma docs_of_mem: "sorted_wrt (<) (map fst es) \<Longrightarrow> e \<in> set es \<Longrightarrow> docs_of es (fst e) = snd e"
  using docs_of_nth by (metis in_set_conv_nth)

lemma docs_of_absent: "v \<notin> fst ` set es \<Longrightarrow> docs_of es v = []"
  by (simp add: docs_of_def map_of_eq_None_iff [THEN iffD2])

definition null_apart :: "nat \<Rightarrow> table \<Rightarrow> bool" where
  "null_apart n B \<longleftrightarrow> fst (B n) \<in> {0, null_key} \<and> (\<forall>i < n. fst (B i) \<noteq> null_key)"

lemma docs_of_in_use:
  assumes t: "table_rep n m dm B" and inv: "probe_inv n B" and null: "null_apart n B" and v: "v \<noteq> 0"
  shows "docs_of (map B (in_use n B)) v = posting n B (if v = null_key then None else Some v)"
proof (cases "\<exists>i \<le> n. fst (B i) = v")
  case True
  then obtain i where i: "i \<le> n" "fst (B i) = v" by blast
  have "sorted_wrt (<) (map fst (map B (in_use n B)))"
    by (rule in_use_strict [OF inv]) (use null in \<open>auto simp: null_apart_def\<close>)
  moreover have "B i \<in> set (map B (in_use n B))" using i v by (auto simp: in_use_simps)
  ultimately have d: "docs_of (map B (in_use n B)) v = snd (B i)" using i(2) docs_of_mem by blast
  show ?thesis
  proof (cases "i = n")
    case True
    with d i(2) v null show ?thesis by (auto simp: null_apart_def)
  next
    case False
    then have "i < n" using i(1) by simp
    with d posting_at [OF inv this i(2) v] null i(2) show ?thesis by (auto simp: null_apart_def)
  qed
next
  case False
  then have "v \<notin> fst ` set (map B (in_use n B))" by (auto simp: in_use_simps)
  moreover have "snd (B n) = []" if "v = null_key"
    using False that null table_empty [OF t, of n] by (auto simp: null_apart_def)
  ultimately show ?thesis using docs_of_absent [of v] posting_absent [of n B v] False by auto
qed

section \<open>Properties\<close>

text \<open>The compressed index gives the list of the documents that the hash index gives; where that
  returns NULL, the list is empty.\<close>

definition same_answer ::
    "(u8 list \<Rightarrow> string) \<Rightarrow> (u8 list \<Rightarrow> string) \<Rightarrow> hash_compress_manager \<Rightarrow> hash_index_manager \<Rightarrow> low_data \<Rightarrow> bool" where
  "same_answer fmt_f fmt_lf z h data \<longleftrightarrow>
     (case (hash_compress_query fmt_f fmt_lf z data, hash_index_query fmt_f fmt_lf h data) of
        (Some l, Some r) \<Rightarrow> rl_ids (l :: nat rowid_list) =
          (case r of None \<Rightarrow> [] | Some l' \<Rightarrow> rl_ids (l' :: nat rowid_list))
      | _ \<Rightarrow> False)"

lemma same_answer_rep:
  assumes z: "hz_wf z es" and h: "hi_rep h P" and v: "hashable fmt_f fmt_lf data" "hash_key fmt_f fmt_lf data \<noteq> Some null_key"
    and es: "\<And>v. v \<noteq> 0 \<Longrightarrow> docs_of es v = P (if v = null_key then None else Some v)"
  shows "same_answer fmt_f fmt_lf z h data"
proof -
  obtain w where w: "get_hash_value fmt_f fmt_lf data = Some w" "docs_of es w = P (hash_key fmt_f fmt_lf data)"
    using v(1)
  proof (cases rule: hashable_cases)
    case null
    then show ?thesis using that [OF null_hash [OF null(1)]] es [OF null_key_nonzero] by simp
  next
    case (val w)
    then show ?thesis using that [OF val(2)] es [OF val(3)] v(2) by simp
  qed
  obtain l :: "nat rowid_list" where l: "hash_compress_query fmt_f fmt_lf z data = Some l" "rl_ids l = P (hash_key fmt_f fmt_lf data)"
    using hz_query [OF z w(1)] w(2) by metis
  obtain r :: "nat rowid_list option" where "hash_index_query fmt_f fmt_lf h data = Some r" "answers r (P (hash_key fmt_f fmt_lf data))"
    using hx.qry_ok [OF h v(1)] by blast
  with l show ?thesis by (auto simp: same_answer_def answers_def split: option.splits)
qed

text \<open>What compression leaves of the table, in memory and in the files.\<close>

lemma hash_compress_stages:
  assumes run: "hash_run fmt_f fmt_lf config h d"
    and env: "compress_env os (hc_work_space config) (hc_row_limit config)"
    and null: "\<forall>i < unat (hc_row_limit config). hb_hash_value (the (hi_mem h)) i \<noteq> Some null_key"
  obtains z fs1 es P where "hash_compress_load os fs h k = Ret (Some z, fs1)" and "hz_wf z es"
    and "compress_files fs1 (hc_work_space config) es" and "small_entries (unat (hc_row_limit config)) es"
    and "hi_rep h P" and "\<forall>v. v \<noteq> 0 \<longrightarrow> docs_of es v = P (if v = null_key then None else Some v)"
proof -
  let ?n = "hc_row_limit config" and ?ws = "hc_work_space config"
  have lim: "hi_limit h = ?n" and name: "hi_file_name h = ?ws @ ''/hash.idx''" using hash_run_place [OF run] by simp_all
  obtain P where P: "hi_hashmod h = ?n" "hi_rep h P" using hash_run_inv [OF run] by (auto simp: hash_inv_def)
  from P(2) obtain B m dm where B: "hi_mem h = Some m" "dl_mem (hi_doclist h) = Some dm" "table_rep (unat ?n) m dm B"
    "probe_inv (unat ?n) B" "P = posting (unat ?n) B" "fst (B (unat ?n)) \<in> {0, null_key}" unfolding P(1) [symmetric] by (rule hi_repE)
  have apart: "null_apart (unat ?n) B" using null table_bucket [OF B(3)] B(1,6) by (simp add: null_apart_def bucket_rep_def)
  define es where "es = map B (in_use (unat ?n) B)"
  have small: "small_entries (unat ?n) es" unfolding es_def
    by (rule in_use_small [OF B(3,4)]) (use apart in \<open>auto simp: null_apart_def\<close>)
  have eq: "docs_of es v = P (if v = null_key then None else Some v)" if "v \<noteq> 0" for v
    unfolding es_def B(5) by (rule docs_of_in_use [OF B(3,4) apart that])
  have lt: "?n < 0xFFFFFFFF" using env by (simp add: compress_env_def word_less_nat_alt)
  obtain z0 fs0 where z0: "hash_commpress_init os (fs(?ws @ ''/hash_compress.dat'' := None, ?ws @ ''/hash_compress.idx'' := None,
      ?ws @ ''/hash_info_compress.idx'' := None)) \<lparr>zc_work_space = ?ws, zc_row_limit = ?n, zc_hash_compress_num = k\<rparr> =
      Ret (Some z0, fs0)" "blank_compress fs0 ?ws ?n z0" using env lt by (rule load_blank)
  obtain z fs1 where z: "fill_compress os fs0 h z0 = Ret (z, fs1)" "hz_wf z es" "compress_files fs1 ?ws es"
    by (rule fill_compress_table [OF B(3,1,2) P(1) lim env z0(2) es_def small])
  have "work_space_of (hi_file_name h) = Some ?ws" unfolding name by (simp add: work_space_of_def)
  then have "hash_compress_load os fs h k = Ret (Some z, fs1)" using z0(1) z(1) lim by (simp add: hash_compress_load_def)
  then show ?thesis using that z(2,3) small P(2) eq by blast
qed

text \<open>C5: Compressing a hash index that was built by any sequence of insertions and recoveries
  succeeds, and the compressed index answers every query with the same documents in the same order;
  so does the index that a restart opens from the three files.  The null value and the other
  values must have different keys: compression gives up the bucket that keeps them apart.\<close>

theorem hash_compress_equivalent:
  assumes run: "hash_run fmt_f fmt_lf config h d"
    and env: "compress_env os (hc_work_space config) (hc_row_limit config)"
    and null: "\<forall>i < unat (hc_row_limit config). hb_hash_value (the (hi_mem h)) i \<noteq> Some null_key"
    and data: "hashable fmt_f fmt_lf data" "hash_key fmt_f fmt_lf data \<noteq> Some null_key"
  shows "\<exists>z fs1 z' fs2. hash_compress_load os fs h k = Ret (Some z, fs1) \<and> same_answer fmt_f fmt_lf z h data \<and>
    hash_commpress_init os fs1 \<lparr>zc_work_space = hc_work_space config, zc_row_limit = hc_row_limit config,
      zc_hash_compress_num = k\<rparr> = Ret (Some z', fs2) \<and> same_answer fmt_f fmt_lf z' h data"
proof -
  let ?n = "hc_row_limit config" and ?ws = "hc_work_space config"
  obtain z fs1 es P where z: "hash_compress_load os fs h k = Ret (Some z, fs1)" "hz_wf z es" "compress_files fs1 ?ws es"
    "small_entries (unat ?n) es" "hi_rep h P" "\<forall>v. v \<noteq> 0 \<longrightarrow> docs_of es v = P (if v = null_key then None else Some v)"
    by (rule hash_compress_stages [OF run env null])
  obtain z' fs2 where z': "hash_commpress_init os fs1 \<lparr>zc_work_space = ?ws, zc_row_limit = ?n, zc_hash_compress_num = k\<rparr> =
      Ret (Some z', fs2)" "hz_wf z' es"
    by (rule init_from_files [OF _ z(4), where config = "\<lparr>zc_work_space = ?ws, zc_row_limit = ?n, zc_hash_compress_num = k\<rparr>" and os = os and fs = fs1]) (use env z(3) in simp_all)
  from z(1) z'(1) same_answer_rep [OF z(2,5) data] same_answer_rep [OF z'(2) z(5) data] z(6) show ?thesis by blast
qed

section \<open>Instances\<close>

lemma no_null_bucket:
  assumes "hi_rep h P" and "P (Some null_key) = []" and "i < unat (hi_hashmod h)"
  shows "hb_hash_value (the (hi_mem h)) i \<noteq> Some null_key"
proof
  assume a: "hb_hash_value (the (hi_mem h)) i = Some null_key"
  from assms(1) obtain B m dm where B: "hi_mem h = Some m" "table_rep (unat (hi_hashmod h)) m dm B"
    "probe_inv (unat (hi_hashmod h)) B" "P = posting (unat (hi_hashmod h)) B" by (rule hi_repE)
  have "fst (B i) = null_key" using a B(1) table_bucket [OF B(2), of i] assms(3) by (simp add: bucket_rep_def)
  then have "snd (B i) = []" using posting_at [OF B(3) assms(3) _ null_key_nonzero] assms(2) B(4) by simp
  then show False
    using table_empty [OF B(2), of i] assms(3) \<open>fst (B i) = null_key\<close> null_key_nonzero by simp
qed

lemma long_not_null: "hash_key fmt_f fmt_lf (long_value 5) \<noteq> Some null_key"
proof (rule hashable_int [of "long_value 5" 5 fmt_f fmt_lf])
  fix v assume "hash_key fmt_f fmt_lf (long_value 5) = Some v" "uint v = int_key 5"
  then show ?thesis by (auto simp: int_key_def null_key_def)
qed auto

lemma compress_example:
  obtains h fs h' where "hash_index_init example_env (\<lambda>_. None) example_config = Ret (h, fs)"
    and "hash_index_insert (\<lambda>_. []) (\<lambda>_. []) h (long_value 5) 0 = Some (0, h')"
    and "hash_run (\<lambda>_. []) (\<lambda>_. []) example_config h' 1"
    and "compress_env (ev_os example_env) (hc_work_space example_config) (hc_row_limit example_config)"
    and "\<forall>i < unat (hc_row_limit example_config). hb_hash_value (the (hi_mem h')) i \<noteq> Some null_key"
proof -
  obtain h fs where h: "hash_index_init example_env (\<lambda>_. None) example_config = Ret (h, fs)" "hi_rep h (\<lambda>_. [])"
    "hi_hashmod h = hc_row_limit example_config" using hash_index_init_fresh [OF example_index_env] by blast
  let ?k = "hash_key (\<lambda>_. []) (\<lambda>_. []) (long_value 5)"
  obtain h' where h': "hash_index_insert (\<lambda>_. []) (\<lambda>_. []) h (long_value 5) 0 = Some (0, h')"
    "hi_rep h' ((\<lambda>_. [])(?k := [0]))" "hi_hashmod h' = hi_hashmod h"
    using hx.ins_ok [OF h(2), of "\<lambda>_. []" "\<lambda>_. []" "long_value 5" 0] h(3) by (auto simp: example_config_def)
  have run: "hash_run (\<lambda>_. []) (\<lambda>_. []) example_config h' 1"
    using hash_run.insert [OF hash_run.start [OF example_index_env h(1)] _ _ h'(1)] by (simp add: example_config_def)
  have env: "compress_env (ev_os example_env) (hc_work_space example_config) (hc_row_limit example_config)"
    by (simp add: compress_env_def os_ok_def example_env_def example_config_def)
  have null: "\<forall>i < unat (hc_row_limit example_config). hb_hash_value (the (hi_mem h')) i \<noteq> Some null_key"
    using no_null_bucket [OF h'(2)] long_not_null [of "\<lambda>_. []" "\<lambda>_. []"] h(3) h'(3) by simp
  show ?thesis by (rule that [OF h(1) h'(1) run env null])
qed

theorem hash_compress_equivalent_witness:
  "\<exists>h fs h' z fs1 z' fs2. hash_index_init example_env (\<lambda>_. None) example_config = Ret (h, fs) \<and>
    hash_index_insert (\<lambda>_. []) (\<lambda>_. []) h (long_value 5) 0 = Some (0, h') \<and>
    hash_compress_load (ev_os example_env) fs h' 1 = Ret (Some z, fs1) \<and>
    same_answer (\<lambda>_. []) (\<lambda>_. []) z h' (long_value 5) \<and>
    hash_commpress_init (ev_os example_env) fs1 \<lparr>zc_work_space = ''t/x'', zc_row_limit = 3, zc_hash_compress_num = 1\<rparr> =
      Ret (Some z', fs2) \<and> same_answer (\<lambda>_. []) (\<lambda>_. []) z' h' (long_value 5)"
proof -
  obtain h fs h' where h: "hash_index_init example_env (\<lambda>_. None) example_config = Ret (h, fs)"
    "hash_index_insert (\<lambda>_. []) (\<lambda>_. []) h (long_value 5) 0 = Some (0, h')"
    "hash_run (\<lambda>_. []) (\<lambda>_. []) example_config h' 1"
    "compress_env (ev_os example_env) (hc_work_space example_config) (hc_row_limit example_config)"
    "\<forall>i < unat (hc_row_limit example_config). hb_hash_value (the (hi_mem h')) i \<noteq> Some null_key" by (rule compress_example)
  from hash_compress_equivalent [OF h(3-5) _ long_not_null, of fs 1] h(1,2) show ?thesis by (simp add: example_config_def)
qed

end
