(* ===== verification/Index_Field_Props.thy ===== *)
theory Index_Field_Props
  imports Index_Field Hash_Compress_Props
begin

text \<open>
  Properties of an index field: compressing a hash index, switching to the compressed form and
  restarting keep the answers.
\<close>

section \<open>Flags\<close>

lemma put_get32_field:
  assumes "length m = 4"
  obtains m' where "put32 m 0 v = Some m'" and "length m' = 4" and "get32 m' 0 = Some v"
proof -
  obtain m' where "put32 m 0 v = Some m'" "length m' = length m" using put_le_some [of 0 4 m v] assms by auto
  then show ?thesis using that assms get_put32_same by auto
qed

lemma set_flag_ok:
  assumes "ix_flag f = Some m" and "length m = 4"
  obtains m' where "set_flag fs f = Some (f\<lparr>ix_flag := Some m'\<rparr>, msync_file fs (ix_stat_filename f) m')"
    and "length m' = 4" and "flag_compressed (f\<lparr>ix_flag := Some m'\<rparr>) = Some True"
proof -
  obtain v where v: "get32 m 0 = Some v" using assms(2) by (auto simp: get_le_def rd_range_def)
  obtain m' where m': "put32 m 0 (v OR 1) = Some m'" "length m' = 4" "get32 m' 0 = Some (v OR 1)"
    using put_get32_field [OF assms(2)] by blast
  have "bit ((v OR 1) AND 1) 0" by (simp add: bit_simps)
  then have "(v OR 1) AND 1 \<noteq> 0" by (metis bit_0_eq bot_apply bot_bool_def)
  then show ?thesis using that [of m'] assms v m' by (simp add: set_flag_def flag_compressed_def)
qed

lemma map_word_saved:
  assumes "os_ok os name" and "length path < FILENAME_MAX_LENGTH" and "path = name" and "length m = 4"
    and "file_bytes fs name = m @ rest"
  obtains fs' where "map_word os fs path = Ret (name, m, fs')" and "\<And>n. n \<noteq> name \<Longrightarrow> fs' n = fs n"
proof -
  have "get_mmap_memory os fs name 4 = (Some m, fs(name \<mapsto> file_bytes fs name @ replicate (4 - length (file_bytes fs name)) 0))"
    using get_mmap_memory_small [OF assms(1), of 4 fs] assms(4,5) by (simp add: pad_to_def)
  then show ?thesis using that assms(2,3) by (simp add: map_word_def sprintf_name_def)
qed

section \<open>Compressed and plain answers\<close>

text \<open>The documents of an answer, which is NULL where nothing was found.\<close>

definition found :: "nat rowid_list option option \<Rightarrow> u32 list option" where
  "found q = map_option (\<lambda>r. case r of None \<Rightarrow> [] | Some l \<Rightarrow> rl_ids l) q"

lemma found_same:
  "same_answer fmt_f fmt_lf z h data \<Longrightarrow> found (map_option Some (hash_compress_query fmt_f fmt_lf z data)) =
     found (hash_index_query fmt_f fmt_lf h data) \<and> found (hash_index_query fmt_f fmt_lf h data) \<noteq> None"
  by (auto simp: same_answer_def found_def split: option.splits)

lemma compress_files_frame:
  assumes "compress_files fs ws es" and "fs' (ws @ ''/hash_info_compress.idx'') = fs (ws @ ''/hash_info_compress.idx'')"
    and "fs' (ws @ ''/hash_compress.idx'') = fs (ws @ ''/hash_compress.idx'')"
    and "fs' (ws @ ''/hash_compress.dat'') = fs (ws @ ''/hash_compress.dat'')"
  shows "compress_files fs' ws es"
  using assms by (simp add: compress_files_def file_bytes_def)

section \<open>A hash index field as an index of document lists\<close>

definition field_rep :: "index_field_manager option \<Rightarrow> (u64 option \<Rightarrow> u32 list) \<Rightarrow> bool" where
  "field_rep field P \<longleftrightarrow> (\<exists>f h. field = Some f \<and> ix_index_type f = HI_KEY_ALG_HASH \<and> flag_compressed f = Some False \<and>
     ix_hash_index f = Some h \<and> hi_rep h P)"

definition field_cap :: "index_field_manager option \<Rightarrow> u32" where
  "field_cap field = (case field of None \<Rightarrow> 0 | Some f \<Rightarrow> (case ix_hash_index f of None \<Rightarrow> 0 | Some h \<Rightarrow> hi_hashmod h))"

text \<open>Insertion into a hash index leaves the files alone.\<close>

definition field_ins ::
    "(u8 list \<Rightarrow> string) \<Rightarrow> (u8 list \<Rightarrow> string) \<Rightarrow> io \<Rightarrow> env \<Rightarrow> file_system \<Rightarrow> index_field_manager option \<Rightarrow> low_data \<Rightarrow> u32 \<Rightarrow>
       (int \<times> index_field_manager option) option" where
  "field_ins fmt_f fmt_lf w ev fs field data d =
     (case index_field_insert fmt_f fmt_lf w ev fs field data d of
        Ret (r, f, fs') \<Rightarrow> if fs' = fs then Some (r, f) else None
      | _ \<Rightarrow> None)"

lemma field_insE:
  assumes "field_ins fmt_f fmt_lf w ev fs field data d = Some (r, f)"
  shows "index_field_insert fmt_f fmt_lf w ev fs field data d = Ret (r, f, fs)"
  using assms by (auto simp: field_ins_def split: outcome.splits if_splits)

lemma flag_upd: "flag_compressed (f\<lparr>ix_hash_index := x\<rparr>) = flag_compressed f"
  by (simp add: flag_compressed_def)

lemma not_compressed: "flag_compressed f = Some b \<Longrightarrow> is_compressed f = Some b"
  by (auto simp: is_compressed_def flag_compressed_def)

interpretation ixf: posting_index field_rep field_cap "hash_key fmt_f fmt_lf" "hashable fmt_f fmt_lf"
  "field_ins fmt_f fmt_lf w ev fs"
  "index_field_equal_query fmt_f fmt_lf :: _ \<Rightarrow> _ \<Rightarrow> 's::{zero,plus} rowid_list option option"
  "index_field_recover size_ok trunc_ok"
  for fmt_f fmt_lf w ev fs size_ok trunc_ok
proof
  fix field P data d
  assume "field_rep field P"
  then obtain f h where f: "field = Some f" "ix_index_type f = HI_KEY_ALG_HASH" "flag_compressed f = Some False"
    "ix_hash_index f = Some h" "hi_rep h P" by (auto simp: field_rep_def)
  note c = not_compressed [OF f(3)]
  show "\<exists>i'. field_ins fmt_f fmt_lf w ev fs field data d = Some (0, i') \<and>
      field_rep i' (P(hash_key fmt_f fmt_lf data := d # P (hash_key fmt_f fmt_lf data))) \<and> field_cap i' = field_cap field"
    if a: "hashable fmt_f fmt_lf data" "d < field_cap field" "\<forall>k. \<forall>e \<in> set (P k). e < d"
  proof -
    obtain h' where "hash_index_insert fmt_f fmt_lf h data d = Some (0, h')"
      "hi_rep h' (P(hash_key fmt_f fmt_lf data := d # P (hash_key fmt_f fmt_lf data)))" "hi_hashmod h' = hi_hashmod h"
      using hx.ins_ok [OF f(5) a(1) _ a(3)] a(2) f by (auto simp: field_cap_def)
    then show ?thesis using f c
      by (auto simp: field_ins_def index_field_insert_def need_def min_zero_def field_rep_def field_cap_def flag_upd)
  qed
  show "\<exists>r. (index_field_equal_query fmt_f fmt_lf field data :: 's rowid_list option option) = Some r \<and>
      answers r (P (hash_key fmt_f fmt_lf data))" if "hashable fmt_f fmt_lf data"
    using hx.qry_ok [OF f(5) that, where ?'s = 's] f by (simp add: index_field_equal_query_def)
  show "\<exists>i'. index_field_recover size_ok trunc_ok field d = Some (0, i') \<and> field_rep i' (\<lambda>k. docs_below d (P k)) \<and>
      field_cap i' = field_cap field" if a: "d \<le> field_cap field"
  proof -
    obtain h' where "hash_index_recover h d = Some (0, h')" "hi_rep h' (\<lambda>k. docs_below d (P k))" "hi_hashmod h' = hi_hashmod h"
      using hx.cut_back_ok [OF f(5)] a f by (auto simp: field_cap_def)
    then show ?thesis using f c by (auto simp: index_field_recover_def field_rep_def field_cap_def flag_upd)
  qed
qed

section \<open>Properties\<close>

text \<open>A field whose flag was saved as compressed comes up in the compressed form.\<close>

lemma reopen_compressed:
  assumes env: "compress_env (ev_os ev) ws n" "os_ok (ev_os ev) (ws @ ''/hash_stat.inf'')"
    and files: "compress_files fs ws es" "small_entries (unat n) es" "file_bytes fs (ws @ ''/hash_stat.inf'') = m @ rest"
    and flag: "length m = 4" "flag_compressed (f\<lparr>ix_flag := Some m\<rparr>) = Some True"
    and reopen: "ic_work_space c @ ''/'' @ ic_field_name c = ws" "ic_index_type c = HI_KEY_ALG_HASH" "mkdirs ws"
  obtains f' z fs' where "index_field_init mkdirs ev fs c = Some (Ret (Some f', fs'))" and "ix_index_type f' = HI_KEY_ALG_HASH"
    and "ix_hash_compress f' = Some z" and "flag_compressed f' = Some True" and "hz_wf z es"
proof -
  have len: "length (ws @ ''/hash_stat.inf'') < FILENAME_MAX_LENGTH" using env(1) by (simp add: compress_env_def)
  obtain fs1 where w: "map_word (ev_os ev) fs (ws @ ''/hash_stat.inf'') = Ret (ws @ ''/hash_stat.inf'', m, fs1)"
    "\<And>n. n \<noteq> ws @ ''/hash_stat.inf'' \<Longrightarrow> fs1 n = fs n"
    using map_word_saved [OF env(2) len refl flag(1) files(3)] by blast
  let ?zc = "\<lparr>zc_work_space = ws, zc_row_limit = ic_row_limit c, zc_hash_compress_num = ic_hash_compress_num c\<rparr>"
  obtain z fs2 where z: "hash_commpress_init (ev_os ev) fs1 ?zc = Ret (Some z, fs2)" "hz_wf z es"
    by (rule init_from_files [OF _ files(2), where config = ?zc and os = "ev_os ev" and fs = fs1])
      (use env(1) w(2) in \<open>simp_all add: compress_files_frame [OF files(1)]\<close>)
  have "sprintf_name ws = Some ws" using len by (simp add: sprintf_name_def)
  then obtain f' where "index_field_init mkdirs ev fs c = Some (Ret (Some f', fs2))"
    "ix_index_type f' = HI_KEY_ALG_HASH" "ix_hash_compress f' = Some z" "flag_compressed f' = Some True"
    using reopen w(1) z(1) flag(2) by (simp add: index_field_init_def init_hash_def new_field_def need_def flag_compressed_def)
  with z(2) that show ?thesis by blast
qed

text \<open>A hash index field that is not compressed, over an index opened with \<open>config\<close>.\<close>

definition hash_field :: "hash_index_config \<Rightarrow> hash_index_manager \<Rightarrow> index_field_manager \<Rightarrow> bool" where
  "hash_field config h f \<longleftrightarrow> ix_index_type f = HI_KEY_ALG_HASH \<and> ix_hash_index f = Some h \<and>
     (\<exists>m. ix_flag f = Some m \<and> length m = 4) \<and> flag_compressed f = Some False \<and>
     ix_work_space f = hc_work_space config \<and> ix_stat_filename f = hc_work_space config @ ''/hash_stat.inf''"

text \<open>C3: A hash index field over an index built by any sequence of insertions and recoveries can be
  compressed and switched; the switched field refuses further insertions and finds for every value
  what the plain field found; and when the field is opened again, it comes up in the compressed
  form, from the flag that the switch saved, and still finds the same documents.\<close>

theorem index_field_switch_keeps_answers:
  assumes run: "hash_run fmt_f fmt_lf config h d" and field: "hash_field config h f"
    and env: "compress_env (ev_os ev) (hc_work_space config) (hc_row_limit config)"
      "os_ok (ev_os ev) (hc_work_space config @ ''/hash_stat.inf'')"
    and null: "\<forall>i < unat (hc_row_limit config). hb_hash_value (the (hi_mem h)) i \<noteq> Some null_key"
    and data: "hashable fmt_f fmt_lf data" "hash_key fmt_f fmt_lf data \<noteq> Some null_key"
    and reopen: "ic_work_space c @ ''/'' @ ic_field_name c = hc_work_space config" "ic_index_type c = HI_KEY_ALG_HASH"
      "mkdirs (hc_work_space config)"
  shows "\<exists>f1 fs1 f2 fs2 f3 fs3. index_field_compress ev buf fs (Some f) = Ret (MILE_RETURN_SUCCESS, Some f1, fs1) \<and>
    index_field_switch fs1 (Some f1) = Some (MILE_RETURN_SUCCESS, Some f2, fs2) \<and>
    index_field_insert fmt_f fmt_lf w ev fs2 (Some f2) data e = Ret (ERROR_INDEX_FIELD_COMPRESSED, Some f2, fs2) \<and>
    index_field_init mkdirs ev fs2 c = Some (Ret (Some f3, fs3)) \<and>
    found (index_field_equal_query fmt_f fmt_lf (Some f) data) \<noteq> None \<and>
    found (index_field_equal_query fmt_f fmt_lf (Some f2) data) = found (index_field_equal_query fmt_f fmt_lf (Some f) data) \<and>
    found (index_field_equal_query fmt_f fmt_lf (Some f3) data) = found (index_field_equal_query fmt_f fmt_lf (Some f) data)"
proof -
  let ?n = "hc_row_limit config" and ?ws = "hc_work_space config"
  obtain m where f: "ix_index_type f = HI_KEY_ALG_HASH" "ix_hash_index f = Some h" "ix_flag f = Some m" "length m = 4"
    "flag_compressed f = Some False" "ix_work_space f = ?ws" "ix_stat_filename f = ?ws @ ''/hash_stat.inf''"
    using field by (auto simp: hash_field_def)
  obtain z fs1 es P where z: "hash_compress_load (ev_os ev) fs h (ix_hash_compress_num f) = Ret (Some z, fs1)" "hz_wf z es"
    "compress_files fs1 ?ws es" "small_entries (unat ?n) es" "hi_rep h P"
    "\<forall>v. v \<noteq> 0 \<longrightarrow> docs_of es v = P (if v = null_key then None else Some v)"
    by (rule hash_compress_stages [OF run env(1) null])
  define f1 where "f1 = f\<lparr>ix_hash_compress := Some z\<rparr>"
  have c1: "index_field_compress ev buf fs (Some f) = Ret (MILE_RETURN_SUCCESS, Some f1, fs1)"
    using f z(1) by (simp add: index_field_compress_def f1_def need_def)
  obtain m' where m': "set_flag fs1 f1 = Some (f1\<lparr>ix_flag := Some m'\<rparr>, msync_file fs1 (ix_stat_filename f1) m')"
    "length m' = 4" "flag_compressed (f1\<lparr>ix_flag := Some m'\<rparr>) = Some True"
    by (rule set_flag_ok [of f1 m]) (use f in \<open>simp_all add: f1_def\<close>)
  define f2 where "f2 = f1\<lparr>ix_flag := Some m', ix_hash_index := None\<rparr>"
  define fs2 where "fs2 = hash_index_destroy (msync_file fs1 (?ws @ ''/hash_stat.inf'') m') h"
  have flag2: "flag_compressed f2 = Some True" using m'(3) by (simp add: f2_def flag_compressed_def)
  have c2: "index_field_switch fs1 (Some f1) = Some (MILE_RETURN_SUCCESS, Some f2, fs2)"
    using f m'(1) by (simp add: index_field_switch_def f1_def f2_def fs2_def flag_compressed_def)
  have dest: "hi_file_name h = ?ws @ ''/hash.idx''" "dl_file_name (hi_doclist h) = ?ws @ ''/doclist.idx''"
    using hash_run_place [OF run] by simp_all
  have files: "compress_files fs2 ?ws es"
    by (rule compress_files_frame [OF z(3)]) (simp_all add: fs2_def hash_index_destroy_def doclist_destroy_def msync_file_def dest)
  have stat: "file_bytes fs2 (?ws @ ''/hash_stat.inf'') = m' @ drop (length m') (file_bytes fs1 (?ws @ ''/hash_stat.inf''))"
    by (simp add: fs2_def hash_index_destroy_def doclist_destroy_def msync_file_def dest file_bytes_def)
  obtain f3 z' fs4 where c3: "index_field_init mkdirs ev fs2 c = Some (Ret (Some f3, fs4))"
    "ix_index_type f3 = HI_KEY_ALG_HASH" "ix_hash_compress f3 = Some z'" "flag_compressed f3 = Some True" "hz_wf z' es"
    by (rule reopen_compressed [where mkdirs = mkdirs, OF env files z(4) stat m'(2,3) reopen])
  have q: "found (index_field_equal_query fmt_f fmt_lf (Some g) data) = found (index_field_equal_query fmt_f fmt_lf (Some f) data) \<and>
      found (index_field_equal_query fmt_f fmt_lf (Some f) data) \<noteq> None"
    if "ix_index_type g = HI_KEY_ALG_HASH" "ix_hash_compress g = Some y" "flag_compressed g = Some True" "hz_wf y es" for g y
    using found_same [OF same_answer_rep [OF that(4) z(5) data]] z(6) that(1-3) f by (simp add: index_field_equal_query_def)
  have "index_field_insert fmt_f fmt_lf w ev fs2 (Some f2) data e = Ret (ERROR_INDEX_FIELD_COMPRESSED, Some f2, fs2)"
    using flag2 by (simp add: index_field_insert_def is_compressed_def need_def f2_def)
  moreover have "ix_index_type f2 = HI_KEY_ALG_HASH" "ix_hash_compress f2 = Some z" using f(1) by (simp_all add: f2_def f1_def)
  ultimately show ?thesis using c1 c2 c3 q [OF _ _ flag2 z(2)] q [OF c3(2-5)] by blast
qed

section \<open>Instances\<close>

definition example_field :: "hash_index_manager \<Rightarrow> index_field_manager" where
  "example_field h = \<lparr>ix_work_space = ''t/x'', ix_field_name = ''x'', ix_row_limit = 3, ix_index_type = HI_KEY_ALG_HASH,
     ix_stat_filename = ''t/x/hash_stat.inf'', ix_flag = Some [0, 0, 0, 0], ix_filter_index = None, ix_hash_index = Some h,
     ix_dyhash_index = None, ix_hash_compress = None, ix_filter_compress = Failed, ix_hash_compress_num = 1,
     ix_len_filename = [], ix_max_len = None\<rparr>"

theorem index_field_switch_keeps_answers_witness:
  "\<exists>h fs h' f2 fs2. hash_index_init example_env (\<lambda>_. None) example_config = Ret (h, fs) \<and>
    hash_index_insert (\<lambda>_. []) (\<lambda>_. []) h (long_value 5) 0 = Some (0, h') \<and>
    (\<exists>f1 fs1. index_field_compress example_env [] fs (Some (example_field h')) = Ret (MILE_RETURN_SUCCESS, Some f1, fs1) \<and>
      index_field_switch fs1 (Some f1) = Some (MILE_RETURN_SUCCESS, Some f2, fs2)) \<and>
    found (index_field_equal_query (\<lambda>_. []) (\<lambda>_. []) (Some f2) (long_value 5)) =
      found (index_field_equal_query (\<lambda>_. []) (\<lambda>_. []) (Some (example_field h')) (long_value 5))"
proof -
  obtain h fs h' where h: "hash_index_init example_env (\<lambda>_. None) example_config = Ret (h, fs)"
    "hash_index_insert (\<lambda>_. []) (\<lambda>_. []) h (long_value 5) 0 = Some (0, h')"
    "hash_run (\<lambda>_. []) (\<lambda>_. []) example_config h' 1"
    "compress_env (ev_os example_env) (hc_work_space example_config) (hc_row_limit example_config)"
    "\<forall>i < unat (hc_row_limit example_config). hb_hash_value (the (hi_mem h')) i \<noteq> Some null_key" by (rule compress_example)
  have f: "hash_field example_config h' (example_field h')"
    by (simp add: hash_field_def example_field_def example_config_def flag_compressed_def get_le_def rd_range_def)
  have os: "os_ok (ev_os example_env) (hc_work_space example_config @ ''/hash_stat.inf'')" by (simp add: os_ok_def example_env_def)
  show ?thesis
    using index_field_switch_keeps_answers [OF h(3) f h(4) os h(5) _ long_not_null, where buf = "[]" and fs = fs
        and mkdirs = "\<lambda>_. True" and c = "\<lparr>ic_work_space = ''t'', ic_field_name = ''x'', ic_index_type = HI_KEY_ALG_HASH,
          ic_hash_compress_num = 1, ic_row_limit = 3, ic_is_full = False\<rparr>"] h(1,2)
    by (simp add: example_config_def) blast
qed

end
