(* ===== verification/Segment_Props.thy ===== *)
theory Segment_Props
  imports Segment Index_Field_Props
begin

text \<open>
  Properties of a segment: its hash indexes answer for every column what was inserted into that
  column, whatever is inserted into the others.
\<close>

section \<open>The map of indexes\<close>

lemma index_key_inj:
  assumes "index_key n t = Some k" and "index_key n' t' = Some k"
  shows "n' = n \<and> t' = t"
  using assms by (cases t; cases t') (auto simp: index_key_def strcpy_into_def split: if_splits)

lemma map_of_replace:
  "map_of (map (\<lambda>(k, v). if K = Some k then (k, g) else (k, v)) xs) k' =
     (if K = Some k' \<and> map_of xs k' \<noteq> None then Some g else map_of xs k')"
  by (induction xs) (auto split: if_splits)

lemma put_instance_ok: "sm_ok (sg_index_fields sg) \<Longrightarrow> sm_ok (sg_index_fields (put_instance sg n t g))"
proof -
  have "map fst (map (\<lambda>(k, v). if K = Some k then (k, g) else (k, v)) xs) = map fst xs" for K and xs :: "(string \<times> index_field_manager) list"
    by (induction xs) auto
  then show "sm_ok (sg_index_fields sg) \<Longrightarrow> ?thesis" by (simp add: put_instance_def sm_ok_def del: map_map)
qed

lemma get_put_instance:
  assumes "sm_ok (sg_index_fields sg)" and "segment_get_index_instance sg n t = Some (Some f)"
  shows "segment_get_index_instance (put_instance sg n t g) n' t' =
    (if n' = n \<and> t' = t then Some (Some g) else segment_get_index_instance sg n' t')"
proof -
  obtain k where k: "index_key n t = Some k" "sm_map (sg_index_fields sg) k = Some f"
    using assms(2) by (cases "index_key n t") (simp_all add: segment_get_index_instance_def get_map [OF assms(1)])
  show ?thesis
  proof (cases "index_key n' t'")
    case (Some k')
    have i: "k = k' \<longleftrightarrow> n' = n \<and> t' = t"
    proof
      show "n' = n \<and> t' = t" if "k = k'" using index_key_inj [OF k(1), of n' t'] Some that by simp
      show "k = k'" if "n' = n \<and> t' = t" using Some k(1) that by simp
    qed
    have "segment_get_index_instance (put_instance sg n t g) n' t' = Some (sm_map (sg_index_fields (put_instance sg n t g)) k')"
      using Some by (simp add: segment_get_index_instance_def get_map [OF put_instance_ok [OF assms(1)]])
    also have "sm_map (sg_index_fields (put_instance sg n t g)) k' =
        (if k = k' \<and> sm_map (sg_index_fields sg) k' \<noteq> None then Some g else sm_map (sg_index_fields sg) k')"
      using map_of_replace [of "index_key n t" g "sm_data (sg_index_fields sg)" k'] k(1) by (simp add: put_instance_def sm_map_def)
    finally show ?thesis using Some k(2)
      by (cases "k = k'") (simp_all add: segment_get_index_instance_def get_map [OF assms(1)] flip: i)
  qed (use k in \<open>auto simp: segment_get_index_instance_def\<close>)
qed

section \<open>Inserting into one column\<close>

definition column_of :: "low_data \<Rightarrow> string" where
  "column_of data = name_text (ld_field_name data)"

text \<open>The columns \<open>C\<close> have hash indexes, and \<open>M\<close> gives the documents of each value.\<close>

definition seg_rep :: "string set \<Rightarrow> segment_manager \<Rightarrow> (string \<Rightarrow> u64 option \<Rightarrow> u32 list) \<Rightarrow> bool" where
  "seg_rep C sg M \<longleftrightarrow> sm_ok (sg_index_fields sg) \<and> (\<forall>c \<in> C. \<exists>f. segment_get_index_instance sg c HI_KEY_ALG_HASH = Some (Some f) \<and>
     field_rep (Some f) (M c) \<and> field_cap (Some f) = sg_row_limit sg)"

definition seg_ins ::
    "(u8 list \<Rightarrow> string) \<Rightarrow> (u8 list \<Rightarrow> string) \<Rightarrow> io \<Rightarrow> env \<Rightarrow> file_system \<Rightarrow> segment_manager \<Rightarrow> low_data \<Rightarrow> u32 \<Rightarrow>
       (int \<times> segment_manager) option" where
  "seg_ins fmt_f fmt_lf w ev fs sg data d =
     (case segment_index_insert fmt_f fmt_lf w ev fs sg data HI_KEY_ALG_HASH d of
        Ret (r, sg', fs') \<Rightarrow> Some (r, sg')
      | _ \<Rightarrow> None)"

lemma seg_ins_step:
  assumes rep: "seg_rep C sg M" and c: "column_of data \<in> C" and v: "hashable fmt_f fmt_lf data" and d: "d < sg_row_limit sg"
    and new: "\<forall>k. \<forall>e \<in> set (M (column_of data) k). e < d"
  shows "\<exists>sg'. seg_ins fmt_f fmt_lf w ev fs sg data d = Some (0, sg') \<and> sg_row_limit sg' = sg_row_limit sg \<and>
    seg_rep C sg' (M(column_of data := (M (column_of data))(hash_key fmt_f fmt_lf data := d # M (column_of data) (hash_key fmt_f fmt_lf data))))"
proof -
  let ?c = "column_of data"
  obtain f where f: "segment_get_index_instance sg ?c HI_KEY_ALG_HASH = Some (Some f)" "field_rep (Some f) (M ?c)"
    "field_cap (Some f) = sg_row_limit sg" using rep c by (auto simp: seg_rep_def)
  obtain f' where f': "field_ins fmt_f fmt_lf w ev fs (Some f) data d = Some (0, f')" 
    "field_rep f' ((M ?c)(hash_key fmt_f fmt_lf data := d # M ?c (hash_key fmt_f fmt_lf data)))" "field_cap f' = field_cap (Some f)"
    using ixf.ins_ok [OF f(2) v _ new, of w ev fs] d f(3) by auto
  obtain g where g: "f' = Some g" using f'(2) by (auto simp: field_rep_def)
  let ?sg = "put_instance sg ?c HI_KEY_ALG_HASH g"
  have ok: "sm_ok (sg_index_fields sg)" using rep by (simp add: seg_rep_def)
  have "seg_ins fmt_f fmt_lf w ev fs sg data d = Some (0, ?sg)"
    using f(1) field_insE [OF f'(1)] g by (simp add: seg_ins_def segment_index_insert_def need_def column_of_def)
  moreover have "sg_row_limit ?sg = sg_row_limit sg" by (simp add: put_instance_def)
  ultimately show ?thesis
    using rep put_instance_ok [OF ok] get_put_instance [OF ok f(1)] f' f(3) g by (simp add: seg_rep_def)
qed

section \<open>Loading\<close>

text \<open>Within each column the documents come in ascending order; one document may fill many columns.\<close>

definition seg_loadable :: "(low_data \<Rightarrow> bool) \<Rightarrow> string set \<Rightarrow> u32 \<Rightarrow> (low_data \<times> u32) list \<Rightarrow> bool" where
  "seg_loadable valid C n xs \<longleftrightarrow> list_all (\<lambda>(v, d). valid v \<and> column_of v \<in> C \<and> d < n) xs \<and>
     sorted_wrt (\<lambda>(v, d) (w, e). column_of v = column_of w \<longrightarrow> d < e) xs"

definition in_column :: "string \<Rightarrow> (low_data \<times> u32) list \<Rightarrow> (low_data \<times> u32) list" where
  "in_column c xs = filter (\<lambda>(v, d). column_of v = c) xs"

lemma in_column_snoc:
  "(\<lambda>c. docs_with key (in_column c (xs @ [(v, d)]))) =
     (\<lambda>c. docs_with key (in_column c xs))(column_of v := (docs_with key (in_column (column_of v) xs))
       (key v := d # docs_with key (in_column (column_of v) xs) (key v)))"
  by (auto simp: in_column_def docs_with_snoc fun_eq_iff)

lemma seg_load_more:
  assumes "seg_rep C sg (\<lambda>c. docs_with (hash_key fmt_f fmt_lf) (in_column c xs))"
    and "seg_loadable (hashable fmt_f fmt_lf) C (sg_row_limit sg) (xs @ ys)"
  shows "\<exists>sg'. load (seg_ins fmt_f fmt_lf w ev fs) sg ys = Some (0, sg') \<and>
    seg_rep C sg' (\<lambda>c. docs_with (hash_key fmt_f fmt_lf) (in_column c (xs @ ys)))"
  using assms
proof (induction ys arbitrary: sg xs)
  case (Cons y ys)
  obtain v d where y: "y = (v, d)" by (cases y)
  have v: "column_of v \<in> C" "hashable fmt_f fmt_lf v" "d < sg_row_limit sg"
    using Cons.prems(2) y by (auto simp: seg_loadable_def list_all_iff)
  have new: "\<forall>k. \<forall>e \<in> set (docs_with (hash_key fmt_f fmt_lf) (in_column (column_of v) xs) k). e < d"
    using Cons.prems(2) y by (fastforce simp: seg_loadable_def sorted_wrt_append in_column_def dest!: docs_with_set)
  from seg_ins_step [OF Cons.prems(1) v new] obtain sg1 where sg1: "seg_ins fmt_f fmt_lf w ev fs sg v d = Some (0, sg1)"
    "sg_row_limit sg1 = sg_row_limit sg" "seg_rep C sg1 (\<lambda>c. docs_with (hash_key fmt_f fmt_lf) (in_column c (xs @ [y])))"
    unfolding y in_column_snoc by blast
  have "seg_loadable (hashable fmt_f fmt_lf) C (sg_row_limit sg1) ((xs @ [y]) @ ys)" using Cons.prems(2) sg1(2) by simp
  from Cons.IH [OF sg1(3) this] sg1(1) y show ?case by simp
qed simp

section \<open>Properties\<close>

text \<open>C2: Values of many columns, each column with its hash index, are inserted into a segment in any
  interleaving in which the documents of each column come in ascending order.  Then every insertion
  succeeds, and a query for a value of a column answers exactly the documents that were inserted
  into that column with the key of the value, newest first.\<close>

theorem segment_load_answers:
  assumes "seg_rep C sg (\<lambda>c k. [])" and "seg_loadable (hashable fmt_f fmt_lf) C (sg_row_limit sg) xs"
    and "column_of data \<in> C" and "hashable fmt_f fmt_lf data"
  shows "\<exists>sg' r. load (seg_ins fmt_f fmt_lf w ev fs) sg xs = Some (MILE_RETURN_SUCCESS, sg') \<and>
    (segment_index_equal_query fmt_f fmt_lf sg' data HI_KEY_ALG_HASH :: 's::{zero,plus} rowid_list option option) = Some r \<and>
    answers r (docs_with (hash_key fmt_f fmt_lf) (in_column (column_of data) xs) (hash_key fmt_f fmt_lf data))"
proof -
  obtain sg' where sg': "load (seg_ins fmt_f fmt_lf w ev fs) sg xs = Some (0, sg')"
    "seg_rep C sg' (\<lambda>c. docs_with (hash_key fmt_f fmt_lf) (in_column c xs))"
    using seg_load_more [of C sg fmt_f fmt_lf "[]" xs w ev fs] assms(1,2) by (auto simp: in_column_def)
  obtain f where f: "segment_get_index_instance sg' (column_of data) HI_KEY_ALG_HASH = Some (Some f)"
    "field_rep (Some f) (docs_with (hash_key fmt_f fmt_lf) (in_column (column_of data) xs))"
    using sg'(2) assms(3) by (auto simp: seg_rep_def)
  with sg'(1) ixf.qry_ok [OF f(2) assms(4), where ?'s = 's] show ?thesis
    by (simp add: segment_index_equal_query_def column_of_def)
qed

section \<open>Instances\<close>

definition example_segment :: "hash_index_manager \<Rightarrow> segment_manager" where
  "example_segment h = \<lparr>sg_work_space = ''t'', sg_segment_name = ''s'', sg_sid = 0,
     sg_data_field = \<lparr>df_work_space = ''t'', df_row_limit = 3, df_filter_data = \<lparr>fi_storage = None, fi_vstorage = None, fi_type = HI_TYPE_STRING\<rparr>\<rparr>,
     sg_index_fields = \<lparr>sm_size = 1000, sm_data = [('' 2'', example_field h), (''a 2'', example_field h)]\<rparr>, sg_row_limit = 3,
     sg_meta_data = \<lparr>md_create_time = 1, md_modify_time = 1, md_checkpoint_time = 0, md_flag = 1, md_row_count = 0, md_del_count = 0\<rparr>,
     sg_del_bitmap = \<lparr>bm_file_name = ''t/del.bit'', bm_mem = Some [0], bm_row_limit = 3\<rparr>, sg_hash_compress_num = 1\<rparr>"

definition named_value :: "u8 list \<Rightarrow> low_data" where
  "named_value name = (long_value 5)\<lparr>ld_field_name := name\<rparr>"

lemma stored_int_name: "stored_int (d\<lparr>ld_field_name := name\<rparr>) = stored_int d"
  by (simp add: stored_int_def)

lemma named_value_hashable: "hashable fmt_f fmt_lf (named_value name)"
  by (rule hashable_int [of "named_value name" 5 fmt_f fmt_lf]) (simp_all add: named_value_def stored_int_name)

lemma example_segment_rep:
  assumes "hi_rep h (\<lambda>_. [])" and "hi_hashmod h = 3"
  shows "seg_rep {[], ''a''} (example_segment h) (\<lambda>c k. [])"
proof -
  have ok: "sm_ok (sg_index_fields (example_segment h))" by (simp add: sm_ok_def example_segment_def)
  have get: "string_map_get (sg_index_fields (example_segment h)) k =
      map_of [('' 2'', example_field h), (''a 2'', example_field h)] k" for k
    unfolding get_map [OF ok] by (simp add: sm_map_def example_segment_def)
  have "field_rep (Some (example_field h)) (\<lambda>_. [])" "field_cap (Some (example_field h)) = 3"
    using assms by (simp_all add: field_rep_def field_cap_def example_field_def flag_compressed_def get_le_def rd_range_def)
  moreover have "segment_get_index_instance (example_segment h) c HI_KEY_ALG_HASH = Some (Some (example_field h))" if "c \<in> {[], ''a''}" for c
    using that get [of "'' 2''"] get [of "''a 2''"] by (auto simp: segment_get_index_instance_def index_key_def strcpy_into_def)
  ultimately show ?thesis using ok by (simp add: seg_rep_def example_segment_def)
qed

theorem segment_load_answers_witness:
  "\<exists>h fs sg' r. hash_index_init example_env (\<lambda>_. None) example_config = Ret (h, fs) \<and>
    load (seg_ins (\<lambda>_. []) (\<lambda>_. []) Eintr example_env fs) (example_segment h) [(named_value [], 0), (named_value [97], 0), (named_value [], 2)] =
      Some (MILE_RETURN_SUCCESS, sg') \<and>
    segment_index_equal_query (\<lambda>_. []) (\<lambda>_. []) sg' (named_value []) HI_KEY_ALG_HASH = Some (r :: nat rowid_list option) \<and>
    answers r [2, 0]"
proof -
  obtain h fs where h: "hash_index_init example_env (\<lambda>_. None) example_config = Ret (h, fs)" "hi_rep h (\<lambda>_. [])"
    "hi_hashmod h = hc_row_limit example_config" using hash_index_init_fresh [OF example_index_env] by blast
  have rep: "seg_rep {[], ''a''} (example_segment h) (\<lambda>c k. [])" using example_segment_rep h(2,3) by (simp add: example_config_def)
  have col: "column_of (named_value []) = []" "column_of (named_value [97]) = ''a''"
    by (simp_all add: column_of_def named_value_def name_text_def) code_simp
  let ?xs = "[(named_value [], 0), (named_value [97], 0), (named_value [], 2)] :: (low_data \<times> u32) list"
  have load: "seg_loadable (hashable (\<lambda>_. []) (\<lambda>_. [])) {[], ''a''} (sg_row_limit (example_segment h)) ?xs"
    by (simp add: seg_loadable_def col named_value_hashable example_segment_def)
  have "in_column [] ?xs = [(named_value [], 0), (named_value [], 2)]" by (simp add: in_column_def col)
  with segment_load_answers [OF rep load _ named_value_hashable [of _ _ "[]"], where w = Eintr and ev = example_env and fs = fs and ?'s = nat] h(1)
  show ?thesis by (simp add: col docs_with_def)
qed

end
