(* ===== verification/Table_Props.thy ===== *)
theory Table_Props
  imports Table Segment_Props
begin

text \<open>
  Properties of a table: what its counters say of the documents that are there, over any run of
  insertions, deletions and recoveries, and that an inserted row reads back.
\<close>

section \<open>Counters of a segment\<close>

definition live :: "segment_manager \<Rightarrow> nat set" where
  "live sg = bm_marks (sg_del_bitmap sg)"

text \<open>\<open>lost\<close> counts the documents whose number was used up although an index refused them.\<close>

definition counts_ok :: "nat \<Rightarrow> segment_manager \<Rightarrow> bool" where
  "counts_ok lost sg \<longleftrightarrow> bitmark_ok (sg_del_bitmap sg) \<and> bm_row_limit (sg_del_bitmap sg) = sg_row_limit sg \<and>
     live sg \<subseteq> {..<unat (md_row_count (sg_meta_data sg))} \<and> md_row_count (sg_meta_data sg) \<le> sg_row_limit sg \<and>
     card (live sg) + lost + unat (md_del_count (sg_meta_data sg)) = unat (md_row_count (sg_meta_data sg))"

text \<open>Steps that leave marks and counters alone.\<close>

definition same_counts :: "segment_manager \<Rightarrow> segment_manager \<Rightarrow> bool" where
  "same_counts sg sg' \<longleftrightarrow> sg_del_bitmap sg' = sg_del_bitmap sg \<and> sg_row_limit sg' = sg_row_limit sg \<and>
     md_row_count (sg_meta_data sg') = md_row_count (sg_meta_data sg) \<and> md_del_count (sg_meta_data sg') = md_del_count (sg_meta_data sg) \<and>
     md_flag (sg_meta_data sg') = md_flag (sg_meta_data sg)"

lemma same_counts_refl [simp]: "same_counts sg sg"
  by (simp add: same_counts_def)

lemma same_counts_trans: "same_counts a b \<Longrightarrow> same_counts b c \<Longrightarrow> same_counts a c"
  by (simp add: same_counts_def)

lemma counts_ok_same: "counts_ok lost sg \<Longrightarrow> same_counts sg sg' \<Longrightarrow> counts_ok lost sg'"
  by (simp add: counts_ok_def same_counts_def live_def)

lemma finite_live: "counts_ok lost sg \<Longrightarrow> finite (live sg)"
  by (auto simp: counts_ok_def intro: finite_subset)

lemma unat_next:
  assumes "(d :: u32) < n"
  shows "unat (d + 1) = Suc (unat d)" and "d + 1 \<le> n"
proof -
  have "unat d < unat n" using assms by (simp add: word_less_nat_alt)
  then have "Suc (unat d) < 4294967296" using u32_bound [of n] by linarith
  then show 1: "unat (d + 1) = Suc (unat d)" by (simp add: unat_word_ariths)
  then show "d + 1 \<le> n" using \<open>unat d < unat n\<close> by (simp add: word_le_nat_alt)
qed

lemma finish_insert_counts:
  assumes "counts_ok lost sg" and "md_row_count (sg_meta_data sg) < sg_row_limit sg"
  shows "\<exists>sg'. finish_insert sg (md_row_count (sg_meta_data sg)) = Some sg' \<and> counts_ok lost sg' \<and>
    live sg' = insert (unat (md_row_count (sg_meta_data sg))) (live sg) \<and> sg_row_limit sg' = sg_row_limit sg \<and>
    md_flag (sg_meta_data sg') = md_flag (sg_meta_data sg) \<and> md_row_count (sg_meta_data sg') = md_row_count (sg_meta_data sg) + 1 \<and>
    sg_data_field sg' = sg_data_field sg"
proof -
  let ?d = "md_row_count (sg_meta_data sg)"
  obtain b where b: "bitmark_set (sg_del_bitmap sg) ?d = Some (0, b)" "bitmark_ok b" "bm_row_limit b = bm_row_limit (sg_del_bitmap sg)"
    "bm_marks b = insert (unat ?d) (live sg)"
    using bm.set_law [of "sg_del_bitmap sg" ?d] assms by (auto simp: counts_ok_def live_def)
  let ?sg = "segment_set_rowcount (sg\<lparr>sg_del_bitmap := b\<rparr>) ?d"
  have f: "finish_insert sg ?d = Some ?sg"
    using b(1) assms(2) by (simp add: finish_insert_def segment_set_docid_inserted_def)
  have "unat ?d \<notin> live sg" using assms(1) by (auto simp: counts_ok_def)
  then have "card (insert (unat ?d) (live sg)) = Suc (card (live sg))" using finite_live [OF assms(1)] by simp
  then have "counts_ok lost ?sg" using assms(1) b(2-4) unat_next [OF assms(2)]
    by (auto simp: counts_ok_def segment_set_rowcount_def live_def)
  with f b(4) show ?thesis by (simp add: live_def segment_set_rowcount_def)
qed

lemma refuse_counts:
  assumes "counts_ok lost sg" and "md_row_count (sg_meta_data sg) < sg_row_limit sg"
  shows "counts_ok (Suc lost) (segment_set_rowcount sg (md_row_count (sg_meta_data sg)))"
  using assms(1) unat_next [OF assms(2)] by (auto simp: counts_ok_def segment_set_rowcount_def live_def)

lemma del_docid_counts:
  assumes "counts_ok lost sg"
  shows "\<exists>r sg'. segment_del_docid now sg d = Some (r, sg') \<and> counts_ok lost sg' \<and> live sg' = live sg - {unat d} \<and>
    sg_row_limit sg' = sg_row_limit sg \<and> md_flag (sg_meta_data sg') = md_flag (sg_meta_data sg) \<and>
    md_row_count (sg_meta_data sg') = md_row_count (sg_meta_data sg) \<and> (r = 0 \<or> unat d \<notin> live sg)"
proof (cases "d < sg_row_limit sg")
  case True
  obtain b where b: "bitmark_clear (sg_del_bitmap sg) d = Some (if unat d \<in> live sg then 1 else 0, b)" "bitmark_ok b"
    "bm_row_limit b = bm_row_limit (sg_del_bitmap sg)" "bm_marks b = live sg - {unat d}"
    using bm.clear_law [of "sg_del_bitmap sg" d] assms True by (auto simp: counts_ok_def live_def)
  show ?thesis
  proof (cases "unat d \<in> live sg")
    case in_live: True
    have c: "card (live sg) = Suc (card (live sg - {unat d}))" by (rule card.remove [OF finite_live [OF assms] in_live])
    have "unat (md_del_count (sg_meta_data sg)) < unat (md_row_count (sg_meta_data sg))" using assms c unfolding counts_ok_def by linarith
    then have "unat (md_del_count (sg_meta_data sg) + 1) = Suc (unat (md_del_count (sg_meta_data sg)))"
      by (intro unat_next(1) [of _ "md_row_count (sg_meta_data sg)"]) (simp add: word_less_nat_alt)
    moreover define sg' where "sg' = (set_modify_time now sg)\<lparr>sg_del_bitmap := b,
      sg_meta_data := (sg_meta_data (set_modify_time now sg))\<lparr>md_del_count := md_del_count (sg_meta_data sg) + 1\<rparr>\<rparr>"
    moreover have "live sg' = live sg - {unat d}" using b(4) by (simp add: sg'_def live_def)
    ultimately have "counts_ok lost sg'" using b(2,3) assms c
      unfolding counts_ok_def by (auto simp: sg'_def set_modify_time_def)
    moreover have "segment_del_docid now sg d = Some (0, sg')"
      using True in_live b(1) by (simp add: segment_del_docid_def set_modify_time_def sg'_def Let_def)
    ultimately show ?thesis using b(4) by (auto simp: sg'_def live_def set_modify_time_def)
  next
    case False
    then have "bm_marks b = live sg" using b(4) by simp
    then have "counts_ok lost ((set_modify_time now sg)\<lparr>sg_del_bitmap := b\<rparr>)" using b(2,3) assms
      by (simp add: counts_ok_def live_def set_modify_time_def)
    moreover have "segment_del_docid now sg d = Some (0, (set_modify_time now sg)\<lparr>sg_del_bitmap := b\<rparr>)"
      using True False b(1) by (simp add: segment_del_docid_def set_modify_time_def Let_def)
    ultimately show ?thesis using b(4) by (auto simp: live_def set_modify_time_def)
  qed
next
  case False
  have "unat d \<notin> live sg" using assms False by (auto simp: counts_ok_def word_le_nat_alt word_less_nat_alt)
  moreover have "counts_ok lost (set_modify_time now sg)" using assms by (simp add: counts_ok_def live_def set_modify_time_def)
  ultimately show ?thesis using False by (auto simp: segment_del_docid_def live_def set_modify_time_def Let_def)
qed

section \<open>Recovery of a segment\<close>

lemma recover_marks_count:
  assumes "bitmark_ok b" and "d < bm_row_limit b" and "bitmark_recover b d = Some (r, b')"
  shows "bitmark_count b' = int_or_overflow (card {e \<in> bm_marks b. e < unat d})"
proof -
  obtain m' where m': "b' = b\<lparr>bm_mem := Some m'\<rparr>" "length m' = unat (bm_row_limit b) div 8 + 1"
    "\<And>e. bm_bit m' e \<longleftrightarrow> e < unat d \<and> bm_bit (the (bm_mem b)) e"
    using bitmark_recover_bits [OF assms(1,2)] assms(3) by auto
  have "{e. bm_bit m' e} = {e \<in> bm_marks b. e < unat d}"
    using assms(2) unfolding m'(3) by (auto simp: bm_marks_def unat_less_iff)
  with bitmark_count_bits [of b'] m'(1,2) show ?thesis by (simp add: bitmark_ok_mem)
qed

lemma over_fields_keeps:
  assumes "over_fields f sg w = Ret (r, sg', w')"
  shows "\<exists>sm. sg' = sg\<lparr>sg_index_fields := sm\<rparr>"
  using assms by (auto simp: over_fields_def obind_def split: outcome.splits)

lemma recover_counts_ok:
  assumes "bitmark_count (sg_del_bitmap sg) = Some (int c)" and "c \<le> unat e"
  shows "\<exists>sg'. recover_counts sg e = Some sg' \<and> sg' = sg\<lparr>sg_meta_data := sg_meta_data sg'\<rparr> \<and>
    md_row_count (sg_meta_data sg') = e \<and> unat (md_del_count (sg_meta_data sg')) = unat e - c \<and>
    md_flag (sg_meta_data sg') = md_flag (sg_meta_data sg)"
proof -
  have c: "unat (word_of_nat c :: u32) = c" using assms(2) u32_bound [of e] by (intro unat_word_of_nat_u32) linarith
  then have "(word_of_nat c :: u32) \<le> e" using assms(2) by (simp add: word_le_nat_alt)
  then show ?thesis using assms(1) c by (simp add: recover_counts_def unat_sub)
qed

lemma segment_recover_counts:
  assumes ok: "counts_ok lost sg" and e: "e \<le> md_row_count (sg_meta_data sg)" and "md_flag (sg_meta_data sg) AND SEGMENT_COMPRESS = 0"
    and r: "segment_recover size_ok trunc_ok sg e = Ret (0, sg')"
  shows "counts_ok 0 sg' \<and> live sg' = {x \<in> live sg. x < unat e} \<and> sg_row_limit sg' = sg_row_limit sg \<and>
    md_flag (sg_meta_data sg') = md_flag (sg_meta_data sg) \<and> md_row_count (sg_meta_data sg') = e"
proof -
  have lt: "e < bm_row_limit (sg_del_bitmap sg)"
    using r assms(3) bm.past_limit [of e "sg_del_bitmap sg"]
    by (cases "e < bm_row_limit (sg_del_bitmap sg)") (auto simp: segment_recover_def need_def)
  obtain b where b: "bitmark_recover (sg_del_bitmap sg) e = Some (0, b)" "bitmark_ok b" "bm_row_limit b = bm_row_limit (sg_del_bitmap sg)"
    "bm_marks b = {x \<in> live sg. x < unat e}" using bm.recover_law [of "sg_del_bitmap sg" e] ok lt by (auto simp: counts_ok_def live_def)
  let ?S = "{x \<in> live sg. x < unat e}"
  have cnt: "bitmark_count b = int_or_overflow (card ?S)"
    using recover_marks_count [OF _ lt b(1)] ok by (simp add: counts_ok_def live_def)
  have "card ?S \<le> card {..<unat e}" by (rule card_mono) auto
  then have c: "card ?S \<le> unat e" by simp
  obtain df sm where r3: "recover_counts (sg\<lparr>sg_del_bitmap := b, sg_data_field := df, sg_index_fields := sm\<rparr>) e = Some sg'"
    using r assms(3) b(1)
    by (auto simp: segment_recover_def need_def obind_def Let_def split: outcome.splits option.splits if_splits prod.splits
        dest!: over_fields_keeps)
  define sg3 where "sg3 = sg\<lparr>sg_del_bitmap := b, sg_data_field := df, sg_index_fields := sm\<rparr>"
  have sg3: "recover_counts sg3 e = Some sg'" "sg_del_bitmap sg3 = b" "sg_row_limit sg3 = sg_row_limit sg"
    "sg_meta_data sg3 = sg_meta_data sg" using r3 by (simp_all add: sg3_def)
  have cnt3: "bitmark_count b = Some (int (card ?S))"
    using sg3(1,2) cnt by (auto simp: recover_counts_def int_or_overflow_def split: if_splits)
  obtain sg4 where "recover_counts sg3 e = Some sg4" "sg4 = sg3\<lparr>sg_meta_data := sg_meta_data sg4\<rparr>"
    "md_row_count (sg_meta_data sg4) = e" "unat (md_del_count (sg_meta_data sg4)) = unat e - card ?S"
    "md_flag (sg_meta_data sg4) = md_flag (sg_meta_data sg3)" using recover_counts_ok [of sg3 "card ?S" e] cnt3 c sg3(2) by auto
  then have m: "sg' = sg3\<lparr>sg_meta_data := sg_meta_data sg'\<rparr>" and f1: "md_row_count (sg_meta_data sg') = e"
    "unat (md_del_count (sg_meta_data sg')) = unat e - card ?S" "md_flag (sg_meta_data sg') = md_flag (sg_meta_data sg)"
    using sg3(1,4) by simp_all
  have f: "sg_del_bitmap sg' = b" "sg_row_limit sg' = sg_row_limit sg" by (subst m, simp add: sg3(2,3))+
  have "e \<le> sg_row_limit sg" using ok lt by (simp add: counts_ok_def)
  with f f1 b ok c show ?thesis by (auto simp: counts_ok_def live_def)
qed

section \<open>What insertion leaves alone\<close>

lemma put_instance_counts [simp]: "same_counts sg (put_instance sg n t f)"
  by (simp add: same_counts_def put_instance_def)

lemma segment_index_insert_counts:
  assumes "segment_index_insert fmt_f fmt_lf w ev fs sg data t d = Ret (r, sg', fs')"
  shows "same_counts sg sg' \<and> sg_data_field sg' = sg_data_field sg"
  using assms by (auto simp: segment_index_insert_def Let_def obind_def need_def put_instance_def same_counts_def
      split: outcome.splits option.splits if_splits)

lemma insert_indexs_counts:
  "insert_indexs fmt_f fmt_lf raw w ev data d xs ret fs sg = Ret (r, failed, sg', fs') \<Longrightarrow>
     same_counts sg sg' \<and> sg_data_field sg' = sg_data_field sg"
proof (induction xs arbitrary: ret fs sg)
  case (Cons x xs)
  let ?v = "if ld_type data \<noteq> is_data_type x then null_data raw data else data"
  obtain r1 sg1 fs1 where 1: "segment_index_insert fmt_f fmt_lf w ev fs sg ?v (is_index_type x) d = Ret (r1, sg1, fs1)"
    using Cons.prems by (cases "segment_index_insert fmt_f fmt_lf w ev fs sg ?v (is_index_type x) d") auto
  then show ?case using Cons.prems Cons.IH segment_index_insert_counts [OF 1]
    by (cases "r1 < 0") (auto intro: same_counts_trans)
qed simp

lemma insert_fields_counts:
  "insert_fields fmt_f fmt_lf raw w ev tb d ds ret fs sg = Ret (r, failed, sg', fs') \<Longrightarrow>
     same_counts sg sg' \<and> sg_data_field sg' = sg_data_field sg"
proof (induction ds arbitrary: ret fs sg)
  case (Cons data ds)
  show ?case
  proof (cases "string_map_get (tb_index_meta_hash tb) (name_text (ld_field_name data))")
    case None
    with Cons show ?thesis by auto
  next
    case (Some p)
    obtain xs where xs: "do { m \<leftarrow> meta_of tb p; rd_range (im_indexs m) 0 (unat (im_index_count m)) } = Some xs"
      using Cons.prems Some by (auto simp: need_def split: option.splits)
    obtain r1 b1 sg1 fs1 where 1: "insert_indexs fmt_f fmt_lf raw w ev data d xs ret fs sg = Ret (r1, b1, sg1, fs1)"
      using Cons.prems Some xs by (cases "insert_indexs fmt_f fmt_lf raw w ev data d xs ret fs sg") (auto simp: need_def)
    then show ?thesis using Cons.prems Cons.IH Some xs insert_indexs_counts [OF 1]
      by (cases b1) (auto simp: need_def intro: same_counts_trans)
  qed
qed simp

lemma insert_indexs_failed:
  "insert_indexs fmt_f fmt_lf raw w ev data d xs ret fs sg = Ret (r, True, sg', fs') \<Longrightarrow> r < 0"
proof (induction xs arbitrary: ret fs sg)
  case (Cons x xs)
  then show ?case by (auto simp: obind_def split: outcome.splits if_splits prod.splits)
qed simp

lemma insert_fields_failed:
  "insert_fields fmt_f fmt_lf raw w ev tb d ds ret fs sg = Ret (r, True, sg', fs') \<Longrightarrow> r < 0"
proof (induction ds arbitrary: ret fs sg)
  case (Cons data ds)
  then show ?case using insert_indexs_failed
    by (auto simp: obind_def need_def split: outcome.splits option.splits if_splits prod.splits)
qed simp

lemma insert_row_counts:
  assumes "insert_row pool_size pool w now tb sg d rdata = Some (r, sg')"
  shows "same_counts sg sg'"
  using assms by (auto simp: insert_row_def segment_data_insert_def set_modify_time_def same_counts_def bind_eq_Some_conv
      split: if_splits)

section \<open>The segments of a table\<close>

lemma segment_open_at: "segment_at tb sid = Some sg \<Longrightarrow> segment_open tb sid = Some (md_flag (sg_meta_data sg) AND SEGMENT_INIT \<noteq> 0)"
  by (auto simp: segment_at_def segment_open_def bind_eq_Some_conv)

lemma segment_at_store:
  assumes "segment_at tb sid = Some sg"
  shows "segment_at (store_segment tb sid sg') sid' = (if sid' = sid then Some sg' else segment_at tb sid')"
proof -
  have "unat sid < length (tb_segments tb)" "unat sid < length (tb_segment_meta tb)"
    using assms by (auto simp: segment_at_def rd_def bind_eq_Some_conv split: if_splits)
  then show ?thesis
    by (auto simp: segment_at_def store_segment_def rd_def nth_list_update simp flip: word_unat_eq_iff)
qed

lemma segment_open_store:
  assumes "segment_at tb sid = Some sg"
  shows "segment_open (store_segment tb sid sg') sid' =
    (if sid' = sid then Some (md_flag (sg_meta_data sg') AND SEGMENT_INIT \<noteq> 0) else segment_open tb sid')"
proof -
  have "unat sid < length (tb_segment_meta tb)"
    using assms by (auto simp: segment_at_def rd_def bind_eq_Some_conv split: if_splits)
  then show ?thesis by (auto simp: segment_open_def store_segment_def rd_def nth_list_update simp flip: word_unat_eq_iff)
qed

section \<open>Histories\<close>

text \<open>What has happened to a segment: the documents that were inserted and not deleted since, the
  next number, and the numbers used up by documents that an index refused.  A history is
  kept from the calls and their results, never from the marks or the counters.\<close>

record seg_hist =
  sh_there :: "nat set"
  sh_next :: nat
  sh_lost :: nat

datatype fate = Entered | Lost | Ignored

definition after_insert :: "fate \<Rightarrow> seg_hist \<Rightarrow> seg_hist" where
  "after_insert f h =
     (case f of
        Entered \<Rightarrow> h\<lparr>sh_there := insert (sh_next h) (sh_there h), sh_next := Suc (sh_next h)\<rparr>
      | Lost \<Rightarrow> h\<lparr>sh_next := Suc (sh_next h), sh_lost := Suc (sh_lost h)\<rparr>
      | Ignored \<Rightarrow> h)"

definition after_delete :: "int \<Rightarrow> nat \<Rightarrow> seg_hist \<Rightarrow> seg_hist" where
  "after_delete r d h = (if 0 \<le> r then h\<lparr>sh_there := sh_there h - {d}\<rparr> else h)"

text \<open>Recovery goes back to a number and counts anew: what an index refused before is a deleted
  document from then on.  A compressed segment is not touched.\<close>

definition after_recover :: "bool \<Rightarrow> nat \<Rightarrow> seg_hist \<Rightarrow> seg_hist" where
  "after_recover compressed d h = (if compressed then h else \<lparr>sh_there = {x \<in> sh_there h. x < d}, sh_next = d, sh_lost = 0\<rparr>)"

text \<open>An insertion that reports success has entered its document.  One that reports an error has
  lost the number if the row was written and an index refused a value, and has entered the
  document if all indexes took it and only the thread for the next segment did not start.\<close>

definition insert_fate ::
    "(u8 list \<Rightarrow> string) \<Rightarrow> (u8 list \<Rightarrow> string) \<Rightarrow> field_types \<times> u8 list \<Rightarrow> nat \<Rightarrow> (nat \<Rightarrow> u8) \<Rightarrow> io \<Rightarrow> env \<Rightarrow> u64 \<Rightarrow>
       file_system \<Rightarrow> table_manager \<Rightarrow> u16 \<Rightarrow> u32 \<Rightarrow> row_data \<Rightarrow> int \<Rightarrow> fate" where
  "insert_fate fmt_f fmt_lf raw pool_size pool w ev now fs tb sid docid rdata r =
     (if 0 \<le> r then Entered
      else if table_deleted tb \<or> segment_open tb sid \<noteq> Some True then Ignored
      else
        (case Option.bind (segment_at tb sid) (\<lambda>sg. insert_row pool_size pool w now tb sg docid rdata) of
           None \<Rightarrow> Ignored
         | Some (ret, sg1) \<Rightarrow>
             if ret < 0 then Ignored
             else
               (case insert_fields fmt_f fmt_lf raw w ev tb docid (take (unat (rw_field_count rdata)) (rw_datas rdata)) ret fs sg1 of
                  Ret (_, True, _, _) \<Rightarrow> Lost
                | _ \<Rightarrow> Entered)))"

text \<open>Every open segment has right counters and holds the documents of its history.\<close>

definition hist_ok :: "seg_hist \<Rightarrow> u32 \<Rightarrow> segment_manager \<Rightarrow> bool" where
  "hist_ok h limit sg \<longleftrightarrow> counts_ok (sh_lost h) sg \<and> live sg = sh_there h \<and>
     unat (md_row_count (sg_meta_data sg)) = sh_next h \<and> sg_row_limit sg = limit"

definition table_counts :: "table_manager \<Rightarrow> (u16 \<Rightarrow> seg_hist) \<Rightarrow> bool" where
  "table_counts tb H \<longleftrightarrow> (\<forall>sid. segment_open tb sid = Some True \<longrightarrow>
     (\<exists>sg. segment_at tb sid = Some sg \<and> hist_ok (H sid) (tb_row_limit tb) sg))"

lemma table_counts_store:
  assumes "table_counts tb H" and "segment_at tb sid = Some sg" and "hist_ok h (tb_row_limit tb) sg'"
  shows "table_counts (store_segment tb sid sg') (H(sid := h))"
proof -
  have "tb_row_limit (store_segment tb sid sg') = tb_row_limit tb" by (simp add: store_segment_def)
  then show ?thesis using assms segment_at_store [OF assms(2)] segment_open_store [OF assms(2)] by (auto simp: table_counts_def)
qed

lemma hist_ok_same: "hist_ok h limit sg \<Longrightarrow> same_counts sg sg' \<Longrightarrow> hist_ok h limit sg'"
  using counts_ok_same [of "sh_lost h" sg sg'] by (simp add: hist_ok_def same_counts_def live_def)

section \<open>Runs\<close>

text \<open>What an insertion does to the segment: nothing to the counters, or the document enters, or its
  number is lost.\<close>

lemma table_insert_cases:
  assumes "table_insert fmt_f fmt_lf raw pool_size pool w ev now thread_ok fs tb sid docid rdata = Ret (r, tb', fs')"
    and "segment_at tb sid = Some sg"
  obtains (off) "table_deleted tb \<or> segment_open tb sid = Some False" and "tb' = tb"
      and "insert_fate fmt_f fmt_lf raw pool_size pool w ev now fs tb sid docid rdata r = Ignored"
  | (no_row) r1 sg1 where "insert_row pool_size pool w now tb sg docid rdata = Some (r1, sg1)" and "r1 < 0"
      and "same_counts sg sg1" and "tb' = store_segment tb sid sg1"
      and "insert_fate fmt_f fmt_lf raw pool_size pool w ev now fs tb sid docid rdata r = Ignored"
  | (no_index) r1 sg0 sg1 where "insert_row pool_size pool w now tb sg docid rdata = Some (r1, sg0)" and "\<not> r1 < 0"
      and "sg_data_field sg1 = sg_data_field sg0" and "same_counts sg sg1" and "tb' = store_segment tb sid (segment_set_rowcount sg1 docid)"
      and "insert_fate fmt_f fmt_lf raw pool_size pool w ev now fs tb sid docid rdata r = Lost"
  | (entered) r1 sg0 sg1 sg2 flag n where "insert_row pool_size pool w now tb sg docid rdata = Some (r1, sg0)" and "\<not> r1 < 0"
      and "sg_data_field sg1 = sg_data_field sg0" and "same_counts sg sg1" and "finish_insert sg1 docid = Some sg2"
      and "tb' = (store_segment tb sid (segment_set_flag sg2 flag))\<lparr>tb_new_seg_complete := n\<rparr>"
      and "insert_fate fmt_f fmt_lf raw pool_size pool w ev now fs tb sid docid rdata r = Entered"
proof -
  consider "table_deleted tb \<or> segment_open tb sid = Some False" | "\<not> table_deleted tb" "segment_open tb sid = Some True"
    using segment_open_at [OF assms(2)] by auto
  then show ?thesis
  proof cases
    case 1
    then have "tb' = tb" "r < 0"
      using assms(1) by (auto simp: table_insert_def need_def split: if_splits)
    with 1 show ?thesis using that(1) by (auto simp: insert_fate_def)
  next
    case 2
    obtain r1 sg1 where 1: "insert_row pool_size pool w now tb sg docid rdata = Some (r1, sg1)"
      using assms 2 by (auto simp: table_insert_def table_pk_check_def need_def split: option.splits)
    note same = insert_row_counts [OF 1]
    show ?thesis
    proof (cases "r1 < 0")
      case True
      then have "tb' = store_segment tb sid sg1" "r < 0" using assms 2 1 by (auto simp: table_insert_def table_pk_check_def need_def)
      then show ?thesis using True assms(2) 2 1 by (intro that(2) [OF 1 True same]) (simp_all add: insert_fate_def)
    next
      case False
      obtain datas where d: "rd_range (rw_datas rdata) 0 (unat (rw_field_count rdata)) = Some datas"
        using assms 2 1 False by (auto simp: table_insert_def table_pk_check_def need_def split: option.splits)
      obtain r2 failed sg2 fs2 where 3: "insert_fields fmt_f fmt_lf raw w ev tb docid datas r1 fs sg1 = Ret (r2, failed, sg2, fs2)"
        using assms 2 1 False d
        by (cases "insert_fields fmt_f fmt_lf raw w ev tb docid datas r1 fs sg1") (auto simp: table_insert_def table_pk_check_def need_def)
      have same2: "sg_data_field sg2 = sg_data_field sg1" "same_counts sg sg2"
        using insert_fields_counts [OF 3] same by (auto intro: same_counts_trans)
      note run = assms(1)[unfolded table_insert_def] assms(2) 2 1 False d 3
      have datas: "take (unat (rw_field_count rdata)) (rw_datas rdata) = datas" using d by (auto simp: rd_range_def split: if_splits)
      show ?thesis
      proof (cases failed)
        case True
        have "tb' = store_segment tb sid (segment_set_rowcount sg2 docid)" "r = r2"
          using run True by (simp_all add: table_pk_check_def need_def)
        moreover have "r2 < 0" using insert_fields_failed [of fmt_f fmt_lf raw w ev tb docid datas r1 fs sg1 r2 sg2 fs2] 3 True by simp
        ultimately show ?thesis using True assms(2) 2 1 False 3
          by (intro that(3) [OF 1 False same2]) (simp_all add: insert_fate_def datas)
      next
        case ok: False
        have fate: "insert_fate fmt_f fmt_lf raw pool_size pool w ev now fs tb sid docid rdata r = Entered"
          using ok assms(2) 2 1 False 3 by (simp add: insert_fate_def datas)
        obtain sg3 where f: "finish_insert sg2 docid = Some sg3"
          using run ok by (cases "finish_insert sg2 docid") (simp_all add: table_pk_check_def need_def)
        have "segment_set_flag sg3 0 = sg3" "(store_segment tb sid sg3)\<lparr>tb_new_seg_complete := tb_new_seg_complete tb\<rparr> = store_segment tb sid sg3"
          by (simp_all add: segment_set_flag_def store_segment_def)
        then show ?thesis using run ok f fate that(4) [OF 1 False same2 f, where flag = SEGMENT_FULL and n = 0]
            that(4) [OF 1 False same2 f, where flag = 0 and n = "tb_new_seg_complete tb"]
          by (cases "md_row_count (sg_meta_data sg3) = tb_row_limit tb") (simp_all add: table_pk_check_def need_def)
      qed
    qed
  qed
qed

text \<open>The states of a table and the histories of its segments over insertions at the next number of
  a segment, deletions and recoveries.\<close>

inductive table_run :: "table_manager \<Rightarrow> (u16 \<Rightarrow> seg_hist) \<Rightarrow> table_manager \<Rightarrow> (u16 \<Rightarrow> seg_hist) \<Rightarrow> bool" for tb0 H0 where
  start: "table_run tb0 H0 tb0 H0"
| insert: "table_run tb0 H0 tb H \<Longrightarrow> unat docid = sh_next (H sid) \<Longrightarrow> docid < tb_row_limit tb \<Longrightarrow>
    table_insert fmt_f fmt_lf raw pool_size pool w ev now thread_ok fs tb sid docid rdata = Ret (r, tb', fs') \<Longrightarrow>
    table_run tb0 H0 tb' (H(sid := after_insert (insert_fate fmt_f fmt_lf raw pool_size pool w ev now fs tb sid docid rdata r) (H sid)))"
| delete: "table_run tb0 H0 tb H \<Longrightarrow> table_del_docid now tb sid docid = Some (r, tb') \<Longrightarrow>
    table_run tb0 H0 tb' (H(sid := after_delete r (unat docid) (H sid)))"
| recover: "table_run tb0 H0 tb H \<Longrightarrow> segment_at tb sid = Some sg \<Longrightarrow> unat docid \<le> sh_next (H sid) \<Longrightarrow>
    table_recover size_ok trunc_ok tb sid docid = Ret (0, tb') \<Longrightarrow>
    table_run tb0 H0 tb' (H(sid := after_recover (md_flag (sg_meta_data sg) AND SEGMENT_COMPRESS \<noteq> 0) (unat docid) (H sid)))"

lemma segment_at_seg_complete [simp]:
  "segment_at (tb\<lparr>tb_new_seg_complete := n\<rparr>) sid = segment_at tb sid"
  "segment_open (tb\<lparr>tb_new_seg_complete := n\<rparr>) sid = segment_open tb sid"
  "table_counts (tb\<lparr>tb_new_seg_complete := n\<rparr>) H = table_counts tb H"
  by (simp_all add: segment_at_def segment_open_def table_counts_def)

lemma counts_ok_flag: "counts_ok lost (segment_set_flag sg flag) = counts_ok lost sg" "live (segment_set_flag sg flag) = live sg"
  "md_row_count (sg_meta_data (segment_set_flag sg flag)) = md_row_count (sg_meta_data sg)"
  "sg_row_limit (segment_set_flag sg flag) = sg_row_limit sg"
  by (simp_all add: counts_ok_def segment_set_flag_def live_def)

lemma lost_hist:
  assumes "hist_ok h limit sg" and "unat d = sh_next h" and "d < limit"
  shows "hist_ok (after_insert Lost h) limit (segment_set_rowcount sg d)"
proof -
  have "d = md_row_count (sg_meta_data sg)" using assms(1,2) by (simp add: hist_ok_def word_unat_eq_iff)
  then show ?thesis using refuse_counts [of "sh_lost h" sg] assms unat_next(1) [OF assms(3)]
    by (simp add: hist_ok_def after_insert_def segment_set_rowcount_def live_def)
qed

lemma entered_hist:
  assumes "hist_ok h limit sg" and "unat d = sh_next h" and "d < limit" and "finish_insert sg d = Some sg'"
  shows "hist_ok (after_insert Entered h) limit (segment_set_flag sg' flag)"
proof -
  have "d = md_row_count (sg_meta_data sg)" using assms(1,2) by (simp add: hist_ok_def word_unat_eq_iff)
  then show ?thesis using finish_insert_counts [of "sh_lost h" sg] assms unat_next(1) [OF assms(3)]
    by (auto simp: hist_ok_def after_insert_def counts_ok_flag)
qed

lemma insert_counts:
  assumes tb: "table_counts tb H" and d: "unat d = sh_next (H sid)" "d < tb_row_limit tb"
    and ins: "table_insert fmt_f fmt_lf raw pool_size pool w ev now thread_ok fs tb sid d rdata = Ret (r, tb', fs')"
  shows "table_counts tb' (H(sid := after_insert (insert_fate fmt_f fmt_lf raw pool_size pool w ev now fs tb sid d rdata r) (H sid)))"
proof (cases "table_deleted tb \<or> segment_open tb sid \<noteq> Some True")
  case True
  then have "tb' = tb" "r < 0"
    using ins by (auto simp: table_insert_def need_def split: if_splits option.splits)
  then show ?thesis using True tb by (simp add: insert_fate_def after_insert_def)
next
  case False
  then obtain sg where sg: "segment_at tb sid = Some sg" "hist_ok (H sid) (tb_row_limit tb) sg" using tb by (auto simp: table_counts_def)
  from ins sg(1) show ?thesis
  proof (cases rule: table_insert_cases)
    case off
    then show ?thesis using False by simp
  next
    case (no_row r1 sg1)
    then show ?thesis using table_counts_store [OF tb sg(1) hist_ok_same [OF sg(2) no_row(3)]] by (simp add: after_insert_def)
  next
    case (no_index r1 sg0 sg1)
    then show ?thesis using table_counts_store [OF tb sg(1) lost_hist [OF hist_ok_same [OF sg(2) no_index(4)] d]] by simp
  next
    case (entered r1 sg0 sg1 sg2 flag n)
    then show ?thesis
      using table_counts_store [OF tb sg(1) entered_hist [OF hist_ok_same [OF sg(2) entered(4)] d entered(5)], of flag] by simp
  qed
qed

lemma delete_counts:
  assumes "table_counts tb H" and "table_del_docid now tb sid docid = Some (r, tb')"
  shows "table_counts tb' (H(sid := after_delete r (unat docid) (H sid)))"
proof (cases "table_deleted tb \<or> segment_open tb sid \<noteq> Some True")
  case True
  then have "tb' = tb" "r < 0" using assms(2)
    by (auto simp: table_del_docid_def bind_eq_Some_conv split: if_splits)
  then show ?thesis using assms(1) by (simp add: after_delete_def)
next
  case False
  obtain sg where sg: "segment_at tb sid = Some sg" "hist_ok (H sid) (tb_row_limit tb) sg"
    using assms(1) False by (auto simp: table_counts_def)
  obtain r' sg' where d: "segment_del_docid now sg docid = Some (r', sg')" "counts_ok (sh_lost (H sid)) sg'" "live sg' = live sg - {unat docid}"
    "sg_row_limit sg' = sg_row_limit sg" "md_row_count (sg_meta_data sg') = md_row_count (sg_meta_data sg)" "r' = 0 \<or> unat docid \<notin> live sg"
    using del_docid_counts [of "sh_lost (H sid)" sg now docid] sg(2) by (auto simp: hist_ok_def)
  then have "hist_ok (after_delete r' (unat docid) (H sid)) (tb_row_limit tb) sg'" using sg(2) by (auto simp: hist_ok_def after_delete_def)
  then show ?thesis using assms(2) False sg(1) d(1) table_counts_store [OF assms(1) sg(1)] by (auto simp: table_del_docid_def)
qed

lemma recover_table_counts:
  assumes "table_counts tb H" and sg: "segment_at tb sid = Some sg" and "unat docid \<le> sh_next (H sid)"
    and "table_recover size_ok trunc_ok tb sid docid = Ret (0, tb')"
  shows "table_counts tb' (H(sid := after_recover (md_flag (sg_meta_data sg) AND SEGMENT_COMPRESS \<noteq> 0) (unat docid) (H sid)))"
proof -
  have on: "\<not> table_deleted tb" "segment_open tb sid = Some True"
    using assms(4) segment_open_at [OF sg] by (auto simp: table_recover_def need_def split: if_splits)
  have ok: "hist_ok (H sid) (tb_row_limit tb) sg" using assms(1) sg on(2) by (auto simp: table_counts_def)
  obtain sg' where r: "segment_recover size_ok trunc_ok sg docid = Ret (0, sg')" "tb' = store_segment tb sid sg'"
    using assms(4) on sg
    by (cases "segment_recover size_ok trunc_ok sg docid") (auto simp: table_recover_def need_def)
  have le: "docid \<le> md_row_count (sg_meta_data sg)" using assms(3) ok by (simp add: hist_ok_def word_le_nat_alt)
  have "hist_ok (after_recover (md_flag (sg_meta_data sg) AND SEGMENT_COMPRESS \<noteq> 0) (unat docid) (H sid)) (tb_row_limit tb) sg'"
  proof (cases "md_flag (sg_meta_data sg) AND SEGMENT_COMPRESS = 0")
    case True
    then show ?thesis using segment_recover_counts [OF _ le True r(1)] ok by (auto simp: hist_ok_def after_recover_def)
  next
    case False
    then have "sg' = sg" using r(1) by (simp add: segment_recover_def)
    then show ?thesis using False ok by (simp add: after_recover_def)
  qed
  then show ?thesis using r(2) table_counts_store [OF assms(1) sg] by simp
qed

lemma table_run_counts: "table_run tb0 H0 tb H \<Longrightarrow> table_counts tb0 H0 \<Longrightarrow> table_counts tb H"
proof (induction rule: table_run.induct)
  case insert
  show ?case by (rule insert_counts [OF insert.IH [OF insert.prems] insert.hyps(2-4)])
next
  case delete
  show ?case by (rule delete_counts [OF delete.IH [OF delete.prems] delete.hyps(2)])
next
  case recover
  show ?case by (rule recover_table_counts [OF recover.IH [OF recover.prems] recover.hyps(2-4)])
qed

section \<open>Properties\<close>

lemma sint_ucast_u64: "sint (ucast (x :: u32) :: u64) = int (unat x)"
proof -
  have x: "uint x < 4294967296" using uint_lt2p [of x] by simp
  then have "uint (ucast x :: u64) = uint x" by (simp add: unsigned_ucast_eq take_bit_int_eq_self)
  moreover have "- 9223372036854775808 \<le> uint x" using unsigned_greater_eq [of x] by (rule order.trans [rotated]) simp
  then have "signed_take_bit 63 (uint x) = uint x" using x by (intro signed_take_bit_int_eq_self) simp_all
  ultimately show ?thesis by (simp add: sint_uint)
qed

text \<open>C1: A table is changed by any sequence of insertions at the next number of a segment, deletions
  and successful recoveries, with any results of the indexes and of the files, and its history is
  kept from the calls and their results alone.  Then, for each segment in use, the record
  count is the number of documents that were inserted and not deleted since, plus the numbers
  used up by documents that an index refused; the delete count is what remains; and each
  number given out so far is reported as deleted exactly if its document is not there.\<close>

theorem table_counters_count_documents:
  assumes run: "table_run tb0 H0 tb H" and start: "table_counts tb0 H0"
    and sid: "segment_open tb (sq_sid p) = Some True" "\<not> table_deleted tb"
  shows "table_get_record_num tb [p] = Some (int (card (sh_there (H (sq_sid p)))) + int (sh_lost (H (sq_sid p)))) \<and>
    table_get_delete_num tb [p] =
      Some (int (sh_next (H (sq_sid p))) - int (card (sh_there (H (sq_sid p)))) - int (sh_lost (H (sq_sid p)))) \<and>
    (\<forall>d. unat d < sh_next (H (sq_sid p)) \<longrightarrow>
      table_is_docid_deleted tb (sq_sid p) d = Some (if unat d \<in> sh_there (H (sq_sid p)) then 0 else 1))"
proof -
  let ?h = "H (sq_sid p)"
  obtain sg where sg: "segment_at tb (sq_sid p) = Some sg" "counts_ok (sh_lost ?h) sg" "live sg = sh_there ?h"
    "unat (md_row_count (sg_meta_data sg)) = sh_next ?h"
    using table_run_counts [OF run start] sid(1) by (auto simp: table_counts_def hist_ok_def)
  define rc dc where "rc = md_row_count (sg_meta_data sg)" and "dc = md_del_count (sg_meta_data sg)"
  have md: "rd (tb_segment_meta tb) (unat (sq_sid p)) = Some (sg_meta_data sg)" "md_flag (sg_meta_data sg) AND SEGMENT_INIT \<noteq> 0"
    using sg(1) segment_open_at [OF sg(1)] sid(1) by (auto simp: segment_at_def bind_eq_Some_conv)
  have c: "card (sh_there ?h) + sh_lost ?h + unat dc = unat rc" using sg(2,3) by (simp add: counts_ok_def rc_def dc_def)
  then have "dc \<le> rc" by (simp add: word_le_nat_alt)
  then have sub: "unat (rc - dc) = card (sh_there ?h) + sh_lost ?h" using c by (simp add: unat_sub)
  have c': "int (sh_next ?h) = int (card (sh_there ?h)) + int (sh_lost ?h) + int (unat dc)"
    using arg_cong [OF c, of int] sg(4) by (simp add: rc_def)
  have "table_is_docid_deleted tb (sq_sid p) d = Some (if unat d \<in> sh_there ?h then 0 else 1)" if "unat d < sh_next ?h" for d
  proof -
    have "d < rc" using that sg(4) by (simp add: rc_def word_less_nat_alt)
    then have "d < sg_row_limit sg" using sg(2) by (auto simp: counts_ok_def rc_def intro: order.strict_trans2)
    then show ?thesis using bm.query_law [of "sg_del_bitmap sg" d] sg sid
      by (simp add: table_is_docid_deleted_def segment_is_docid_deleted_def counts_ok_def live_def)
  qed
  moreover have "table_get_record_num tb [p] = Some (int (unat (rc - dc)))" "table_get_delete_num tb [p] = Some (int (unat dc))"
    using md sid(2) sint_ucast_u64 [of "rc - dc"] sint_ucast_u64 [of dc]
    by (auto simp: table_get_record_num_def table_get_delete_num_def rc_def dc_def)
  ultimately show ?thesis using sub c' by simp
qed

lemma finish_insert_data:
  assumes "finish_insert sg d = Some sg'"
  shows "sg_data_field sg' = sg_data_field sg" and "sg_row_limit sg' = sg_row_limit sg"
    and "md_flag (sg_meta_data sg') = md_flag (sg_meta_data sg)"
  using assms by (auto simp: finish_insert_def segment_set_docid_inserted_def segment_set_rowcount_def bind_eq_Some_conv split: if_splits)

lemma flag_kept: "(x :: u8) AND 1 \<noteq> 0 \<Longrightarrow> (x OR y) AND 1 \<noteq> 0"
  by (simp add: and_one_eq mod_2_eq_odd even_or_iff)

text \<open>C15: A row that is inserted into a table that stores its rows reads back with all its fields,
  whatever the indexes make of it: also if one of them refuses the document.\<close>

theorem table_insert_reads_back:
  assumes sg: "segment_at tb sid = Some sg" and on: "segment_in_use tb sid = Some True" "\<not> table_deleted tb" "tb_store_raw tb"
    and row: "data_field_ok (sg_data_field sg)" "docid < fi_limit (df_filter_data (sg_data_field sg))"
      "row_fits pool_size (sg_data_field sg) rdata" "docid < sg_row_limit sg"
    and ins: "table_insert fmt_f fmt_lf raw pool_size pool (Xfer (length (row_bytes rdata))) ev now thread_ok fs tb sid docid rdata = Ret (r, tb', fs')"
  shows "\<exists>rdata'. table_data_query_row (Xfer (2 ^ 32)) tb' sid docid = Some (Some rdata') \<and>
    list_all2 same_field (rw_datas rdata) (rw_datas rdata')"
proof -
  let ?w = "Xfer (length (row_bytes rdata))"
  obtain df where df: "data_field_insert pool_size pool ?w (sg_data_field sg) rdata docid = Some (0, df)" "data_field_ok df"
    "docid < fi_limit (df_filter_data df)" "fi_cells (df_filter_data df) (unat docid) = Some (row_bytes rdata)"
    using data_field_insert_cells [OF row(1-3), of pool] row(2) by auto
  have ok: "row_ok rdata" using row(3) by (simp add: row_fits_def)
  obtain rdata' where q: "data_field_query_row (Xfer (2 ^ 32)) df docid = Some (Some rdata')"
    "list_all2 same_field (rw_datas rdata) (rw_datas rdata')" using data_field_reads_row(1) [OF df(2-4) ok] by blast
  have ir: "insert_row pool_size pool ?w now tb sg docid rdata = Some (0, (set_modify_time now sg)\<lparr>sg_data_field := df\<rparr>)"
    using df(1) on(3) by (simp add: insert_row_def segment_data_insert_def set_modify_time_def)
  have op: "segment_open tb sid = Some True" "\<not> tb_max_segment_num tb \<le> sid" using on(1) by (auto simp: segment_in_use_def split: if_splits)
  have flag: "md_flag (sg_meta_data sg) AND SEGMENT_INIT \<noteq> 0" using segment_open_at [OF sg] op(1) by simp
  have "\<exists>sg' n. tb' = (store_segment tb sid sg')\<lparr>tb_new_seg_complete := n\<rparr> \<and> sg_data_field sg' = df \<and> sg_row_limit sg' = sg_row_limit sg \<and>
      md_flag (sg_meta_data sg') AND SEGMENT_INIT \<noteq> 0"
    using ins sg
  proof (cases rule: table_insert_cases)
    case (no_index r1 sg0 sg1)
    let ?sg = "segment_set_rowcount sg1 docid"
    have "tb' = (store_segment tb sid ?sg)\<lparr>tb_new_seg_complete := tb_new_seg_complete tb'\<rparr>" using no_index(5) by simp
    moreover have "sg_data_field ?sg = df" "sg_row_limit ?sg = sg_row_limit sg" "md_flag (sg_meta_data ?sg) = md_flag (sg_meta_data sg)"
      using no_index ir by (auto simp: same_counts_def segment_set_rowcount_def)
    ultimately show ?thesis using flag by metis
  next
    case (entered r1 sg0 sg1 sg2 flag' n)
    then show ?thesis using ir flag finish_insert_data [OF entered(5)] flag_kept
      by (auto simp: same_counts_def segment_set_flag_def)
  qed (use on(2) op ir in auto)
  then obtain sg' n where s: "tb' = (store_segment tb sid sg')\<lparr>tb_new_seg_complete := n\<rparr>" "sg_data_field sg' = df" "sg_row_limit sg' = sg_row_limit sg"
    "md_flag (sg_meta_data sg') AND SEGMENT_INIT \<noteq> 0" by blast
  have at: "segment_at tb' sid = Some sg'" "segment_open tb' sid = Some True"
    using s(1,4) segment_at_store [OF sg] segment_open_store [OF sg] by simp_all
  have "\<not> table_deleted tb'" "tb_store_raw tb'" "tb_max_segment_num tb' = tb_max_segment_num tb"
    using s(1) on(2,3) by (simp_all add: table_deleted_def store_segment_def)
  then show ?thesis using at s(2,3) op(2) row(4) q
    by (simp add: table_data_query_row_def segment_in_use_def segment_data_query_row_def)
qed

section \<open>Instances\<close>

definition counting_segment :: segment_manager where
  "counting_segment = \<lparr>sg_work_space = ''t'', sg_segment_name = ''s'', sg_sid = 0, sg_data_field = data_field_example,
     sg_index_fields = \<lparr>sm_size = 1000, sm_data = []\<rparr>, sg_row_limit = 3,
     sg_meta_data = \<lparr>md_create_time = 1, md_modify_time = 1, md_checkpoint_time = 0, md_flag = 1, md_row_count = 2, md_del_count = 0\<rparr>,
     sg_del_bitmap = \<lparr>bm_file_name = ''t/del.bit'', bm_mem = Some [0xC0], bm_row_limit = 3\<rparr>, sg_hash_compress_num = 1\<rparr>"

definition sample_table :: table_manager where
  "sample_table = \<lparr>tb_storage_dirs = [''d''], tb_work_space = ''d'', tb_segment_meta_filename = ''d/segment.meta'',
     tb_table_meta = \<lparr>tm_table_name = ''t'', tm_stat = 1, tm_segment_current = 0, tm_index_field_count = 0, tm_index_meta = []\<rparr>,
     tb_segments = [Some counting_segment], tb_segment_meta = [sg_meta_data counting_segment], tb_max_segment_num = 1,
     tb_index_meta_hash = \<lparr>sm_size = 100, sm_data = []\<rparr>, tb_hash_compress_num = 1, tb_row_limit = 3, tb_store_raw = True,
     tb_new_seg_complete = 1\<rparr>"

lemma sample_table_at: "segment_at sample_table 0 = Some counting_segment" "segment_open sample_table 0 = Some True"
  by (simp_all add: segment_at_def segment_open_def sample_table_def rd_def counting_segment_def)

lemma counting_segment_ok: "counts_ok 0 counting_segment" "live counting_segment = {0, 1}"
proof -
  have "bm_bit [0xC0] d \<longleftrightarrow> d \<in> {0, 1}" if "d < 3" for d
  proof -
    have "d = 0 \<or> d = 1 \<or> d = 2" using that by linarith
    then show ?thesis by (elim disjE) (simp_all add: bm_bit_def bit_iff_odd)
  qed
  then show l: "live counting_segment = {0, 1}" by (auto simp: live_def counting_segment_def bm_marks_def)
  then show "counts_ok 0 counting_segment" by (auto simp: counts_ok_def counting_segment_def bitmark_ok_def)
qed

definition sample_hist :: seg_hist where
  "sample_hist = \<lparr>sh_there = {0, 1}, sh_next = 2, sh_lost = 0\<rparr>"

lemma sample_table_counts: "table_counts sample_table (\<lambda>_. sample_hist)"
proof -
  have "sid = 0" if "segment_open sample_table sid = Some True" for sid
    using that by (auto simp: segment_open_def sample_table_def rd_def unat_eq_zero split: if_splits)
  moreover have "sg_row_limit counting_segment = tb_row_limit sample_table" "unat (md_row_count (sg_meta_data counting_segment)) = 2"
    by (simp_all add: sample_table_def counting_segment_def)
  ultimately show ?thesis using sample_table_at(1) counting_segment_ok by (auto simp: table_counts_def hist_ok_def sample_hist_def)
qed

lemma example_insert:
  "\<exists>tb fs. table_insert (\<lambda>_. []) (\<lambda>_. []) (0, []) 4096 (\<lambda>_. 0xCC) (Xfer (length (row_bytes row_example))) example_env 7 True (\<lambda>_. None)
     sample_table 0 2 row_example = Ret (0, tb, fs) \<and> segment_open tb 0 = Some True \<and> \<not> table_deleted tb"
proof -
  obtain df where df: "data_field_insert 4096 (\<lambda>_. 0xCC) (Xfer (length (row_bytes row_example))) data_field_example row_example 2 = Some (0, df)"
    using data_field_insert_cells [OF data_field_example_fits(1) _ data_field_example_fits(3), of 2 "\<lambda>_. 0xCC"] data_field_example_fits(2) by auto
  define sg where "sg = (set_modify_time 7 counting_segment)\<lparr>sg_data_field := df\<rparr>"
  have ir: "insert_row 4096 (\<lambda>_. 0xCC) (Xfer (length (row_bytes row_example))) 7 sample_table counting_segment 2 row_example = Some (0, sg)"
    using df by (simp add: insert_row_def segment_data_insert_def set_modify_time_def sg_def sample_table_def counting_segment_def)
  have same: "same_counts counting_segment sg" by (simp add: same_counts_def sg_def set_modify_time_def)
  have none: "string_map_get (tb_index_meta_hash sample_table) k = None" for k
    by (simp add: sample_table_def string_map_get_def bsearch.simps)
  then have "insert_fields (\<lambda>_. []) (\<lambda>_. []) (0, []) w example_env sample_table 2 ds r (\<lambda>_. None) sg = Ret (r, False, sg, \<lambda>_. None)" for w ds r
    by (induction ds) simp_all
  moreover have "md_row_count (sg_meta_data sg) = 2" "sg_row_limit sg = 3" "md_flag (sg_meta_data sg) = 1"
    by (simp_all add: sg_def set_modify_time_def counting_segment_def)
  moreover have "counts_ok 0 sg" by (rule counts_ok_same [OF counting_segment_ok(1) same])
  ultimately obtain sg3 where f: "finish_insert sg 2 = Some sg3" "md_flag (sg_meta_data sg3) = 1"
      "md_row_count (sg_meta_data sg3) = 3"
    and i: "insert_fields (\<lambda>_. []) (\<lambda>_. []) (0, []) w example_env sample_table 2 ds r (\<lambda>_. None) sg = Ret (r, False, sg, \<lambda>_. None)" for w ds r
    using finish_insert_counts [of 0 sg] by auto
  define tb where "tb = (store_segment sample_table 0 (segment_set_flag sg3 SEGMENT_FULL))\<lparr>tb_new_seg_complete := 0\<rparr>"
  have on: "\<not> table_deleted sample_table" "tb_row_limit sample_table = 3" by (simp_all add: table_deleted_def sample_table_def)
  have rows: "rd_range (rw_datas row_example) 0 (unat (rw_field_count row_example)) = Some (rw_datas row_example)"
    by (simp add: row_example_def rd_range_def)
  have "table_insert (\<lambda>_. []) (\<lambda>_. []) (0, []) 4096 (\<lambda>_. 0xCC) (Xfer (length (row_bytes row_example))) example_env 7 True (\<lambda>_. None)
      sample_table 0 2 row_example = Ret (0, tb, \<lambda>_. None)"
    using on sample_table_at ir rows i f by (simp add: table_insert_def table_pk_check_def need_def tb_def)
  moreover have "segment_at tb 0 = Some (segment_set_flag sg3 SEGMENT_FULL)" "segment_open tb 0 = Some True"
    using segment_at_store [OF sample_table_at(1)] segment_open_store [OF sample_table_at(1)] f(2)
    by (simp_all add: tb_def segment_set_flag_def)
  moreover have "\<not> table_deleted tb" using on(1) by (simp add: tb_def table_deleted_def store_segment_def)
  ultimately show ?thesis by auto
qed

theorem table_counters_count_documents_witness:
  "\<exists>tb fs. table_insert (\<lambda>_. []) (\<lambda>_. []) (0, []) 4096 (\<lambda>_. 0xCC) (Xfer (length (row_bytes row_example))) example_env 7 True (\<lambda>_. None)
     sample_table 0 2 row_example = Ret (0, tb, fs) \<and>
     table_get_record_num tb [\<lparr>sq_sid = 0, sq_max_docid = 0, sq_rowids = (None :: nat rowid_list option)\<rparr>] = Some 3 \<and>
     table_is_docid_deleted tb 0 2 = Some 0"
proof -
  obtain tb fs where tb: "table_insert (\<lambda>_. []) (\<lambda>_. []) (0, []) 4096 (\<lambda>_. 0xCC) (Xfer (length (row_bytes row_example))) example_env 7 True
      (\<lambda>_. None) sample_table 0 2 row_example = Ret (0, tb, fs)" "segment_open tb 0 = Some True" "\<not> table_deleted tb"
    using example_insert by blast
  let ?h = "after_insert Entered sample_hist"
  have "table_run sample_table (\<lambda>_. sample_hist) tb ((\<lambda>_. sample_hist)(0 := ?h))"
    using table_run.insert [OF table_run.start _ _ tb(1), of "\<lambda>_. sample_hist"]
    by (simp add: insert_fate_def sample_hist_def sample_table_def)
  from table_counters_count_documents [OF this sample_table_counts,
      of "\<lparr>sq_sid = 0, sq_max_docid = 0, sq_rowids = (None :: nat rowid_list option)\<rparr>"] tb
  show ?thesis by (auto simp: after_insert_def sample_hist_def dest!: spec [of _ 2])
qed

theorem table_insert_reads_back_witness:
  "\<exists>tb fs rdata. table_insert (\<lambda>_. []) (\<lambda>_. []) (0, []) 4096 (\<lambda>_. 0xCC) (Xfer (length (row_bytes row_example))) example_env 7 True (\<lambda>_. None)
     sample_table 0 2 row_example = Ret (0, tb, fs) \<and>
     table_data_query_row (Xfer (2 ^ 32)) tb 0 2 = Some (Some rdata) \<and> list_all2 same_field (rw_datas row_example) (rw_datas rdata)"
proof -
  obtain tb fs where tb: "table_insert (\<lambda>_. []) (\<lambda>_. []) (0, []) 4096 (\<lambda>_. 0xCC) (Xfer (length (row_bytes row_example))) example_env 7 True
      (\<lambda>_. None) sample_table 0 2 row_example = Ret (0, tb, fs)" using example_insert by blast
  have df: "sg_data_field counting_segment = data_field_example" "sg_row_limit counting_segment = 3" by (simp_all add: counting_segment_def)
  have on: "segment_in_use sample_table 0 = Some True" "\<not> table_deleted sample_table" "tb_store_raw sample_table"
    using sample_table_at(2) by (simp_all add: segment_in_use_def table_deleted_def sample_table_def)
  from table_insert_reads_back [OF sample_table_at(1) on _ _ _ _ tb] tb data_field_example_fits df show ?thesis by auto
qed

end
