(* ===== verification/Table_Index_Props.thy ===== *)
theory Table_Index_Props
  imports Table_Index Table_Props
begin

text \<open>
  Building an index over the documents that a segment holds already: the new index finds exactly the
  documents that are not deleted and hold the value, whichever of them are added under the lock.
\<close>

section \<open>Adding one document\<close>

text \<open>The value that is put into the index for a stored one.\<close>

definition indexed :: "field_types \<times> u8 list \<Rightarrow> field_types \<Rightarrow> u8 list \<Rightarrow> low_data \<Rightarrow> low_data" where
  "indexed raw dt name v = (let v' = v\<lparr>ld_field_name := name\<rparr> in if ld_type v' \<noteq> dt then null_data raw v' else v')"

lemma column_indexed: "column_of (indexed raw dt name v) = name_text name"
  by (simp add: indexed_def column_of_def null_data_def Let_def)

text \<open>What a segment holds of the column: \<open>val\<close> gives the stored values.\<close>

definition holds_column :: "io \<Rightarrow> u8 list \<Rightarrow> u32 \<Rightarrow> (u32 \<Rightarrow> low_data option) \<Rightarrow> segment_manager \<Rightarrow> bool" where
  "holds_column r name n val sg \<longleftrightarrow> bitmark_ok (sg_del_bitmap sg) \<and> bm_row_limit (sg_del_bitmap sg) = sg_row_limit sg \<and>
     n \<le> sg_row_limit sg \<and> (\<forall>d < n. unat d \<in> live sg \<longrightarrow> segment_data_query_col r sg name d = Some (val d))"

definition same_rows :: "segment_manager \<Rightarrow> segment_manager \<Rightarrow> bool" where
  "same_rows sg sg' \<longleftrightarrow> (\<exists>sm. sg' = sg\<lparr>sg_index_fields := sm\<rparr>)"

lemma same_rows_refl [simp]: "same_rows sg sg"
proof -
  have "sg = sg\<lparr>sg_index_fields := sg_index_fields sg\<rparr>" by simp
  then show ?thesis unfolding same_rows_def by blast
qed

lemma same_rows_trans: "same_rows a b \<Longrightarrow> same_rows b c \<Longrightarrow> same_rows a c"
  by (auto simp: same_rows_def)

lemma same_rowsD:
  assumes "same_rows sg sg'"
  shows "live sg' = live sg" "sg_row_limit sg' = sg_row_limit sg" "sg_meta_data sg' = sg_meta_data sg"
    "holds_column r name n val sg' = holds_column r name n val sg"
  using assms by (auto simp: same_rows_def live_def holds_column_def segment_data_query_col_def)

text \<open>The documents to index up to a list of numbers.\<close>

fun to_index ::
    "field_types \<times> u8 list \<Rightarrow> field_types \<Rightarrow> u8 list \<Rightarrow> nat set \<Rightarrow> (u32 \<Rightarrow> low_data option) \<Rightarrow> u32 list \<Rightarrow> (low_data \<times> u32) list" where
  "to_index raw dt name L val [] = []"
| "to_index raw dt name L val (d # ds) =
     (if unat d \<in> L \<and> val d \<noteq> None then [(indexed raw dt name (the (val d)), d)] else []) @ to_index raw dt name L val ds"

lemma to_index_mem: "(v, d) \<in> set (to_index raw dt name L val ds) \<Longrightarrow> d \<in> set ds \<and> column_of v = name_text name"
  by (induction ds) (auto simp: column_indexed split: if_splits)

lemma docs_with_to_index:
  "docs_with key (to_index raw dt name L val ds) k =
     rev (filter (\<lambda>d. unat d \<in> L \<and> (\<exists>v. val d = Some v \<and> key (indexed raw dt name v) = k)) ds)"
proof (induction ds)
  case (Cons d ds)
  then show ?case by (cases "val d") (simp_all add: docs_with_def)
qed (simp add: docs_with_def)

lemma in_column_to_index: "in_column (name_text name) (to_index raw dt name L val ds) = to_index raw dt name L val ds"
  unfolding in_column_def by (rule filter_True) (auto dest: to_index_mem)

lemma insert_index_step:
  assumes rep: "seg_rep {name_text name} sg M" and col: "holds_column r name n val sg" and d: "d < n"
    and ok: "\<forall>v. val d = Some v \<longrightarrow> hashable fmt_f fmt_lf (indexed raw dt name v)"
    and new: "\<forall>k. \<forall>e \<in> set (M (name_text name) k). e < d"
  shows "\<exists>sg'. query_data_and_insert_index fmt_f fmt_lf raw r w ev HI_KEY_ALG_HASH dt name d fs sg = Ret (sg', fs) \<and> same_rows sg sg' \<and>
    seg_rep {name_text name} sg' (if unat d \<in> live sg then (case val d of None \<Rightarrow> M | Some v \<Rightarrow>
      M(name_text name := (M (name_text name))(hash_key fmt_f fmt_lf (indexed raw dt name v) :=
        d # M (name_text name) (hash_key fmt_f fmt_lf (indexed raw dt name v))))) else M)"
proof -
  have lim: "d < sg_row_limit sg" "bitmark_ok (sg_del_bitmap sg)" "bm_row_limit (sg_del_bitmap sg) = sg_row_limit sg"
    using col d by (auto simp: holds_column_def)
  have del: "segment_is_docid_deleted sg d = Some (if unat d \<in> live sg then 0 else 1)"
    using bm.query_law [OF lim(2)] lim by (simp add: segment_is_docid_deleted_def live_def not_le)
  show ?thesis
  proof (cases "unat d \<in> live sg \<and> val d \<noteq> None")
    case False
    then show ?thesis using del rep col d
      by (auto simp: query_data_and_insert_index_def need_def holds_column_def)
  next
    case True
    then obtain v where v: "val d = Some v" by auto
    let ?v = "indexed raw dt name v"
    have c: "column_of ?v = name_text name" by (rule column_indexed)
    obtain f where f: "segment_get_index_instance sg (name_text name) HI_KEY_ALG_HASH = Some (Some f)" "field_rep (Some f) (M (name_text name))"
      "field_cap (Some f) = sg_row_limit sg" using rep by (auto simp: seg_rep_def)
    obtain sg' where sg': "seg_ins fmt_f fmt_lf w ev fs sg ?v d = Some (0, sg')"
      "seg_rep {name_text name} sg' (M(name_text name := (M (name_text name))(hash_key fmt_f fmt_lf ?v := d # M (name_text name) (hash_key fmt_f fmt_lf ?v))))"
      using seg_ins_step [OF rep, of ?v fmt_f fmt_lf d w ev fs] ok v lim(1) new c by auto
    obtain g where g: "index_field_insert fmt_f fmt_lf w ev fs (Some f) ?v d = Ret (0, g, fs)"
      using ixf.ins_ok [OF f(2), of fmt_f fmt_lf ?v d w ev fs] ok v new lim(1) f(3) by (auto dest!: field_insE)
    have ins: "segment_index_insert fmt_f fmt_lf w ev fs sg ?v HI_KEY_ALG_HASH d = Ret (0, sg', fs)" "same_rows sg sg'"
      using sg'(1) f(1) g c
      by (auto simp: seg_ins_def segment_index_insert_def need_def column_of_def same_rows_def put_instance_def split: option.splits)
    have "query_data_and_insert_index fmt_f fmt_lf raw r w ev HI_KEY_ALG_HASH dt name d fs sg = Ret (sg', fs)"
      using del True v col d ins(1) by (simp add: query_data_and_insert_index_def need_def holds_column_def indexed_def Let_def)
    then show ?thesis using ins(2) sg'(2) True v by auto
  qed
qed


section \<open>Adding all documents\<close>

lemma build_docs_loads:
  assumes "seg_rep {name_text name} sg (\<lambda>c. docs_with (hash_key fmt_f fmt_lf) (in_column c xs))" and "holds_column r name n val sg"
    and "\<forall>d \<in> set ds. d < n" and "sorted_wrt (<) ds" and "\<forall>(v, e) \<in> set xs. \<forall>d \<in> set ds. e < d"
    and "\<forall>d \<in> set ds. \<forall>v. val d = Some v \<longrightarrow> hashable fmt_f fmt_lf (indexed raw dt name v)"
  shows "\<exists>sg'. build_docs fmt_f fmt_lf raw r w ev HI_KEY_ALG_HASH dt name ds fs sg = Ret (sg', fs) \<and> same_rows sg sg' \<and>
    seg_rep {name_text name} sg' (\<lambda>c. docs_with (hash_key fmt_f fmt_lf) (in_column c (xs @ to_index raw dt name (live sg) val ds)))"
  using assms
proof (induction ds arbitrary: sg xs)
  case (Cons d ds)
  let ?x = "to_index raw dt name (live sg) val [d]"
  have new: "\<forall>k. \<forall>e \<in> set (docs_with (hash_key fmt_f fmt_lf) (in_column (name_text name) xs) k). e < d"
    using Cons.prems(5) by (fastforce simp: in_column_def dest!: docs_with_set)
  obtain sg1 where sg1: "query_data_and_insert_index fmt_f fmt_lf raw r w ev HI_KEY_ALG_HASH dt name d fs sg = Ret (sg1, fs)" "same_rows sg sg1"
    "seg_rep {name_text name} sg1 (\<lambda>c. docs_with (hash_key fmt_f fmt_lf) (in_column c (xs @ ?x)))"
    using insert_index_step [OF Cons.prems(1,2) _ _ new, of fmt_f fmt_lf raw dt w ev fs] Cons.prems(3,6)
    by (cases "val d") (auto simp: in_column_snoc column_indexed split: if_splits)
  have "\<forall>(v, e) \<in> set (xs @ ?x). \<forall>d' \<in> set ds. e < d'"
    using Cons.prems(4,5) by (auto dest!: to_index_mem)
  moreover have "holds_column r name n val sg1" using Cons.prems(2) same_rowsD(4) [OF sg1(2)] by simp
  ultimately obtain sg' where "build_docs fmt_f fmt_lf raw r w ev HI_KEY_ALG_HASH dt name ds fs sg1 = Ret (sg', fs)" "same_rows sg1 sg'"
    "seg_rep {name_text name} sg' (\<lambda>c. docs_with (hash_key fmt_f fmt_lf) (in_column c ((xs @ ?x) @ to_index raw dt name (live sg) val ds)))"
    using Cons.IH [OF sg1(3)] Cons.prems(3,4,6) same_rowsD(1) [OF sg1(2)] by auto
  then show ?case using sg1(1) same_rows_trans [OF sg1(2)] by (auto simp del: append_assoc simp: append_assoc [symmetric])
qed simp

section \<open>The current segment\<close>

text \<open>Publishing the column keeps the segments.\<close>

lemma publish_keeps:
  assumes "publish tb i name = Some tb'"
  shows "tb_segments tb' = tb_segments tb" "tb_segment_meta tb' = tb_segment_meta tb"
proof -
  have "tb_segments tb' = tb_segments tb \<and> tb_segment_meta tb' = tb_segment_meta tb"
  proof (cases "string_map_get (tb_index_meta_hash tb) (name_text name)")
    case (Some p)
    then show ?thesis using assms by (cases p) (auto simp: publish_def set_metas_def Let_def bind_eq_Some_conv)
  qed (use assms in \<open>auto simp: publish_def\<close>)
  then show "tb_segments tb' = tb_segments tb" "tb_segment_meta tb' = tb_segment_meta tb" by simp_all
qed

definition publishable :: "table_manager \<Rightarrow> nat \<Rightarrow> u8 list \<Rightarrow> bool" where
  "publishable tb i name \<longleftrightarrow> publish tb i name \<noteq> None"

lemma publishable_store [simp]: "publishable (store_segment tb sid sg) i name = publishable tb i name"
  by (auto simp: publishable_def publish_def store_segment_def set_metas_def Let_def split: option.splits meta_ref.splits bind_splits)

lemma store_keeps: "tb_table_meta (store_segment tb sid sg) = tb_table_meta tb"
  by (simp add: store_segment_def)

lemma insert_index_rowcount:
  "query_data_and_insert_index fmt_f fmt_lf raw r w ev t dt name d fs sg = Ret (sg1, fs1) \<Longrightarrow> segment_get_rowcount sg1 = segment_get_rowcount sg"
  by (auto simp: query_data_and_insert_index_def Let_def obind_def need_def same_counts_def segment_get_rowcount_def
      dest!: segment_index_insert_counts split: outcome.splits option.splits if_splits)

text \<open>Adding the last documents under the lock makes no difference to the segment.\<close>

lemma build_current_is_build_docs:
  assumes "build_docs fmt_f fmt_lf raw r w ev t dt name ds fs sg = Ret (sg', fs')" and "segment_at tb sid = Some sg"
    and "publishable tb i name" and "sid = tm_segment_current (tb_table_meta tb)" and "ds \<noteq> []"
    and "segment_get_rowcount sg = last ds + 1"
  shows "\<exists>tb'. build_current fmt_f fmt_lf raw r w ev t dt name i sid ds fs tb = Ret (tb', fs') \<and> segment_at tb' sid = Some (reset_compress sg')"
  using assms
proof (induction ds arbitrary: fs sg tb)
  case (Cons d ds)
  obtain sg1 fs1 where 1: "query_data_and_insert_index fmt_f fmt_lf raw r w ev t dt name d fs sg = Ret (sg1, fs1)"
    "build_docs fmt_f fmt_lf raw r w ev t dt name ds fs1 sg1 = Ret (sg', fs')"
    using Cons.prems(1) by (auto simp: obind_def split: outcome.splits)
  have rc: "segment_get_rowcount sg1 = last (d # ds) + 1" using insert_index_rowcount [OF 1(1)] Cons.prems(6) by simp
  show ?case
  proof (cases "segment_get_rowcount sg1 - d < 10")
    case True
    obtain tb1 where tb1: "publish (store_segment tb sid sg') i name = Some tb1"
      using Cons.prems(3) publishable_store [of tb sid sg' i name] by (auto simp: publishable_def)
    have "segment_at tb1 sid = Some sg'"
      using segment_at_store [OF Cons.prems(2)] publish_keeps [OF tb1] by (simp add: segment_at_def)
    then show ?thesis using True 1 tb1 Cons.prems(2,4) segment_at_store [of tb1 sid sg'] by (simp add: need_def)
  next
    case False
    then have ds: "ds \<noteq> []" using rc by auto
    have "\<exists>tb'. build_current fmt_f fmt_lf raw r w ev t dt name i sid ds fs1 (store_segment tb sid sg1) = Ret (tb', fs') \<and>
        segment_at tb' sid = Some (reset_compress sg')"
      by (rule Cons.IH [OF 1(2)]) (use Cons.prems(2-4) ds rc segment_at_store [OF Cons.prems(2)] in \<open>simp_all add: store_keeps\<close>)
    then show ?thesis using False 1(1) Cons.prems(2) by (simp add: need_def)
  qed
qed simp


lemma docids_facts:
  "set (docids n) = {d. d < n}" "sorted_wrt (<) (docids n)" "0 < n \<Longrightarrow> docids n \<noteq> []" "0 < n \<Longrightarrow> last (docids n) + 1 = n"
proof -
  have u: "unat (word_of_nat i :: u32) = i" if "i < unat n" for i
    using that u32_bound [of n] by (intro unat_word_of_nat_u32) linarith
  have "d \<in> set (docids n)" if "d < n" for d
    using that by (auto simp: docids_def unat_less_iff intro!: image_eqI [of _ _ "unat d"])
  then show "set (docids n) = {d. d < n}" using u by (auto simp: docids_def unat_less_iff)
  show "sorted_wrt (<) (docids n)"
    by (auto simp: docids_def sorted_wrt_iff_nth_less unat_less_iff u)
  show ne: "docids n \<noteq> []" if "0 < n" using that by (simp add: docids_def unat_less_iff)
  show "last (docids n) + 1 = n" if "0 < n"
  proof -
    have n: "0 < unat n" using that by (simp add: unat_less_iff)
    then have "last (docids n) = word_of_nat (unat n - 1)" by (simp add: docids_def last_map)
    then have "unat (last (docids n) + 1) = unat n" using n u [of "unat n - 1"] u32_bound [of n] by (simp add: unat_word_ariths)
    then show ?thesis by (simp add: word_unat_eq_iff)
  qed
qed


section \<open>Properties\<close>

text \<open>C4: A new, empty hash index on a column of the current segment is filled from the stored rows.
  Then the filling ends without a fault and leaves the files alone, and a query of the column
  answers exactly the documents that are not deleted and whose stored value has the key of the
  queried one, newest first; a stored value of another type counts as null.\<close>

theorem index_build_finds_live_documents:
  assumes rep: "seg_rep {name_text name} sg (\<lambda>c k. [])" and col: "holds_column r name n val sg"
    and rows: "0 < n" "segment_get_rowcount sg = n"
    and vals: "\<forall>d < n. \<forall>v. val d = Some v \<longrightarrow> hashable fmt_f fmt_lf (indexed raw dt name v)"
    and tab: "segment_at tb sid = Some sg" "sid = tm_segment_current (tb_table_meta tb)" "publishable tb i name"
    and data: "column_of data = name_text name" "hashable fmt_f fmt_lf data"
  shows "\<exists>tb' sg' a. build_current fmt_f fmt_lf raw r w ev HI_KEY_ALG_HASH dt name i sid (docids n) fs tb = Ret (tb', fs) \<and>
    segment_at tb' sid = Some sg' \<and>
    (segment_index_equal_query fmt_f fmt_lf sg' data HI_KEY_ALG_HASH :: 's::{zero,plus} rowid_list option option) = Some a \<and>
    answers a (rev (filter (\<lambda>d. unat d \<in> live sg \<and> (\<exists>v. val d = Some v \<and>
      hash_key fmt_f fmt_lf (indexed raw dt name v) = hash_key fmt_f fmt_lf data)) (docids n)))"
proof -
  have "seg_rep {name_text name} sg (\<lambda>c. docs_with (hash_key fmt_f fmt_lf) (in_column c []))" using rep by (simp add: in_column_def)
  from build_docs_loads [OF this col, of "docids n" raw dt w ev fs]
  obtain sg' where sg': "build_docs fmt_f fmt_lf raw r w ev HI_KEY_ALG_HASH dt name (docids n) fs sg = Ret (sg', fs)"
    "seg_rep {name_text name} sg' (\<lambda>c. docs_with (hash_key fmt_f fmt_lf) (in_column c (to_index raw dt name (live sg) val (docids n))))"
    using vals docids_facts(1,2) [of n] by auto
  obtain tb' where tb': "build_current fmt_f fmt_lf raw r w ev HI_KEY_ALG_HASH dt name i sid (docids n) fs tb = Ret (tb', fs)"
    "segment_at tb' sid = Some (reset_compress sg')"
    using build_current_is_build_docs [OF sg'(1) tab(1,3,2) docids_facts(3) [OF rows(1)]]
      docids_facts(4) [OF rows(1)] rows(2) by auto
  obtain f where f: "segment_get_index_instance sg' (name_text name) HI_KEY_ALG_HASH = Some (Some f)"
    "field_rep (Some f) (docs_with (hash_key fmt_f fmt_lf) (to_index raw dt name (live sg) val (docids n)))"
    using sg'(2) by (auto simp: seg_rep_def in_column_to_index)
  have "segment_get_index_instance (reset_compress sg') = segment_get_index_instance sg'"
    by (simp add: fun_eq_iff segment_get_index_instance_def reset_compress_def Let_def)
  then have "(segment_index_equal_query fmt_f fmt_lf (reset_compress sg') data HI_KEY_ALG_HASH :: 's rowid_list option option) =
      index_field_equal_query fmt_f fmt_lf (Some f) data"
    using f(1) data(1) by (simp add: segment_index_equal_query_def column_of_def)
  then show ?thesis using tb' ixf.qry_ok [OF f(2) data(2), where ?'s = 's] unfolding docs_with_to_index by auto
qed

section \<open>An instance\<close>

definition tiny_value :: low_data where
  "tiny_value = \<lparr>ld_field_name = [97, 98], ld_type = HI_TYPE_TINY, ld_data = [5], ld_len = 1\<rparr>"

definition stored_segment :: "hash_index_manager \<Rightarrow> data_field_manager \<Rightarrow> segment_manager" where
  "stored_segment h df = counting_segment\<lparr>sg_data_field := df, sg_index_fields := \<lparr>sm_size = 1000, sm_data = [(''ab 2'', example_field h)]\<rparr>,
     sg_meta_data := (sg_meta_data counting_segment)\<lparr>md_row_count := 1\<rparr>\<rparr>"

definition stored_table :: "hash_index_manager \<Rightarrow> data_field_manager \<Rightarrow> table_manager" where
  "stored_table h df = sample_table\<lparr>tb_segments := [Some (stored_segment h df)], tb_segment_meta := [sg_meta_data (stored_segment h df)]\<rparr>"

lemma tiny_key:
  assumes "same_field tiny_value v"
  shows "hashable fmt_f fmt_lf (indexed raw HI_TYPE_TINY [97, 98] v)"
    "hash_key fmt_f fmt_lf (indexed raw HI_TYPE_TINY [97, 98] v) = hash_key fmt_f fmt_lf tiny_value"
proof -
  let ?v = "indexed raw HI_TYPE_TINY [97, 98] v"
  have v: "ld_type v = HI_TYPE_TINY" "ld_len v = 1" "take 1 (ld_data v) = [5]"
    using assms by (auto simp: same_field_def tiny_value_def ld_value_def)
  then have "stored_int ?v = Some 5" "ld_len ?v \<noteq> 0" "hashed_as_stored (ld_type ?v)"
    by (cases "ld_data v"; simp add: indexed_def stored_int_def get_le_def rd_range_def hashed_as_stored_def)+
  moreover have "stored_int tiny_value = Some 5" "ld_len tiny_value \<noteq> 0" "hashed_as_stored (ld_type tiny_value)"
    by (simp_all add: tiny_value_def stored_int_def get_le_def rd_range_def hashed_as_stored_def)
  moreover have five: "- (2 ^ 63) + 1 < (5 :: int)" by simp
  ultimately obtain h k where "hashable fmt_f fmt_lf ?v" "hash_key fmt_f fmt_lf ?v = Some h" "uint h = int_key 5"
    "hash_key fmt_f fmt_lf tiny_value = Some k" "uint k = int_key 5"
    using hashable_int [OF _ _ five, of ?v fmt_f fmt_lf] hashable_int [OF _ _ five, of tiny_value fmt_f fmt_lf] by metis
  then show "hashable fmt_f fmt_lf ?v" "hash_key fmt_f fmt_lf ?v = hash_key fmt_f fmt_lf tiny_value"
    by (simp_all add: word_uint_eq_iff)
qed

lemma tiny_hashable: "hashable fmt_f fmt_lf tiny_value"
  by (rule hashable_int [of tiny_value 5 fmt_f fmt_lf]) (simp_all add: tiny_value_def stored_int_def get_le_def rd_range_def hashed_as_stored_def)

lemma name_ab: "name_text [97, 98] = ''ab''"
  by code_simp

lemma stored_segment_rep:
  assumes "hi_rep h (\<lambda>_. [])" and "hi_hashmod h = 3"
  shows "seg_rep {''ab''} (stored_segment h df) (\<lambda>c k. [])"
proof -
  have ok: "sm_ok (sg_index_fields (stored_segment h df))" by (simp add: sm_ok_def stored_segment_def)
  have "string_map_get (sg_index_fields (stored_segment h df)) ''ab 2'' = Some (example_field h)"
    unfolding get_map [OF ok] by (simp add: sm_map_def stored_segment_def)
  moreover have "field_rep (Some (example_field h)) (\<lambda>_. [])" "field_cap (Some (example_field h)) = 3"
    using assms by (simp_all add: field_rep_def field_cap_def example_field_def flag_compressed_def get_le_def rd_range_def)
  ultimately show ?thesis using ok
    by (simp add: seg_rep_def segment_get_index_instance_def index_key_def strcpy_into_def stored_segment_def counting_segment_def)
qed


theorem index_build_finds_live_documents_witness:
  "\<exists>h fs df tb' sg' a. hash_index_init example_env (\<lambda>_. None) example_config = Ret (h, fs) \<and>
    data_field_insert 4096 (\<lambda>_. 0xCC) (Xfer (length (row_bytes row_example))) data_field_example row_example 0 = Some (0, df) \<and>
    build_current (\<lambda>_. []) (\<lambda>_. []) (0, []) (Xfer (2 ^ 32)) Eintr example_env HI_KEY_ALG_HASH HI_TYPE_TINY [97, 98] 0 0 (docids 1) fs
      (stored_table h df) = Ret (tb', fs) \<and>
    segment_at tb' 0 = Some sg' \<and>
    segment_index_equal_query (\<lambda>_. []) (\<lambda>_. []) sg' tiny_value HI_KEY_ALG_HASH = Some (a :: nat rowid_list option) \<and> answers a [0]"
proof -
  obtain h fs where h: "hash_index_init example_env (\<lambda>_. None) example_config = Ret (h, fs)" "hi_rep h (\<lambda>_. [])"
    "hi_hashmod h = hc_row_limit example_config" using hash_index_init_fresh [OF example_index_env] by blast
  obtain df where df: "data_field_insert 4096 (\<lambda>_. 0xCC) (Xfer (length (row_bytes row_example))) data_field_example row_example 0 = Some (0, df)"
    "data_field_ok df" "fi_limit (df_filter_data df) = 3" "fi_cells (df_filter_data df) 0 = Some (row_bytes row_example)"
    using data_field_insert_cells [OF data_field_example_fits(1) _ data_field_example_fits(3), of 0 "\<lambda>_. 0xCC"] data_field_example_fits(2) by auto
  have "row_ok row_example" using data_field_example_fits(3) by (simp add: row_fits_def)
  with data_field_reads_row(2) [OF df(2), of 0 row_example "[97, 98]"] df(3,4)
  obtain v where v: "data_field_query_col (Xfer (2 ^ 32)) df [97, 98] 0 = Some (Some v)" "same_field tiny_value v"
    by (auto simp: row_example_def tiny_value_def option_rel_Some1)
  let ?sg = "stored_segment h df" and ?tb = "stored_table h df"
  have live: "live ?sg = live counting_segment" "0 \<in> live ?sg"
    using counting_segment_ok by (auto simp: live_def stored_segment_def counting_segment_def bm_marks_def bm_bit_def bit_iff_odd)
  have one: "d < 1 \<longleftrightarrow> d = 0" for d :: u32 by (simp add: word_less_1)
  have col: "holds_column (Xfer (2 ^ 32)) [97, 98] 1 (\<lambda>_. Some v) ?sg"
    using v(1) counting_segment_ok
    by (simp add: holds_column_def stored_segment_def counting_segment_def counts_ok_def segment_data_query_col_def one)
  have at: "segment_at ?tb 0 = Some ?sg" "0 = tm_segment_current (tb_table_meta ?tb)" "publishable ?tb 0 [97, 98]"
    by (simp_all add: segment_at_def stored_table_def rd_def sample_table_def publishable_def publish_def string_map_get_def bsearch.simps)
  have rep: "seg_rep {name_text [97, 98]} ?sg (\<lambda>c k. [])" using stored_segment_rep [OF h(2)] h(3) by (simp add: name_ab example_config_def)
  have rc: "segment_get_rowcount ?sg = 1" by (simp add: segment_get_rowcount_def stored_segment_def)
  have vals: "\<forall>d < 1. \<forall>x. (\<lambda>_ :: u32. Some v) d = Some x \<longrightarrow> hashable (\<lambda>_. []) (\<lambda>_. []) (indexed (0, []) HI_TYPE_TINY [97, 98] x)"
    using tiny_key(1) [OF v(2)] by simp
  have name: "column_of tiny_value = name_text [97, 98]" by (simp add: column_of_def tiny_value_def)
  have "docids 1 = [0]" by (simp add: docids_def)
  then have ans: "rev (filter (\<lambda>d. unat d \<in> live ?sg \<and> (\<exists>x. Some v = Some x \<and> hash_key (\<lambda>_. []) (\<lambda>_. []) (indexed (0, []) HI_TYPE_TINY [97, 98] x) =
      hash_key (\<lambda>_. []) (\<lambda>_. []) tiny_value)) (docids 1)) = [0]" using live(2) tiny_key(2) [OF v(2)] by simp
  show ?thesis
    using index_build_finds_live_documents [OF rep col _ rc vals at name tiny_hashable, of Eintr example_env fs, where ?'s = nat, unfolded ans]
      h(1) df(1) by auto
qed

end
