(* ===== verification/Data_Buffer.thy ===== *)
theory Data_Buffer
  imports Mile_Prelude
begin

text \<open>
  \<^verbatim>\<open>protocol/databuffer.c\<close>: the buffer that packets are written to and read from, integers in network
  byte order.  Positions and sizes are 32-bit and wrap; the requested room is a 64-bit \<^verbatim>\<open>size_t\<close>, cut
  to 32 bits when it is stored.  \<open>malloc\<close> gives a region with any contents, or \<^term>\<open>None\<close> if there is
  no memory; \<open>room\<close> tells whether the memory pool can give a number of bytes.  A request whose result
  is then used through a NULL pointer, like every access outside the region, is \<^term>\<open>None\<close>.
\<close>

section \<open>Buffer and storage\<close>

record data_buffer =
  bf_data_len :: u32
  bf_data :: "u8 list option"
  bf_wpos :: u32
  bf_rpos :: u32
  bf_size :: u32
  bf_array_border :: u8

definition init_data_buffer :: data_buffer where
  "init_data_buffer = \<lparr>bf_data_len = 0, bf_data = None, bf_wpos = 0, bf_rpos = 0, bf_size = 0, bf_array_border = 0\<rparr>"

definition clear_data_buffer :: "data_buffer \<Rightarrow> data_buffer" where
  "clear_data_buffer buf = \<lparr>bf_data_len = 0, bf_data = None, bf_wpos = 0, bf_rpos = 0, bf_size = 0, bf_array_border = 0\<rparr>"

definition databuf_resize :: "(nat \<Rightarrow> u8 list option) \<Rightarrow> data_buffer \<Rightarrow> u64 \<Rightarrow> data_buffer option" where
  "databuf_resize malloc buf n =
     (if ucast (bf_size buf) \<ge> n then Some buf
      else case bf_data buf of
        None \<Rightarrow> Some (buf\<lparr>bf_data := malloc (unat n), bf_size := ucast n\<rparr>)
      | Some old \<Rightarrow> do {
          new \<leftarrow> malloc (unat n);
          bytes \<leftarrow> rd_range old 0 (unat (bf_size buf));
          m \<leftarrow> wr_range new 0 bytes;
          Some (buf\<lparr>bf_data := Some m, bf_size := ucast n\<rparr>)
        })"

definition databuf_reserve :: "(nat \<Rightarrow> u8 list option) \<Rightarrow> data_buffer \<Rightarrow> u64 \<Rightarrow> data_buffer option" where
  "databuf_reserve malloc buf n =
     (if ucast (bf_size buf) \<ge> n then Some buf
      else databuf_resize malloc buf (if n < 1024 div 2 then 1024 else 2 * n))"

definition make_write_room :: "(nat \<Rightarrow> u8 list option) \<Rightarrow> data_buffer \<Rightarrow> u64 \<Rightarrow> data_buffer option" where
  "make_write_room malloc buf n =
     (if ucast (bf_wpos buf) + n > ucast (bf_size buf) then databuf_reserve malloc buf (ucast (bf_wpos buf) + n) else Some buf)"

section \<open>Network byte order\<close>

text \<open>The writes put the low byte last; the reads shift the bytes in from the first one on.\<close>

definition be_bytes :: "nat \<Rightarrow> 'a::len word \<Rightarrow> u8 list" where
  "be_bytes n w = map (\<lambda>i. ucast (drop_bit (8 * (n - 1 - i)) w)) [0..<n]"

definition be_word :: "u8 list \<Rightarrow> 'a::len word" where
  "be_word bs = foldl (\<lambda>n b. push_bit 8 n OR ucast b) 0 bs"

text \<open>The conversions store the bytes into an integer of a little-endian machine.\<close>

definition convert_int16 :: "u16 \<Rightarrow> u16" where "convert_int16 n = le_word (be_bytes 2 n)"

definition convert_int32 :: "u32 \<Rightarrow> u32" where "convert_int32 n = le_word (be_bytes 4 n)"

definition convert_int64 :: "u64 \<Rightarrow> u64" where "convert_int64 n = le_word (be_bytes 8 n)"

section \<open>Reading\<close>

text \<open>All reads share the test for the end of the data, with its 32-bit sum.\<close>

definition read_at :: "data_buffer \<Rightarrow> u32 \<Rightarrow> u32 \<Rightarrow> (u8 list option \<times> data_buffer) option" where
  "read_at buf pos len =
     (if pos + len > bf_data_len buf then Some (None, buf\<lparr>bf_array_border := 1\<rparr>)
      else do {
        m \<leftarrow> bf_data buf;
        bs \<leftarrow> rd_range m (unat pos) (unat len);
        Some (Some bs, buf)
      })"

definition read_pos_int :: "u32 \<Rightarrow> data_buffer \<Rightarrow> u32 \<Rightarrow> ('a::len word \<times> data_buffer) option" where
  "read_pos_int len buf pos = do {
     (bs, buf') \<leftarrow> read_at buf pos len;
     Some (case bs of None \<Rightarrow> 0 | Some bs \<Rightarrow> be_word bs, buf')
   }"

definition read_int :: "u32 \<Rightarrow> data_buffer \<Rightarrow> ('a::len word \<times> data_buffer) option" where
  "read_int len buf = do {
     (bs, buf') \<leftarrow> read_at buf (bf_rpos buf) len;
     Some (case bs of None \<Rightarrow> (0, buf') | Some bs \<Rightarrow> (be_word bs, buf'\<lparr>bf_rpos := bf_rpos buf' + len\<rparr>))
   }"

definition read_int8 :: "data_buffer \<Rightarrow> (u8 \<times> data_buffer) option" where "read_int8 = read_int 1"

definition read_int16 :: "data_buffer \<Rightarrow> (u16 \<times> data_buffer) option" where "read_int16 = read_int 2"

definition read_int32 :: "data_buffer \<Rightarrow> (u32 \<times> data_buffer) option" where "read_int32 = read_int 4"

definition read_int64 :: "data_buffer \<Rightarrow> (u64 \<times> data_buffer) option" where "read_int64 = read_int 8"

definition read_pos_int8 :: "data_buffer \<Rightarrow> u32 \<Rightarrow> (u8 \<times> data_buffer) option" where "read_pos_int8 = read_pos_int 1"

definition read_pos_int16 :: "data_buffer \<Rightarrow> u32 \<Rightarrow> (u16 \<times> data_buffer) option" where "read_pos_int16 = read_pos_int 2"

definition read_pos_int32 :: "data_buffer \<Rightarrow> u32 \<Rightarrow> (u32 \<times> data_buffer) option" where "read_pos_int32 = read_pos_int 4"

definition read_pos_int64 :: "data_buffer \<Rightarrow> u32 \<Rightarrow> (u64 \<times> data_buffer) option" where "read_pos_int64 = read_pos_int 8"

text \<open>The bytes copied to the caller, or \<^term>\<open>None\<close> if nothing is copied.\<close>

definition read_bytes :: "data_buffer \<Rightarrow> u32 \<Rightarrow> (u8 list option \<times> data_buffer) option" where
  "read_bytes buf len = do {
     (bs, buf') \<leftarrow> read_at buf (bf_rpos buf) len;
     Some (bs, if bs = None then buf' else buf'\<lparr>bf_rpos := bf_rpos buf' + len\<rparr>)
   }"

text \<open>The length is a signed 32-bit integer: the sum with the position is taken unsigned, \<^verbatim>\<open>len + 1\<close>
  overflows for the largest one, and a negative one becomes a \<^verbatim>\<open>size_t\<close> of at least \<open>2 ^ 63\<close> bytes,
  which no region has.\<close>

definition read_cstring :: "(nat \<Rightarrow> bool) \<Rightarrow> data_buffer \<Rightarrow> (u8 list option \<times> data_buffer) option" where
  "read_cstring room buf =
     (if bf_rpos buf + 4 > bf_data_len buf then Some (None, buf\<lparr>bf_array_border := 1\<rparr>)
      else do {
        (len, buf1) \<leftarrow> read_int32 buf;
        if bf_rpos buf1 + len > bf_data_len buf1 then Some (None, buf1\<lparr>bf_array_border := 1\<rparr>)
        else if sint len < 0 \<or> sint len = 2147483647 \<or> \<not> room (unat len + 1) then None
        else do {
          m \<leftarrow> bf_data buf1;
          str \<leftarrow> rd_range m (unat (bf_rpos buf1)) (unat len);
          Some (Some str, buf1\<lparr>bf_rpos := bf_rpos buf1 + len\<rparr>)
        }
      })"

section \<open>Writing\<close>

definition write_bytes :: "(nat \<Rightarrow> u8 list option) \<Rightarrow> u8 list \<Rightarrow> u32 \<Rightarrow> data_buffer \<Rightarrow> data_buffer option" where
  "write_bytes malloc data len buf = do {
     buf1 \<leftarrow> make_write_room malloc buf (ucast len);
     bs \<leftarrow> rd_range data 0 (unat len);
     m \<leftarrow> bf_data buf1;
     m' \<leftarrow> wr_range m (unat (bf_wpos buf1)) bs;
     Some (buf1\<lparr>bf_data := Some m', bf_wpos := bf_wpos buf1 + len, bf_data_len := bf_data_len buf1 + len\<rparr>)
   }"

definition write_int8 :: "(nat \<Rightarrow> u8 list option) \<Rightarrow> u8 \<Rightarrow> data_buffer \<Rightarrow> data_buffer option" where
  "write_int8 malloc n = write_bytes malloc (be_bytes 1 n) 1"

definition write_int16 :: "(nat \<Rightarrow> u8 list option) \<Rightarrow> u16 \<Rightarrow> data_buffer \<Rightarrow> data_buffer option" where
  "write_int16 malloc n = write_bytes malloc (be_bytes 2 n) 2"

definition write_int32 :: "(nat \<Rightarrow> u8 list option) \<Rightarrow> u32 \<Rightarrow> data_buffer \<Rightarrow> data_buffer option" where
  "write_int32 malloc n = write_bytes malloc (be_bytes 4 n) 4"

definition write_int64 :: "(nat \<Rightarrow> u8 list option) \<Rightarrow> u64 \<Rightarrow> data_buffer \<Rightarrow> data_buffer option" where
  "write_int64 malloc n = write_bytes malloc (be_bytes 8 n) 8"

definition fill_at :: "u8 list \<Rightarrow> data_buffer \<Rightarrow> u32 \<Rightarrow> u32 \<Rightarrow> data_buffer option" where
  "fill_at bs buf fpos len =
     (if fpos + len > bf_data_len buf then Some (buf\<lparr>bf_array_border := 1\<rparr>)
      else do { m \<leftarrow> bf_data buf; m' \<leftarrow> wr_range m (unat fpos) bs; Some (buf\<lparr>bf_data := Some m'\<rparr>) })"

definition fill_int8 :: "u8 \<Rightarrow> data_buffer \<Rightarrow> u32 \<Rightarrow> data_buffer option" where
  "fill_int8 n buf fpos = fill_at (be_bytes 1 n) buf fpos 1"

definition fill_int32 :: "u32 \<Rightarrow> data_buffer \<Rightarrow> u32 \<Rightarrow> data_buffer option" where
  "fill_int32 n buf fpos = fill_at (be_bytes 4 n) buf fpos 4"

section \<open>Byte order\<close>

lemma length_be_bytes [simp]: "length (be_bytes n w) = n"
  by (simp add: be_bytes_def)

lemma be_bytes_rev: "be_bytes n w = rev (le_bytes n w)"
  by (rule nth_equalityI) (simp_all add: be_bytes_def le_bytes_def rev_nth)

lemma be_word_rev: "be_word bs = le_word (rev bs)"
  by (induction bs rule: rev_induct) (simp_all add: be_word_def or.commute)

lemma be_word_be_bytes [simp]: "LENGTH('a) = 8 * n \<Longrightarrow> be_word (be_bytes n (w :: 'a::len word)) = w"
  by (simp add: be_word_rev be_bytes_rev)


section \<open>What a buffer holds\<close>

text \<open>\<open>bytes\<close> are the bytes written so far.\<close>

definition buf_ok :: "data_buffer \<Rightarrow> u8 list \<Rightarrow> bool" where
  "buf_ok buf bytes \<longleftrightarrow> bf_wpos buf = bf_data_len buf \<and> unat (bf_data_len buf) = length bytes \<and>
     (case bf_data buf of None \<Rightarrow> bf_size buf = 0 \<and> bytes = []
      | Some m \<Rightarrow> length m = unat (bf_size buf) \<and> length bytes \<le> length m \<and> take (length bytes) m = bytes)"

definition malloc_ok :: "(nat \<Rightarrow> u8 list option) \<Rightarrow> bool" where
  "malloc_ok malloc \<longleftrightarrow> (\<forall>n. 0 < n \<and> n < 4294967296 \<longrightarrow> map_option length (malloc n) = Some n)"

lemma unat_ucast_u32_u64 [simp]: "unat (ucast (x :: u32) :: u64) = unat x"
proof -
  have "unat x < 2 ^ 64" using u32_bound [of x] by (rule order.strict_trans) simp
  then have "take_bit 64 (unat x) = unat x" by (rule take_bit_nat_eq_self)
  then show ?thesis by (simp add: unsigned_ucast_eq)
qed

lemma databuf_resize_ok:
  assumes buf: "buf_ok buf bytes" and "malloc_ok malloc" and n: "unat n < 4294967296" "unat (bf_size buf) < unat n"
  shows "\<exists>m. databuf_resize malloc buf n = Some (buf\<lparr>bf_data := Some m, bf_size := ucast n\<rparr>) \<and> length m = unat n \<and>
    length bytes \<le> length m \<and> take (length bytes) m = bytes"
proof -
  obtain new where new: "malloc (unat n) = Some new" "length new = unat n"
    using assms(2) [unfolded malloc_ok_def, rule_format, of "unat n"] n by auto
  have grow: "\<not> n \<le> ucast (bf_size buf)" using n(2) by (simp add: unat_le_iff)
  show ?thesis
  proof (cases "bf_data buf")
    case None
    then show ?thesis using buf new grow by (intro exI [of _ new]) (simp add: databuf_resize_def buf_ok_def)
  next
    case (Some old)
    then have old: "length old = unat (bf_size buf)" "length bytes \<le> length old" "take (length bytes) old = bytes"
      using buf by (simp_all add: buf_ok_def)
    have "take (length bytes) (old @ drop (length old) new) = bytes" using old by simp
    then show ?thesis using Some new grow old n(2)
      by (intro exI [of _ "old @ drop (length old) new"]) (simp add: databuf_resize_def rd_range_def wr_range_def)
  qed
qed

lemma make_write_room_ok:
  assumes buf: "buf_ok buf bytes" and mal: "malloc_ok malloc" and n: "length bytes + unat n < 2147483648" "0 < unat n"
  shows "\<exists>m k. make_write_room malloc buf n = Some (buf\<lparr>bf_data := Some m, bf_size := k\<rparr>) \<and> length m = unat k \<and>
    length bytes + unat n \<le> length m \<and> take (length bytes) m = bytes"
proof -
  have w: "unat (bf_wpos buf) = length bytes" using buf by (simp add: buf_ok_def)
  have sum: "unat (ucast (bf_wpos buf) + n) = length bytes + unat n" using n(1) w by (simp add: unat_word_ariths)
  show ?thesis
  proof (cases "length bytes + unat n \<le> unat (bf_size buf)")
    case True
    then obtain m where m: "bf_data buf = Some m" using buf n(2) by (cases "bf_data buf") (auto simp: buf_ok_def)
    then have "buf = buf\<lparr>bf_data := Some m, bf_size := bf_size buf\<rparr>" by simp
    moreover have "make_write_room malloc buf n = Some buf" using True sum by (simp add: make_write_room_def unat_less_iff)
    ultimately show ?thesis using True m buf by (intro exI [of _ m] exI [of _ "bf_size buf"]) (simp add: buf_ok_def)
  next
    case False
    define s k where "s = ucast (bf_wpos buf) + n" and "k = (if s < 512 then 1024 else 2 * s)"
    have "unat (2 * s) = 2 * unat s" using n(1) sum by (simp add: s_def [symmetric] unat_word_ariths)
    then have k: "length bytes + unat n \<le> unat k" "unat k < 4294967296"
      using n(1) sum by (auto simp: s_def [symmetric] k_def unat_less_iff)
    have "unat (ucast k :: u32) = unat k" using k(2) by (simp add: unsigned_ucast_eq take_bit_nat_eq_self)
    moreover have "make_write_room malloc buf n = databuf_resize malloc buf k"
      using False sum by (simp add: make_write_room_def databuf_reserve_def k_def s_def unat_less_iff unat_le_iff)
    moreover obtain m where "databuf_resize malloc buf k = Some (buf\<lparr>bf_data := Some m, bf_size := ucast k\<rparr>)" "length m = unat k"
      "take (length bytes) m = bytes" using databuf_resize_ok [OF buf mal k(2)] False k(1) by auto
    ultimately show ?thesis using k(1) by (intro exI [of _ m] exI [of _ "ucast k"]) simp
  qed
qed

lemma write_bytes_ok:
  assumes buf: "buf_ok buf bytes" and mal: "malloc_ok malloc" and len: "unat len = length data" "data \<noteq> []"
    and fits: "length bytes + length data < 2147483648"
  shows "\<exists>buf'. write_bytes malloc data len buf = Some buf' \<and> buf_ok buf' (bytes @ data) \<and> bf_rpos buf' = bf_rpos buf \<and>
    bf_array_border buf' = bf_array_border buf"
proof -
  have w: "unat (bf_wpos buf) = length bytes" "bf_wpos buf = bf_data_len buf" using buf by (simp_all add: buf_ok_def)
  obtain m k where m: "make_write_room malloc buf (ucast len) = Some (buf\<lparr>bf_data := Some m, bf_size := k\<rparr>)"
    "length m = unat k" "length bytes + length data \<le> length m" "take (length bytes) m = bytes"
    using make_write_room_ok [OF buf mal, of "ucast len"] len fits by auto
  have "unat (bf_data_len buf + len) = length bytes + length data" using w len(1) fits by (simp add: unat_word_ariths)
  then show ?thesis using m w len(1)
    by (simp add: write_bytes_def rd_range_def wr_range_def buf_ok_def)
qed

lemma read_at_ok:
  assumes "buf_ok buf bytes" and "unat pos + unat len \<le> length bytes" and "0 < unat len"
  shows "read_at buf pos len = Some (Some (take (unat len) (drop (unat pos) bytes)), buf)"
proof -
  have len: "unat (bf_data_len buf) = length bytes" using assms(1) by (simp add: buf_ok_def)
  obtain m where m: "bf_data buf = Some m" "length bytes \<le> length m" "take (length bytes) m = bytes"
    using assms by (cases "bf_data buf") (auto simp: buf_ok_def)
  have "unat (pos + len) = unat pos + unat len"
    using assms(2) len u32_bound [of "bf_data_len buf"] by (simp add: unat_word_ariths)
  then have "\<not> bf_data_len buf < pos + len" using assms(2) len by (simp add: unat_less_iff)
  moreover have "take (unat len) (drop (unat pos) (take (length bytes) m)) = take (unat len) (drop (unat pos) m)"
    using assms(2) by (simp add: drop_take min_def)
  ultimately show ?thesis using m assms(2) by (simp add: read_at_def rd_range_def)
qed


section \<open>Sequences of values\<close>

datatype item = I8 u8 | I16 u16 | I32 u32 | I64 u64 | Raw "u8 list"

fun item_bytes :: "item \<Rightarrow> u8 list" where
  "item_bytes (I8 n) = be_bytes 1 n"
| "item_bytes (I16 n) = be_bytes 2 n"
| "item_bytes (I32 n) = be_bytes 4 n"
| "item_bytes (I64 n) = be_bytes 8 n"
| "item_bytes (Raw bs) = bs"

fun write_item :: "(nat \<Rightarrow> u8 list option) \<Rightarrow> item \<Rightarrow> data_buffer \<Rightarrow> data_buffer option" where
  "write_item malloc (I8 n) buf = write_int8 malloc n buf"
| "write_item malloc (I16 n) buf = write_int16 malloc n buf"
| "write_item malloc (I32 n) buf = write_int32 malloc n buf"
| "write_item malloc (I64 n) buf = write_int64 malloc n buf"
| "write_item malloc (Raw bs) buf = write_bytes malloc bs (word_of_nat (length bs)) buf"

text \<open>Reading a value of the kind, and for bytes of the length, of the given one.\<close>

fun read_item :: "item \<Rightarrow> data_buffer \<Rightarrow> (item \<times> data_buffer) option" where
  "read_item (I8 _) buf = map_option (apfst I8) (read_int8 buf)"
| "read_item (I16 _) buf = map_option (apfst I16) (read_int16 buf)"
| "read_item (I32 _) buf = map_option (apfst I32) (read_int32 buf)"
| "read_item (I64 _) buf = map_option (apfst I64) (read_int64 buf)"
| "read_item (Raw bs) buf = map_option (apfst (\<lambda>r. Raw (case r of None \<Rightarrow> [] | Some r \<Rightarrow> r))) (read_bytes buf (word_of_nat (length bs)))"

fun write_items :: "(nat \<Rightarrow> u8 list option) \<Rightarrow> item list \<Rightarrow> data_buffer \<Rightarrow> data_buffer option" where
  "write_items malloc [] buf = Some buf"
| "write_items malloc (x # xs) buf = do { buf' \<leftarrow> write_item malloc x buf; write_items malloc xs buf' }"

fun read_items :: "item list \<Rightarrow> data_buffer \<Rightarrow> (item list \<times> data_buffer) option" where
  "read_items [] buf = Some ([], buf)"
| "read_items (x # xs) buf = do {
     (y, buf') \<leftarrow> read_item x buf;
     (ys, buf'') \<leftarrow> read_items xs buf';
     Some (y # ys, buf'')
   }"

definition items_bytes :: "item list \<Rightarrow> u8 list" where
  "items_bytes xs = concat (map item_bytes xs)"

lemma items_bytes_simps [simp]: "items_bytes [] = []" "items_bytes (x # xs) = item_bytes x @ items_bytes xs"
  by (simp_all add: items_bytes_def)

lemma write_item_ok:
  assumes "buf_ok buf bytes" and "malloc_ok malloc" and "item_bytes x \<noteq> []" and "length bytes + length (item_bytes x) < 2147483648"
  shows "\<exists>buf'. write_item malloc x buf = Some buf' \<and> buf_ok buf' (bytes @ item_bytes x) \<and> bf_rpos buf' = bf_rpos buf \<and>
    bf_array_border buf' = bf_array_border buf"
proof (cases x)
  case (Raw bs)
  then have "unat (word_of_nat (length bs) :: u32) = length bs" using assms(4) by (intro unat_word_of_nat_u32) simp
  with Raw assms write_bytes_ok [OF assms(1,2)] show ?thesis by simp
qed (use assms write_bytes_ok [OF assms(1,2)] in
  \<open>simp_all add: write_int8_def write_int16_def write_int32_def write_int64_def\<close>)

lemma write_items_ok:
  assumes "buf_ok buf bytes" and "malloc_ok malloc" and "list_all (\<lambda>x. item_bytes x \<noteq> []) xs"
    and "length bytes + length (items_bytes xs) < 2147483648"
  shows "\<exists>buf'. write_items malloc xs buf = Some buf' \<and> buf_ok buf' (bytes @ items_bytes xs) \<and> bf_rpos buf' = bf_rpos buf \<and>
    bf_array_border buf' = bf_array_border buf"
  using assms
proof (induction xs arbitrary: buf bytes)
  case (Cons x xs)
  obtain b where b: "write_item malloc x buf = Some b" "buf_ok b (bytes @ item_bytes x)" "bf_rpos b = bf_rpos buf"
    "bf_array_border b = bf_array_border buf" using write_item_ok [OF Cons.prems(1,2), of x] Cons.prems(3,4) by auto
  show ?case using Cons.IH [OF b(2) Cons.prems(2)] Cons.prems(3,4) b by auto
qed simp

lemma read_item_ok:
  assumes buf: "buf_ok buf (pre @ item_bytes x @ post)" and pos: "unat (bf_rpos buf) = length pre" and x: "item_bytes x \<noteq> []"
  shows "\<exists>buf'. read_item x buf = Some (x, buf') \<and> buf_ok buf' (pre @ item_bytes x @ post) \<and>
    unat (bf_rpos buf') = length (pre @ item_bytes x) \<and> bf_array_border buf' = bf_array_border buf"
proof -
  have lim: "length pre + length (item_bytes x) < 4294967296"
    using buf u32_bound [of "bf_data_len buf"] by (auto simp: buf_ok_def)
  have read: "read_at buf (bf_rpos buf) n = Some (Some (item_bytes x), buf)"
    "unat (bf_rpos buf + n) = length pre + length (item_bytes x)" if "unat n = length (item_bytes x)" for n
    using that read_at_ok [OF buf, of "bf_rpos buf" n] pos x lim by (simp_all add: unat_word_ariths)
  have keep: "buf_ok (buf\<lparr>bf_rpos := q\<rparr>) bs = buf_ok buf bs" for q bs by (cases "bf_data buf") (simp_all add: buf_ok_def)
  show ?thesis
  proof (cases x)
    case (Raw bs)
    then have "unat (word_of_nat (length bs) :: u32) = length bs" using lim by (intro unat_word_of_nat_u32) simp
    with Raw read buf keep show ?thesis by (simp add: read_bytes_def)
  qed (use read buf keep in \<open>simp_all add: read_int8_def read_int16_def read_int32_def read_int64_def read_int_def\<close>)
qed

lemma read_items_ok:
  assumes "buf_ok buf (pre @ items_bytes xs)" and "unat (bf_rpos buf) = length pre" and "list_all (\<lambda>x. item_bytes x \<noteq> []) xs"
  shows "\<exists>buf'. read_items xs buf = Some (xs, buf') \<and> bf_rpos buf' = bf_data_len buf' \<and> bf_array_border buf' = bf_array_border buf"
  using assms
proof (induction xs arbitrary: buf pre)
  case Nil
  then show ?case by (simp add: buf_ok_def word_unat_eq_iff)
next
  case (Cons x xs)
  obtain b where b: "read_item x buf = Some (x, b)" "buf_ok b (pre @ item_bytes x @ items_bytes xs)"
    "unat (bf_rpos b) = length (pre @ item_bytes x)" "bf_array_border b = bf_array_border buf"
    using read_item_ok [of buf pre x "items_bytes xs"] Cons.prems by auto
  show ?case using Cons.IH [of b "pre @ item_bytes x"] Cons.prems(3) b by auto
qed


lemma convert_int32_involutive: "convert_int32 (convert_int32 n) = n"
  using le_bytes_le_word [where ?'a = 32, of "rev (le_bytes 4 n)"] by (simp add: convert_int32_def be_bytes_rev)

section \<open>Properties\<close>

text \<open>C23: Any sequence of integers and non-empty byte strings, of less than 2 GB together, can be written to
  a new buffer, which grows as needed; reading values of the same kinds and lengths then gives the
  sequence back, ends at the end of the data and raises no range error.\<close>

theorem data_buffer_roundtrip:
  assumes "malloc_ok malloc" and "list_all (\<lambda>x. item_bytes x \<noteq> []) xs" and "length (items_bytes xs) < 2147483648"
  shows "\<exists>buf buf'. write_items malloc xs init_data_buffer = Some buf \<and> read_items xs buf = Some (xs, buf') \<and>
    bf_rpos buf' = bf_data_len buf' \<and> bf_array_border buf' = 0"
proof -
  have "buf_ok init_data_buffer []" by (simp add: buf_ok_def init_data_buffer_def)
  then obtain buf where buf: "write_items malloc xs init_data_buffer = Some buf" "buf_ok buf ([] @ items_bytes xs)"
    "bf_rpos buf = 0" "bf_array_border buf = 0"
    using write_items_ok [OF _ assms(1,2), of init_data_buffer "[]"] assms(3) by (auto simp: init_data_buffer_def)
  with read_items_ok [OF buf(2) _ assms(2)] show ?thesis by auto
qed

theorem data_buffer_roundtrip_witness:
  "\<exists>buf buf'. write_items (\<lambda>n. Some (replicate n 7)) [I16 258, Raw [1, 2, 3], I32 5] init_data_buffer = Some buf \<and>
     read_items [I16 258, Raw [1, 2, 3], I32 5] buf = Some ([I16 258, Raw [1, 2, 3], I32 5], buf') \<and>
     bf_rpos buf' = bf_data_len buf' \<and> bf_array_border buf' = 0"
  by (rule data_buffer_roundtrip) (simp_all add: malloc_ok_def be_bytes_def)

text \<open>C28: What reading a string does with the length it finds in a buffer of less than 2 GB: a string
  that ends inside the data is returned, a longer one is refused and marked as a range error, but
  a length whose sum with the position passes 32 bits is undefined: it gets past the test, and
  the copy runs with a negative length.  A packet that holds the length \<open>- 1\<close> is enough.\<close>

theorem read_cstring_length_wraps:
  assumes buf: "buf_ok buf bytes" "length bytes < 2147483648" and pos: "unat (bf_rpos buf) + 4 \<le> length bytes"
    and room: "\<forall>n. room n" and len: "len = (be_word (take 4 (drop (unat (bf_rpos buf)) bytes)) :: u32)" "p = unat (bf_rpos buf) + 4"
  shows "read_cstring room buf =
    (if 2 ^ 32 \<le> p + unat len then None
     else if length bytes < p + unat len then Some (None, buf\<lparr>bf_rpos := bf_rpos buf + 4, bf_array_border := 1\<rparr>)
     else Some (Some (take (unat len) (drop p bytes)), buf\<lparr>bf_rpos := bf_rpos buf + 4 + len\<rparr>))"
proof -
  have dl: "unat (bf_data_len buf) = length bytes" using buf(1) by (simp add: buf_ok_def)
  obtain m where m: "bf_data buf = Some m" "length bytes \<le> length m" "take (length bytes) m = bytes"
    using buf(1) pos by (cases "bf_data buf") (auto simp: buf_ok_def)
  have p: "unat (bf_rpos buf + 4) = p" using pos buf(2) len(2) by (simp add: unat_word_ariths)
  have r: "read_int32 buf = Some (len, buf\<lparr>bf_rpos := bf_rpos buf + 4\<rparr>)"
    using read_at_ok [OF buf(1), of "bf_rpos buf" 4] pos len(1) by (simp add: read_int32_def read_int_def)
  have first: "\<not> bf_data_len buf < bf_rpos buf + 4" using p pos dl len(2) by (simp add: unat_less_iff)
  have lt: "unat len < 4294967296" by simp
  consider (wraps) "4294967296 \<le> p + unat len" | (long) "length bytes < p + unat len" "p + unat len < 4294967296"
    | (inside) "p + unat len \<le> length bytes" by linarith
  then show ?thesis
  proof cases
    case wraps
    moreover have "p + unat len - 4294967296 < 4294967296" using lt pos len(2) buf(2) by linarith
    ultimately have "(p + unat len) mod 4294967296 = p + unat len - 4294967296" by (metis le_mod_geq mod_less)
    then have "unat (bf_rpos buf + 4 + len) = p + unat len - 4294967296"
      using p by (simp add: unat_word_ariths(1) [of "bf_rpos buf + 4"])
    then have "unat (bf_rpos buf + 4 + len) \<le> length bytes" using lt pos len(2) by linarith
    then have "\<not> bf_data_len buf < bf_rpos buf + 4 + len" using dl by (simp add: unat_less_iff)
    moreover have "sint len < 0" using wraps pos len(2) buf(2) by (intro sint_big_u32) linarith
    ultimately show ?thesis using wraps r first by (simp add: read_cstring_def)
  next
    case long
    then have "unat (bf_rpos buf + 4 + len) = p + unat len" using p by (simp add: unat_word_ariths(1) [of "bf_rpos buf + 4"])
    then have "bf_data_len buf < bf_rpos buf + 4 + len" using long(1) dl by (simp add: unat_less_iff)
    then show ?thesis using long r first by (simp add: read_cstring_def)
  next
    case inside
    then have "unat (bf_rpos buf + 4 + len) = p + unat len" using p buf(2) by (simp add: unat_word_ariths(1) [of "bf_rpos buf + 4"])
    then have "\<not> bf_data_len buf < bf_rpos buf + 4 + len" using inside dl by (simp add: unat_less_iff)
    moreover have small: "unat len < 2147483647" using inside buf(2) len(2) by linarith
    moreover have "sint len = int (unat len)" by (rule sint_small_u32) (use small in linarith)
    then have sl: "\<not> sint len < 0" "sint len \<noteq> 2147483647" using small by linarith+
    moreover have "take (unat len) (drop p m) = take (unat len) (drop p bytes)"
      using inside by (subst m(3) [symmetric]) (simp add: drop_take min_def)
    ultimately show ?thesis using inside r first m room p buf(2) sl by (simp add: read_cstring_def rd_range_def)
  qed
qed

theorem read_cstring_length_wraps_witness:
  "read_cstring (\<lambda>_. True) \<lparr>bf_data_len = 4, bf_data = Some [255, 255, 255, 255], bf_wpos = 4, bf_rpos = 0, bf_size = 4, bf_array_border = 0\<rparr> = None"
proof -
  let ?b = "\<lparr>bf_data_len = 4, bf_data = Some [255, 255, 255, 255], bf_wpos = 4, bf_rpos = 0, bf_size = 4, bf_array_border = 0\<rparr>"
  have "(be_word [255, 255, 255, 255] :: u32) = 4294967295" by (simp add: be_word_def)
  then show ?thesis using read_cstring_length_wraps [of ?b "[255, 255, 255, 255]" "\<lambda>_. True" 4294967295 4]
    by (simp add: buf_ok_def)
qed

end
