(* ===== verification/Spec2Isabelle.thy ===== *)
theory Spec2Isabelle
  imports File_Op Bitmark Data_Field Set_Results Dyhash_Props Dyhash_Open Filter_Compress_Props Table_Index_Props Data_Buffer
begin

text \<open>
  Verification of the document index engine of Mile, the C code under
  \<^verbatim>\<open>src/docserver/indexengine/src\<close>; file names below are relative to that directory.

  \<^bold>\<open>The program.\<close>  A document server keeps tables.  A table is an array of segments, one of which
  is being filled.  A segment holds whole rows, delete marks, and one index per indexed column and
  kind of index: a hash index finds the documents with a value, a filter index gives the value of a
  document, a growing hash index serves full-text columns.  A full segment is compressed: the hash
  and filter indexes are rewritten to smaller read-only forms and the plain ones are removed.  All
  data lives in mapped files, so a restart opens the files and a recovery cuts a segment back to the
  documents before a given number.  Answers are descending lists of document numbers, which the set
  operations combine segment by segment.

  \<^bold>\<open>The theories, from the bottom up.\<close>

  \<^item> \<open>Mile_Prelude\<close>, \<open>Raw_Mem\<close>, \<open>Probe\<close>: machine integers as words, checked memory, packed
    little-endian fields, and the probing loop of the hash tables.
  \<^item> \<open>File_Op\<close>, \<open>Region\<close>: \<^verbatim>\<open>common/file_op.c\<close> and the life of a mapped index file, over a parameter for
    the operating system (which calls succeed, how reads and writes are cut, the clock).
  \<^item> \<open>Bitmark\<close>: \<^verbatim>\<open>storage/docdb/bitmark.c\<close>, delete and null marks; contract \<open>doc_marks\<close>.
  \<^item> \<open>Low_Data\<close>, \<open>Row_Codec\<close>: values (\<^verbatim>\<open>common/def.h\<close>, \<^verbatim>\<open>common/def.cc\<close>) and packed rows
    (\<^verbatim>\<open>common/common_util.c\<close>).
  \<^item> \<open>Doc_Store\<close>, \<open>Storage\<close>, \<open>Vstorage\<close>, \<open>Filter_Index\<close>, \<open>Data_Field\<close>: columns of fixed and variable
    length, and the two users of them (\<^verbatim>\<open>storage.c\<close>, \<^verbatim>\<open>vstorage.c\<close>, \<^verbatim>\<open>filter_index.c\<close>, \<^verbatim>\<open>data_field.c\<close> of
    \<^verbatim>\<open>storage/docdb\<close>).  The contract \<open>doc_store\<close> is interpreted on all three kinds of columns.
  \<^item> \<open>Rowid_List\<close>, \<open>Set_Operator\<close>, \<open>Set_Laws\<close>, \<open>Set_Results\<close>: lists of document numbers as chains of
    blocks of 256 (\<^verbatim>\<open>rowid_list.c\<close>) and the operations on them (\<^verbatim>\<open>set_operator.c\<close>); contract
    \<open>set_operation\<close> for union, intersection and difference.
  \<^item> \<open>Crypt_Table\<close>, \<open>Hash\<close>, \<open>Doclist\<close>, \<open>Doc_Chain\<close>, \<open>Hash_Index\<close>, \<open>Hash_Laws\<close>, \<open>Posting\<close>, \<open>Hash_Results\<close>,
    \<open>Hash_Recover\<close>, \<open>Hash_Props\<close>: hash values (\<^verbatim>\<open>common/hash.c\<close>), chains of documents (\<^verbatim>\<open>doclist.c\<close>) and
    the hash index (\<^verbatim>\<open>hash_index.c\<close>).  The contract \<open>posting_index\<close> says that an index maps each key to
    its documents, newest first; it is interpreted on the hash index and again on the index field.
  \<^item> \<open>Dyhash_Index\<close>, \<open>Dyhash_Open\<close>, \<open>Dyhash_Props\<close>: the growing index (\<^verbatim>\<open>dynamic_hash_index.c\<close>).
  \<^item> \<open>Hash_Compress\<close>, \<open>Hash_Compress_Laws\<close>, \<open>Hash_Compress_Props\<close> and \<open>Filter_Compress\<close>,
    \<open>Filter_Compress_Laws\<close>, \<open>Filter_Compress_Props\<close>: the compressed forms (\<^verbatim>\<open>hash_memcompress.c\<close>,
    \<^verbatim>\<open>filtercompress.c\<close>).
  \<^item> \<open>String_Map\<close>: \<^verbatim>\<open>common/string_map.c\<close>; contract \<open>key_map\<close>.
  \<^item> \<open>Index_Field\<close>, \<open>Index_Field_Props\<close>: \<^verbatim>\<open>index_field.c\<close>, one index over one column with its dispatch
    on the kind and its compressed flag.
  \<^item> \<open>Segment\<close>, \<open>Segment_Props\<close>: \<^verbatim>\<open>segment.c\<close>.  \<open>Table\<close>, \<open>Table_Index\<close>, \<open>Table_Props\<close>,
    \<open>Table_Index_Props\<close>: \<^verbatim>\<open>table.c\<close>.
  \<^item> \<open>Data_Buffer\<close>: \<^verbatim>\<open>protocol/databuffer.c\<close>, the packet buffer.

  \<^bold>\<open>How the code is modelled.\<close>  A struct is a record with prefixed field names, an enum a datatype or
  a word, a C function a function of the same name that returns the changed structures.  Memory and
  mapped files are lists of bytes; an access outside them, a NULL dereference, a failed
  \<^verbatim>\<open>assert\<close>, a division by zero and a name that overruns its buffer give \<^term>\<open>None\<close> (or \<open>Trap\<close> where the
  operating system is involved, \<open>Blocked\<close> where a loop of system calls does not end in the given
  run of results).  So a theorem that an operation returns a value also shows that it stays inside
  its memory.  The file system is a map from names to contents.  Pointers that are shared are
  followed at each use: the meta data of a segment belongs to the table and is read and written
  through \<open>segment_at\<close> and \<open>store_segment\<close>.

  \<^bold>\<open>What is shown.\<close>  Over runs of operations: the counters of a table count the documents that are
  there, by a history kept from the calls and their results alone (and by how much they are off
  after refused documents); the indexes of a segment answer
  for every column exactly what was inserted, and an index that is built later over the stored rows
  finds exactly the documents that are there; recovery followed by replay loses nothing.  Across
  forms: a compressed index answers as the plain one, at once and after a restart, and the switch
  of an index field keeps all answers.  For data: rows, values, marks and packets read back as they
  were written; the set operations are the set operations on the numbers in the lists.  For loops:
  sorting, probing, chain walks and the opening of the growing index end.  Some theorems
  state how the code departs from its intention, for all inputs of the kind: a packet length that
  wraps, marks lost at a restart, an interrupted write that repeats a byte, a lost tail in the
  full-text operation, hash keys of negative 16-bit values out of order.

  \<^bold>\<open>Bounds and loops.\<close>  No fuel is used.  Loops over arrays are structural or have a measure; walks over
  chains in files, the binary search and the opening of the growing index are partial functions,
  and the theorems about them show that they return.  Sizes are those of the code: 32-bit document
  numbers, limits and file sizes, with the bounds under which sums do not wrap as hypotheses.  Sums
  of type \<^verbatim>\<open>int\<close> in counting marks and sorting are checked (\<open>add_int\<close>): past the range they are undefined.

  \<^bold>\<open>Parameters.\<close>  The operating system, the clock, the contents of fresh memory, the room in memory
  pools, the text that \<^verbatim>\<open>sprintf\<close> gives for floating-point values, and whether directories can be
  made are arguments of the definitions that use them.

  \<^bold>\<open>Not modelled.\<close>  Threads and locks: operations run one after the other, and atomic accesses are plain
  ones.  In \<^verbatim>\<open>table.c\<close>: the loading, replacing and unloading of segment directories, which are mostly renaming
  and copying of files.  \<^verbatim>\<open>db.c\<close> and \<^verbatim>\<open>binlog.c\<close>, which tie the tables to the binary log and to threads.  \<^verbatim>\<open>hashcompress.c\<close>, which
  the build leaves out.  The engine on leveldb, the execution of queries, the parsing of packets,
  logging, profiling, configuration, the tools and the Java merge server.
\<close>

end
